(* ===== verification/Prelude.thy ===== *)
theory Prelude
  imports Complex_Main "HOL-Library.AList" "HOL-Library.Char_ord" "HOL-Library.Sublist"
begin

text \<open>
  The prelude of the development: the collections its proofs draw on, generic facts about
  lists and association lists, the dynamically typed values of the Go code, and the two
  interfaces that several components share (an encoder with its decoder, and a matcher with
  its expander).

  A Go \<open>string\<close> or \<open>[]byte\<close> is a HOL \<open>string\<close>, one \<open>char\<close> per byte. A Go
  \<open>map[string]any\<close> is an association list; where the order in which Go walks a map could
  matter, the order of the list is one of the orders Go may choose.
\<close>

named_theorems go_str \<open>facts about the string functions of Go's library\<close>
named_theorems wf_rules \<open>preservation of the registries' invariant\<close>
named_theorems frame_rules \<open>fields an operation leaves alone\<close>

section \<open>Dynamically typed values\<close>

text \<open>
  The values behind an \<open>any\<close>: what \<open>encoding/json\<close> decodes into (\<open>nil\<close>, \<open>bool\<close>,
  \<open>float64\<close>, \<open>string\<close>, \<open>[]any\<close>, \<open>map[string]any\<close>) and the two further shapes the code
  stores in schemas and results it builds itself, \<open>int\<close> and \<open>[]string\<close>. A finite
  \<open>float64\<close> is the rational it denotes.
\<close>

datatype gval =
    GNil
  | GBool bool
  | GInt int
  | GFloat rat
  | GStr string
  | GStrs "string list"
  | GList "gval list"
  | GMap "(string \<times> gval) list"

definition gfield :: "gval \<Rightarrow> string \<Rightarrow> gval option" where
  "gfield v k = (case v of GMap m \<Rightarrow> map_of m k | _ \<Rightarrow> None)"

lemma gfield_simps [simp]:
  "gfield (GMap m) k = map_of m k"
  "gfield GNil k = None"
  "gfield (GBool b) k = None"
  "gfield (GInt i) k = None"
  "gfield (GFloat q) k = None"
  "gfield (GStr s) k = None"
  "gfield (GStrs ss) k = None"
  "gfield (GList vs) k = None"
  by (simp_all add: gfield_def)

section \<open>Lists and maps\<close>

lemma map_of_distinct_lookup:
  "distinct (map fst m) \<Longrightarrow> (k, v) \<in> set m \<Longrightarrow> map_of m k = Some v"
  by (rule map_of_is_SomeI)

lemma filter_out_None: "filter (\<lambda>x. x \<noteq> None) (map Some xs) = map Some xs"
  by (induction xs) auto

lemma takeWhile_append_stop:
  "\<forall>x\<in>set xs. P x \<Longrightarrow> \<not> P y \<Longrightarrow> takeWhile P (xs @ y # ys) = xs"
  by (induction xs) auto

lemma dropWhile_append_stop:
  "\<forall>x\<in>set xs. P x \<Longrightarrow> \<not> P y \<Longrightarrow> dropWhile P (xs @ y # ys) = y # ys"
  by (induction xs) auto

lemma length_dropWhile_le' [simp, intro]: "length (dropWhile P xs) \<le> length xs"
  by (rule length_dropWhile_le)

lemma filter_key_unique:
  "distinct (map k xs) \<Longrightarrow> x \<in> set xs \<Longrightarrow> filter (\<lambda>y. k y = k x) xs = [x]"
proof (induction xs)
  case (Cons a xs)
  show ?case
  proof (cases "x = a")
    case True
    with Cons.prems have "filter (\<lambda>y. k y = k x) xs = []" by (auto simp: filter_empty_conv image_iff)
    with True show ?thesis by simp
  next
    case False
    with Cons.prems have "k a \<noteq> k x" "x \<in> set xs" by (auto simp: image_iff)
    with Cons show ?thesis by simp
  qed
qed simp

section \<open>An encoder and its decoder\<close>

text \<open>
  The contract of every encoder of the code: on the values it is meant for, decoding its
  output gives the value back. Clients use the consequence that nothing is conflated.
\<close>

locale codec =
  fixes enc :: "'a \<Rightarrow> 'b"
    and dec :: "'b \<Rightarrow> 'a option"
    and ok :: "'a \<Rightarrow> bool"
  assumes dec_enc: "ok x \<Longrightarrow> dec (enc x) = Some x"
begin

lemma enc_inj: "ok x \<Longrightarrow> ok y \<Longrightarrow> enc x = enc y \<longleftrightarrow> x = y"
  by (metis dec_enc option.inject)

lemma enc_list_inj:
  "list_all ok xs \<Longrightarrow> list_all ok ys \<Longrightarrow> map enc xs = map enc ys \<longleftrightarrow> xs = ys"
proof (induction xs arbitrary: ys)
  case Nil
  then show ?case by auto
next
  case (Cons x xs)
  then show ?case by (cases ys) (auto simp: enc_inj)
qed

lemma dec_total_on_enc: "ok x \<Longrightarrow> dec (enc x) \<noteq> None"
  by (simp add: dec_enc)

end

section \<open>A matcher and its expander\<close>

text \<open>
  The contract between reading a URI against a template and writing a template's URI: what
  is matched is written back as it was read.
\<close>

locale template_matcher =
  fixes matches :: "string \<Rightarrow> string \<Rightarrow> (string \<rightharpoonup> string) option"
    and expand :: "string \<Rightarrow> (string \<rightharpoonup> string) \<Rightarrow> string"
    and good :: "string \<Rightarrow> bool"
  assumes expand_match: "good t \<Longrightarrow> matches t u = Some ps \<Longrightarrow> expand t ps = u"
begin

lemma match_inj:
  "good t \<Longrightarrow> matches t u = Some ps \<Longrightarrow> matches t v = Some ps \<Longrightarrow> u = v"
  by (metis expand_match)

lemma match_then_expand:
  "good t \<Longrightarrow> matches t u \<noteq> None \<Longrightarrow> expand t (the (matches t u)) = u"
  using expand_match by auto

end

section \<open>A keyed registry\<close>

text \<open>
  The contract of the registries of a server: an entry per key, replaced by a later
  registration of the same key, and the order in which keys were first registered. Listings
  are proved once, for every registry.
\<close>

definition keyed_wf :: "('s \<Rightarrow> string list) \<Rightarrow> ('s \<Rightarrow> string \<Rightarrow> 'e option) \<Rightarrow> 's \<Rightarrow> bool" where
  "keyed_wf order look s \<longleftrightarrow> distinct (order s) \<and> set (order s) = {k. look s k \<noteq> None}"

definition first_occurrences :: "'a list \<Rightarrow> 'a list" where
  "first_occurrences xs = rev (remdups (rev xs))"

lemma first_occurrences_snoc:
  "first_occurrences (xs @ [x]) = (if x \<in> set xs then first_occurrences xs else first_occurrences xs @ [x])"
  by (simp add: first_occurrences_def)

lemma set_first_occurrences [simp]: "set (first_occurrences xs) = set xs"
  by (simp add: first_occurrences_def)

lemma distinct_first_occurrences [simp]: "distinct (first_occurrences xs)"
  by (simp add: first_occurrences_def)

locale keyed_registry =
  fixes order :: "'s \<Rightarrow> string list"
    and look :: "'s \<Rightarrow> string \<Rightarrow> 'e option"
    and reg :: "string \<Rightarrow> 'e \<Rightarrow> 's \<Rightarrow> 's"
  assumes look_reg: "look (reg k e s) k' = (if k' = k then Some e else look s k')"
    and order_reg: "order (reg k e s) = (if look s k = None then order s @ [k] else order s)"
begin

lemma wf_reg [wf_rules]: "keyed_wf order look s \<Longrightarrow> keyed_wf order look (reg k e s)"
  by (auto simp: keyed_wf_def look_reg order_reg)

definition reg_all :: "(string \<times> 'e) list \<Rightarrow> 's \<Rightarrow> 's" where
  "reg_all kes s = foldl (\<lambda>s (k, e). reg k e s) s kes"

lemma reg_all_snoc: "reg_all (kes @ [(k, e)]) s = reg k e (reg_all kes s)"
  by (simp add: reg_all_def)

lemma wf_reg_all: "keyed_wf order look s \<Longrightarrow> keyed_wf order look (reg_all kes s)"
  by (induction kes rule: rev_induct) (auto simp: reg_all_def wf_reg)

lemma look_reg_all:
  "look (reg_all kes s) k = (case map_of (rev kes) k of Some e \<Rightarrow> Some e | None \<Rightarrow> look s k)"
  by (induction kes rule: rev_induct) (auto simp: reg_all_def look_reg)

lemma order_reg_all:
  assumes "order s = []" "\<And>k. look s k = None"
  shows "order (reg_all kes s) = first_occurrences (map fst kes)"
proof (induction kes rule: rev_induct)
  case Nil
  then show ?case using assms by (simp add: reg_all_def first_occurrences_def)
next
  case (snoc ke kes)
  obtain k e where ke: "ke = (k, e)" by (cases ke)
  have "look (reg_all kes s) k = None \<longleftrightarrow> k \<notin> fst ` set kes"
  proof -
    have "look (reg_all kes s) k = map_of (rev kes) k"
      using assms(2) by (simp add: look_reg_all split: option.split)
    then show ?thesis by (simp add: map_of_eq_None_iff)
  qed
  then show ?case
    using snoc by (simp add: ke reg_all_snoc order_reg first_occurrences_snoc)
qed

lemma listing:
  assumes "order s = []" "\<And>k. look s k = None"
  shows "map (\<lambda>k. (k, the (look (reg_all kes s) k))) (order (reg_all kes s))
    = map (\<lambda>k. (k, the (map_of (rev kes) k))) (first_occurrences (map fst kes))"
proof -
  have "k \<in> set (first_occurrences (map fst kes)) \<Longrightarrow> look (reg_all kes s) k = map_of (rev kes) k" for k
    using assms(2) by (auto simp: look_reg_all map_of_eq_None_iff split: option.split)
  then show ?thesis by (simp add: order_reg_all [OF assms])
qed

end

end
