(* ===== verification/GoStd.thy ===== *)
theory GoStd
  imports Prelude
begin

text \<open>
  The parts of Go's standard library the modelled code calls, on byte strings:
  \<open>strings\<close> (index, split, join, trim, prefix tests, case folding), \<open>strconv\<close>
  (decimal output and input), and the hexadecimal digits of percent encoding. Case mapping and
  white space are those of ASCII; the facts below are what the components rely on.
\<close>

section \<open>Searching and cutting\<close>

fun index_byte :: "char \<Rightarrow> string \<Rightarrow> nat option" where
  "index_byte c [] = None"
| "index_byte c (x # xs) = (if x = c then Some 0 else map_option Suc (index_byte c xs))"

fun index_any :: "char list \<Rightarrow> string \<Rightarrow> nat option" where
  "index_any cs [] = None"
| "index_any cs (x # xs) =
     (if List.member cs x then Some 0 else map_option Suc (index_any cs xs))"

fun has_prefix :: "string \<Rightarrow> string \<Rightarrow> bool" where
  "has_prefix s [] = True"
| "has_prefix [] (p # ps) = False"
| "has_prefix (x # xs) (p # ps) = (x = p \<and> has_prefix xs ps)"

definition has_suffix :: "string \<Rightarrow> string \<Rightarrow> bool" where
  "has_suffix s p = has_prefix (rev s) (rev p)"

fun index_str :: "string \<Rightarrow> string \<Rightarrow> nat option" where
  "index_str [] p = (if p = [] then Some 0 else None)"
| "index_str (x # xs) p =
     (if has_prefix (x # xs) p then Some 0 else map_option Suc (index_str xs p))"

definition contains_str :: "string \<Rightarrow> string \<Rightarrow> bool" where
  "contains_str s p = (index_str s p \<noteq> None)"

lemma index_byte_None [go_str]: "index_byte c s = None \<longleftrightarrow> c \<notin> set s"
  by (induction s) auto

lemma index_byte_Some [go_str]:
  "index_byte c s = Some n \<Longrightarrow>
     n < length s \<and> s ! n = c \<and> c \<notin> set (take n s) \<and> s = take n s @ c # drop (Suc n) s"
proof (induction s arbitrary: n)
  case Nil
  then show ?case by simp
next
  case (Cons x xs)
  show ?case
  proof (cases "x = c")
    case True
    with Cons.prems show ?thesis by simp
  next
    case False
    with Cons.prems obtain m where "index_byte c xs = Some m" "n = Suc m" by auto
    with Cons.IH [of m] False show ?thesis by auto
  qed
qed

lemma index_byte_append:
  "c \<notin> set xs \<Longrightarrow> index_byte c (xs @ c # ys) = Some (length xs)"
  by (induction xs) auto

lemma index_any_None [go_str]: "index_any cs s = None \<longleftrightarrow> (\<forall>x\<in>set s. x \<notin> set cs)"
  by (induction s) auto

lemma index_any_Some [go_str]:
  "index_any cs s = Some n \<Longrightarrow>
     n < length s \<and> s ! n \<in> set cs \<and> (\<forall>x\<in>set (take n s). x \<notin> set cs)"
proof (induction s arbitrary: n)
  case Nil
  then show ?case by simp
next
  case (Cons x xs)
  then show ?case by (cases "x \<in> set cs") auto
qed

lemma has_prefix_iff [go_str]: "has_prefix s p \<longleftrightarrow> (\<exists>t. s = p @ t)"
  by (induction s p rule: has_prefix.induct) auto

lemma has_prefix_append [simp]: "has_prefix (p @ t) p"
  by (simp add: has_prefix_iff)

lemma has_suffix_iff [go_str]: "has_suffix s p \<longleftrightarrow> (\<exists>t. s = t @ p)"
  unfolding has_suffix_def has_prefix_iff
  by (metis rev_append rev_rev_ident)

lemma index_str_Some [go_str]:
  "index_str s p = Some n \<Longrightarrow> \<exists>t. s = take n s @ p @ t \<and> n + length p \<le> length s"
proof (induction s p arbitrary: n rule: index_str.induct)
  case (1 p)
  then show ?case by (auto split: if_splits)
next
  case (2 x xs p)
  show ?case
  proof (cases "has_prefix (x # xs) p")
    case True
    then obtain t where t: "x # xs = p @ t" by (auto simp: has_prefix_iff)
    then have "length p \<le> length (x # xs)" by simp
    moreover have "n = 0" using True "2.prems" by simp
    ultimately show ?thesis using t by auto
  next
    case False
    with "2.prems" obtain m where m: "index_str xs p = Some m" "n = Suc m" by auto
    from "2.IH" [OF False m(1)] m(2) show ?thesis by auto
  qed
qed

lemma index_str_drop:
  assumes "index_str s p = Some n"
  shows "s = take n s @ p @ drop (n + length p) s"
proof -
  from index_str_Some [OF assms] obtain t
    where t: "s = take n s @ p @ t" and le: "n + length p \<le> length s" by blast
  have len: "length (take n s) = n" using le by simp
  have "drop (n + length p) s = drop (n + length p) (take n s @ p @ t)" using t by simp
  also have "\<dots> = t" using len by simp
  finally show ?thesis using t by simp
qed

section \<open>Splitting and joining\<close>

text \<open>\<open>strings.Split(s, sep)\<close> for a one-byte separator, and \<open>strings.Join\<close>.\<close>

fun split_on :: "char \<Rightarrow> string \<Rightarrow> string list" where
  "split_on c [] = [[]]"
| "split_on c (x # xs) =
     (if x = c then [] # split_on c xs
      else (case split_on c xs of [] \<Rightarrow> [[x]] | p # ps \<Rightarrow> (x # p) # ps))"

fun join_with :: "string \<Rightarrow> string list \<Rightarrow> string" where
  "join_with sep [] = []"
| "join_with sep [p] = p"
| "join_with sep (p # q # ps) = p @ sep @ join_with sep (q # ps)"

text \<open>\<open>strings.SplitN(s, sep, 2)\<close>: one or two pieces.\<close>

definition split2 :: "char \<Rightarrow> string \<Rightarrow> string list" where
  "split2 c s = (case index_byte c s of None \<Rightarrow> [s] | Some n \<Rightarrow> [take n s, drop (Suc n) s])"

lemma split_on_not_Nil [simp]: "split_on c s \<noteq> []"
  by (induction s) (auto split: list.splits)

lemma split_on_Cons_other:
  "x \<noteq> c \<Longrightarrow> split_on c (x # xs) = (x # hd (split_on c xs)) # tl (split_on c xs)"
  by (cases "split_on c xs") auto

lemma join_with_Cons: "ps \<noteq> [] \<Longrightarrow> join_with sep (p # ps) = p @ sep @ join_with sep ps"
  by (cases ps) auto

lemma join_with_hd: "ps \<noteq> [] \<Longrightarrow> join_with sep ((x # hd ps) # tl ps) = x # join_with sep ps"
  by (cases ps; cases "tl ps") auto

lemma join_split [go_str]: "join_with [c] (split_on c s) = s"
proof (induction s)
  case Nil
  then show ?case by simp
next
  case (Cons x xs)
  show ?case
  proof (cases "x = c")
    case True
    then show ?thesis using Cons by (simp add: join_with_Cons)
  next
    case False
    then show ?thesis
      using Cons by (simp add: split_on_Cons_other join_with_hd del: split_on.simps)
  qed
qed

lemma split_on_pieces [go_str]: "p \<in> set (split_on c s) \<Longrightarrow> c \<notin> set p"
proof (induction s arbitrary: p)
  case Nil
  then show ?case by simp
next
  case (Cons x xs)
  show ?case
  proof (cases "x = c")
    case True
    then show ?thesis using Cons by auto
  next
    case False
    with Cons.prems have "p = x # hd (split_on c xs) \<or> p \<in> set (tl (split_on c xs))"
      by (simp add: split_on_Cons_other del: split_on.simps)
    then show ?thesis
    proof
      assume "p = x # hd (split_on c xs)"
      moreover have "c \<notin> set (hd (split_on c xs))" by (rule Cons.IH) simp
      ultimately show ?thesis using False by simp
    next
      assume "p \<in> set (tl (split_on c xs))"
      then show ?thesis by (intro Cons.IH) (rule list.set_sel(2) [rotated], simp_all)
    qed
  qed
qed

lemma split_on_no_sep: "c \<notin> set s \<Longrightarrow> split_on c s = [s]"
  by (induction s) auto

lemma split_on_append: "c \<notin> set p \<Longrightarrow> split_on c (p @ c # s) = p # split_on c s"
  by (induction p) auto

lemma split_join [go_str]:
  "ps \<noteq> [] \<Longrightarrow> \<forall>p\<in>set ps. c \<notin> set p \<Longrightarrow> split_on c (join_with [c] ps) = ps"
proof (induction "[c]" ps rule: join_with.induct)
  case 1
  then show ?case by simp
next
  case (2 p)
  then show ?case by (simp add: split_on_no_sep)
next
  case (3 p q ps)
  then show ?case by (simp add: split_on_append)
qed

section \<open>Trimming and case\<close>

definition is_space :: "char \<Rightarrow> bool" where
  "is_space c \<longleftrightarrow> c \<in> {CHR '' '', CHR 0x09, CHR 0x0A, CHR 0x0B, CHR 0x0C, CHR 0x0D}"

definition trim_left :: "(char \<Rightarrow> bool) \<Rightarrow> string \<Rightarrow> string" where
  "trim_left P s = dropWhile P s"

definition trim_right :: "(char \<Rightarrow> bool) \<Rightarrow> string \<Rightarrow> string" where
  "trim_right P s = rev (dropWhile P (rev s))"

definition trim_both :: "(char \<Rightarrow> bool) \<Rightarrow> string \<Rightarrow> string" where
  "trim_both P s = trim_right P (trim_left P s)"

abbreviation trim_space :: "string \<Rightarrow> string" where
  "trim_space \<equiv> trim_both is_space"

definition lower :: "char \<Rightarrow> char" where
  "lower c = (if CHR ''A'' \<le> c \<and> c \<le> CHR ''Z'' then char_of ((of_char c :: nat) + 32) else c)"

definition to_lower :: "string \<Rightarrow> string" where
  "to_lower s = map lower s"

definition equal_fold :: "string \<Rightarrow> string \<Rightarrow> bool" where
  "equal_fold a b \<longleftrightarrow> to_lower a = to_lower b"

lemma to_lower_Nil [simp]: "to_lower [] = []"
  by (simp add: to_lower_def)

lemma lower_idem [simp]: "lower (lower c) = lower c"
proof (cases "CHR ''A'' \<le> c \<and> c \<le> CHR ''Z''")
  case True
  then have b: "65 \<le> (of_char c :: nat)" "(of_char c :: nat) \<le> 90"
    by (simp_all add: less_eq_char_def)
  then have "of_char (lower c) = (of_char c :: nat) + 32"
    using True by (simp add: lower_def)
  with b have "\<not> lower c \<le> CHR ''Z''" by (simp add: less_eq_char_def)
  then show ?thesis by (subst lower_def) simp
next
  case False
  then have "lower c = c" unfolding lower_def by (rule if_not_P)
  then show ?thesis by simp
qed

lemma to_lower_idem [simp]: "to_lower (to_lower s) = to_lower s"
  by (simp add: to_lower_def)

lemma equal_fold_refl [simp]: "equal_fold a a"
  by (simp add: equal_fold_def)

lemma trim_right_append_stop: "\<not> P x \<Longrightarrow> trim_right P (xs @ [x]) = xs @ [x]"
  by (simp add: trim_right_def)

lemma trim_right_prefix: "\<exists>t. s = trim_right P s @ t \<and> (\<forall>c\<in>set t. P c)"
proof -
  have "rev s = takeWhile P (rev s) @ dropWhile P (rev s)" by simp
  then have "s = rev (dropWhile P (rev s)) @ rev (takeWhile P (rev s))"
    by (metis rev_append rev_rev_ident)
  then show ?thesis unfolding trim_right_def
    by (intro exI [of _ "rev (takeWhile P (rev s))"]) (auto dest: set_takeWhileD)
qed

lemma trim_right_last: "trim_right P s \<noteq> [] \<Longrightarrow> \<not> P (last (trim_right P s))"
  by (auto simp: trim_right_def last_rev hd_dropWhile)

lemma trim_left_hd: "trim_left P s \<noteq> [] \<Longrightarrow> \<not> P (hd (trim_left P s))"
  by (simp add: trim_left_def hd_dropWhile)

section \<open>White-space separated fields\<close>

function fields :: "string \<Rightarrow> string list" where
  "fields s =
     (let r = dropWhile is_space s
      in if r = [] then []
         else takeWhile (\<lambda>c. \<not> is_space c) r # fields (dropWhile (\<lambda>c. \<not> is_space c) r))"
  by pat_completeness auto
termination
proof (relation "measure length", goal_cases)
  case 1
  then show ?case by simp
next
  case (2 s r)
  then have ne: "r \<noteq> []" and "\<not> is_space (hd r)" by (auto simp: hd_dropWhile)
  then have "dropWhile (\<lambda>c. \<not> is_space c) r = dropWhile (\<lambda>c. \<not> is_space c) (tl r)"
    by (cases r) auto
  then have "length (dropWhile (\<lambda>c. \<not> is_space c) r) < length r"
    using ne by (cases r) (auto simp: le_imp_less_Suc)
  also have "length r \<le> length s" using 2 by simp
  finally show ?case by simp
qed

declare fields.simps [simp del]

lemma fields_nonempty: "f \<in> set (fields s) \<Longrightarrow> f \<noteq> [] \<and> (\<forall>c\<in>set f. \<not> is_space c)"
proof (induction s rule: fields.induct)
  case (1 s)
  let ?r = "dropWhile is_space s"
  show ?case
  proof (cases "?r = []")
    case True
    with "1.prems" show ?thesis by (simp add: fields.simps [of s])
  next
    case False
    have hd: "\<not> is_space (hd ?r)" using False by (rule hd_dropWhile)
    have "fields s = takeWhile (\<lambda>c. \<not> is_space c) ?r # fields (dropWhile (\<lambda>c. \<not> is_space c) ?r)"
      by (subst fields.simps) (simp only: Let_def False if_False)
    with "1.prems" have
      "f = takeWhile (\<lambda>c. \<not> is_space c) ?r \<or> f \<in> set (fields (dropWhile (\<lambda>c. \<not> is_space c) ?r))"
      by (simp only: list.set insert_iff)
    then show ?thesis
    proof
      assume f: "f = takeWhile (\<lambda>c. \<not> is_space c) ?r"
      with False hd have "f \<noteq> []" by (cases ?r) auto
      with f show ?thesis by (auto dest: set_takeWhileD)
    next
      assume "f \<in> set (fields (dropWhile (\<lambda>c. \<not> is_space c) ?r))"
      then show ?thesis by (rule "1.IH" [OF refl False])
    qed
  qed
qed

section \<open>Replacing\<close>

text \<open>\<open>strings.ReplaceAll(s, old, new)\<close> for a non-empty \<open>old\<close>: left to right, without
  overlaps. (An empty \<open>old\<close>, which the modelled code never passes, leaves \<open>s\<close> alone here.)\<close>

function replace_all :: "string \<Rightarrow> string \<Rightarrow> string \<Rightarrow> string" where
  "replace_all s old new =
     (if s = [] \<or> old = [] then s
      else if has_prefix s old then new @ replace_all (drop (length old) s) old new
      else hd s # replace_all (tl s) old new)"
  by pat_completeness auto
termination
  by (relation "measure (\<lambda>(s, old, new). length s)") auto

declare replace_all.simps [simp del]

lemma replace_all_Nil [simp]: "replace_all [] old new = []"
  by (simp add: replace_all.simps)

lemma replace_all_char:
  "replace_all (x # xs) [c] new = (if x = c then new else [x]) @ replace_all xs [c] new"
  by (subst replace_all.simps) simp

lemma replace_all_char_concat:
  "replace_all s [c] new = concat (map (\<lambda>x. if x = c then new else [x]) s)"
  by (induction s) (auto simp: replace_all_char)

lemma replace_all_absent:
  "\<not> contains_str s old \<Longrightarrow> old \<noteq> [] \<Longrightarrow> replace_all s old new = s"
proof (induction s)
  case Nil
  then show ?case by simp
next
  case (Cons x xs)
  from Cons.prems have np: "\<not> has_prefix (x # xs) old" and "\<not> contains_str xs old"
    by (auto simp: contains_str_def split: if_splits)
  with Cons show ?case by (subst replace_all.simps) simp
qed

section \<open>Decimal and hexadecimal\<close>

fun digit_char :: "nat \<Rightarrow> char" where
  "digit_char d = char_of (48 + d)"

fun nat_dec :: "nat \<Rightarrow> string" where
  "nat_dec n = (if n < 10 then [digit_char n] else nat_dec (n div 10) @ [digit_char (n mod 10)])"

declare nat_dec.simps [simp del]

text \<open>\<open>strconv.Itoa\<close>.\<close>

definition itoa :: "int \<Rightarrow> string" where
  "itoa i = (if i < 0 then CHR ''-'' # nat_dec (nat (- i)) else nat_dec (nat i))"

definition is_digit :: "char \<Rightarrow> bool" where
  "is_digit c \<longleftrightarrow> CHR ''0'' \<le> c \<and> c \<le> CHR ''9''"

definition digit_val :: "char \<Rightarrow> nat" where
  "digit_val c = of_char c - 48"

definition dec_nat :: "string \<Rightarrow> nat" where
  "dec_nat s = foldl (\<lambda>n c. 10 * n + digit_val c) 0 s"

text \<open>\<open>strconv.Atoi\<close>: an optional sign, then one or more digits, in the range of \<open>int64\<close>.\<close>

definition atoi :: "string \<Rightarrow> int option" where
  "atoi s =
     (let neg = has_prefix s ''-'';
          ds = (if neg \<or> has_prefix s ''+'' then tl s else s)
      in if ds = [] \<or> \<not> list_all is_digit ds then None
         else let v = (if neg then - int (dec_nat ds) else int (dec_nat ds))
              in if - (2 ^ 63) \<le> v \<and> v < 2 ^ 63 then Some v else None)"

lemma digit_char_props:
  assumes "d < 10"
  shows "is_digit (digit_char d)" "digit_val (digit_char d) = d"
  using assms by (auto simp: is_digit_def digit_val_def less_eq_char_def)

lemma digit_char_inj: "a < 10 \<Longrightarrow> b < 10 \<Longrightarrow> digit_char a = digit_char b \<longleftrightarrow> a = b"
  by (metis digit_char_props(2))

lemma nat_dec_ne [simp]: "nat_dec n \<noteq> []"
  by (subst nat_dec.simps) simp

lemma nat_dec_digits: "c \<in> set (nat_dec n) \<Longrightarrow> is_digit c"
proof (induction n rule: nat_dec.induct)
  case (1 n)
  show ?case
  proof (cases "n < 10")
    case True
    with "1.prems" show ?thesis
      by (subst (asm) nat_dec.simps) (use digit_char_props in auto)
  next
    case False
    with "1.prems" have "c \<in> set (nat_dec (n div 10)) \<or> c = digit_char (n mod 10)"
      by (subst (asm) nat_dec.simps) auto
    with "1.IH" [OF False] show ?thesis by (auto intro: digit_char_props(1) simp del: digit_char.simps)
  qed
qed

lemma dec_nat_snoc: "dec_nat (s @ [c]) = 10 * dec_nat s + digit_val c"
  by (simp add: dec_nat_def)

lemma dec_nat_dec [simp]: "dec_nat (nat_dec n) = n"
proof (induction n rule: nat_dec.induct)
  case (1 n)
  show ?case
  proof (cases "n < 10")
    case True
    then show ?thesis
      by (subst nat_dec.simps) (use digit_char_props(2) in \<open>auto simp: dec_nat_def simp del: digit_char.simps\<close>)
  next
    case False
    then have "dec_nat (nat_dec n) = 10 * dec_nat (nat_dec (n div 10)) + digit_val (digit_char (n mod 10))"
      by (subst nat_dec.simps) (simp add: dec_nat_snoc del: digit_char.simps)
    also have "\<dots> = 10 * (n div 10) + n mod 10"
      using "1.IH" [OF False] digit_char_props(2) [of "n mod 10"] by simp
    finally show ?thesis by simp
  qed
qed

lemma nat_dec_inj: "nat_dec a = nat_dec b \<longleftrightarrow> a = b"
  by (metis dec_nat_dec)

definition hex_digits :: string where
  "hex_digits = ''0123456789ABCDEF''"

definition is_hex :: "char \<Rightarrow> bool" where
  "is_hex c \<longleftrightarrow> (CHR ''0'' \<le> c \<and> c \<le> CHR ''9'') \<or> (CHR ''A'' \<le> c \<and> c \<le> CHR ''F'')
     \<or> (CHR ''a'' \<le> c \<and> c \<le> CHR ''f'')"

definition hex_val :: "char \<Rightarrow> nat" where
  "hex_val c =
     (if CHR ''0'' \<le> c \<and> c \<le> CHR ''9'' then of_char c - 48
      else if CHR ''A'' \<le> c \<and> c \<le> CHR ''F'' then of_char c - 55
      else of_char c - 87)"

text \<open>The escape \<open>%XX\<close> of a byte, upper-case hexadecimal digits.\<close>

definition pct :: "char \<Rightarrow> string" where
  "pct c = [CHR ''%'', hex_digits ! ((of_char c :: nat) div 16), hex_digits ! ((of_char c :: nat) mod 16)]"

definition unpct :: "char \<Rightarrow> char \<Rightarrow> char" where
  "unpct a b = char_of (16 * hex_val a + hex_val b)"

lemma hex_digit_props:
  assumes "d < 16"
  shows "is_hex (hex_digits ! d)" "hex_val (hex_digits ! d) = d"
proof -
  from assms have "d = 0 \<or> d = 1 \<or> d = 2 \<or> d = 3 \<or> d = 4 \<or> d = 5 \<or> d = 6 \<or> d = 7 \<or> d = 8 \<or> d = 9
    \<or> d = 10 \<or> d = 11 \<or> d = 12 \<or> d = 13 \<or> d = 14 \<or> d = 15" by arith
  then show "is_hex (hex_digits ! d)" "hex_val (hex_digits ! d) = d"
    by (auto simp: hex_digits_def is_hex_def hex_val_def less_eq_char_def)
qed

lemma pct_props:
  "\<exists>a b. pct c = [CHR ''%'', a, b] \<and> is_hex a \<and> is_hex b \<and> unpct a b = c"
proof -
  let ?n = "of_char c :: nat"
  have n: "?n < 256" by simp
  then have h: "?n div 16 < 16" by (intro less_mult_imp_div_less) simp
  have l: "?n mod 16 < 16" by simp
  have "unpct (hex_digits ! (?n div 16)) (hex_digits ! (?n mod 16)) = char_of (16 * (?n div 16) + ?n mod 16)"
    unfolding unpct_def using hex_digit_props(2) [OF h] hex_digit_props(2) [OF l] by simp
  also have "\<dots> = c" by simp
  finally show ?thesis
    unfolding pct_def using hex_digit_props(1) [OF h] hex_digit_props(1) [OF l] by blast
qed

end
