(* ===== verification/Runes.thy ===== *)
theory Runes
  imports Prelude
begin

text \<open>
  Go's reading of a byte string as runes: a valid UTF-8 sequence is one rune, and so is each byte
  that starts none, read as U+FFFD. \<open>runes\<close> is \<open>[]rune(s)\<close>, \<open>string_of_runes\<close> the conversion back.
\<close>

definition byte_in :: "nat \<Rightarrow> nat \<Rightarrow> char \<Rightarrow> bool" where
  "byte_in lo hi c \<longleftrightarrow> lo \<le> of_char c \<and> of_char c \<le> hi"

abbreviation cont_byte :: "char \<Rightarrow> bool" where
  "cont_byte \<equiv> byte_in 0x80 0xBF"

definition rune_size :: "string \<Rightarrow> nat" where
  "rune_size s =
     (let two = (case s of a # b # _ \<Rightarrow> byte_in 0xC2 0xDF a \<and> cont_byte b | _ \<Rightarrow> False);
          three = (case s of a # b # c # _ \<Rightarrow>
              (a = CHR 0xE0 \<and> byte_in 0xA0 0xBF b \<or> a = CHR 0xED \<and> byte_in 0x80 0x9F b
               \<or> (byte_in 0xE1 0xEC a \<or> byte_in 0xEE 0xEF a) \<and> cont_byte b) \<and> cont_byte c | _ \<Rightarrow> False);
          four = (case s of a # b # c # d # _ \<Rightarrow>
              (a = CHR 0xF0 \<and> byte_in 0x90 0xBF b \<or> a = CHR 0xF4 \<and> byte_in 0x80 0x8F b
               \<or> byte_in 0xF1 0xF3 a \<and> cont_byte b) \<and> cont_byte c \<and> cont_byte d | _ \<Rightarrow> False)
      in if two then 2 else if three then 3 else if four then 4 else 1)"

lemma rune_size_pos: "0 < rune_size s"
  by (simp add: rune_size_def Let_def)

fun rune_count :: "string \<Rightarrow> nat" where
  "rune_count [] = 0"
| "rune_count (c # cs) = Suc (rune_count (drop (rune_size (c # cs) - 1) cs))"

text \<open>The code point of the first rune.\<close>

definition first_rune :: "string \<Rightarrow> nat" where
  "first_rune s =
     (let n = rune_size s; b0 = of_char (s ! 0); b1 = of_char (s ! 1); b2 = of_char (s ! 2); b3 = of_char (s ! 3) in
      if n = 2 then (b0 - 0xC0) * 64 + (b1 - 0x80)
      else if n = 3 then (b0 - 0xE0) * 4096 + (b1 - 0x80) * 64 + (b2 - 0x80)
      else if n = 4 then (b0 - 0xF0) * 262144 + (b1 - 0x80) * 4096 + (b2 - 0x80) * 64 + (b3 - 0x80)
      else if b0 < 0x80 then b0 else 0xFFFD)"

fun runes :: "string \<Rightarrow> nat list" where
  "runes [] = []"
| "runes (c # cs) = first_rune (c # cs) # runes (drop (rune_size (c # cs) - 1) cs)"

definition rune_bytes :: "nat \<Rightarrow> string" where
  "rune_bytes r =
     (if r < 0x80 then [char_of r]
      else if r < 0x800 then [char_of (0xC0 + r div 64), char_of (0x80 + r mod 64)]
      else if r < 0x10000 then [char_of (0xE0 + r div 4096), char_of (0x80 + r div 64 mod 64), char_of (0x80 + r mod 64)]
      else [char_of (0xF0 + r div 262144), char_of (0x80 + r div 4096 mod 64), char_of (0x80 + r div 64 mod 64), char_of (0x80 + r mod 64)])"

definition string_of_runes :: "nat list \<Rightarrow> string" where
  "string_of_runes rs = concat (map rune_bytes rs)"

lemma length_runes: "length (runes s) = rune_count s"
  by (induction s rule: runes.induct) simp_all

section \<open>Valid UTF-8\<close>

fun valid_utf8 :: "string \<Rightarrow> bool" where
  "valid_utf8 [] = True"
| "valid_utf8 (c # cs) =
     ((of_char c < (0x80 :: nat) \<or> 1 < rune_size (c # cs)) \<and> valid_utf8 (drop (rune_size (c # cs) - 1) cs))"

text \<open>The shapes of a rune of more than one byte.\<close>

lemma rune_two: "rune_size s = 2 \<Longrightarrow> \<exists>a b t. s = a # b # t \<and> byte_in 0xC2 0xDF a \<and> cont_byte b"
  by (auto simp: rune_size_def Let_def split: if_splits list.splits)

lemma rune_three:
  assumes "rune_size s = 3"
  shows "\<exists>a b c t. s = a # b # c # t \<and> byte_in 0xE0 0xEF a \<and> (a = CHR 0xE0 \<longrightarrow> byte_in 0xA0 0xBF b) \<and> cont_byte b \<and> cont_byte c"
proof (cases s rule: remdups_adj.cases)
  case 1
  with assms show ?thesis by (simp add: rune_size_def)
next
  case 2
  with assms show ?thesis by (simp add: rune_size_def)
next
  case (3 a b us)
  show ?thesis
  proof (cases us)
    case Nil
    with 3 assms show ?thesis by (simp add: rune_size_def Let_def split: if_splits)
  next
    case (Cons c t)
    with 3 assms have "(a = CHR 0xE0 \<and> byte_in 0xA0 0xBF b \<or> a = CHR 0xED \<and> byte_in 0x80 0x9F b
               \<or> (byte_in 0xE1 0xEC a \<or> byte_in 0xEE 0xEF a) \<and> cont_byte b) \<and> cont_byte c"
      by (simp add: rune_size_def Let_def split: if_splits)
    with 3 Cons show ?thesis by (auto simp: byte_in_def)
  qed
qed

lemma rune_four:
  assumes "rune_size s = 4"
  shows "\<exists>a b c d t. s = a # b # c # d # t \<and> byte_in 0xF0 0xF4 a \<and> (a = CHR 0xF0 \<longrightarrow> byte_in 0x90 0xBF b)
     \<and> cont_byte b \<and> cont_byte c \<and> cont_byte d"
proof -
  from assms obtain a b c d t where s: "s = a # b # c # d # t"
    by (simp add: rune_size_def Let_def split: if_splits list.splits)
  with assms have "(a = CHR 0xF0 \<and> byte_in 0x90 0xBF b \<or> a = CHR 0xF4 \<and> byte_in 0x80 0x8F b
               \<or> byte_in 0xF1 0xF3 a \<and> cont_byte b) \<and> cont_byte c \<and> cont_byte d"
    by (simp add: rune_size_def Let_def split: if_splits)
  with s show ?thesis by (auto simp: byte_in_def)
qed

lemma rune_sizes: "rune_size s = 1 \<or> rune_size s = 2 \<or> rune_size s = 3 \<or> rune_size s = 4"
  by (simp add: rune_size_def Let_def)

lemma char_of_add: "of_char c = n + (k :: nat) \<Longrightarrow> char_of (n + k) = c"
  by (metis char_of_char)

lemma six_bits: "(z :: nat) < 64 \<Longrightarrow> (q * 64 + z) div 64 = q" "z < 64 \<Longrightarrow> (q * 64 + z) mod 64 = z"
  by simp_all

lemma div_4096: "n div 4096 = n div 64 div (64 :: nat)" "n div 262144 = n div 64 div 64 div (64 :: nat)"
  by (simp_all only: div_mult2_eq [symmetric]) simp_all

lemma first_rune_bytes:
  assumes "of_char c < (0x80 :: nat) \<or> 1 < rune_size (c # cs)"
  shows "rune_bytes (first_rune (c # cs)) = take (rune_size (c # cs)) (c # cs)"
proof -
  consider (one) "rune_size (c # cs) = 1" | (two) "rune_size (c # cs) = 2" | (three) "rune_size (c # cs) = 3"
    | (four) "rune_size (c # cs) = 4" using rune_sizes by blast
  then show ?thesis
  proof cases
    case one
    with assms show ?thesis by (simp add: first_rune_def rune_bytes_def)
  next
    case two
    from rune_two [OF two] obtain b t where s: "cs = b # t" "byte_in 0xC2 0xDF c" "cont_byte b" by auto
    then obtain x y :: nat where x: "of_char c = 0xC0 + x" "of_char b = 0x80 + y" "2 \<le> x" "x < 32" "y < 64"
      using that [of "of_char c - 0xC0" "of_char b - 0x80"] by (auto simp: byte_in_def)
    have r: "first_rune (c # cs) = x * 64 + y" using two by (simp add: first_rune_def s(1) x(1,2))
    have "(x * 64 + y) div 64 = x" "(x * 64 + y) mod 64 = y" "128 \<le> x * 64 + y" "x * 64 + y < 2048" using x(3-5) by auto
    then show ?thesis using char_of_add [OF x(1)] char_of_add [OF x(2)]
      unfolding r two by (simp add: rune_bytes_def s(1))
  next
    case three
    from rune_three [OF three] obtain b d t where s: "cs = b # d # t" "byte_in 0xE0 0xEF c" "c = CHR 0xE0 \<longrightarrow> byte_in 0xA0 0xBF b"
      "cont_byte b" "cont_byte d" by auto
    then obtain x y z :: nat where x: "of_char c = 0xE0 + x" "of_char b = 0x80 + y" "of_char d = 0x80 + z" "x < 16" "y < 64" "z < 64"
      using that [of "of_char c - 0xE0" "of_char b - 0x80" "of_char d - 0x80"] by (auto simp: byte_in_def)
    have "c = CHR 0xE0" if "x = 0"
    proof -
      have "of_char c = (of_char (CHR 0xE0) :: nat)" using x(1) that by simp
      then show ?thesis by (simp only: of_char_eq_iff)
    qed
    then have y: "x = 0 \<longrightarrow> 32 \<le> y" using s(3) x(2) by (auto simp: byte_in_def)
    have r: "first_rune (c # cs) = (x * 64 + y) * 64 + z" using three by (simp add: first_rune_def s(1) x(1-3) algebra_simps)
    have d: "((x * 64 + y) * 64 + z) div 4096 = x" "((x * 64 + y) * 64 + z) div 64 = x * 64 + y" "(x * 64 + y) mod 64 = y"
      "((x * 64 + y) * 64 + z) mod 64 = z"
      by (simp_all only: div_4096 six_bits x(4-6))
    have "2048 \<le> (x * 64 + y) * 64 + z" "(x * 64 + y) * 64 + z < 65536" using x(4-6) y by auto
    with d show ?thesis using char_of_add [OF x(1)] char_of_add [OF x(2)] char_of_add [OF x(3)]
      unfolding r three by (simp add: rune_bytes_def s(1))
  next
    case four
    from rune_four [OF four] obtain b d e t where s: "cs = b # d # e # t" "byte_in 0xF0 0xF4 c" "c = CHR 0xF0 \<longrightarrow> byte_in 0x90 0xBF b"
      "cont_byte b" "cont_byte d" "cont_byte e" by auto
    then obtain x y z w :: nat where x: "of_char c = 0xF0 + x" "of_char b = 0x80 + y" "of_char d = 0x80 + z" "of_char e = 0x80 + w"
      "x < 5" "y < 64" "z < 64" "w < 64"
      using that [of "of_char c - 0xF0" "of_char b - 0x80" "of_char d - 0x80" "of_char e - 0x80"] by (auto simp: byte_in_def)
    have "c = CHR 0xF0" if "x = 0"
    proof -
      have "of_char c = (of_char (CHR 0xF0) :: nat)" using x(1) that by simp
      then show ?thesis by (simp only: of_char_eq_iff)
    qed
    then have y: "x = 0 \<longrightarrow> 16 \<le> y" using s(3) x(2) by (auto simp: byte_in_def)
    let ?r = "((x * 64 + y) * 64 + z) * 64 + w"
    have r: "first_rune (c # cs) = ?r" using four by (simp add: first_rune_def s(1) x(1-4) algebra_simps)
    have d: "?r div 64 = (x * 64 + y) * 64 + z" "?r div 4096 = x * 64 + y" "?r div 262144 = x"
      by (simp_all only: div_4096 six_bits x(6-8))
    have m: "(x * 64 + y) mod 64 = y" "((x * 64 + y) * 64 + z) mod 64 = z" "?r mod 64 = w"
      by (simp_all only: six_bits x(6-8))
    have "65536 \<le> ?r" using y by auto
    with m show ?thesis using d char_of_add [OF x(1)] char_of_add [OF x(2)] char_of_add [OF x(3)] char_of_add [OF x(4)]
      unfolding r four by (simp add: rune_bytes_def s(1))
  qed
qed

text \<open>Of a valid string, taking all runes and writing them again gives the string.\<close>

lemma runes_roundtrip: "valid_utf8 s \<Longrightarrow> string_of_runes (runes s) = s"
proof (induction s rule: runes.induct)
  case (2 c cs)
  have k: "rune_size (c # cs) = Suc (rune_size (c # cs) - 1)" using rune_size_pos [of "c # cs"] by simp
  have "string_of_runes (runes (c # cs)) = take (rune_size (c # cs)) (c # cs) @ drop (rune_size (c # cs) - 1) cs"
    using 2 first_rune_bytes [of c cs] by (simp add: string_of_runes_def)
  also have "\<dots> = c # cs" by (subst (1) k) simp
  finally show ?case .
qed (simp add: string_of_runes_def)

section \<open>Characters by their first byte\<close>

text \<open>The first \<open>n\<close> characters of a valid string: up to the byte that begins the next one.\<close>

fun char_prefix :: "nat \<Rightarrow> string \<Rightarrow> string" where
  "char_prefix n [] = []"
| "char_prefix n (c # s) =
     (if cont_byte c then c # char_prefix n s else case n of 0 \<Rightarrow> [] | Suc k \<Rightarrow> c # char_prefix k s)"

lemma char_prefix_conts: "\<forall>c\<in>set t. cont_byte c \<Longrightarrow> char_prefix n (t @ s) = t @ char_prefix n s"
  by (induction t) auto

lemma rune_tail: "\<forall>d\<in>set (take (rune_size (c # cs) - 1) cs). cont_byte d"
proof -
  consider "rune_size (c # cs) = 1" | "rune_size (c # cs) = 2" | "rune_size (c # cs) = 3"
    | "rune_size (c # cs) = 4" using rune_sizes by blast
  then show ?thesis
    by cases (auto dest!: rune_two rune_three rune_four)
qed

lemma rune_lead: "of_char c < (0x80 :: nat) \<or> 1 < rune_size (c # cs) \<Longrightarrow> \<not> cont_byte c"
  using rune_sizes [of "c # cs"]
  by (auto dest!: rune_two rune_three rune_four simp: byte_in_def)

lemma char_prefix_runes: "valid_utf8 s \<Longrightarrow> string_of_runes (take n (runes s)) = char_prefix n s"
proof (induction s arbitrary: n rule: runes.induct)
  case (2 c cs)
  have lead: "\<not> cont_byte c" using rune_lead [of c cs] 2(2) by simp
  show ?case
  proof (cases n)
    case 0
    with lead show ?thesis by (simp add: string_of_runes_def)
  next
    case (Suc m)
    let ?k = "rune_size (c # cs) - 1"
    have k: "rune_size (c # cs) = Suc ?k" using rune_size_pos [of "c # cs"] by simp
    have "string_of_runes (take n (runes (c # cs))) = take (rune_size (c # cs)) (c # cs) @ char_prefix m (drop ?k cs)"
      using 2 Suc first_rune_bytes [of c cs] by (simp add: string_of_runes_def)
    also have "\<dots> = c # char_prefix m (take ?k cs @ drop ?k cs)"
      unfolding char_prefix_conts [OF rune_tail] by (subst (1) k) simp
    finally show ?thesis using lead Suc by simp
  qed
qed (simp add: string_of_runes_def)

lemma char_prefix_all: "valid_utf8 s \<Longrightarrow> length (runes s) \<le> n \<Longrightarrow> char_prefix n s = s"
  using char_prefix_runes [of s n] runes_roundtrip [of s] by simp

end
