(* ===== verification/Float64.thy ===== *)
theory Float64
  imports Prelude "HOL-Library.Log_Nat"
begin

text \<open>
  The arithmetic of Go's \<open>float64\<close> as far as the code relies on it: a finite value is a rational
  that 53 bits and an exponent can represent, and the result of an operation is the exact one
  rounded to the nearest such value, to the even one between two. \<open>None\<close> is a result beyond the
  range, an infinity.
\<close>

definition is64 :: "rat \<Rightarrow> bool" where
  "is64 r \<longleftrightarrow> (\<exists>(m::int) e. r = of_int m * 2 powi e \<and> \<bar>m\<bar> < 2 ^ 53 \<and> - 1074 \<le> e \<and> e \<le> 971)"

text \<open>The exponent of the leading bit of a positive rational.\<close>

definition flog2 :: "rat \<Rightarrow> int" where
  "flog2 q = (let (a, b) = quotient_of q; k = bitlen a - bitlen b in if 2 powi k \<le> q then k else k - 1)"

text \<open>To the nearest integer, half to even.\<close>

definition nearest_even :: "rat \<Rightarrow> int" where
  "nearest_even x =
     (let n = \<lfloor>x\<rfloor>; d = x - of_int n in if d < 1 / 2 \<or> d = 1 / 2 \<and> even n then n else n + 1)"

definition last_place :: "rat \<Rightarrow> int" where
  "last_place q = max (flog2 \<bar>q\<bar> - 52) (- 1074)"

definition round64 :: "rat \<Rightarrow> rat option" where
  "round64 q =
     (if q = 0 then Some 0
      else let u = 2 powi last_place q; r = of_int (nearest_even (q / u)) * u
           in if 2 ^ 1024 \<le> \<bar>r\<bar> then None else Some r)"

section \<open>Rounding to an integer\<close>

lemma nearest_even_int [simp]: "nearest_even (of_int n) = n"
  by (simp add: nearest_even_def)

lemma nearest_even_error: "\<bar>x - of_int (nearest_even x)\<bar> \<le> 1 / 2"
proof -
  have "of_int \<lfloor>x\<rfloor> \<le> x" "x < of_int \<lfloor>x\<rfloor> + 1" by linarith+
  then show ?thesis unfolding nearest_even_def Let_def by auto
qed

lemma nearest_even_best: "\<bar>x - of_int (nearest_even x)\<bar> \<le> \<bar>x - of_int k\<bar>"
proof (cases "k = nearest_even x")
  case False
  then have "1 \<le> \<bar>k - nearest_even x\<bar>" by linarith
  then have "(1::rat) \<le> \<bar>of_int k - of_int (nearest_even x)\<bar>"
    by (metis of_int_1_le_iff of_int_abs of_int_diff)
  with nearest_even_error [of x] show ?thesis by linarith
qed simp

section \<open>The leading bit\<close>

lemma two_add: "(2::rat) powi (a + b) = 2 powi a * 2 powi b"
  by (simp add: power_int_add)

lemma two_pos [simp]: "0 < (2::rat) powi a"
  by simp

lemma two_le [simp]: "(2::rat) powi a \<le> 2 powi b \<longleftrightarrow> a \<le> b"
proof
  show "a \<le> b" if "(2::rat) powi a \<le> 2 powi b"
  proof (rule ccontr)
    assume "\<not> a \<le> b"
    then have "(2::rat) powi b < 2 powi a" by (intro power_int_strict_increasing) simp_all
    with that show False by simp
  qed
  show "a \<le> b \<Longrightarrow> (2::rat) powi a \<le> 2 powi b" by (rule power_int_increasing) simp_all
qed

lemma two_less [simp]: "(2::rat) powi a < 2 powi b \<longleftrightarrow> a < b"
  by (simp add: not_le [symmetric])

lemma two_nat: "0 \<le> a \<Longrightarrow> (2::rat) powi a = of_int (2 ^ nat a)"
  by (simp add: power_int_nonneg_exp)

lemma flog2_bounds:
  assumes "0 < q"
  shows "2 powi flog2 q \<le> q" "q < 2 powi (flog2 q + 1)"
proof -
  obtain a b where ab: "quotient_of q = (a, b)" by fastforce
  then have b: "0 < b" by (rule quotient_of_denom_pos)
  have q: "q = of_int a / of_int b" using ab by (rule quotient_of_div)
  with assms b have a: "0 < a" by (simp add: zero_less_divide_iff)
  let ?k = "bitlen a - bitlen b"
  have bl: "2 powi (bitlen x - 1) \<le> (of_int x :: rat)" "(of_int x :: rat) < 2 powi bitlen x" if "0 < x" for x
  proof -
    have "1 \<le> bitlen x" using that by (simp add: bitlen_ge_iff_power)
    then show "2 powi (bitlen x - 1) \<le> (of_int x :: rat)" "(of_int x :: rat) < 2 powi bitlen x"
      using bitlen_bounds [OF that] by (simp_all only: two_nat of_int_le_iff of_int_less_iff)
  qed
  have bp: "0 < (of_int b :: rat)" using b by simp
  have "(2::rat) powi (?k - 1) * of_int b \<le> 2 powi (?k - 1) * 2 powi bitlen b"
    using bl(2) [OF b] by (intro mult_left_mono) simp_all
  also have "\<dots> = 2 powi (bitlen a - 1)" by (simp flip: two_add)
  also have "\<dots> \<le> of_int a" by (rule bl(1) [OF a])
  finally have lo: "2 powi (?k - 1) \<le> q" using bp unfolding q by (simp only: pos_le_divide_eq)
  have "(of_int a :: rat) < 2 powi bitlen a" by (rule bl(2) [OF a])
  also have "\<dots> = 2 powi (?k + 1) * 2 powi (bitlen b - 1)" by (simp flip: two_add)
  also have "\<dots> \<le> 2 powi (?k + 1) * of_int b"
    using bl(1) [OF b] by (intro mult_left_mono) simp_all
  finally have hi: "q < 2 powi (?k + 1)" using bp unfolding q by (simp only: pos_divide_less_eq)
  have f: "flog2 q = (if 2 powi ?k \<le> q then ?k else ?k - 1)" by (simp add: flog2_def ab)
  show "2 powi flog2 q \<le> q" "q < 2 powi (flog2 q + 1)" using lo hi unfolding f by auto
qed

lemma flog2_le: "0 < q \<Longrightarrow> q < 2 powi (e + 1) \<Longrightarrow> flog2 q \<le> e"
proof -
  assume "0 < q" "q < 2 powi (e + 1)"
  with le_less_trans [OF flog2_bounds(1)] have "(2::rat) powi flog2 q < 2 powi (e + 1)" by blast
  then show ?thesis by simp
qed

section \<open>Rounding to 53 bits\<close>

text \<open>The quotient by the last place, and the integer it is rounded to.\<close>

lemma scaled_bounds:
  assumes "q \<noteq> 0"
  defines "u \<equiv> 2 powi last_place q"
  shows "\<bar>q / u\<bar> < 2 ^ 53" "- 1074 < last_place q \<Longrightarrow> 2 ^ 52 \<le> \<bar>q / u\<bar>"
proof -
  let ?e = "flog2 \<bar>q\<bar>"
  have q: "2 powi ?e \<le> \<bar>q\<bar>" "\<bar>q\<bar> < 2 powi (?e + 1)" using flog2_bounds [of "\<bar>q\<bar>"] assms(1) by simp_all
  have u: "0 < u" by (simp add: u_def)
  have "(2::rat) powi (?e + 1) \<le> 2 powi (53 + last_place q)" unfolding two_le last_place_def by simp
  also have "\<dots> = 2 ^ 53 * u" by (simp only: two_add u_def) simp
  finally have "\<bar>q\<bar> < 2 ^ 53 * u" using q(2) by simp
  then show "\<bar>q / u\<bar> < 2 ^ 53" using u by (simp add: pos_divide_less_eq)
  show "2 ^ 52 \<le> \<bar>q / u\<bar>" if "- 1074 < last_place q"
  proof -
    from that have "?e = 52 + last_place q" by (simp add: last_place_def)
    then have "2 powi ?e = 2 ^ 52 * u" by (simp only: two_add u_def) simp
    with q(1) have "2 ^ 52 * u \<le> \<bar>q\<bar>" by simp
    then show ?thesis using u by (simp add: pos_le_divide_eq)
  qed
qed

lemma nearest_even_bounds:
  "\<bar>x\<bar> < 2 ^ 53 \<Longrightarrow> \<bar>nearest_even x\<bar> \<le> 2 ^ 53" "2 ^ 52 \<le> \<bar>x\<bar> \<Longrightarrow> 2 ^ 52 \<le> \<bar>nearest_even x\<bar>"
proof -
  note e = nearest_even_error [of x]
  show "\<bar>nearest_even x\<bar> \<le> 2 ^ 53" if "\<bar>x\<bar> < 2 ^ 53"
  proof -
    have "(of_int \<bar>nearest_even x\<bar> :: rat) < of_int (2 ^ 53 + 1)" using e that by (simp, linarith)
    then show ?thesis unfolding of_int_less_iff by simp
  qed
  show "2 ^ 52 \<le> \<bar>nearest_even x\<bar>" if "2 ^ 52 \<le> \<bar>x\<bar>"
  proof -
    have "(of_int (2 ^ 52 - 1) :: rat) < of_int \<bar>nearest_even x\<bar>" using e that by (simp, linarith)
    then show ?thesis unfolding of_int_less_iff by simp
  qed
qed

lemma round64_eq:
  assumes "q \<noteq> 0" "round64 q = Some r"
  shows "r = of_int (nearest_even (q / 2 powi last_place q)) * 2 powi last_place q" "\<bar>r\<bar> < 2 ^ 1024"
  using assms by (auto simp: round64_def Let_def split: if_splits)

lemma zero_is64 [simp]: "is64 0"
  unfolding is64_def by (intro exI [of _ 0]) simp

text \<open>The result is a value of the type.\<close>

lemma round64_is64:
  assumes "round64 q = Some r"
  shows "is64 r"
proof (cases "q = 0")
  case True
  with assms show ?thesis by (simp add: round64_def)
next
  case False
  let ?l = "last_place q" and ?n = "nearest_even (q / 2 powi last_place q)"
  have r: "r = of_int ?n * 2 powi ?l" "\<bar>r\<bar> < 2 ^ 1024" using round64_eq [OF False assms] by simp_all
  have n: "\<bar>?n\<bar> \<le> 2 ^ 53" "- 1074 < ?l \<Longrightarrow> 2 ^ 52 \<le> \<bar>?n\<bar>"
    using scaled_bounds [OF False] nearest_even_bounds by simp_all
  have abs: "\<bar>r\<bar> = of_int \<bar>?n\<bar> * 2 powi ?l" by (simp add: r(1) abs_mult)
  have top: "?l + k < 1024" if "2 ^ nat k \<le> \<bar>?n\<bar>" "0 \<le> k" for k
  proof -
    have "(2::rat) powi (k + ?l) = of_int (2 ^ nat k) * 2 powi ?l" using that(2) by (simp only: two_add two_nat)
    also have "\<dots> \<le> \<bar>r\<bar>" unfolding abs by (intro mult_right_mono) (simp_all only: of_int_le_iff that(1), simp)
    also have "\<dots> < 2 powi 1024" using r(2) by simp
    finally show ?thesis unfolding two_less by simp
  qed
  have l: "- 1074 \<le> ?l" by (simp add: last_place_def)
  show ?thesis
  proof (cases "\<bar>?n\<bar> = 2 ^ 53")
    case True
    then have "?n = sgn ?n * 2 ^ 52 * 2" by (simp add: sgn_if abs_if split: if_splits)
    then have "(of_int ?n :: rat) = of_int (sgn ?n * 2 ^ 52) * 2" by (metis of_int_mult of_int_numeral)
    then have "r = of_int (sgn ?n * 2 ^ 52) * 2 powi (1 + ?l)" unfolding r(1) two_add by simp
    moreover have "\<bar>sgn ?n * 2 ^ 52\<bar> < 2 ^ 53" by (simp add: abs_mult abs_sgn_eq)
    moreover have "1 + ?l \<le> 971" using top [of 53] True by simp
    ultimately show ?thesis unfolding is64_def using l by (intro exI conjI) (assumption | simp)+
  next
    case False
    with n(1) have "\<bar>?n\<bar> < 2 ^ 53" by simp
    moreover have "?l \<le> 971" using top [of 52] n(2) l by (cases "- 1074 < ?l") simp_all
    ultimately show ?thesis unfolding is64_def using r(1) l by blast
  qed
qed

text \<open>A value of the type is not changed.\<close>

lemma round64_id:
  assumes "is64 r"
  shows "round64 r = Some r"
proof (cases "r = 0")
  case True
  then show ?thesis by (simp add: round64_def)
next
  case False
  from assms obtain m e where r: "r = of_int m * 2 powi e" "\<bar>m\<bar> < 2 ^ 53" "- 1074 \<le> e" "e \<le> 971" by (auto simp: is64_def)
  have m: "(of_int \<bar>m\<bar> :: rat) < 2 ^ 53" using r(2) by (metis of_int_less_iff of_int_numeral of_int_power)
  have abs: "\<bar>r\<bar> = of_int \<bar>m\<bar> * 2 powi e" by (simp add: r(1) abs_mult)
  also have "\<dots> < 2 ^ 53 * 2 powi e" using m by (intro mult_strict_right_mono) simp_all
  also have "\<dots> = 2 powi (53 + e)" by (simp only: two_add) simp
  finally have lt: "\<bar>r\<bar> < 2 powi (52 + e + 1)" by (simp add: algebra_simps)
  then have "flog2 \<bar>r\<bar> \<le> 52 + e" using False by (intro flog2_le) simp_all
  with r(3) have l: "last_place r \<le> e" by (simp add: last_place_def)
  have "(2::rat) powi e = 2 powi (e - last_place r) * 2 powi last_place r" by (simp flip: two_add)
  then have s: "r = of_int (m * 2 ^ nat (e - last_place r)) * 2 powi last_place r"
    using l by (simp add: r(1) two_nat)
  then have "r / 2 powi last_place r = of_int (m * 2 ^ nat (e - last_place r))" by (simp add: field_simps)
  then have "of_int (nearest_even (r / 2 powi last_place r)) * 2 powi last_place r = r"
    by (simp only: nearest_even_int s [symmetric])
  moreover have "\<bar>r\<bar> < 2 ^ 1024"
  proof -
    have "(2::rat) powi (52 + e + 1) \<le> 2 powi 1024" unfolding two_le using r(4) by simp
    with lt show ?thesis by simp
  qed
  ultimately show ?thesis using False by (simp add: round64_def Let_def)
qed

text \<open>No value of the type is nearer.\<close>

lemma round64_nearest:
  assumes "round64 q = Some r" "is64 s"
  shows "\<bar>q - r\<bar> \<le> \<bar>q - s\<bar>"
proof (cases "q = 0")
  case True
  with assms(1) show ?thesis by (simp add: round64_def)
next
  case False
  let ?l = "last_place q" and ?u = "(2::rat) powi last_place q"
  note r = round64_eq(1) [OF False assms(1)]
  have multiple: "\<bar>q - r\<bar> \<le> \<bar>q - of_int k * ?u\<bar>" for k
  proof -
    have "\<bar>q / ?u - of_int (nearest_even (q / ?u))\<bar> * ?u \<le> \<bar>q / ?u - of_int k\<bar> * ?u"
      by (intro mult_right_mono nearest_even_best) simp
    moreover have "\<bar>q / ?u - x\<bar> * ?u = \<bar>q - x * ?u\<bar>" for x
    proof -
      have "\<bar>q / ?u - x\<bar> * ?u = \<bar>(q / ?u - x) * ?u\<bar>" by (simp add: abs_mult)
      then show ?thesis by (simp add: left_diff_distrib)
    qed
    ultimately show ?thesis by (simp only: r)
  qed
  from assms(2) obtain m e where s: "s = of_int m * 2 powi e" "\<bar>m\<bar> < 2 ^ 53" "- 1074 \<le> e" by (auto simp: is64_def)
  show ?thesis
  proof (cases "?l \<le> e")
    case True
    have "(2::rat) powi e = 2 powi (e - ?l) * ?u" by (simp flip: two_add)
    then have "s = of_int (m * 2 ^ nat (e - ?l)) * ?u" using True by (simp add: s(1) two_nat)
    then show ?thesis using multiple by metis
  next
    case small: False
    with s(3) have l: "?l = flog2 \<bar>q\<bar> - 52" by (simp add: last_place_def)
    have m: "(of_int \<bar>m\<bar> :: rat) < 2 ^ 53" using s(2) by (metis of_int_less_iff of_int_numeral of_int_power)
    have "\<bar>s\<bar> = of_int \<bar>m\<bar> * 2 powi e" by (simp add: s(1) abs_mult)
    also have "\<dots> < 2 ^ 53 * 2 powi e" using m by (intro mult_strict_right_mono) simp_all
    also have "\<dots> = 2 powi (53 + e)" by (simp only: two_add) simp
    also have "\<dots> \<le> 2 powi flog2 \<bar>q\<bar>" unfolding two_le using small l by simp
    finally have s': "\<bar>s\<bar> < 2 powi flog2 \<bar>q\<bar>" .
    let ?t = "sgn q * 2 powi flog2 \<bar>q\<bar>"
    have "(2::rat) powi (52 + (flog2 \<bar>q\<bar> - 52)) = 2 ^ 52 * ?u" unfolding two_add l by simp
    then have "(2::rat) powi flog2 \<bar>q\<bar> = 2 ^ 52 * ?u" by simp
    then have "?t = of_int ((if q < 0 then - 1 else 1) * 2 ^ 52) * ?u" using False by (simp add: sgn_if)
    then have "\<bar>q - r\<bar> \<le> \<bar>q - ?t\<bar>" using multiple by metis
    also have "\<bar>q - ?t\<bar> \<le> \<bar>q - s\<bar>"
      using s' flog2_bounds(1) [of "\<bar>q\<bar>"] False by (auto simp: sgn_if abs_if split: if_splits)
    finally show ?thesis .
  qed
qed

text \<open>Beyond 52 bits there is no fraction left, and the distance to an integer is a value of the type.\<close>

lemma round64_large:
  assumes "2 ^ 52 \<le> \<bar>q\<bar>" "round64 q = Some r"
  shows "\<exists>n::int. r = of_int n"
proof -
  have q: "q \<noteq> 0" using assms(1) by auto
  have "\<not> flog2 \<bar>q\<bar> < 52"
  proof
    assume "flog2 \<bar>q\<bar> < 52"
    then have "(2::rat) powi (flog2 \<bar>q\<bar> + 1) \<le> 2 powi 52" unfolding two_le by simp
    with flog2_bounds(2) [of "\<bar>q\<bar>"] q assms(1) show False by simp
  qed
  then have "0 \<le> last_place q" by (simp add: last_place_def)
  then have "r = of_int (nearest_even (q / 2 powi last_place q) * 2 ^ nat (last_place q))"
    using round64_eq(1) [OF q assms(2)] by (simp add: two_nat)
  then show ?thesis by blast
qed

lemma is64_distance:
  assumes "is64 r" "\<bar>r - of_int n\<bar> \<le> 1 / 2" "\<bar>r - of_int n\<bar> \<le> \<bar>r\<bar>"
  shows "is64 (r - of_int n)"
proof -
  from assms(1) obtain m e where r: "r = of_int m * 2 powi e" "\<bar>m\<bar> < 2 ^ 53" "- 1074 \<le> e" "e \<le> 971" by (auto simp: is64_def)
  show ?thesis
  proof (cases "0 \<le> e")
    case True
    then have i: "r - of_int n = of_int (m * 2 ^ nat e - n)" by (simp add: r(1) two_nat)
    with assms(2) have "\<bar>m * 2 ^ nat e - n\<bar> < 1" by linarith
    then show ?thesis unfolding i by simp
  next
    case False
    let ?m = "m - n * 2 ^ nat (- e)"
    have "(2::rat) powi (- e) * 2 powi e = 1" by (simp flip: two_add)
    then have d: "r - of_int n = of_int ?m * 2 powi e" using False by (simp add: r(1) two_nat left_diff_distrib mult.assoc)
    have abs: "\<bar>of_int k * (2::rat) powi e\<bar> = of_int \<bar>k\<bar> * 2 powi e" for k by (simp add: abs_mult)
    from assms(3) have "of_int \<bar>?m\<bar> * (2::rat) powi e \<le> of_int \<bar>m\<bar> * 2 powi e" unfolding d unfolding r(1) abs .
    then have "\<bar>?m\<bar> \<le> \<bar>m\<bar>" by (simp only: mult_le_cancel_right_pos two_pos of_int_le_iff)
    with r(2) have "\<bar>?m\<bar> < 2 ^ 53" by simp
    with d r(3,4) show ?thesis unfolding is64_def by blast
  qed
qed

lemma is64_int: "\<bar>n\<bar> < 2 ^ 53 \<Longrightarrow> is64 (of_int n)"
  unfolding is64_def by (intro exI [of _ n] exI [of _ 0]) simp

text \<open>\<open>float64\<close> of an integer; those of Go are within the range.\<close>

definition float_of_int :: "int \<Rightarrow> rat" where
  "float_of_int i = (case round64 (of_int i) of Some q \<Rightarrow> q | None \<Rightarrow> of_int i)"

lemma float_of_small [simp]: "\<bar>i\<bar> < 2 ^ 53 \<Longrightarrow> float_of_int i = of_int i"
  by (simp add: float_of_int_def round64_id [OF is64_int])

end
