(* ===== verification/McpLog.thy ===== *)
theory McpLog
  imports Prelude GoStd "HOL-Library.Word"
begin

text \<open>
  The logging model, \<open>src/mcplog/mcplog.go\<close>: the \<open>int8\<close> severity levels with their wire
  names and RFC 5424 severities, and the level-filtering \<open>Logger\<close> that hands its records to
  a caller-supplied sink. A level is the 8-bit word the code keeps, ordered as a signed
  integer, so that values outside the eight constants and the wrap-around of
  \<open>Emergency - l\<close> are part of the model. The sink is a function on a state of the caller's
  choosing.
\<close>

section \<open>Levels\<close>

datatype level = Level (level_word: "8 word")

definition level_int :: "level \<Rightarrow> int" where
  "level_int l = sint (level_word l)"

lemma sint_inject: "sint (a :: 'a::len word) = sint b \<Longrightarrow> a = b"
proof -
  assume "sint a = sint b"
  then have "(scast a :: 'a word) = scast b" by (simp only: scast_eq)
  then show "a = b" by simp
qed

instantiation level :: linorder
begin

definition less_eq_level :: "level \<Rightarrow> level \<Rightarrow> bool" where
  "less_eq_level a b = (level_int a \<le> level_int b)"

definition less_level :: "level \<Rightarrow> level \<Rightarrow> bool" where
  "less_level a b = (level_int a < level_int b)"

instance
proof
  fix x y z :: level
  show "(x < y) = (x \<le> y \<and> \<not> y \<le> x)"
    by (auto simp: less_eq_level_def less_level_def)
  show "x \<le> x" by (simp add: less_eq_level_def)
  show "x \<le> y \<Longrightarrow> y \<le> z \<Longrightarrow> x \<le> z" by (simp add: less_eq_level_def)
  show "x \<le> y \<Longrightarrow> y \<le> x \<Longrightarrow> x = y"
    by (cases x; cases y) (auto simp: less_eq_level_def level_int_def intro: sint_inject)
  show "x \<le> y \<or> y \<le> x" by (auto simp: less_eq_level_def)
qed

end

abbreviation Debug :: level where "Debug \<equiv> Level 0"
abbreviation Info :: level where "Info \<equiv> Level 1"
abbreviation Notice :: level where "Notice \<equiv> Level 2"
abbreviation Warning :: level where "Warning \<equiv> Level 3"
abbreviation Error :: level where "Error \<equiv> Level 4"
abbreviation Critical :: level where "Critical \<equiv> Level 5"
abbreviation Alert :: level where "Alert \<equiv> Level 6"
abbreviation Emergency :: level where "Emergency \<equiv> Level 7"

definition levelNames :: "string list" where
  "levelNames = [''debug'', ''info'', ''notice'', ''warning'', ''error'', ''critical'',
     ''alert'', ''emergency'']"

definition AllLevels :: "level list" where
  "AllLevels = [Debug, Info, Notice, Warning, Error, Critical, Alert, Emergency]"

definition level_IsValid :: "level \<Rightarrow> bool" where
  "level_IsValid l \<longleftrightarrow> Debug \<le> l \<and> l \<le> Emergency"

definition level_String :: "level \<Rightarrow> string" where
  "level_String l =
     (if level_IsValid l then levelNames ! unat (level_word l) else ''unknown'')"

text \<open>\<open>int(Emergency - l)\<close>: the subtraction is that of \<open>int8\<close>.\<close>

definition level_Severity :: "level \<Rightarrow> int" where
  "level_Severity l = sint (level_word Emergency - level_word l)"

definition level_Enabled :: "level \<Rightarrow> level \<Rightarrow> bool" where
  "level_Enabled l lmin \<longleftrightarrow> lmin \<le> l"

definition quoted :: "string \<Rightarrow> string" where
  "quoted s = CHR 0x22 # s @ [CHR 0x22]"

definition level_MarshalJSON :: "level \<Rightarrow> string + string" where
  "level_MarshalJSON l =
     (if \<not> level_IsValid l then Inl (''mcplog: invalid level '' @ itoa (level_int l))
      else Inr (quoted (level_String l)))"

text \<open>The loop of \<open>ParseLevel\<close> over \<open>levelNames\<close>: the first index with that name.\<close>

fun name_index :: "string list \<Rightarrow> string \<Rightarrow> nat \<Rightarrow> nat option" where
  "name_index [] s i = None"
| "name_index (n # ns) s i = (if n = s then Some i else name_index ns s (i + 1))"

definition ParseLevel :: "string \<Rightarrow> level option" where
  "ParseLevel name = map_option (\<lambda>i. Level (word_of_nat i)) (name_index levelNames (to_lower name) 0)"

definition level_UnmarshalJSON :: "string \<Rightarrow> string + level" where
  "level_UnmarshalJSON data =
     (if length data < 2 \<or> data ! 0 \<noteq> CHR 0x22 \<or> data ! (length data - 1) \<noteq> CHR 0x22
      then Inl ''mcplog: level must be a JSON string''
      else case ParseLevel (take (length data - 2) (drop 1 data)) of
             None \<Rightarrow> Inl (''mcplog: unknown level '' @ data)
           | Some l \<Rightarrow> Inr l)"

definition LevelFromSeverity :: "int \<Rightarrow> level" where
  "LevelFromSeverity sev =
     (let s1 = (if sev < 0 then 0 else sev);
          s2 = (if s1 > 7 then 7 else s1)
      in Level (level_word Emergency - word_of_int s2))"

section \<open>The logger\<close>

record log_message =
  msg_level :: level
  msg_logger :: string
  msg_data :: gval

definition NewMessage :: "level \<Rightarrow> string \<Rightarrow> gval \<Rightarrow> log_message" where
  "NewMessage l nm d = \<lparr>msg_level = l, msg_logger = nm, msg_data = d\<rparr>"

text \<open>A sink of \<open>None\<close> is the nil function.\<close>

record 's logger =
  lg_min :: level
  lg_name :: string
  lg_sink :: "(log_message \<Rightarrow> 's \<Rightarrow> 's) option"

definition NewLogger :: "string \<Rightarrow> level \<Rightarrow> (log_message \<Rightarrow> 's \<Rightarrow> 's) option \<Rightarrow> 's logger" where
  "NewLogger nm lmin sink = \<lparr>lg_min = lmin, lg_name = nm, lg_sink = sink\<rparr>"

definition lg_SetLevel :: "'s logger \<Rightarrow> level \<Rightarrow> 's logger" where
  "lg_SetLevel lg lmin = lg\<lparr>lg_min := lmin\<rparr>"

definition lg_Level :: "'s logger \<Rightarrow> level" where
  "lg_Level lg = lg_min lg"

definition lg_Enabled :: "'s logger \<Rightarrow> level \<Rightarrow> bool" where
  "lg_Enabled lg l = level_Enabled l (lg_Level lg)"

definition lg_Log :: "'s logger \<Rightarrow> level \<Rightarrow> gval \<Rightarrow> 's \<Rightarrow> bool \<times> 's" where
  "lg_Log lg l d w =
     (case lg_sink lg of
        None \<Rightarrow> (False, w)
      | Some sink \<Rightarrow>
          if \<not> level_Enabled l (lg_min lg) then (False, w)
          else (True, sink \<lparr>msg_level = l, msg_logger = lg_name lg, msg_data = d\<rparr> w))"

text \<open>\<open>Logf\<close>: the formatted text is the argument.\<close>

definition lg_Logf :: "'s logger \<Rightarrow> level \<Rightarrow> string \<Rightarrow> 's \<Rightarrow> bool \<times> 's" where
  "lg_Logf lg l formatted = lg_Log lg l (GStr formatted)"

definition lg_Debug where "lg_Debug lg d = lg_Log lg Debug d"
definition lg_Info where "lg_Info lg d = lg_Log lg Info d"
definition lg_Notice where "lg_Notice lg d = lg_Log lg Notice d"
definition lg_Warning where "lg_Warning lg d = lg_Log lg Warning d"
definition lg_Err where "lg_Err lg d = lg_Log lg Error d"
definition lg_Critical where "lg_Critical lg d = lg_Log lg Critical d"

text \<open>A client's use of one logger, with the two operations that matter to its filter.\<close>

datatype log_op = OpSetLevel level | OpLog level gval

fun lg_run :: "'s logger \<Rightarrow> log_op list \<Rightarrow> 's \<Rightarrow> bool list \<times> 's logger \<times> 's" where
  "lg_run lg [] w = ([], lg, w)"
| "lg_run lg (OpSetLevel m # ops) w = lg_run (lg_SetLevel lg m) ops w"
| "lg_run lg (OpLog l d # ops) w =
     (let (b, w1) = lg_Log lg l d w; (bs, lg2, w2) = lg_run lg ops w1 in (b # bs, lg2, w2))"

text \<open>What a logger promises: with the threshold \<open>m\<close>, the records of the operations whose
  level reaches the threshold in force when they run.\<close>

fun log_spec :: "string \<Rightarrow> level \<Rightarrow> log_op list \<Rightarrow> log_message list" where
  "log_spec nm m [] = []"
| "log_spec nm m (OpSetLevel m2 # ops) = log_spec nm m2 ops"
| "log_spec nm m (OpLog l d # ops) =
     (if m \<le> l then [NewMessage l nm d] else []) @ log_spec nm m ops"

section \<open>Facts\<close>

lemma level_int_inj: "level_int a = level_int b \<longleftrightarrow> a = b"
  by (cases a; cases b) (auto simp: level_int_def dest: sint_inject)

lemma level_int_range: "- 128 \<le> level_int l" "level_int l < 128"
  using sint_range_size [of "level_word l"] by (auto simp: level_int_def word_size)

lemma sint_small: "0 \<le> i \<Longrightarrow> i < 128 \<Longrightarrow> sint (word_of_int i :: 8 word) = i"
  by (simp add: signed_of_int signed_take_bit_int_eq_self)

lemma level_IsValid_iff: "level_IsValid l \<longleftrightarrow> 0 \<le> level_int l \<and> level_int l \<le> 7"
  using sint_small [of 7] by (simp add: level_IsValid_def less_eq_level_def level_int_def)

lemma level_of_int: "l = Level (word_of_int (level_int l))"
  by (cases l) (simp add: level_int_def)

lemma valid_cases: "level_IsValid l \<longleftrightarrow> l \<in> set AllLevels"
proof
  assume "level_IsValid l"
  then have "level_int l \<in> {0,1,2,3,4,5,6,7}" unfolding level_IsValid_iff by auto
  then show "l \<in> set AllLevels"
    using level_of_int [of l] unfolding AllLevels_def by auto
next
  assume "l \<in> set AllLevels"
  then show "level_IsValid l"
    by (auto simp: AllLevels_def level_IsValid_iff level_int_def)
qed


lemma AllLevels_cases:
  "l \<in> set AllLevels \<longleftrightarrow> l = Debug \<or> l = Info \<or> l = Notice \<or> l = Warning \<or> l = Error
     \<or> l = Critical \<or> l = Alert \<or> l = Emergency"
  by (simp add: AllLevels_def)

lemmas valid_level = valid_cases AllLevels_cases

lemma level_String_valid:
  "level_IsValid l \<Longrightarrow> level_String l = levelNames ! unat (level_word l)"
  by (simp add: level_String_def)

lemma ParseLevel_String: "level_IsValid l \<Longrightarrow> ParseLevel (level_String l) = Some l"
proof -
  assume v: "level_IsValid l"
  have "to_lower (levelNames ! unat (level_word l)) = levelNames ! unat (level_word l)
    \<and> name_index levelNames (levelNames ! unat (level_word l)) 0 = Some (unat (level_word l))"
    using v unfolding valid_level
    by (elim disjE) (simp_all add: levelNames_def to_lower_def lower_def less_eq_char_def)
  then show ?thesis
    using v by (simp add: level_String_valid ParseLevel_def)
qed

lemma name_index_Some:
  "name_index ns s i = Some j \<Longrightarrow> i \<le> j \<and> j < i + length ns \<and> ns ! (j - i) = s"
proof (induction ns arbitrary: i)
  case Nil
  then show ?case by simp
next
  case (Cons n ns)
  show ?case
  proof (cases "n = s")
    case True
    with Cons.prems show ?thesis by simp
  next
    case False
    with Cons.prems have "name_index ns s (i + 1) = Some j" by simp
    from Cons.IH [OF this] show ?thesis by (auto simp: nth_Cons' Suc_diff_le)
  qed
qed

lemma ParseLevel_Some:
  assumes "ParseLevel nm = Some l"
  shows "level_IsValid l \<and> level_String l = to_lower nm"
proof -
  from assms obtain j where j: "name_index levelNames (to_lower nm) 0 = Some j"
      and l: "l = Level (word_of_nat j)"
    by (auto simp: ParseLevel_def)
  from name_index_Some [OF j] have b: "j < 8" and nm: "levelNames ! j = to_lower nm"
    by (auto simp: levelNames_def)
  from b have "j = 0 \<or> j = 1 \<or> j = 2 \<or> j = 3 \<or> j = 4 \<or> j = 5 \<or> j = 6 \<or> j = 7" by arith
  then have "l \<in> set AllLevels \<and> unat (level_word l) = j"
    unfolding AllLevels_cases l by (elim disjE) simp_all
  then show ?thesis using nm by (simp add: valid_cases level_String_valid)
qed

lemma quoted_inner: "take (length (quoted s) - 2) (drop 1 (quoted s)) = s"
  by (simp add: quoted_def)

lemma unmarshal_quoted:
  "level_UnmarshalJSON (quoted s) =
     (case ParseLevel s of None \<Rightarrow> Inl (''mcplog: unknown level '' @ quoted s) | Some l \<Rightarrow> Inr l)"
proof -
  have "\<not> length (quoted s) < 2" "quoted s ! 0 = CHR 0x22" "quoted s ! (length (quoted s) - 1) = CHR 0x22"
    by (simp_all add: quoted_def nth_append)
  then show ?thesis
    unfolding level_UnmarshalJSON_def by (simp only: quoted_inner simp_thms if_False not_True_eq_False)
qed

lemma lg_run_spec:
  assumes "lg_sink lg = Some (\<lambda>m ms. ms @ [m])"
  shows "snd (snd (lg_run lg ops w)) = w @ log_spec (lg_name lg) (lg_min lg) ops
    \<and> length (fst (lg_run lg ops w)) = length (filter (\<lambda>x. case x of OpLog _ _ \<Rightarrow> True | _ \<Rightarrow> False) ops)"
  using assms
proof (induction lg ops w rule: lg_run.induct)
  case (1 lg w)
  then show ?case by simp
next
  case (2 lg m ops w)
  then show ?case by (simp add: lg_SetLevel_def)
next
  case (3 lg l d ops w)
  obtain b w1 where lg1: "lg_Log lg l d w = (b, w1)" by fastforce
  obtain bs lg2 w2 where r: "lg_run lg ops w1 = (bs, lg2, w2)" by (metis prod_cases3)
  from "3.IH" [OF lg1 [symmetric] refl "3.prems"] lg1 r "3.prems" show ?case
    by (auto simp: lg_Log_def level_Enabled_def NewMessage_def split: if_splits)
qed

section \<open>The wire name is a codec\<close>

interpretation level_json: codec
  "\<lambda>l. case level_MarshalJSON l of Inl _ \<Rightarrow> [] | Inr s \<Rightarrow> s"
  "\<lambda>s. case level_UnmarshalJSON s of Inl _ \<Rightarrow> None | Inr l \<Rightarrow> Some l"
  level_IsValid
  by unfold_locales (simp add: level_MarshalJSON_def unmarshal_quoted ParseLevel_String)

section \<open>Properties\<close>

text \<open>
  Encoding a level and decoding it. \<open>MarshalJSON\<close> fails exactly on the levels
  outside the eight constants; what it writes for the others reads back as that level, in
  whatever case the name is written, and two levels with one encoding are one level.
\<close>

theorem level_json_roundtrip:
  "(level_MarshalJSON l = Inl e \<longrightarrow> \<not> level_IsValid l) \<and>
   (level_MarshalJSON l = Inr s \<longrightarrow>
      level_IsValid l \<and> level_UnmarshalJSON s = Inr l
      \<and> (to_lower t = level_String l \<longrightarrow> level_UnmarshalJSON (quoted t) = Inr l)
      \<and> (level_MarshalJSON l2 = Inr s \<longrightarrow> l2 = l))"
proof -
  have 1: "ParseLevel t = Some l" if "level_IsValid l" "to_lower t = level_String l"
  proof -
    have "to_lower (level_String l) = level_String l" using that(2) to_lower_idem [of t] by simp
    with that ParseLevel_String [OF that(1)] show ?thesis by (simp add: ParseLevel_def)
  qed
  have 2: "level_UnmarshalJSON s = Inr l2" if "level_MarshalJSON l2 = Inr s" for l2
    using that by (auto simp: level_MarshalJSON_def unmarshal_quoted ParseLevel_String split: if_splits)
  show ?thesis
    using 1 2 [of l2] 2 [of l]
    by (auto simp: level_MarshalJSON_def unmarshal_quoted split: if_splits)
qed

theorem level_json_roundtrip_witness:
  "level_UnmarshalJSON (quoted ''WaRning'') = Inr Warning"
proof -
  have "level_MarshalJSON Warning = Inr (quoted ''warning'')" by code_simp
  moreover have "to_lower ''WaRning'' = level_String Warning" by code_simp
  ultimately show ?thesis using level_json_roundtrip [of Warning] by blast
qed

text \<open>
  \<open>Severity\<close> and \<open>LevelFromSeverity\<close>. On the eight levels they invert each
  other and reverse the order; any integer severity is clamped to 0..7 first, and the level
  returned is always one of the eight. Outside the eight levels the \<open>int8\<close> subtraction
  wraps.
\<close>

theorem severity_roundtrip:
  "level_IsValid (LevelFromSeverity sev)
   \<and> level_Severity (LevelFromSeverity sev) = max 0 (min 7 sev)
   \<and> (level_IsValid a \<longrightarrow> LevelFromSeverity (level_Severity a) = a)
   \<and> (level_IsValid a \<and> level_IsValid b \<longrightarrow> (level_Enabled a b \<longleftrightarrow> level_Severity a \<le> level_Severity b))
   \<and> level_Severity (Level (word_of_int (- 128))) = - 121"
proof (intro conjI impI)
  have cases: "LevelFromSeverity sev = Level (7 - word_of_int (max 0 (min 7 sev)))"
    by (auto simp: LevelFromSeverity_def Let_def max_def min_def)
  obtain s where s: "max 0 (min 7 sev) = s" by blast
  from s have "s = 0 \<or> s = 1 \<or> s = 2 \<or> s = 3 \<or> s = 4 \<or> s = 5 \<or> s = 6 \<or> s = 7" by linarith
  then have "LevelFromSeverity sev \<in> set AllLevels \<and> level_Severity (LevelFromSeverity sev) = s"
    unfolding cases s AllLevels_cases level_Severity_def by (elim disjE) simp_all
  then show "level_IsValid (LevelFromSeverity sev)"
    and "level_Severity (LevelFromSeverity sev) = max 0 (min 7 sev)"
    by (simp_all add: valid_cases s)
  show "LevelFromSeverity (level_Severity a) = a" if "level_IsValid a"
    using that unfolding valid_level
    by (elim disjE) (simp_all add: level_Severity_def LevelFromSeverity_def)
  show "level_Enabled a b \<longleftrightarrow> level_Severity a \<le> level_Severity b"
    if "level_IsValid a \<and> level_IsValid b"
    using that unfolding valid_level level_Enabled_def less_eq_level_def
    by (elim conjE disjE) (simp_all add: level_Severity_def level_int_def)
  show "level_Severity (Level (word_of_int (- 128))) = - 121"
    by (simp add: level_Severity_def)
qed

theorem severity_roundtrip_witness:
  "LevelFromSeverity (level_Severity Alert) = Alert"
  using severity_roundtrip [of 0 Alert Alert] by (simp add: level_IsValid_iff level_int_def)

text \<open>
  What a sink sees. Whatever the client does with a logger, the records that
  reach the sink are, in order, those of the log calls at or above the threshold in force at
  the call, each with the logger's name.
\<close>

theorem logger_trace:
  "snd (snd (lg_run (NewLogger nm m (Some (\<lambda>r rs. rs @ [r]))) ops []))
     = log_spec nm m ops"
  using lg_run_spec [of "NewLogger nm m (Some (\<lambda>r rs. rs @ [r]))" ops "[]"]
  by (simp add: NewLogger_def)

end
