(* ===== verification/McpError.thy ===== *)
theory McpError
  imports Prelude GoStd
begin

text \<open>
  The error taxonomy, \<open>src/mcperror/mcperror.go\<close>: the JSON-RPC and MCP codes, the \<open>Error\<close>
  type with its constructors, and the conversion of an arbitrary Go error. A Go error is the
  tree its \<open>Unwrap\<close> methods span; \<open>errors.As\<close> walks it depth first. The text \<open>%v\<close> gives
  to structured data is the parameter \<open>fmtv\<close>.
\<close>

section \<open>Codes and errors\<close>

definition CodeParseError :: int where "CodeParseError = - 32700"
definition CodeInvalidRequest :: int where "CodeInvalidRequest = - 32600"
definition CodeMethodNotFound :: int where "CodeMethodNotFound = - 32601"
definition CodeInvalidParams :: int where "CodeInvalidParams = - 32602"
definition CodeInternalError :: int where "CodeInternalError = - 32603"
definition CodeResourceNotFound :: int where "CodeResourceNotFound = - 32002"
definition CodeRequestCancelled :: int where "CodeRequestCancelled = - 32800"
definition CodeRequestTimeout :: int where "CodeRequestTimeout = - 32001"

lemmas code_defs = CodeParseError_def CodeInvalidRequest_def CodeMethodNotFound_def
  CodeInvalidParams_def CodeInternalError_def CodeResourceNotFound_def
  CodeRequestCancelled_def CodeRequestTimeout_def

record mcp_error =
  e_code :: int
  e_message :: string
  e_data :: gval

text \<open>An error value: an \<open>*Error\<close>, one with a text only, one that wraps another (\<open>%w\<close>),
  one that wraps several (\<open>errors.Join\<close>).\<close>

datatype go_err =
    EMcp mcp_error
  | EText string
  | EWrap string go_err
  | EJoin string "go_err list"

fun errors_As :: "go_err \<Rightarrow> mcp_error option" and errors_As_list :: "go_err list \<Rightarrow> mcp_error option" where
  "errors_As (EMcp e) = Some e"
| "errors_As (EText s) = None"
| "errors_As (EWrap s e) = errors_As e"
| "errors_As (EJoin s es) = errors_As_list es"
| "errors_As_list [] = None"
| "errors_As_list (e # es) = (case errors_As e of Some x \<Rightarrow> Some x | None \<Rightarrow> errors_As_list es)"

definition err_Error :: "(gval \<Rightarrow> string) \<Rightarrow> mcp_error \<Rightarrow> string" where
  "err_Error fmtv e =
     (if e_data e \<noteq> GNil
      then ''mcp error '' @ itoa (e_code e) @ '': '' @ e_message e @ '' ('' @ fmtv (e_data e) @ '')''
      else ''mcp error '' @ itoa (e_code e) @ '': '' @ e_message e)"

fun error_text :: "(gval \<Rightarrow> string) \<Rightarrow> go_err \<Rightarrow> string" where
  "error_text fmtv (EMcp e) = err_Error fmtv e"
| "error_text fmtv (EText s) = s"
| "error_text fmtv (EWrap s e) = s"
| "error_text fmtv (EJoin s es) = s"

text \<open>\<open>(*Error).Is\<close>.\<close>

definition err_Is :: "mcp_error \<Rightarrow> go_err \<Rightarrow> bool" where
  "err_Is e target = (case errors_As target of Some t \<Rightarrow> e_code t = e_code e | None \<Rightarrow> False)"

text \<open>\<open>errors.Is(err, t)\<close> for a target that is itself an \<open>*Error\<close>: every node of the tree is
  asked (the identical pointer has the same code, so it is found the same way).\<close>

fun errors_Is :: "go_err \<Rightarrow> mcp_error \<Rightarrow> bool" and errors_Is_list :: "go_err list \<Rightarrow> mcp_error \<Rightarrow> bool" where
  "errors_Is (EMcp e) t = err_Is e (EMcp t)"
| "errors_Is (EText s) t = False"
| "errors_Is (EWrap s e) t = errors_Is e t"
| "errors_Is (EJoin s es) t = errors_Is_list es t"
| "errors_Is_list [] t = False"
| "errors_Is_list (e # es) t = (errors_Is e t \<or> errors_Is_list es t)"

definition err_WithData :: "mcp_error \<Rightarrow> gval \<Rightarrow> mcp_error" where
  "err_WithData e d = \<lparr>e_code = e_code e, e_message = e_message e, e_data = d\<rparr>"

definition err_WithMessage :: "mcp_error \<Rightarrow> string \<Rightarrow> mcp_error" where
  "err_WithMessage e m = \<lparr>e_code = e_code e, e_message = m, e_data = e_data e\<rparr>"

definition err_New :: "int \<Rightarrow> string \<Rightarrow> mcp_error" where
  "err_New c m = \<lparr>e_code = c, e_message = m, e_data = GNil\<rparr>"

definition newDefault :: "int \<Rightarrow> string \<Rightarrow> string \<Rightarrow> mcp_error" where
  "newDefault c m fallback = \<lparr>e_code = c, e_message = (if m = [] then fallback else m), e_data = GNil\<rparr>"

definition ParseError where "ParseError m = newDefault CodeParseError m ''Parse error''"
definition InvalidRequest where "InvalidRequest m = newDefault CodeInvalidRequest m ''Invalid Request''"

definition MethodNotFound :: "string \<Rightarrow> mcp_error" where
  "MethodNotFound m =
     (if m = [] then err_New CodeMethodNotFound ''Method not found''
      else err_New CodeMethodNotFound (''Method not found: '' @ m))"

definition InvalidParams where "InvalidParams m = newDefault CodeInvalidParams m ''Invalid params''"
definition InternalError where "InternalError m = newDefault CodeInternalError m ''Internal error''"

definition ResourceNotFound :: "string \<Rightarrow> mcp_error" where
  "ResourceNotFound uri =
     (let e = err_New CodeResourceNotFound (''Resource not found: '' @ uri)
      in if uri \<noteq> [] then e\<lparr>e_data := GMap [(''uri'', GStr uri)]\<rparr> else e)"

definition RequestCancelled where
  "RequestCancelled m = newDefault CodeRequestCancelled m ''Request cancelled''"
definition RequestTimeout where
  "RequestTimeout m = newDefault CodeRequestTimeout m ''Request timed out''"

definition CodeText :: "int \<Rightarrow> string" where
  "CodeText c =
     (if c = CodeParseError then ''Parse error''
      else if c = CodeInvalidRequest then ''Invalid Request''
      else if c = CodeMethodNotFound then ''Method not found''
      else if c = CodeInvalidParams then ''Invalid params''
      else if c = CodeInternalError then ''Internal error''
      else if c = CodeResourceNotFound then ''Resource not found''
      else if c = CodeRequestCancelled then ''Request cancelled''
      else if c = CodeRequestTimeout then ''Request timed out''
      else if c \<ge> - 32099 \<and> c \<le> - 32000 then ''Server error''
      else ''Unknown error'')"

text \<open>A nil error is \<open>None\<close>.\<close>

definition FromError :: "(gval \<Rightarrow> string) \<Rightarrow> go_err option \<Rightarrow> mcp_error option" where
  "FromError fmtv err =
     (case err of
        None \<Rightarrow> None
      | Some e \<Rightarrow>
          (case errors_As e of
             Some x \<Rightarrow> Some x
           | None \<Rightarrow> Some \<lparr>e_code = CodeInternalError, e_message = error_text fmtv e, e_data = GNil\<rparr>))"

definition err_Code :: "go_err option \<Rightarrow> int" where
  "err_Code err =
     (case err of None \<Rightarrow> 0
      | Some e \<Rightarrow> (case errors_As e of Some x \<Rightarrow> e_code x | None \<Rightarrow> CodeInternalError))"

section \<open>Facts\<close>

text \<open>The \<open>*Error\<close>s of a tree, in the order the walk meets them.\<close>

fun mcp_nodes :: "go_err \<Rightarrow> mcp_error list" and mcp_nodes_list :: "go_err list \<Rightarrow> mcp_error list" where
  "mcp_nodes (EMcp e) = [e]"
| "mcp_nodes (EText s) = []"
| "mcp_nodes (EWrap s e) = mcp_nodes e"
| "mcp_nodes (EJoin s es) = mcp_nodes_list es"
| "mcp_nodes_list [] = []"
| "mcp_nodes_list (e # es) = mcp_nodes e @ mcp_nodes_list es"

definition first_of :: "'a list \<Rightarrow> 'a option" where
  "first_of xs = (case xs of [] \<Rightarrow> None | x # _ \<Rightarrow> Some x)"

lemma first_of_simps [simp]:
  "first_of [] = None" "first_of (x # xs) = Some x"
  "first_of (xs @ ys) = (case first_of xs of Some x \<Rightarrow> Some x | None \<Rightarrow> first_of ys)"
  by (simp_all add: first_of_def split: list.splits)

lemma errors_As_first:
  "errors_As e = first_of (mcp_nodes e)" "errors_As_list es = first_of (mcp_nodes_list es)"
  by (induction e and es rule: errors_As_errors_As_list.induct) (simp_all split: option.splits)

lemma errors_Is_iff:
  "errors_Is e t \<longleftrightarrow> (\<exists>x\<in>set (mcp_nodes e). e_code x = e_code t)"
  "errors_Is_list es t \<longleftrightarrow> (\<exists>x\<in>set (mcp_nodes_list es). e_code x = e_code t)"
  by (induction e and es rule: mcp_nodes_mcp_nodes_list.induct) (auto simp: err_Is_def)

lemma CodeText_ne: "CodeText c \<noteq> []"
  by (simp add: CodeText_def)

lemma CodeText_standard:
  "CodeText CodeParseError = ''Parse error''"
  "CodeText CodeInvalidRequest = ''Invalid Request''"
  "CodeText CodeInvalidParams = ''Invalid params''"
  "CodeText CodeInternalError = ''Internal error''"
  "CodeText CodeRequestCancelled = ''Request cancelled''"
  "CodeText CodeRequestTimeout = ''Request timed out''"
  by (simp_all add: CodeText_def code_defs)

section \<open>Properties\<close>

text \<open>
  Converting an error. \<open>FromError\<close> yields nil for nil only; it gives the first
  \<open>*Error\<close> of the tree, unchanged, when there is one and otherwise an internal error with the
  error's own text; its code is what \<open>Code\<close> reports for any error, and converting what it
  returned changes nothing. \<open>errors.Is\<close> finds every code that occurs in the tree, the code
  \<open>Code\<close> reports among them when the error is not foreign, while \<open>WithData\<close> and
  \<open>WithMessage\<close> keep matching the error they copy.
\<close>

theorem from_error_first:
  "(FromError fmtv err = None \<longleftrightarrow> err = None)
   \<and> (FromError fmtv (Some e) =
        Some (case mcp_nodes e of
                x # _ \<Rightarrow> x
              | [] \<Rightarrow> \<lparr>e_code = CodeInternalError, e_message = error_text fmtv e, e_data = GNil\<rparr>))
   \<and> err_Code (Some e) = e_code (the (FromError fmtv (Some e)))
   \<and> FromError fmtv (map_option EMcp (FromError fmtv err)) = FromError fmtv err
   \<and> (errors_Is e t \<longleftrightarrow> e_code t \<in> e_code ` set (mcp_nodes e))
   \<and> errors_Is (EMcp (err_WithData x d)) x \<and> errors_Is (EMcp (err_WithMessage x m)) x"
proof (intro conjI)
  show "errors_Is e t \<longleftrightarrow> e_code t \<in> e_code ` set (mcp_nodes e)"
    by (auto simp: errors_Is_iff image_iff) (metis)+
  show "err_Code (Some e) = e_code (the (FromError fmtv (Some e)))"
    by (simp add: err_Code_def FromError_def split: option.splits)
qed (auto simp: FromError_def errors_As_first first_of_def err_Is_def err_WithData_def
       err_WithMessage_def split: option.splits list.splits)

text \<open>
  Every constructor sets the code it is named after, and its message is never
  empty: an empty argument gives the canonical name \<open>CodeText\<close> knows the code by. The codes
  are pairwise different, and only \<open>ResourceNotFound\<close> attaches data.
\<close>

theorem constructors_default:
  "e_message (ParseError m) = (if m = [] then CodeText (e_code (ParseError m)) else m)
   \<and> e_message (InvalidRequest m) = (if m = [] then CodeText (e_code (InvalidRequest m)) else m)
   \<and> e_message (InvalidParams m) = (if m = [] then CodeText (e_code (InvalidParams m)) else m)
   \<and> e_message (InternalError m) = (if m = [] then CodeText (e_code (InternalError m)) else m)
   \<and> e_message (RequestCancelled m) = (if m = [] then CodeText (e_code (RequestCancelled m)) else m)
   \<and> e_message (RequestTimeout m) = (if m = [] then CodeText (e_code (RequestTimeout m)) else m)
   \<and> e_message (MethodNotFound m) = CodeText (e_code (MethodNotFound m)) @ (if m = [] then [] else '': '' @ m)
   \<and> e_message (ResourceNotFound m) = CodeText (e_code (ResourceNotFound m)) @ '': '' @ m
   \<and> (e_data (ResourceNotFound m) = GNil \<longleftrightarrow> m = [])
   \<and> distinct (map e_code [ParseError m, InvalidRequest m, MethodNotFound m, InvalidParams m,
        InternalError m, ResourceNotFound m, RequestCancelled m, RequestTimeout m])
   \<and> (CodeText c \<noteq> ''Unknown error'' \<longleftrightarrow>
        c \<in> {CodeParseError, CodeInvalidRequest, CodeMethodNotFound, CodeInvalidParams,
             CodeInternalError, CodeRequestCancelled} \<or> - 32099 \<le> c \<and> c \<le> - 32000)"
  by (simp add: ParseError_def InvalidRequest_def InvalidParams_def InternalError_def
      RequestCancelled_def RequestTimeout_def newDefault_def MethodNotFound_def err_New_def
      ResourceNotFound_def Let_def CodeText_def code_defs)

end
