(* ===== verification/TemplateRegex.thy ===== *)
theory TemplateRegex
  imports Prelude GoStd
begin

text \<open>
  The regular expressions the code compiles from URI templates. All of them have one shape,
  anchored at both ends: quoted literals and one-or-more captures over a class of characters,
  \<open>[^/]+\<close> or \<open>.+\<close>, greedy or lazy. \<open>rmatch\<close> is Go's leftmost-first semantics for that shape:
  the alternatives are tried in the order the quantifier prefers. A byte is a character.
\<close>

datatype cclass = NotSlash | AnyChar

fun in_class :: "cclass \<Rightarrow> char \<Rightarrow> bool" where
  "in_class NotSlash c = (c \<noteq> CHR ''/'')"
| "in_class AnyChar c = (c \<noteq> CHR 0x0A)"

datatype rtok = RLit string | RCap cclass bool

text \<open>The lengths a capture may have, in order of preference (\<open>True\<close>: lazy).\<close>

definition cap_lengths :: "cclass \<Rightarrow> bool \<Rightarrow> string \<Rightarrow> nat list" where
  "cap_lengths c lz s =
     (let ns = [1..<Suc (length (takeWhile (in_class c) s))] in if lz then ns else rev ns)"

fun first_some :: "('a \<Rightarrow> 'b option) \<Rightarrow> 'a list \<Rightarrow> 'b option" where
  "first_some f [] = None"
| "first_some f (x # xs) = (case f x of Some y \<Rightarrow> Some y | None \<Rightarrow> first_some f xs)"

fun rmatch :: "rtok list \<Rightarrow> string \<Rightarrow> string list option" where
  "rmatch [] s = (if s = [] then Some [] else None)"
| "rmatch (RLit l # ts) s = (if has_prefix s l then rmatch ts (drop (length l) s) else None)"
| "rmatch (RCap c lz # ts) s =
     first_some (\<lambda>n. map_option ((#) (take n s)) (rmatch ts (drop n s))) (cap_lengths c lz s)"

text \<open>The string a list of captured values stands for, and the values a token list accepts.\<close>

fun rbuild :: "rtok list \<Rightarrow> string list \<Rightarrow> string" where
  "rbuild [] ms = []"
| "rbuild (RLit l # ts) ms = l @ rbuild ts ms"
| "rbuild (RCap c lz # ts) ms = (case ms of [] \<Rightarrow> [] | m # ms' \<Rightarrow> m @ rbuild ts ms')"

fun rfits :: "rtok list \<Rightarrow> string list \<Rightarrow> bool" where
  "rfits [] ms \<longleftrightarrow> ms = []"
| "rfits (RLit l # ts) ms \<longleftrightarrow> rfits ts ms"
| "rfits (RCap c lz # ts) ms \<longleftrightarrow>
     (case ms of [] \<Rightarrow> False | m # ms' \<Rightarrow> m \<noteq> [] \<and> list_all (in_class c) m \<and> rfits ts ms')"

fun ncaps :: "rtok list \<Rightarrow> nat" where
  "ncaps [] = 0"
| "ncaps (RLit l # ts) = ncaps ts"
| "ncaps (RCap c lz # ts) = Suc (ncaps ts)"

section \<open>Soundness and completeness\<close>

lemma first_some_Some: "first_some f xs = Some y \<Longrightarrow> \<exists>x\<in>set xs. f x = Some y"
  by (induction xs) (auto split: option.splits)

lemma first_some_None: "first_some f xs = None \<longleftrightarrow> (\<forall>x\<in>set xs. f x = None)"
  by (induction xs) (auto split: option.splits)

lemma set_cap_lengths:
  "set (cap_lengths c lz s) = {n. 1 \<le> n \<and> n \<le> length (takeWhile (in_class c) s)}"
  by (auto simp: cap_lengths_def Let_def)

lemma take_in_class:
  "n \<le> length (takeWhile P s) \<Longrightarrow> list_all P (take n s)"
  by (induction s arbitrary: n) (auto simp: take_Cons' split: if_splits)

lemma prefix_in_class: "list_all P m \<Longrightarrow> length m \<le> length (takeWhile P (m @ t))"
  by (induction m) auto

lemma rmatch_sound:
  "rmatch ts s = Some ms \<Longrightarrow> rfits ts ms \<and> rbuild ts ms = s"
proof (induction ts s arbitrary: ms rule: rmatch.induct)
  case (1 s)
  then show ?case by (auto split: if_splits)
next
  case (2 l ts s)
  then show ?case by (auto simp: has_prefix_iff split: if_splits)
next
  case (3 c lz ts s)
  then obtain n ms' where n: "n \<in> set (cap_lengths c lz s)"
      and m: "rmatch ts (drop n s) = Some ms'" and ms: "ms = take n s # ms'"
    by (auto dest!: first_some_Some)
  from "3.IH" [OF m] n ms take_in_class [of n "in_class c" s] show ?case
    by (auto simp: set_cap_lengths)
qed

lemma rmatch_complete:
  "rfits ts ms \<Longrightarrow> rmatch ts (rbuild ts ms) \<noteq> None"
proof (induction ts ms rule: rbuild.induct)
  case (1 ms)
  then show ?case by simp
next
  case (2 l ts ms)
  then show ?case by simp
next
  case (3 c lz ts ms)
  then obtain m ms' where ms: "ms = m # ms'" and m: "m \<noteq> []" "list_all (in_class c) m"
      and fit: "rfits ts ms'"
    by (auto split: list.splits)
  from "3.IH" [OF ms fit] obtain r where r: "rmatch ts (rbuild ts ms') = Some r" by blast
  let ?s = "m @ rbuild ts ms'"
  have "length m \<in> set (cap_lengths c lz ?s)"
    using m prefix_in_class [OF m(2)] by (cases m) (auto simp: set_cap_lengths)
  moreover have "map_option ((#) (take (length m) ?s)) (rmatch ts (drop (length m) ?s)) \<noteq> None"
    using r by simp
  ultimately have "first_some (\<lambda>n. map_option ((#) (take n ?s)) (rmatch ts (drop n ?s)))
      (cap_lengths c lz ?s) \<noteq> None"
    by (metis (no_types, lifting) first_some_None)
  then show ?case using ms by simp
qed

lemma rmatch_iff: "rmatch ts s \<noteq> None \<longleftrightarrow> (\<exists>ms. rfits ts ms \<and> rbuild ts ms = s)"
  using rmatch_sound rmatch_complete by blast

lemma rfits_length: "rfits ts ms \<Longrightarrow> length ms = ncaps ts"
  by (induction ts ms rule: rfits.induct) (auto split: list.splits)

lemma ncaps_append [simp]: "ncaps (ts @ us) = ncaps ts + ncaps us"
  by (induction ts rule: ncaps.induct) auto

lemma rbuild_append:
  "length ms = ncaps ts \<Longrightarrow> rbuild (ts @ us) (ms @ ns) = rbuild ts ms @ rbuild us ns"
  by (induction ts ms rule: rbuild.induct) (auto split: list.splits)

lemma rfits_append:
  "length ms = ncaps ts \<Longrightarrow> rfits (ts @ us) (ms @ ns) \<longleftrightarrow> rfits ts ms \<and> rfits us ns"
  by (induction ts ms rule: rbuild.induct) (auto split: list.splits)

section \<open>Unambiguous token lists\<close>

text \<open>
  Encoded values use only some characters. When every capture is followed by the end or by a
  literal that starts with a character no encoded value of that capture contains, the values
  can be read back in one way only, whatever the quantifiers prefer.
\<close>

fun calph :: "(char \<Rightarrow> bool) \<Rightarrow> cclass \<Rightarrow> char \<Rightarrow> bool" where
  "calph u NotSlash c = u c"
| "calph u AnyChar c = (u c \<or> c = CHR ''/'')"

fun delimited :: "(char \<Rightarrow> bool) \<Rightarrow> rtok list \<Rightarrow> bool" where
  "delimited u [] = True"
| "delimited u (RLit l # ts) = delimited u ts"
| "delimited u (RCap c lz # ts) =
     (delimited u ts \<and>
      (case ts of [] \<Rightarrow> True | RLit [] # _ \<Rightarrow> False | RLit (x # l) # _ \<Rightarrow> \<not> calph u c x | RCap _ _ # _ \<Rightarrow> False))"

fun in_alph :: "(char \<Rightarrow> bool) \<Rightarrow> rtok list \<Rightarrow> string list \<Rightarrow> bool" where
  "in_alph u [] ms = True"
| "in_alph u (RLit l # ts) ms = in_alph u ts ms"
| "in_alph u (RCap c lz # ts) ms =
     (case ms of [] \<Rightarrow> True | m # ms' \<Rightarrow> list_all (calph u c) m \<and> in_alph u ts ms')"

lemma in_alph_append:
  "length ms = ncaps ts \<Longrightarrow> in_alph u (ts @ us) (ms @ ns) \<longleftrightarrow> in_alph u ts ms \<and> in_alph u us ns"
  by (induction ts ms rule: rbuild.induct) (auto split: list.splits)

definition outside :: "(char \<Rightarrow> bool) \<Rightarrow> string \<Rightarrow> string" where
  "outside u s = filter (\<lambda>c. \<not> u c \<and> c \<noteq> CHR ''/'') s"

lemma outside_append [simp]: "outside u (s @ t) = outside u s @ outside u t"
  by (simp add: outside_def)

lemma outside_in_alph: "list_all (calph u c) m \<Longrightarrow> outside u m = []"
  by (induction m) (cases c; auto simp: outside_def)+

lemma outside_fixed:
  "rfits ts ms \<Longrightarrow> rfits ts ms' \<Longrightarrow> in_alph u ts ms \<Longrightarrow>
     length (outside u (rbuild ts ms)) \<le> length (outside u (rbuild ts ms'))"
proof (induction ts ms arbitrary: ms' rule: rbuild.induct)
  case (3 c lz ts ms)
  then show ?case by (auto split: list.splits simp: outside_in_alph intro: trans_le_add2)
qed auto

lemma in_class_alph:
  "u (CHR ''/'') = False \<Longrightarrow> list_all (in_class c) m \<Longrightarrow> outside u m = [] \<Longrightarrow> list_all (calph u c) m"
  by (induction m) (cases c; auto simp: outside_def split: if_splits)+

lemma outside_empty_in_alph:
  assumes u: "u (CHR ''/'') = False"
  shows "rfits ts ms \<Longrightarrow> rfits ts ms' \<Longrightarrow> in_alph u ts ms \<Longrightarrow>
     length (outside u (rbuild ts ms')) \<le> length (outside u (rbuild ts ms)) \<Longrightarrow> in_alph u ts ms'"
proof (induction ts ms arbitrary: ms' rule: rbuild.induct)
  case (3 c lz ts ms)
  from "3.prems" obtain m r m' r' where s: "ms = m # r" "ms' = m' # r'" by (auto split: list.splits)
  with "3.prems" have f: "rfits ts r" "rfits ts r'" "in_alph u ts r" "list_all (in_class c) m'"
    and o: "outside u m = []" by (auto simp: outside_in_alph)
  from "3.prems"(4) s o
  have le: "length (outside u m') + length (outside u (rbuild ts r')) \<le> length (outside u (rbuild ts r))"
    by simp
  with outside_fixed [OF f(1,2,3)]
  have "length (outside u m') = 0" "length (outside u (rbuild ts r')) \<le> length (outside u (rbuild ts r))"
    by linarith+
  then have "outside u m' = []" "length (outside u (rbuild ts r')) \<le> length (outside u (rbuild ts r))"
    by simp_all
  with "3.IH" [OF s(1) f(1) f(2) f(3)] in_class_alph [of u c m'] u f(4) s show ?case by simp
qed (auto split: list.splits)

lemma cut_unique:
  assumes "list_all P m" "list_all P m'" "m @ x # s = m' @ x' # s'" "\<not> P x" "\<not> P x'"
  shows "m = m' \<and> x # s = x' # s'"
  using assms
proof (induction m arbitrary: m')
  case Nil
  then show ?case by (cases m') auto
next
  case (Cons a m)
  then show ?case by (cases m') auto
qed

lemma delimited_unique:
  "delimited u ts \<Longrightarrow> rfits ts ms \<Longrightarrow> rfits ts ms' \<Longrightarrow> in_alph u ts ms \<Longrightarrow> in_alph u ts ms' \<Longrightarrow>
     rbuild ts ms = rbuild ts ms' \<Longrightarrow> ms = ms'"
proof (induction ts ms arbitrary: ms' rule: rbuild.induct)
  case (3 c lz ts ms)
  from "3.prems" obtain m r m' r' where s: "ms = m # r" "ms' = m' # r'" by (auto split: list.splits)
  have a: "list_all (calph u c) m" "list_all (calph u c) m'" using "3.prems" s by auto
  have e: "m @ rbuild ts r = m' @ rbuild ts r'" using "3.prems" s by simp
  have rest: "m = m' \<and> rbuild ts r = rbuild ts r'"
  proof (cases ts)
    case Nil
    then show ?thesis using e by simp
  next
    case (Cons t ts')
    with "3.prems"(1) obtain x l where t: "t = RLit (x # l)" "\<not> calph u c x"
      by (auto split: list.splits rtok.splits)
    show ?thesis using cut_unique [OF a, of x "l @ rbuild ts' r" x "l @ rbuild ts' r'"] e Cons t
      by simp
  qed
  with "3.IH" [OF s(1), of r'] "3.prems" s show ?case by simp
qed auto

lemma rmatch_build:
  assumes "u (CHR ''/'') = False" "delimited u ts" "rfits ts ms" "in_alph u ts ms"
  shows "rmatch ts (rbuild ts ms) = Some ms"
proof -
  obtain ms' where m: "rmatch ts (rbuild ts ms) = Some ms'"
    using rmatch_complete [OF assms(3)] by blast
  from rmatch_sound [OF m] have f: "rfits ts ms'" "rbuild ts ms' = rbuild ts ms" by auto
  have "in_alph u ts ms'"
    by (rule outside_empty_in_alph [OF assms(1,3) f(1) assms(4)]) (simp add: f)
  then have "ms = ms'"
    using delimited_unique [OF assms(2,3) f(1) assms(4)] f(2) by simp
  with m show ?thesis by simp
qed

end
