(* ===== verification/UriTemplate.thy ===== *)
theory UriTemplate
  imports Prelude GoStd Runes TemplateRegex "HOL-Library.List_Lexorder"
begin

text \<open>
  RFC 6570 templates, \<open>src/uritemplate/uritemplate.go\<close>: the parser, expansion with every
  operator and modifier, and matching. Parse errors are values of \<open>ut_error\<close> with the offset
  or text the message carries. Prefix modifiers count runes (\<open>Runes\<close>); the classes of the matcher are
  read on bytes, which agrees with Go's runes where captures are set off by literals of valid UTF-8,
  and a literal of invalid UTF-8, which Go's compiler rejects, is taken as it is. What
  \<open>strconv.FormatFloat\<close> and \<open>fmt\<close>'s \<open>%v\<close> print is the parameter \<open>fmts\<close>.
\<close>

section \<open>Templates\<close>

record ut_var =
  uv_name :: string
  uv_explode :: bool
  uv_prefix :: int

record ut_expr =
  ux_op :: char
  ux_vars :: "ut_var list"

datatype ut_part = PLit string | PExpr ut_expr

record ut_template =
  ut_raw :: string
  ut_parts :: "ut_part list"

datatype ut_error =
    UtUnterminated nat
  | UtUnexpected nat
  | UtEmptyExpr
  | UtNoVars
  | UtBadPrefix string
  | UtEmptyName
  | UtBadOp char
  | UtModifier
  | UtBadEscape string

record ut_cfg =
  oc_first :: string
  oc_sep :: string
  oc_named :: bool
  oc_ifEmpty :: string
  oc_reserved :: bool

definition utOperator :: "char \<Rightarrow> ut_cfg" where
  "utOperator op =
     (if op = CHR ''+'' then \<lparr>oc_first = [], oc_sep = '','', oc_named = False, oc_ifEmpty = [], oc_reserved = True\<rparr>
      else if op = CHR ''#'' then \<lparr>oc_first = ''#'', oc_sep = '','', oc_named = False, oc_ifEmpty = [], oc_reserved = True\<rparr>
      else if op = CHR ''.'' then \<lparr>oc_first = ''.'', oc_sep = ''.'', oc_named = False, oc_ifEmpty = [], oc_reserved = False\<rparr>
      else if op = CHR ''/'' then \<lparr>oc_first = ''/'', oc_sep = ''/'', oc_named = False, oc_ifEmpty = [], oc_reserved = False\<rparr>
      else if op = CHR '';'' then \<lparr>oc_first = '';'', oc_sep = '';'', oc_named = True, oc_ifEmpty = [], oc_reserved = False\<rparr>
      else if op = CHR ''?'' then \<lparr>oc_first = ''?'', oc_sep = ''&'', oc_named = True, oc_ifEmpty = ''='', oc_reserved = False\<rparr>
      else if op = CHR ''&'' then \<lparr>oc_first = ''&'', oc_sep = ''&'', oc_named = True, oc_ifEmpty = ''='', oc_reserved = False\<rparr>
      else \<lparr>oc_first = [], oc_sep = '','', oc_named = False, oc_ifEmpty = [], oc_reserved = False\<rparr>)"

section \<open>Parsing\<close>

definition op_chars :: string where
  "op_chars = ''+#./;?&''"

text \<open>One variable specification, the body of the loop of \<open>utParseExpr\<close>.\<close>

definition utParseVar :: "string \<Rightarrow> ut_error + ut_var" where
  "utParseVar raw =
     (if has_suffix raw ''*'' then
        (if take (length raw - 1) raw = [] then Inl UtEmptyName
         else Inr \<lparr>uv_name = take (length raw - 1) raw, uv_explode = True, uv_prefix = - 1\<rparr>)
      else (case index_byte (CHR '':'') raw of
         Some idx \<Rightarrow>
           (case atoi (drop (idx + 1) raw) of
              None \<Rightarrow> Inl (UtBadPrefix raw)
            | Some n \<Rightarrow>
                if n < 0 then Inl (UtBadPrefix raw)
                else if take idx raw = [] then Inl UtEmptyName
                else Inr \<lparr>uv_name = take idx raw, uv_explode = False, uv_prefix = n\<rparr>)
       | None \<Rightarrow>
           if raw = [] then Inl UtEmptyName
           else Inr \<lparr>uv_name = raw, uv_explode = False, uv_prefix = - 1\<rparr>))"

fun utParseVars :: "string list \<Rightarrow> ut_error + ut_var list" where
  "utParseVars [] = Inr []"
| "utParseVars (r # rs) =
     (case utParseVar r of Inl e \<Rightarrow> Inl e
      | Inr v \<Rightarrow> (case utParseVars rs of Inl e \<Rightarrow> Inl e | Inr vs \<Rightarrow> Inr (v # vs)))"

definition utParseExpr :: "string \<Rightarrow> ut_error + ut_expr" where
  "utParseExpr body =
     (if body = [] then Inl UtEmptyExpr
      else let isop = List.member op_chars (hd body);
               op = (if isop then hd body else CHR 0x00);
               rest = (if isop then tl body else body)
           in if rest = [] then Inl UtNoVars
              else (case utParseVars (split_on (CHR '','') rest) of
                      Inl e \<Rightarrow> Inl e
                    | Inr vs \<Rightarrow> Inr \<lparr>ux_op = op, ux_vars = vs\<rparr>))"

text \<open>The loop of \<open>Parse\<close>: \<open>i\<close> is the offset, the string what is left of the template.\<close>

function (sequential) parse_from :: "nat \<Rightarrow> string \<Rightarrow> ut_error + ut_part list" where
  "parse_from i [] = Inr []"
| "parse_from i (c # cs) =
     (if c = CHR 0x7B then
        (case index_byte (CHR 0x7D) (c # cs) of
           None \<Rightarrow> Inl (UtUnterminated i)
         | Some e \<Rightarrow>
             (case utParseExpr (take (e - 1) cs) of
                Inl err \<Rightarrow> Inl err
              | Inr ex \<Rightarrow>
                  (case parse_from (i + e + 1) (drop (e + 1) (c # cs)) of
                     Inl err \<Rightarrow> Inl err
                   | Inr ps \<Rightarrow> Inr (PExpr ex # ps))))
      else if c = CHR 0x7D then Inl (UtUnexpected i)
      else (case index_any [CHR 0x7B, CHR 0x7D] (c # cs) of
              None \<Rightarrow> Inr [PLit (c # cs)]
            | Some j \<Rightarrow>
                if j = 0 then Inr []
                else (case parse_from (i + j) (drop j (c # cs)) of
                        Inl err \<Rightarrow> Inl err
                      | Inr ps \<Rightarrow> Inr (PLit (take j (c # cs)) # ps))))"
  by pat_completeness auto
termination
  by (relation "measure (\<lambda>(i, s). length s)") auto

declare parse_from.simps(2) [simp del]

definition Parse :: "string \<Rightarrow> ut_error + ut_template" where
  "Parse raw =
     (case parse_from 0 raw of Inl e \<Rightarrow> Inl e
      | Inr ps \<Rightarrow> Inr \<lparr>ut_raw = raw, ut_parts = ps\<rparr>)"

section \<open>Inspection\<close>

text \<open>The nested loops of \<open>Names\<close> with their \<open>seen\<close> set.\<close>

fun names_vars :: "ut_var list \<Rightarrow> string list \<Rightarrow> string list" where
  "names_vars [] acc = acc"
| "names_vars (v # vs) acc =
     names_vars vs (if List.member acc (uv_name v) then acc else acc @ [uv_name v])"

fun names_parts :: "ut_part list \<Rightarrow> string list \<Rightarrow> string list" where
  "names_parts [] acc = acc"
| "names_parts (PLit l # ps) acc = names_parts ps acc"
| "names_parts (PExpr ex # ps) acc = names_parts ps (names_vars (ux_vars ex) acc)"

definition Names :: "ut_template \<Rightarrow> string list" where
  "Names t = names_parts (ut_parts t) []"

fun is_static_parts :: "ut_part list \<Rightarrow> bool" where
  "is_static_parts [] = True"
| "is_static_parts (PExpr ex # ps) = False"
| "is_static_parts (PLit l # ps) = is_static_parts ps"

definition IsStatic :: "ut_template \<Rightarrow> bool" where
  "IsStatic t = is_static_parts (ut_parts t)"

section \<open>Percent encoding\<close>

definition utUnreserved :: "char \<Rightarrow> bool" where
  "utUnreserved c \<longleftrightarrow> (CHR ''A'' \<le> c \<and> c \<le> CHR ''Z'') \<or> (CHR ''a'' \<le> c \<and> c \<le> CHR ''z'')
     \<or> (CHR ''0'' \<le> c \<and> c \<le> CHR ''9'')
     \<or> c = CHR ''-'' \<or> c = CHR ''.'' \<or> c = CHR ''_'' \<or> c = CHR ''~''"

definition utReserved :: "char \<Rightarrow> bool" where
  "utReserved c = List.member ('':/?#[]@!$&'' @ [CHR 0x27] @ ''()*+,;='') c"

abbreviation utHex :: "char \<Rightarrow> bool" where
  "utHex \<equiv> is_hex"

text \<open>The Boolean is \<open>allow == "U+R"\<close>.\<close>

fun utEncode :: "bool \<Rightarrow> string \<Rightarrow> string" where
  "utEncode r [] = []"
| "utEncode r (c # cs) =
     (if utUnreserved c \<or> (r \<and> utReserved c) then c # utEncode r cs
      else if r \<and> c = CHR ''%'' \<and> (case cs of a # b # _ \<Rightarrow> utHex a \<and> utHex b | _ \<Rightarrow> False)
        then c # utEncode r cs
      else pct c @ utEncode r cs)"

fun utDecode :: "string \<Rightarrow> ut_error + string" where
  "utDecode [] = Inr []"
| "utDecode (c # cs) =
     (if c = CHR ''%'' then
        (case cs of
           a # b # rest \<Rightarrow>
             if utHex a \<and> utHex b then
               (case utDecode rest of Inl e \<Rightarrow> Inl e | Inr s \<Rightarrow> Inr (unpct a b # s))
             else Inl (UtBadEscape (c # cs))
         | _ \<Rightarrow> Inl (UtBadEscape (c # cs)))
      else (case utDecode cs of Inl e \<Rightarrow> Inl e | Inr s \<Rightarrow> Inr (c # s)))"

section \<open>Expansion\<close>

record fmts =
  fmt_float :: "rat \<Rightarrow> string"
  fmt_v :: "gval \<Rightarrow> string"

fun utScalar :: "fmts \<Rightarrow> gval \<Rightarrow> string" where
  "utScalar F (GStr s) = s"
| "utScalar F (GBool b) = (if b then ''true'' else ''false'')"
| "utScalar F (GInt i) = itoa i"
| "utScalar F (GFloat q) = fmt_float F q"
| "utScalar F v = fmt_v F v"

datatype ut_val = UtEmpty | UtString string | UtList "string list" | UtMap "(string \<times> string) list"

text \<open>An associative value is read in the order of its sorted keys.\<close>

definition sorted_pairs :: "fmts \<Rightarrow> (string \<times> gval) list \<Rightarrow> (string \<times> string) list" where
  "sorted_pairs F m = map (\<lambda>k. (k, utScalar F (the (map_of m k)))) (sort (map fst m))"

fun utNormalize :: "fmts \<Rightarrow> gval \<Rightarrow> ut_val" where
  "utNormalize F (GStrs ss) = (if ss = [] then UtEmpty else UtList ss)"
| "utNormalize F (GList vs) = (if vs = [] then UtEmpty else UtList (map (utScalar F) vs))"
| "utNormalize F (GMap m) = (if m = [] then UtEmpty else UtMap (sorted_pairs F m))"
| "utNormalize F v = UtString (utScalar F v)"

definition utPrefixed :: "ut_var \<Rightarrow> string \<Rightarrow> string" where
  "utPrefixed v s =
     (if 0 \<le> uv_prefix v \<and> uv_prefix v < int (length (runes s))
      then string_of_runes (take (nat (uv_prefix v)) (runes s)) else s)"

text \<open>One named or unnamed string value, as the code writes it in three places.\<close>

definition utExpandString :: "ut_var \<Rightarrow> ut_cfg \<Rightarrow> string \<Rightarrow> string" where
  "utExpandString v cfg s =
     (if oc_named cfg then
        uv_name v @ (if s = [] then oc_ifEmpty cfg else CHR ''='' # utEncode (oc_reserved cfg) s)
      else utEncode (oc_reserved cfg) s)"

text \<open>The loops write a separator before every item but the first.\<close>

fun write_items :: "string \<Rightarrow> ('a \<Rightarrow> string) \<Rightarrow> bool \<Rightarrow> 'a list \<Rightarrow> string" where
  "write_items sep f first [] = []"
| "write_items sep f first (x # xs) =
     (if first then [] else sep) @ f x @ write_items sep f False xs"

definition utExpandList :: "ut_var \<Rightarrow> ut_cfg \<Rightarrow> string list \<Rightarrow> string" where
  "utExpandList v cfg items =
     (if \<not> uv_explode v then
        (if oc_named cfg then
           uv_name v @ (if items = [] then oc_ifEmpty cfg
                        else CHR ''='' # write_items '','' (utEncode (oc_reserved cfg)) True items)
         else write_items '','' (utEncode (oc_reserved cfg)) True items)
      else write_items (oc_sep cfg) (utExpandString v cfg) True items)"

definition utMapItem :: "ut_cfg \<Rightarrow> string \<times> string \<Rightarrow> string" where
  "utMapItem cfg kv =
     utEncode (oc_reserved cfg) (fst kv) @ ''='' @
     (if snd kv = [] \<and> oc_named cfg
      then drop (case index_byte (CHR ''='') (oc_ifEmpty cfg) of Some i \<Rightarrow> i + 1 | None \<Rightarrow> 0) (oc_ifEmpty cfg)
      else utEncode (oc_reserved cfg) (snd kv))"

definition utExpandMap :: "ut_var \<Rightarrow> ut_cfg \<Rightarrow> (string \<times> string) list \<Rightarrow> string" where
  "utExpandMap v cfg pairs =
     (let flat = (\<lambda>kv. utEncode (oc_reserved cfg) (fst kv) @ '','' @ utEncode (oc_reserved cfg) (snd kv))
      in if \<not> uv_explode v then
           (if oc_named cfg then
              uv_name v @ (if pairs = [] then oc_ifEmpty cfg
                           else CHR ''='' # write_items '','' flat True pairs)
            else write_items '','' flat True pairs)
         else write_items (oc_sep cfg) (utMapItem cfg) True pairs)"

text \<open>The loop of \<open>utExpandExpr\<close> over the variables, with its \<open>first\<close> flag.\<close>

fun expand_vars :: "fmts \<Rightarrow> ut_cfg \<Rightarrow> (string \<times> gval) list \<Rightarrow> bool \<Rightarrow> ut_var list \<Rightarrow> string" where
  "expand_vars F cfg vars first [] = []"
| "expand_vars F cfg vars first (v # vs) =
     (case map_of vars (uv_name v) of
        None \<Rightarrow> expand_vars F cfg vars first vs
      | Some raw \<Rightarrow>
          if raw = GNil then expand_vars F cfg vars first vs
          else (case utNormalize F raw of
                  UtEmpty \<Rightarrow> expand_vars F cfg vars first vs
                | UtString s \<Rightarrow>
                    (if first then oc_first cfg else oc_sep cfg) @
                    utExpandString v cfg (utPrefixed v s) @ expand_vars F cfg vars False vs
                | UtList items \<Rightarrow>
                    (if first then oc_first cfg else oc_sep cfg) @
                    utExpandList v cfg items @ expand_vars F cfg vars False vs
                | UtMap pairs \<Rightarrow>
                    (if first then oc_first cfg else oc_sep cfg) @
                    utExpandMap v cfg pairs @ expand_vars F cfg vars False vs))"

definition utExpandExpr :: "fmts \<Rightarrow> ut_expr \<Rightarrow> (string \<times> gval) list \<Rightarrow> string" where
  "utExpandExpr F ex vars = expand_vars F (utOperator (ux_op ex)) vars True (ux_vars ex)"

fun expand_parts :: "fmts \<Rightarrow> ut_part list \<Rightarrow> (string \<times> gval) list \<Rightarrow> string" where
  "expand_parts F [] vars = []"
| "expand_parts F (PLit l # ps) vars = utEncode True l @ expand_parts F ps vars"
| "expand_parts F (PExpr ex # ps) vars = utExpandExpr F ex vars @ expand_parts F ps vars"

definition ut_Expand :: "fmts \<Rightarrow> ut_template \<Rightarrow> (string \<times> gval) list \<Rightarrow> string" where
  "ut_Expand F t vars = expand_parts F (ut_parts t) vars"

definition Expand :: "fmts \<Rightarrow> string \<Rightarrow> (string \<times> gval) list \<Rightarrow> ut_error + string" where
  "Expand F raw vars =
     (case Parse raw of Inl e \<Rightarrow> Inl e | Inr t \<Rightarrow> Inr (ut_Expand F t vars))"

section \<open>Matching\<close>

text \<open>The tokens of one expression's variables; \<open>i > 0\<close> writes the separator first.\<close>

fun regexp_vars :: "char \<Rightarrow> bool \<Rightarrow> ut_var list \<Rightarrow> ut_error + rtok list" where
  "regexp_vars op first [] = Inr []"
| "regexp_vars op first (v # vs) =
     (if uv_explode v \<or> uv_prefix v \<ge> 0 then Inl UtModifier
      else (case regexp_vars op False vs of
              Inl e \<Rightarrow> Inl e
            | Inr ts \<Rightarrow>
                Inr ((if first then [] else [RLit (if op = CHR ''/'' then ''/'' else '','')]) @
                     RCap (if op = CHR ''+'' then AnyChar else NotSlash) True # ts)))"

fun regexp_parts :: "ut_part list \<Rightarrow> ut_error + (rtok list \<times> string list)" where
  "regexp_parts [] = Inr ([], [])"
| "regexp_parts (PLit l # ps) =
     (case regexp_parts ps of Inl e \<Rightarrow> Inl e | Inr (ts, ns) \<Rightarrow> Inr (RLit l # ts, ns))"
| "regexp_parts (PExpr ex # ps) =
     (if \<not> List.member [CHR 0x00, CHR ''+'', CHR ''/''] (ux_op ex) then Inl (UtBadOp (ux_op ex))
      else (case regexp_vars (ux_op ex) True (ux_vars ex) of
              Inl e \<Rightarrow> Inl e
            | Inr vts \<Rightarrow>
                (case regexp_parts ps of
                   Inl e \<Rightarrow> Inl e
                 | Inr (ts, ns) \<Rightarrow>
                     Inr ((if ux_op ex = CHR ''/'' then [RLit ''/''] else []) @ vts @ ts,
                          map uv_name (ux_vars ex) @ ns))))"

definition Regexp :: "ut_template \<Rightarrow> ut_error + (rtok list \<times> string list)" where
  "Regexp t = regexp_parts (ut_parts t)"

fun fill :: "(string \<Rightarrow> string) \<Rightarrow> string list \<Rightarrow> string list \<Rightarrow> (string \<rightharpoonup> string) \<Rightarrow> (string \<rightharpoonup> string)" where
  "fill dec (n # ns) (v # vs) out = fill dec ns vs (out(n \<mapsto> dec v))"
| "fill dec _ _ out = out"

definition decode_or_raw :: "string \<Rightarrow> string" where
  "decode_or_raw s = (case utDecode s of Inl _ \<Rightarrow> s | Inr d \<Rightarrow> d)"

definition ut_Match :: "ut_template \<Rightarrow> string \<Rightarrow> (string \<rightharpoonup> string) option" where
  "ut_Match t uri =
     (case Regexp t of
        Inl _ \<Rightarrow> None
      | Inr (ts, ns) \<Rightarrow>
          (case rmatch ts uri of None \<Rightarrow> None | Some ms \<Rightarrow> Some (fill decode_or_raw ns ms Map.empty)))"


section \<open>Facts about encoding\<close>

lemma is_hex_unreserved: "is_hex c \<Longrightarrow> utUnreserved c"
  by (auto simp: is_hex_def utUnreserved_def less_eq_char_def)

lemma pct_not_unreserved [simp]: "\<not> utUnreserved (CHR ''%'')" "\<not> utReserved (CHR ''%'')"
  by (simp_all add: utUnreserved_def utReserved_def less_eq_char_def)

lemma utDecode_encode: "utDecode (utEncode False s) = Inr s"
proof (induction s)
  case Nil
  then show ?case by simp
next
  case (Cons c cs)
  show ?case
  proof (cases "utUnreserved c")
    case True
    then have "c \<noteq> CHR ''%''" by auto
    with True Cons show ?thesis by simp
  next
    case False
    obtain a b where ab: "pct c = [CHR ''%'', a, b]" "is_hex a" "is_hex b" "unpct a b = c"
      using pct_props by blast
    with False Cons show ?thesis by simp
  qed
qed

lemma utEncode_hex2:
  "is_hex a \<Longrightarrow> is_hex b \<Longrightarrow> utEncode r (a # b # s) = a # b # utEncode r s"
  by (simp add: is_hex_unreserved)

lemma utEncode_idem: "utEncode True (utEncode True s) = utEncode True s"
proof (induction s)
  case Nil
  then show ?case by simp
next
  case (Cons c cs)
  consider (plain) "utUnreserved c \<or> utReserved c"
    | (kept) "c = CHR ''%''" "\<exists>a b t. cs = a # b # t \<and> is_hex a \<and> is_hex b"
    | (esc) "\<not> utUnreserved c" "\<not> utReserved c"
        "\<not> (c = CHR ''%'' \<and> (\<exists>a b t. cs = a # b # t \<and> is_hex a \<and> is_hex b))"
    by blast
  then show ?case
  proof cases
    case plain
    with Cons show ?thesis by simp
  next
    case kept
    then obtain a b t where cs: "cs = a # b # t" and h: "is_hex a" "is_hex b" by blast
    have "utEncode True cs = a # b # utEncode True t" unfolding cs using h by (rule utEncode_hex2)
    moreover have "utEncode True (c # cs) = c # utEncode True cs" using kept cs h by simp
    ultimately show ?thesis using Cons.IH kept(1) h by simp
  next
    case esc
    then have e: "utEncode True (c # cs) = pct c @ utEncode True cs" by (auto split: list.splits)
    obtain a b where ab: "pct c = [CHR ''%'', a, b]" "is_hex a" "is_hex b"
      using pct_props by blast
    have "utEncode True (CHR ''%'' # a # b # utEncode True cs)
        = CHR ''%'' # a # b # utEncode True (utEncode True cs)"
      using ab(2,3) utEncode_hex2 [of a b True "utEncode True cs"] by simp
    then show ?thesis unfolding e ab(1) using Cons.IH by simp
  qed
qed

abbreviation ut_alph :: "char \<Rightarrow> bool" where
  "ut_alph c \<equiv> utUnreserved c \<or> c = CHR ''%''"

lemma utEncode_alph: "list_all ut_alph (utEncode False s)"
proof (induction s)
  case Nil
  then show ?case by simp
next
  case (Cons c cs)
  obtain a b where "pct c = [CHR ''%'', a, b]" "is_hex a" "is_hex b" using pct_props by blast
  with Cons show ?case by (auto simp: is_hex_unreserved)
qed

lemma utEncode_ne: "s \<noteq> [] \<Longrightarrow> utEncode r s \<noteq> []"
  by (cases s) (auto simp: pct_def)

interpretation ut_codec: codec "utEncode False"
  "\<lambda>s. case utDecode s of Inl _ \<Rightarrow> None | Inr d \<Rightarrow> Some d" "\<lambda>_. True"
  by unfold_locales (simp add: utDecode_encode)

lemma decode_or_raw_encode [simp]: "decode_or_raw (utEncode False s) = s"
  by (simp add: decode_or_raw_def utDecode_encode)

section \<open>Facts about parsing\<close>

text \<open>The text of a part, and the shape the parser gives its parts.\<close>

definition print_var :: "ut_var \<Rightarrow> string" where
  "print_var v = uv_name v @ (if uv_explode v then ''*''
      else if 0 \<le> uv_prefix v then CHR '':'' # itoa (uv_prefix v) else [])"

definition print_expr :: "ut_expr \<Rightarrow> string" where
  "print_expr ex = (if ux_op ex = CHR 0x00 then [] else [ux_op ex])
     @ join_with '','' (map print_var (ux_vars ex))"

fun print_part :: "ut_part \<Rightarrow> string" where
  "print_part (PLit l) = l"
| "print_part (PExpr ex) = CHR 0x7B # print_expr ex @ [CHR 0x7D]"

definition print_parts :: "ut_part list \<Rightarrow> string" where
  "print_parts ps = concat (map print_part ps)"

definition wf_var :: "ut_var \<Rightarrow> bool" where
  "wf_var v \<longleftrightarrow> uv_name v \<noteq> [] \<and> CHR '','' \<notin> set (uv_name v) \<and> CHR 0x7D \<notin> set (uv_name v)
     \<and> - 1 \<le> uv_prefix v \<and> uv_prefix v < 2 ^ 63
     \<and> (if uv_explode v then uv_prefix v = - 1
        else CHR '':'' \<notin> set (uv_name v)
          \<and> (uv_prefix v = - 1 \<longrightarrow> \<not> has_suffix (uv_name v) ''*''))"

definition wf_expr :: "ut_expr \<Rightarrow> bool" where
  "wf_expr ex \<longleftrightarrow> ux_vars ex \<noteq> [] \<and> list_all wf_var (ux_vars ex)
     \<and> (if ux_op ex = CHR 0x00 then hd (uv_name (hd (ux_vars ex))) \<notin> set op_chars
        else ux_op ex \<in> set op_chars)"

fun wf_part :: "ut_part \<Rightarrow> bool" where
  "wf_part (PLit l) = (l \<noteq> [] \<and> CHR 0x7B \<notin> set l \<and> CHR 0x7D \<notin> set l)"
| "wf_part (PExpr ex) = wf_expr ex"

fun wf_parts :: "ut_part list \<Rightarrow> bool" where
  "wf_parts [] = True"
| "wf_parts (p # ps) = (wf_part p \<and> wf_parts ps
     \<and> (case (p, ps) of (PLit _, PLit _ # _) \<Rightarrow> False | _ \<Rightarrow> True))"

lemma digit_not_sep: "is_digit c \<Longrightarrow> c \<notin> {CHR '','', CHR '':'', CHR ''*'', CHR 0x7D, CHR ''+'', CHR ''-''}"
  by (auto simp: is_digit_def less_eq_char_def)

lemma itoa_nat: "0 \<le> n \<Longrightarrow> itoa n = nat_dec (nat n)"
  by (simp add: itoa_def)

lemma atoi_itoa: "0 \<le> n \<Longrightarrow> n < 2 ^ 63 \<Longrightarrow> atoi (itoa n) = Some n"
proof -
  assume n: "0 \<le> n" "n < 2 ^ 63"
  obtain c cs where c: "nat_dec (nat n) = c # cs" by (cases "nat_dec (nat n)") auto
  have d: "list_all is_digit (nat_dec (nat n))"
    by (simp add: list_all_iff nat_dec_digits)
  then have "c \<noteq> CHR ''-''" "c \<noteq> CHR ''+''" using digit_not_sep [of c] c by auto
  then have h: "\<not> has_prefix (nat_dec (nat n)) ''-''" "\<not> has_prefix (nat_dec (nat n)) ''+''"
    by (simp_all add: c)
  show ?thesis
    using n d by (simp add: atoi_def itoa_nat h Let_def)
qed

lemma has_suffix_star: "has_suffix s ''*'' \<longleftrightarrow> s \<noteq> [] \<and> last s = CHR ''*''"
  by (auto simp: has_suffix_iff) (metis append_butlast_last_id)

lemma utParseVar_print: "wf_var v \<Longrightarrow> utParseVar (print_var v) = Inr v"
proof -
  assume v: "wf_var v"
  show ?thesis
  proof (cases "uv_explode v")
    case True
    with v show ?thesis by (simp add: utParseVar_def print_var_def wf_var_def has_suffix_star)
  next
    case ne: False
    show ?thesis
    proof (cases "uv_prefix v = - 1")
      case True
      with v ne show ?thesis
        by (simp add: utParseVar_def print_var_def wf_var_def index_byte_None [THEN iffD2])
    next
      case False
      let ?n = "nat_dec (nat (uv_prefix v))"
      have p: "0 \<le> uv_prefix v" "uv_prefix v < 2 ^ 63" using v False by (auto simp: wf_var_def)
      have pr: "print_var v = uv_name v @ CHR '':'' # ?n"
        using ne p by (simp add: print_var_def itoa_nat)
      have "last ?n \<noteq> CHR ''*''"
        using digit_not_sep [of "last ?n"] nat_dec_digits [of "last ?n" "nat (uv_prefix v)"] by auto
      then have s: "\<not> has_suffix (print_var v) ''*''" by (simp add: has_suffix_star pr)
      have ix: "index_byte (CHR '':'') (print_var v) = Some (length (uv_name v))"
        unfolding pr using v ne by (intro index_byte_append) (simp add: wf_var_def)
      have at: "atoi (drop (length (uv_name v) + 1) (print_var v)) = Some (uv_prefix v)"
        using atoi_itoa [OF p] p by (simp add: pr itoa_nat)
      show ?thesis
        unfolding utParseVar_def using s ix at p v ne by (simp add: wf_var_def pr)
    qed
  qed
qed

lemma utParseVars_print: "list_all wf_var vs \<Longrightarrow> utParseVars (map print_var vs) = Inr vs"
  by (induction vs) (auto simp: utParseVar_print)

lemma print_var_chars:
  assumes "wf_var v"
  shows "CHR '','' \<notin> set (print_var v)" "CHR 0x7D \<notin> set (print_var v)" "print_var v \<noteq> []"
    "hd (print_var v) = hd (uv_name v)"
proof -
  have "c \<in> set (itoa (uv_prefix v)) \<Longrightarrow> 0 \<le> uv_prefix v \<Longrightarrow> c \<noteq> CHR '','' \<and> c \<noteq> CHR 0x7D" for c
    using nat_dec_digits [of c] digit_not_sep [of c] by (auto simp: itoa_nat)
  then show "CHR '','' \<notin> set (print_var v)" "CHR 0x7D \<notin> set (print_var v)" "print_var v \<noteq> []"
    "hd (print_var v) = hd (uv_name v)"
    using assms by (auto simp: print_var_def wf_var_def)
qed

lemma join_with_set: "set (join_with sep ps) \<subseteq> set sep \<union> (\<Union>p\<in>set ps. set p)"
  by (induction sep ps rule: join_with.induct) auto

lemma join_with_ne: "ps \<noteq> [] \<Longrightarrow> hd ps \<noteq> [] \<Longrightarrow> join_with sep ps \<noteq> [] \<and> hd (join_with sep ps) = hd (hd ps)"
  by (cases ps; cases "tl ps") auto

lemma op_chars_props: "c \<in> set op_chars \<Longrightarrow> c \<noteq> CHR 0x00 \<and> c \<noteq> CHR 0x7D"
  by (auto simp: op_chars_def)

lemma utParseExpr_print:
  assumes "wf_expr ex"
  shows "utParseExpr (print_expr ex) = Inr ex" "CHR 0x7D \<notin> set (print_expr ex)"
proof -
  let ?j = "join_with '','' (map print_var (ux_vars ex))"
  have vs: "ux_vars ex \<noteq> []" "list_all wf_var (ux_vars ex)" using assms by (auto simp: wf_expr_def)
  then have hdv: "wf_var (hd (ux_vars ex))" by (cases "ux_vars ex") auto
  have j: "?j \<noteq> []" "hd ?j = hd (uv_name (hd (ux_vars ex)))"
    using join_with_ne [of "map print_var (ux_vars ex)" "'',''"] vs print_var_chars(3,4) [OF hdv]
    by (auto simp: hd_map)
  have "split_on (CHR '','') ?j = map print_var (ux_vars ex)"
    by (rule split_join) (use vs print_var_chars(1) in \<open>auto simp: list_all_iff\<close>)
  then have pv: "utParseVars (split_on (CHR '','') ?j) = Inr (ux_vars ex)"
    using utParseVars_print [OF vs(2)] by simp
  show "utParseExpr (print_expr ex) = Inr ex"
  proof (cases "ux_op ex = CHR 0x00")
    case True
    then show ?thesis
      using assms j pv by (simp add: utParseExpr_def print_expr_def wf_expr_def Let_def)
  next
    case False
    then show ?thesis
      using assms j pv by (simp add: utParseExpr_def print_expr_def wf_expr_def Let_def)
  qed
  have "CHR 0x7D \<notin> set ?j"
    using join_with_set [of "'',''" "map print_var (ux_vars ex)"] print_var_chars(2) vs(2)
    by (auto simp: list_all_iff)
  then show "CHR 0x7D \<notin> set (print_expr ex)"
    using assms op_chars_props [of "ux_op ex"] by (auto simp: print_expr_def wf_expr_def)
qed

lemma index_any_stop:
  "set l \<inter> set cs = {} \<Longrightarrow> x \<in> set cs \<Longrightarrow> index_any cs (l @ x # r) = Some (length l)"
  by (induction l) auto

lemma parse_from_print: "wf_parts ps \<Longrightarrow> parse_from i (print_parts ps) = Inr ps"
proof (induction ps arbitrary: i)
  case Nil
  then show ?case by (simp add: print_parts_def)
next
  case (Cons p ps)
  have IH: "\<And>i. parse_from i (print_parts ps) = Inr ps" using Cons by simp
  show ?case
  proof (cases p)
    case (PExpr ex)
    let ?b = "print_expr ex"
    have ex: "wf_expr ex" using Cons.prems PExpr by simp
    have s: "print_parts (p # ps) = CHR 0x7B # ?b @ CHR 0x7D # print_parts ps"
      by (simp add: print_parts_def PExpr)
    have ix: "index_byte (CHR 0x7D) (CHR 0x7B # ?b @ CHR 0x7D # print_parts ps) = Some (length ?b + 1)"
      using index_byte_append [of "CHR 0x7D" "CHR 0x7B # ?b" "print_parts ps"] utParseExpr_print(2) [OF ex]
      by simp
    show ?thesis
      unfolding s parse_from.simps(2) ix using utParseExpr_print(1) [OF ex] IH PExpr by simp
  next
    case (PLit l)
    have l: "l \<noteq> []" "CHR 0x7B \<notin> set l" "CHR 0x7D \<notin> set l" using Cons.prems PLit by auto
    then obtain c cs where c: "l = c # cs" by (cases l) auto
    with l have cne: "c \<noteq> CHR 0x7B" "c \<noteq> CHR 0x7D" by auto
    have s: "print_parts (p # ps) = c # cs @ print_parts ps" by (simp add: print_parts_def PLit c)
    show ?thesis
    proof (cases ps)
      case Nil
      have "index_any [CHR 0x7B, CHR 0x7D] (c # cs) = None" using l c by (auto simp: index_any_None)
      moreover have "print_parts (p # ps) = c # cs" using s Nil by (simp add: print_parts_def)
      ultimately show ?thesis
        using cne Nil PLit c by (simp add: parse_from.simps(2) del: index_any.simps)
    next
      case (Cons q qs)
      then obtain ex where q: "q = PExpr ex" using Cons.prems PLit by (cases q) auto
      have pp: "print_parts ps = CHR 0x7B # print_expr ex @ CHR 0x7D # print_parts qs"
        by (simp add: print_parts_def Cons q)
      have "index_any [CHR 0x7B, CHR 0x7D] (l @ print_parts ps) = Some (length l)"
        unfolding pp by (rule index_any_stop) (use l in auto)
      then show ?thesis
        unfolding s using cne c PLit IH by (simp add: parse_from.simps(2) del: index_any.simps)
    qed
  qed
qed


lemma atoi_range: "atoi s = Some n \<Longrightarrow> n < 2 ^ 63"
  by (auto simp: atoi_def Let_def split: if_splits)

lemma utParseVar_wf:
  assumes "utParseVar raw = Inr v" "CHR '','' \<notin> set raw" "CHR 0x7D \<notin> set raw"
  shows "wf_var v"
proof (cases "has_suffix raw ''*''")
  case True
  with assms show ?thesis
    by (auto simp: utParseVar_def wf_var_def split: if_splits dest: in_set_takeD)
next
  case False
  show ?thesis
  proof (cases "index_byte (CHR '':'') raw")
    case None
    with False assms show ?thesis
      by (auto simp: utParseVar_def wf_var_def index_byte_None split: if_splits)
  next
    case (Some idx)
    with False assms obtain n where n: "atoi (drop (idx + 1) raw) = Some n" "\<not> n < 0" "take idx raw \<noteq> []"
        and v: "v = \<lparr>uv_name = take idx raw, uv_explode = False, uv_prefix = n\<rparr>"
      by (auto simp: utParseVar_def split: option.splits if_splits)
    from index_byte_Some [OF Some] n v assms(2,3) atoi_range [OF n(1)] show ?thesis
      by (auto simp: wf_var_def dest: in_set_takeD)
  qed
qed

lemma utParseVar_hd:
  assumes "utParseVar raw = Inr v"
  shows "hd (uv_name v) = hd raw"
proof -
  have "\<exists>n. uv_name v = take n raw \<and> uv_name v \<noteq> []"
    using assms unfolding utParseVar_def
    by (auto split: if_splits option.splits) (metis take_all order_refl)
  then show ?thesis by (metis hd_take take_eq_Nil gr0I)
qed

lemma utParseVars_wf:
  "utParseVars rs = Inr vs \<Longrightarrow> \<forall>r\<in>set rs. CHR '','' \<notin> set r \<and> CHR 0x7D \<notin> set r \<Longrightarrow>
     list_all wf_var vs \<and> length vs = length rs
     \<and> (rs \<noteq> [] \<longrightarrow> hd (uv_name (hd vs)) = hd (hd rs))"
proof (induction rs arbitrary: vs)
  case Nil
  then show ?case by simp
next
  case (Cons r rs)
  then obtain v vs' where v: "utParseVar r = Inr v" "utParseVars rs = Inr vs'" "vs = v # vs'"
    by (auto split: sum.splits)
  with Cons.IH [OF v(2)] Cons.prems(2) utParseVar_wf [OF v(1)] utParseVar_hd [OF v(1)] show ?case
    by simp
qed

lemma split_on_set: "p \<in> set (split_on c s) \<Longrightarrow> set p \<subseteq> set s"
proof (induction s arbitrary: p)
  case Nil
  then show ?case by simp
next
  case (Cons x xs)
  show ?case
  proof (cases "x = c")
    case True
    then show ?thesis using Cons by auto
  next
    case False
    with Cons.prems have "p = x # hd (split_on c xs) \<or> p \<in> set (tl (split_on c xs))"
      by (simp add: split_on_Cons_other del: split_on.simps)
    then show ?thesis
      using Cons.IH [of p] Cons.IH [of "hd (split_on c xs)"] list.set_sel(2) [of "split_on c xs" p]
      by auto
  qed
qed

lemma hd_hd_split_on: "s \<noteq> [] \<Longrightarrow> hd s \<noteq> c \<Longrightarrow> hd (hd (split_on c s)) = hd s"
  by (cases s) (simp_all add: split_on_Cons_other del: split_on.simps)

lemma split_on_hd_sep: "s \<noteq> [] \<Longrightarrow> hd s = c \<Longrightarrow> hd (split_on c s) = []"
  by (cases s) simp_all

lemma utParseExpr_wf:
  assumes p: "utParseExpr body = Inr ex" and b: "CHR 0x7D \<notin> set body"
  shows "wf_expr ex"
proof -
  let ?isop = "List.member op_chars (hd body)"
  let ?rest = "if ?isop then tl body else body"
  from p have ne: "body \<noteq> []" "?rest \<noteq> []"
    and vs: "utParseVars (split_on (CHR '','') ?rest) = Inr (ux_vars ex)"
    and op: "ux_op ex = (if ?isop then hd body else CHR 0x00)"
    by (auto simp: utParseExpr_def Let_def split: if_splits sum.splits)
  have pieces: "\<forall>r\<in>set (split_on (CHR '','') ?rest). CHR '','' \<notin> set r \<and> CHR 0x7D \<notin> set r"
    using split_on_pieces split_on_set [of _ "CHR '',''" ?rest] b ne
    by (auto split: if_splits dest: list.set_sel(2))
  from utParseVars_wf [OF vs pieces] have w: "list_all wf_var (ux_vars ex)" "ux_vars ex \<noteq> []"
      "hd (uv_name (hd (ux_vars ex))) = hd (hd (split_on (CHR '','') ?rest))"
    by (auto simp flip: length_greater_0_conv)
  from w have "wf_var (hd (ux_vars ex))" by (cases "ux_vars ex") auto
  then have "hd (split_on (CHR '','') ?rest) \<noteq> []"
    using vs w(2) by (cases "split_on (CHR '','') ?rest") (auto simp: utParseVar_def has_suffix_star)
  then have "hd ?rest \<noteq> CHR '',''" using split_on_hd_sep [of ?rest] ne(2) by blast
  then have "hd (uv_name (hd (ux_vars ex))) = hd ?rest" using w(3) hd_hd_split_on [OF ne(2)] by simp
  moreover have "CHR 0x00 \<notin> set op_chars" by (simp add: op_chars_def)
  ultimately show ?thesis using w op by (auto simp: wf_expr_def split: if_splits)
qed

lemma parse_from_wf:
  "parse_from i s = Inr ps \<Longrightarrow>
     wf_parts ps \<and> (\<forall>l qs. s \<noteq> [] \<and> hd s = CHR 0x7B \<longrightarrow> ps \<noteq> PLit l # qs)"
proof (induction i s arbitrary: ps rule: parse_from.induct)
  case (1 i)
  then show ?case by simp
next
  case (2 i c cs)
  consider (brace) "c = CHR 0x7B" | (close) "c = CHR 0x7D" | (lit) "c \<noteq> CHR 0x7B" "c \<noteq> CHR 0x7D"
    by blast
  then show ?case
  proof cases
    case brace
    with "2.prems" obtain e ex qs where e: "index_byte (CHR 0x7D) (c # cs) = Some e"
        and ex: "utParseExpr (take (e - 1) cs) = Inr ex"
        and qs: "parse_from (i + e + 1) (drop (e + 1) (c # cs)) = Inr qs" and ps: "ps = PExpr ex # qs"
      by (simp add: parse_from.simps(2) del: index_byte.simps split: option.splits sum.splits)
    have "CHR 0x7D \<notin> set (take (e - 1) cs)"
      using index_byte_Some [OF e] by (cases e) auto
    with ex have "wf_expr ex" by (rule utParseExpr_wf)
    with "2.IH"(1) [OF brace e ex qs] ps show ?thesis by simp
  next
    case close
    with "2.prems" show ?thesis by (simp add: parse_from.simps(2))
  next
    case lit
    show ?thesis
    proof (cases "index_any [CHR 0x7B, CHR 0x7D] (c # cs)")
      case None
      with lit "2.prems" have "ps = [PLit (c # cs)]" by (simp add: parse_from.simps(2))
      with None lit show ?thesis by (auto simp: index_any_None simp del: index_any.simps)
    next
      case (Some j)
      from index_any_Some [OF Some] have j: "j < length (c # cs)" "(c # cs) ! j \<in> {CHR 0x7B, CHR 0x7D}"
          "\<forall>x\<in>set (take j (c # cs)). x \<notin> {CHR 0x7B, CHR 0x7D}"
        unfolding list.set by blast+
      have j0: "j \<noteq> 0"
      proof
        assume "j = 0"
        with j(2) lit show False by simp
      qed
      with Some lit "2.prems" obtain qs where qs: "parse_from (i + j) (drop j (c # cs)) = Inr qs"
          and ps: "ps = PLit (take j (c # cs)) # qs"
        by (auto simp: parse_from.simps(2) simp del: index_any.simps split: sum.splits)
      have d: "drop j (c # cs) = (c # cs) ! j # drop (Suc j) (c # cs)"
        using j(1) by (rule Cons_nth_drop_Suc [symmetric])
      have "(c # cs) ! j \<noteq> CHR 0x7D"
      proof
        assume "(c # cs) ! j = CHR 0x7D"
        then have "parse_from (i + j) (drop j (c # cs)) = Inl (UtUnexpected (i + j))"
          unfolding d by (simp add: parse_from.simps(2))
        with qs show False by simp
      qed
      then have "hd (drop j (c # cs)) = CHR 0x7B" using j(2) unfolding d list.sel insert_iff empty_iff by (elim disjE) simp_all
      moreover have "drop j (c # cs) \<noteq> []" unfolding d by (rule list.distinct(2))
      ultimately have "wf_parts qs \<and> (\<forall>l rs. qs \<noteq> PLit l # rs)"
        using "2.IH"(2) [OF lit Some j0 qs] by blast
      moreover have "wf_part (PLit (take j (c # cs)))"
      proof -
        have "take j (c # cs) \<noteq> []" using j0 by (cases j) simp_all
        moreover have "CHR 0x7B \<notin> set (take j (c # cs))" "CHR 0x7D \<notin> set (take j (c # cs))"
          using j(3) insertI1 insertI2 by metis+
        ultimately show ?thesis unfolding wf_part.simps by blast
      qed
      moreover obtain L where "take j (c # cs) = L" by blast
      ultimately show ?thesis using ps lit
        by (cases qs rule: wf_parts.cases) (auto split: ut_part.splits)
    qed
  qed
qed


section \<open>Facts about names\<close>

definition all_names :: "ut_part list \<Rightarrow> string list" where
  "all_names ps = concat (map (\<lambda>p. case p of PLit l \<Rightarrow> [] | PExpr ex \<Rightarrow> map uv_name (ux_vars ex)) ps)"

definition add_new :: "string list \<Rightarrow> string \<Rightarrow> string list" where
  "add_new acc n = (if n \<in> set acc then acc else acc @ [n])"

lemma names_vars_fold: "names_vars vs acc = foldl add_new acc (map uv_name vs)"
  by (induction vs arbitrary: acc) (auto simp: add_new_def)

lemma names_parts_fold: "names_parts ps acc = foldl add_new acc (all_names ps)"
  by (induction ps acc rule: names_parts.induct) (auto simp: all_names_def names_vars_fold)

lemma fold_add_new: "foldl add_new [] ns = rev (remdups (rev ns))"
  by (induction ns rule: rev_induct) (auto simp: add_new_def)

section \<open>Facts about expansion\<close>

text \<open>The algorithm of RFC 6570, from its own tables: the row of an operator in appendix A, the
  characters of sections 1.5 and 2.1, percent-encoding by section 3.2.1, prefixes by section 2.4.1,
  which count characters, and the items of the defined variables, joined.\<close>

definition rfc_row :: "char \<Rightarrow> ut_cfg" where
  "rfc_row op =
     (let row = (\<lambda>f s n e r. \<lparr>oc_first = f, oc_sep = s, oc_named = n, oc_ifEmpty = e, oc_reserved = r\<rparr>);
          simple = row [] '','' False [] False
      in case map_of
           [(CHR ''+'', row [] '','' False [] True), (CHR ''.'', row ''.'' ''.'' False [] False),
            (CHR ''/'', row ''/'' ''/'' False [] False), (CHR '';'', row '';'' '';'' True [] False),
            (CHR ''?'', row ''?'' ''&'' True ''='' False), (CHR ''&'', row ''&'' ''&'' True ''='' False),
            (CHR ''#'', row ''#'' '','' False [] True)] op of
         Some cfg \<Rightarrow> cfg | None \<Rightarrow> simple)"

definition rfc_unreserved :: "char \<Rightarrow> bool" where
  "rfc_unreserved c \<longleftrightarrow>
     (let x = of_char c :: nat
      in 0x41 \<le> x \<and> x \<le> 0x5A \<or> 0x61 \<le> x \<and> x \<le> 0x7A \<or> 0x30 \<le> x \<and> x \<le> 0x39 \<or> c \<in> set ''-._~'')"

definition rfc_reserved :: string where
  "rfc_reserved = '':/?#[]@'' @ ''!$&'' @ [CHR 0x27] @ ''()*+,;=''"

definition rfc_copied :: "bool \<Rightarrow> char \<Rightarrow> bool" where
  "rfc_copied r c \<longleftrightarrow> rfc_unreserved c \<or> r \<and> c \<in> set rfc_reserved"

text \<open>Triplets that are already encoded are copied as a whole where reserved characters are.\<close>

fun rfc_encode :: "bool \<Rightarrow> string \<Rightarrow> string" where
  "rfc_encode r [] = []"
| "rfc_encode r (c # a # b # s) =
     (if r \<and> c = CHR ''%'' \<and> is_hex a \<and> is_hex b then c # a # b # rfc_encode r s
      else (if rfc_copied r c then [c] else pct c) @ rfc_encode r (a # b # s))"
| "rfc_encode r (c # s) = (if rfc_copied r c then [c] else pct c) @ rfc_encode r s"

definition rfc_prefix :: "ut_var \<Rightarrow> string \<Rightarrow> string" where
  "rfc_prefix v s = (if uv_prefix v < 0 then s else char_prefix (nat (uv_prefix v)) s)"

definition rfc_string :: "ut_cfg \<Rightarrow> string \<Rightarrow> string \<Rightarrow> string" where
  "rfc_string cfg nm s =
     (if oc_named cfg then nm @ (if s = [] then oc_ifEmpty cfg else ''='' @ rfc_encode (oc_reserved cfg) s)
      else rfc_encode (oc_reserved cfg) s)"

definition rfc_pair :: "ut_cfg \<Rightarrow> string \<times> string \<Rightarrow> string" where
  "rfc_pair cfg kv =
     (if oc_named cfg \<and> snd kv = [] then rfc_encode (oc_reserved cfg) (fst kv) @ oc_ifEmpty cfg
      else rfc_encode (oc_reserved cfg) (fst kv) @ ''='' @ rfc_encode (oc_reserved cfg) (snd kv))"

definition rfc_joined :: "ut_cfg \<Rightarrow> string \<Rightarrow> string list \<Rightarrow> string" where
  "rfc_joined cfg nm xs =
     (if oc_named cfg then nm @ ''='' else []) @ join_with '','' (map (rfc_encode (oc_reserved cfg)) xs)"

definition rfc_items :: "fmts \<Rightarrow> ut_cfg \<Rightarrow> (string \<times> gval) list \<Rightarrow> ut_var \<Rightarrow> string list" where
  "rfc_items F cfg vars v =
     (case map_of vars (uv_name v) of
        None \<Rightarrow> []
      | Some GNil \<Rightarrow> []
      | Some raw \<Rightarrow>
          (case utNormalize F raw of
             UtEmpty \<Rightarrow> []
           | UtString s \<Rightarrow> [rfc_string cfg (uv_name v) (rfc_prefix v s)]
           | UtList xs \<Rightarrow> if uv_explode v then map (rfc_string cfg (uv_name v)) xs
                         else [rfc_joined cfg (uv_name v) xs]
           | UtMap kvs \<Rightarrow> if uv_explode v then map (rfc_pair cfg) kvs
                         else [rfc_joined cfg (uv_name v) (concat (map (\<lambda>kv. [fst kv, snd kv]) kvs))]))"

definition rfc_expand :: "fmts \<Rightarrow> ut_expr \<Rightarrow> (string \<times> gval) list \<Rightarrow> string" where
  "rfc_expand F ex vars =
     (let cfg = rfc_row (ux_op ex); items = concat (map (rfc_items F cfg vars) (ux_vars ex))
      in if items = [] then [] else oc_first cfg @ join_with (oc_sep cfg) items)"

text \<open>The values that are cut are UTF-8.\<close>

definition cut_utf8 :: "fmts \<Rightarrow> (string \<times> gval) list \<Rightarrow> ut_var \<Rightarrow> bool" where
  "cut_utf8 F vars v \<longleftrightarrow>
     (case map_of vars (uv_name v) of
        None \<Rightarrow> True
      | Some raw \<Rightarrow> (case utNormalize F raw of UtString s \<Rightarrow> 0 \<le> uv_prefix v \<longrightarrow> valid_utf8 s | _ \<Rightarrow> True))"

text \<open>The tables and routines of the code are those of the RFC.\<close>

lemma rfc_row_code: "rfc_row = utOperator"
  by (rule ext) (simp add: rfc_row_def utOperator_def)

lemma rfc_copied_code: "rfc_copied r c \<longleftrightarrow> utUnreserved c \<or> r \<and> utReserved c"
proof -
  have "rfc_unreserved c \<longleftrightarrow> utUnreserved c" 
    unfolding rfc_unreserved_def Let_def by (auto simp: utUnreserved_def less_eq_char_def)
  moreover have "c \<in> set rfc_reserved \<longleftrightarrow> utReserved c" by (auto simp: rfc_reserved_def utReserved_def)
  ultimately show ?thesis by (simp add: rfc_copied_def)
qed

lemma rfc_encode_at: "rfc_encode r s = utEncode r s"
proof (induction r s rule: rfc_encode.induct)
  case (2 r c a b s)
  show ?case
  proof (cases "r \<and> c = CHR ''%'' \<and> is_hex a \<and> is_hex b")
    case True
    then show ?thesis using 2(1) [OF True] utEncode_hex2 [of a b r s] by simp
  next
    case False
    then have "utEncode r (c # a # b # s) = (if rfc_copied r c then [c] else pct c) @ utEncode r (a # b # s)"
      by (subst utEncode.simps(2)) (auto simp: rfc_copied_code simp del: utEncode.simps)
    moreover have "rfc_encode r (c # a # b # s) = (if rfc_copied r c then [c] else pct c) @ rfc_encode r (a # b # s)"
      by (subst rfc_encode.simps(2)) (simp only: False if_False)
    ultimately show ?thesis using 2(2) [OF False] by (simp only:)
  qed
qed (simp_all add: rfc_copied_code)

lemma rfc_encode_code: "rfc_encode = utEncode"
  by (intro ext) (rule rfc_encode_at)

lemma rfc_prefix_code:
  assumes "0 \<le> uv_prefix v \<Longrightarrow> valid_utf8 s"
  shows "utPrefixed v s = rfc_prefix v s"
proof (cases "0 \<le> uv_prefix v")
  case True
  note u = assms [OF True]
  show ?thesis
  proof (cases "uv_prefix v < int (length (runes s))")
    case lt: True
    with True char_prefix_runes [OF u, of "nat (uv_prefix v)"] show ?thesis by (simp add: utPrefixed_def rfc_prefix_def)
  next
    case False
    with True char_prefix_all [OF u, of "nat (uv_prefix v)"] show ?thesis by (simp add: utPrefixed_def rfc_prefix_def)
  qed
qed (simp add: utPrefixed_def rfc_prefix_def)

lemma write_items_False: "write_items sep f False xs = concat (map (\<lambda>x. sep @ f x) xs)"
  by (induction xs) auto

lemma join_with_concat: "join_with sep (x # xs) = x @ concat (map (\<lambda>y. sep @ y) xs)"
  by (induction xs arbitrary: x) (auto simp: join_with_Cons)

lemma write_items_True: "write_items sep f True xs = join_with sep (map f xs)"
  by (cases xs) (simp_all add: write_items_False join_with_concat comp_def)

lemma join_flat_pairs:
  "join_with '','' (map (\<lambda>kv. enc (fst kv) @ CHR '','' # enc (snd kv)) kvs)
     = join_with '','' (map enc (concat (map (\<lambda>kv. [fst kv, snd kv]) kvs)))"
proof (induction kvs)
  case Nil
  then show ?case by simp
next
  case (Cons kv kvs)
  then show ?case by (cases kvs) auto
qed

lemma utOperator_ifEmpty:
  "op \<noteq> CHR '';'' \<Longrightarrow> oc_named (utOperator op) \<Longrightarrow> oc_ifEmpty (utOperator op) = ''=''"
  by (simp add: utOperator_def split: if_split_asm)

lemma utMapItem_rfc:
  assumes "op \<noteq> CHR '';''"
  shows "utMapItem (utOperator op) = rfc_pair (utOperator op)"
proof
  fix kv :: "string \<times> string"
  show "utMapItem (utOperator op) kv = rfc_pair (utOperator op) kv"
    using utOperator_ifEmpty [OF assms] by (simp add: utMapItem_def rfc_pair_def rfc_encode_code)
qed

lemma utExpandString_rfc: "utExpandString v cfg s = rfc_string cfg (uv_name v) s"
  by (simp add: utExpandString_def rfc_string_def rfc_encode_code)

lemma length_sorted_pairs: "length (sorted_pairs F m) = length m"
  by (simp add: sorted_pairs_def)

lemma sorted_pairs_Nil: "sorted_pairs F m = [] \<longleftrightarrow> m = []"
  using length_sorted_pairs [of F m] by (cases m; cases "sorted_pairs F m") simp_all

lemma utNormalize_ne: "utNormalize F raw \<noteq> UtList []" "utNormalize F raw \<noteq> UtMap []"
  by (cases raw; simp add: sorted_pairs_Nil)+

definition rfc_first :: "ut_cfg \<Rightarrow> bool \<Rightarrow> string list \<Rightarrow> string" where
  "rfc_first cfg first items =
     (if items = [] then []
      else (if first then oc_first cfg else oc_sep cfg) @ join_with (oc_sep cfg) items)"

lemma rfc_first_append:
  "xs \<noteq> [] \<Longrightarrow> rfc_first cfg first (xs @ ys) = rfc_first cfg first xs @ rfc_first cfg False ys"
  by (cases xs; cases ys) (auto simp: rfc_first_def join_with_concat)

lemma expand_vars_rfc:
  assumes "op \<noteq> CHR '';''" "\<forall>v\<in>set vs. cut_utf8 F vars v"
  shows "expand_vars F (utOperator op) vars first vs
     = rfc_first (utOperator op) first (concat (map (rfc_items F (utOperator op) vars) vs))"
  using assms(2)
proof (induction vs arbitrary: first)
  case Nil
  then show ?case by (simp add: rfc_first_def)
next
  case (Cons v vs)
  let ?cfg = "utOperator op"
  have one: "rfc_first ?cfg first [x] = (if first then oc_first ?cfg else oc_sep ?cfg) @ x" for first x
    by (simp add: rfc_first_def)
  show ?case
  proof (cases "map_of vars (uv_name v)")
    case None
    with Cons show ?thesis by (simp add: rfc_items_def)
  next
    case (Some raw)
    show ?thesis
    proof (cases "raw = GNil")
      case True
      with Some Cons show ?thesis by (simp add: rfc_items_def)
    next
      case False
      have it: "rfc_items F ?cfg vars v = (case utNormalize F raw of
             UtEmpty \<Rightarrow> []
           | UtString s \<Rightarrow> [rfc_string ?cfg (uv_name v) (rfc_prefix v s)]
           | UtList xs \<Rightarrow> if uv_explode v then map (rfc_string ?cfg (uv_name v)) xs
                         else [rfc_joined ?cfg (uv_name v) xs]
           | UtMap kvs \<Rightarrow> if uv_explode v then map (rfc_pair ?cfg) kvs
                         else [rfc_joined ?cfg (uv_name v) (concat (map (\<lambda>kv. [fst kv, snd kv]) kvs))])"
        using Some False by (cases raw) (simp_all add: rfc_items_def)
      show ?thesis
      proof (cases "utNormalize F raw")
        case UtEmpty
        with Some False Cons it show ?thesis by simp
      next
        case (UtString s)
        then have "utPrefixed v s = rfc_prefix v s"
          using Cons.prems Some by (intro rfc_prefix_code) (simp add: cut_utf8_def)
        with UtString Some False Cons it rfc_first_append [of "[rfc_string ?cfg (uv_name v) (rfc_prefix v s)]" ?cfg first]
        show ?thesis by (simp add: one utExpandString_rfc)
      next
        case (UtList xs)
        then have ne: "xs \<noteq> []" using utNormalize_ne(1) [of F raw] by auto
        have "(if first then oc_first ?cfg else oc_sep ?cfg) @ utExpandList v ?cfg xs
            = rfc_first ?cfg first (rfc_items F ?cfg vars v)"
          using ne it UtList
          by (simp add: utExpandList_def write_items_True rfc_joined_def rfc_encode_code utExpandString_rfc [abs_def] rfc_first_def)
        moreover have "rfc_items F ?cfg vars v \<noteq> []" using it UtList ne by simp
        ultimately show ?thesis
          using Some False Cons UtList by (simp add: rfc_first_append flip: append_assoc)
      next
        case (UtMap kvs)
        then have ne: "kvs \<noteq> []" using utNormalize_ne(2) [of F raw] by auto
        have "(if first then oc_first ?cfg else oc_sep ?cfg) @ utExpandMap v ?cfg kvs
            = rfc_first ?cfg first (rfc_items F ?cfg vars v)"
          using ne it UtMap
          by (simp add: utExpandMap_def Let_def write_items_True rfc_joined_def rfc_encode_code utMapItem_rfc [OF assms(1)]
              rfc_first_def join_flat_pairs)
        moreover have "rfc_items F ?cfg vars v \<noteq> []" using it UtMap ne by simp
        ultimately show ?thesis
          using Some False Cons UtMap by (simp add: rfc_first_append flip: append_assoc)
      qed
    qed
  qed
qed


section \<open>Facts about matching\<close>

text \<open>The values the matcher reads: every name bound to a non-empty string.\<close>

definition str_val :: "(string \<times> gval) list \<Rightarrow> string \<Rightarrow> string" where
  "str_val vars n = (case map_of vars n of Some (GStr s) \<Rightarrow> s | _ \<Rightarrow> [])"

definition all_bound :: "(string \<times> gval) list \<Rightarrow> string list \<Rightarrow> bool" where
  "all_bound vars ns \<longleftrightarrow> list_all (\<lambda>n. map_of vars n = Some (GStr (str_val vars n)) \<and> str_val vars n \<noteq> []) ns"

definition enc_vals :: "(string \<times> gval) list \<Rightarrow> string list \<Rightarrow> string list" where
  "enc_vals vars ns = map (\<lambda>n. utEncode False (str_val vars n)) ns"

fun no_any :: "rtok list \<Rightarrow> bool" where
  "no_any [] = True"
| "no_any (RLit l # ts) = no_any ts"
| "no_any (RCap c lz # ts) = (c = NotSlash \<and> no_any ts)"

fun literals_clean :: "ut_part list \<Rightarrow> bool" where
  "literals_clean [] = True"
| "literals_clean (PLit l # ps) = (utEncode True l = l \<and> literals_clean ps)"
| "literals_clean (PExpr ex # ps) = literals_clean ps"

lemma no_any_append [simp]: "no_any (ts @ us) \<longleftrightarrow> no_any ts \<and> no_any us"
  by (induction ts rule: no_any.induct) auto

lemma regexp_vars_ncaps: "regexp_vars op first vs = Inr ts \<Longrightarrow> ncaps ts = length vs"
  by (induction op first vs arbitrary: ts rule: regexp_vars.induct)
    (auto split: if_splits sum.splits)

lemma regexp_vars_plain:
  "regexp_vars op first vs = Inr ts \<Longrightarrow> v \<in> set vs \<Longrightarrow> \<not> uv_explode v \<and> uv_prefix v < 0"
  by (induction op first vs arbitrary: ts rule: regexp_vars.induct)
    (auto split: if_splits sum.splits)

lemma expand_vars_build:
  assumes "op = CHR 0x00 \<or> op = CHR ''/''" "regexp_vars op first vs = Inr ts"
    "all_bound vars (map uv_name vs)"
  shows "expand_vars F (utOperator op) vars first vs
     = (if first \<and> vs \<noteq> [] then oc_first (utOperator op) else [])
       @ rbuild ts (enc_vals vars (map uv_name vs))"
  using assms
proof (induction op first vs arbitrary: ts rule: regexp_vars.induct)
  case (1 op first)
  then show ?case by simp
next
  case (2 op first v vs)
  from "2.prems"(2) obtain us where us: "regexp_vars op False vs = Inr us"
      and ts: "ts = (if first then [] else [RLit (if op = CHR ''/'' then ''/'' else '','')]) @
        RCap (if op = CHR ''+'' then AnyChar else NotSlash) True # us"
      and pl: "\<not> uv_explode v" "uv_prefix v < 0"
    by (auto split: if_splits sum.splits)
  have IH: "expand_vars F (utOperator op) vars False vs = rbuild us (enc_vals vars (map uv_name vs))"
    using "2.IH" [OF _ "2.prems"(1) us] pl "2.prems"(3) by (simp add: all_bound_def)
  obtain s where s: "map_of vars (uv_name v) = Some (GStr s)" "str_val vars (uv_name v) = s"
    using "2.prems"(3) by (auto simp: all_bound_def)
  have op: "\<not> oc_named (utOperator op)" "\<not> oc_reserved (utOperator op)"
      "oc_sep (utOperator op) = (if op = CHR ''/'' then ''/'' else '','')"
    using "2.prems"(1) by (auto simp: utOperator_def)
  show ?case
    using s pl op IH ts by (simp add: enc_vals_def utExpandString_def utPrefixed_def)
qed

lemma enc_in_class: "list_all ut_alph s \<Longrightarrow> list_all (in_class NotSlash) s"
  by (induction s) (auto simp: utUnreserved_def less_eq_char_def)

lemma vals_fit:
  "no_any ts \<Longrightarrow> length ns = ncaps ts \<Longrightarrow> all_bound vars ns \<Longrightarrow>
     rfits ts (enc_vals vars ns) \<and> in_alph ut_alph ts (enc_vals vars ns)"
proof (induction ts arbitrary: ns rule: ncaps.induct)
  case 1
  then show ?case by (simp add: enc_vals_def)
next
  case (2 l ts)
  then show ?case by simp
next
  case (3 c lz ts)
  from "3.prems"(2) obtain n ns' where ns: "ns = n # ns'" "length ns' = ncaps ts"
    by (cases ns) auto
  have c: "c = NotSlash" "no_any ts" "all_bound vars ns'" "str_val vars n \<noteq> []"
    using "3.prems" ns by (auto simp: all_bound_def)
  have a: "list_all ut_alph (utEncode False (str_val vars n))" by (rule utEncode_alph)
  moreover have "calph ut_alph NotSlash = ut_alph" by (rule ext) simp
  ultimately show ?case
    using "3.IH" [OF c(2) ns(2) c(3)] ns c utEncode_ne [OF c(4)] enc_in_class [OF a]
    by (simp add: enc_vals_def)
qed

lemma regexp_parts_ncaps: "regexp_parts ps = Inr (ts, ns) \<Longrightarrow> ncaps ts = length ns"
  by (induction ps arbitrary: ts ns rule: regexp_parts.induct)
    (auto split: if_splits sum.splits dest!: regexp_vars_ncaps)

lemma expand_parts_build:
  assumes "regexp_parts ps = Inr (ts, ns)" "no_any ts" "literals_clean ps" "all_bound vars ns"
    "wf_parts ps"
  shows "expand_parts F ps vars = rbuild ts (enc_vals vars ns)"
  using assms
proof (induction ps arbitrary: ts ns rule: regexp_parts.induct)
  case 1
  then show ?case by simp
next
  case (2 l ps)
  then show ?case by (auto split: sum.splits)
next
  case (3 ex ps)
  from "3.prems"(1) obtain vts us ms where vts: "regexp_vars (ux_op ex) True (ux_vars ex) = Inr vts"
      and us: "regexp_parts ps = Inr (us, ms)"
      and ts: "ts = (if ux_op ex = CHR ''/'' then [RLit ''/''] else []) @ vts @ us"
      and ns: "ns = map uv_name (ux_vars ex) @ ms"
      and op: "List.member [CHR 0x00, CHR ''+'', CHR ''/''] (ux_op ex)"
    by (auto split: if_splits sum.splits)
  have ne: "ux_vars ex \<noteq> []" using "3.prems"(5) by (simp add: wf_expr_def)
  have "ux_op ex \<noteq> CHR ''+''"
    using "3.prems"(2) ts vts ne
    by (cases "ux_vars ex") (auto split: if_splits sum.splits)
  with op have op': "ux_op ex = CHR 0x00 \<or> ux_op ex = CHR ''/''" by auto
  have b: "all_bound vars (map uv_name (ux_vars ex))" "all_bound vars ms"
    using "3.prems"(4) ns by (auto simp: all_bound_def)
  have IH: "expand_parts F ps vars = rbuild us (enc_vals vars ms)"
    using "3.IH" [OF _ vts us] op "3.prems" b ts by simp
  have fst: "oc_first (utOperator (ux_op ex)) = (if ux_op ex = CHR ''/'' then ''/'' else [])"
    using op' by (auto simp: utOperator_def)
  have len: "length (enc_vals vars (map uv_name (ux_vars ex))) = ncaps vts"
    using regexp_vars_ncaps [OF vts] by (simp add: enc_vals_def)
  have app: "enc_vals vars ns = enc_vals vars (map uv_name (ux_vars ex)) @ enc_vals vars ms"
    by (simp add: enc_vals_def ns)
  show ?case
    unfolding app ts using expand_vars_build [OF op' vts b(1), of F] IH ne fst rbuild_append [OF len]
    by (simp add: utExpandExpr_def)
qed

lemma fill_map:
  "fill dec ns (map f ns) out = out ++ (\<lambda>n. if n \<in> set ns then Some (dec (f n)) else None)"
proof (induction ns arbitrary: out)
  case Nil
  then show ?case by (simp add: map_add_def)
next
  case (Cons n ns)
  show ?case by (simp add: Cons) (rule ext, auto simp: map_add_def split: option.splits)
qed

lemma map_of_parse: "Parse raw = Inr t \<Longrightarrow> wf_parts (ut_parts t)"
  using parse_from_wf [of 0 raw] by (auto simp: Parse_def split: sum.splits)

section \<open>Properties\<close>

text \<open>
  The parser and its printer. Every template the parser accepts has non-empty
  brace-free literals, never two in a row, and well-formed variables; printing such parts and
  parsing again gives the same parts. The names it reports are the distinct variable names in
  the order they first occur, and it is static when it has no expression.
\<close>

theorem parse_print_roundtrip:
  "(wf_parts ps \<longrightarrow> Parse (print_parts ps) = Inr \<lparr>ut_raw = print_parts ps, ut_parts = ps\<rparr>)
   \<and> (Parse raw = Inr t \<longrightarrow>
        ut_raw t = raw \<and> wf_parts (ut_parts t)
        \<and> Parse (print_parts (ut_parts t)) = Inr (t\<lparr>ut_raw := print_parts (ut_parts t)\<rparr>)
        \<and> Names t = rev (remdups (rev (all_names (ut_parts t)))) \<and> distinct (Names t)
        \<and> (IsStatic t \<longleftrightarrow> Names t = []))"
proof (intro conjI impI)
  show 1: "Parse (print_parts ps) = Inr \<lparr>ut_raw = print_parts ps, ut_parts = ps\<rparr>"
    if "wf_parts ps" for ps
    using parse_from_print [OF that] by (simp add: Parse_def)
  assume p: "Parse raw = Inr t"
  show "ut_raw t = raw" using p by (auto simp: Parse_def split: sum.splits)
  show w: "wf_parts (ut_parts t)" using p by (rule map_of_parse)
  show "Parse (print_parts (ut_parts t)) = Inr (t\<lparr>ut_raw := print_parts (ut_parts t)\<rparr>)"
    using 1 [OF w] by simp
  show n: "Names t = rev (remdups (rev (all_names (ut_parts t))))"
    by (simp add: Names_def names_parts_fold fold_add_new)
  then show "distinct (Names t)" by simp
  have "wf_parts qs \<Longrightarrow> is_static_parts qs \<longleftrightarrow> all_names qs = []" for qs
    by (induction qs rule: is_static_parts.induct) (auto simp: all_names_def wf_expr_def)
  then show "IsStatic t \<longleftrightarrow> Names t = []" using w unfolding IsStatic_def n by simp
qed

definition ut_example :: string where
  "ut_example = ''users/'' @ CHR 0x7B # ''id}/'' @ CHR 0x7B # ''?q,limit:3}''"

theorem parse_print_roundtrip_witness:
  "\<exists>t. Parse ut_example = Inr t \<and> Names t = [''id'', ''q'', ''limit''] \<and> distinct (Names t)"
proof -
  have "case Parse ut_example of Inr t \<Rightarrow> Names t = [''id'', ''q'', ''limit''] | Inl _ \<Rightarrow> False"
    by code_simp
  then obtain t where t: "Parse ut_example = Inr t" "Names t = [''id'', ''q'', ''limit'']"
    by (auto split: sum.splits)
  moreover have "distinct (Names t)" using parse_print_roundtrip [of "[]" ut_example t] t(1) by blast
  ultimately show ?thesis by blast
qed

text \<open>
  Percent encoding. Encoding for an unreserved position is undone by decoding,
  uses unreserved characters and \<open>%\<close> only, and so never confuses two values or lists of
  values; encoding for a reserved position leaves what it wrote alone when applied again.
\<close>

theorem encode_decode_roundtrip:
  "utDecode (utEncode False s) = Inr s
   \<and> set (utEncode False s) \<subseteq> {c. utUnreserved c} \<union> {CHR ''%''}
   \<and> (map (utEncode False) xs = map (utEncode False) ys \<longleftrightarrow> xs = ys)
   \<and> utEncode True (utEncode True s) = utEncode True s"
proof (intro conjI)
  show "set (utEncode False s) \<subseteq> {c. utUnreserved c} \<union> {CHR ''%''}"
    using utEncode_alph [of s] by (auto simp: list_all_iff)
  have "list_all (\<lambda>_. True) zs" for zs :: "string list" by (simp add: list_all_iff)
  then show "map (utEncode False) xs = map (utEncode False) ys \<longleftrightarrow> xs = ys"
    by (intro ut_codec.enc_list_inj)
qed (rule utDecode_encode utEncode_idem)+

text \<open>
  C24: expansion follows the algorithm of RFC 6570 for every operator but \<open>;\<close>: the
  items of the defined variables, in order, after the operator's first string and joined by
  its separator, and nothing at all when no variable is defined; undefined, nil and empty
  composite values contribute nothing. A prefix counts characters, of a value that is UTF-8. For \<open>;\<close> an exploded association with an empty value
  is written \<open>k=\<close> where the algorithm writes \<open>k\<close>.
\<close>

theorem expand_follows_rfc:
  "(ux_op ex \<noteq> CHR '';'' \<and> (\<forall>v\<in>set (ux_vars ex). cut_utf8 F vars v) \<longrightarrow> utExpandExpr F ex vars = rfc_expand F ex vars) \<and>
   (ux_op ex' = CHR '';'' \<and> ux_vars ex' = [\<lparr>uv_name = ''m'', uv_explode = True, uv_prefix = - 1\<rparr>]
     \<longrightarrow> utExpandExpr F ex' [(''m'', GMap [(''k'', GStr [])])] = '';k=''
         \<and> rfc_expand F ex' [(''m'', GMap [(''k'', GStr [])])] = '';k'')"
proof (intro conjI)
  show "ux_op ex \<noteq> CHR '';'' \<and> (\<forall>v\<in>set (ux_vars ex). cut_utf8 F vars v) \<longrightarrow> utExpandExpr F ex vars = rfc_expand F ex vars"
    by (simp add: utExpandExpr_def expand_vars_rfc rfc_expand_def rfc_row_code rfc_first_def Let_def)
  have enc: "utEncode False ''k'' = ''k''" by (simp add: utUnreserved_def less_eq_char_def)
  show "ux_op ex' = CHR '';'' \<and> ux_vars ex' = [\<lparr>uv_name = ''m'', uv_explode = True, uv_prefix = - 1\<rparr>]
     \<longrightarrow> utExpandExpr F ex' [(''m'', GMap [(''k'', GStr [])])] = '';k=''
         \<and> rfc_expand F ex' [(''m'', GMap [(''k'', GStr [])])] = '';k''"
    using enc by (simp add: utExpandExpr_def rfc_expand_def utOperator_def sorted_pairs_def
        utExpandMap_def utMapItem_def rfc_items_def rfc_pair_def rfc_row_code rfc_encode_code Let_def)
qed

text \<open>
  C9: matching what was expanded. For a template of simple and path expressions
  without modifiers whose expressions are delimited (each is followed by the end or by a
  literal that starts outside the encoded alphabet), expanding with non-empty strings and
  matching the result gives every variable its value back and nothing else; and in general a
  URI matches exactly when some values of the captured classes build it.
\<close>

theorem match_expand_roundtrip:
  assumes "Parse raw = Inr t" "Regexp t = Inr (ts, ns)"
  shows "(ut_Match t uri \<noteq> None \<longleftrightarrow> (\<exists>ms. rfits ts ms \<and> rbuild ts ms = uri)) \<and>
    (no_any ts \<and> delimited ut_alph ts \<and> literals_clean (ut_parts t) \<and> all_bound vars ns \<longrightarrow>
       ut_Match t (ut_Expand F t vars)
         = Some (\<lambda>n. if n \<in> set ns then Some (str_val vars n) else None))"
proof (intro conjI)
  show "ut_Match t uri \<noteq> None \<longleftrightarrow> (\<exists>ms. rfits ts ms \<and> rbuild ts ms = uri)"
    using assms(2) rmatch_iff [of ts uri] by (auto simp: ut_Match_def split: option.splits)
  show "no_any ts \<and> delimited ut_alph ts \<and> literals_clean (ut_parts t) \<and> all_bound vars ns \<longrightarrow>
       ut_Match t (ut_Expand F t vars)
         = Some (\<lambda>n. if n \<in> set ns then Some (str_val vars n) else None)"
  proof (intro impI, elim conjE)
    assume h: "no_any ts" "delimited ut_alph ts" "literals_clean (ut_parts t)" "all_bound vars ns"
    have r: "regexp_parts (ut_parts t) = Inr (ts, ns)" using assms(2) by (simp add: Regexp_def)
    have e: "ut_Expand F t vars = rbuild ts (enc_vals vars ns)"
      unfolding ut_Expand_def by (rule expand_parts_build [OF r h(1,3,4) map_of_parse [OF assms(1)]])
    have sl: "ut_alph (CHR ''/'') = False" by (simp add: utUnreserved_def less_eq_char_def)
    from vals_fit [OF h(1) regexp_parts_ncaps [OF r, symmetric] h(4)]
    have "rmatch ts (ut_Expand F t vars) = Some (enc_vals vars ns)"
      unfolding e by (intro rmatch_build [OF sl h(2)]) auto
    then show "ut_Match t (ut_Expand F t vars)
         = Some (\<lambda>n. if n \<in> set ns then Some (str_val vars n) else None)"
      using assms(2) by (simp add: ut_Match_def enc_vals_def fill_map cong: if_cong)
  qed
qed


definition demo_fmts :: fmts where
  "demo_fmts = \<lparr>fmt_float = (\<lambda>_. ''0''), fmt_v = (\<lambda>_. ''v'')\<rparr>"

theorem expand_follows_rfc_witness:
  "utExpandExpr demo_fmts \<lparr>ux_op = CHR ''?'', ux_vars = [\<lparr>uv_name = ''q'', uv_explode = False, uv_prefix = 1\<rparr>,
      \<lparr>uv_name = ''l'', uv_explode = True, uv_prefix = - 1\<rparr>]\<rparr>
      [(''q'', GStr [CHR 0xCE, CHR 0xB1, CHR 0xCE, CHR 0xB2]), (''l'', GStrs [''1'', []])] = ''?q=%CE%B1&l=1&l=''"
proof -
  let ?ex = "\<lparr>ux_op = CHR ''?'', ux_vars = [\<lparr>uv_name = ''q'', uv_explode = False, uv_prefix = 1\<rparr>,
      \<lparr>uv_name = ''l'', uv_explode = True, uv_prefix = - 1\<rparr>]\<rparr>"
  let ?vars = "[(''q'', GStr [CHR 0xCE, CHR 0xB1, CHR 0xCE, CHR 0xB2]), (''l'', GStrs [''1'', []])]"
  have u: "\<forall>v\<in>set (ux_vars ?ex). cut_utf8 demo_fmts ?vars v" by code_simp
  have "rfc_expand demo_fmts ?ex ?vars = ''?q=%CE%B1&l=1&l=''" by code_simp
  then show ?thesis
    using expand_follows_rfc [of ?ex demo_fmts ?vars ?ex] u by simp
qed

definition ut_match_example :: string where
  "ut_match_example = ''users/'' @ CHR 0x7B # ''id,n}/x'' @ CHR 0x7B # ''/p}''"

theorem match_expand_roundtrip_witness:
  "\<exists>t. Parse ut_match_example = Inr t \<and>
     ut_Match t (ut_Expand demo_fmts t [(''id'', GStr ''a/b''), (''n'', GStr ''1''), (''p'', GStr ''z'')]) \<noteq> None"
proof -
  let ?vars = "[(''id'', GStr ''a/b''), (''n'', GStr ''1''), (''p'', GStr ''z'')]"
  have "case Parse ut_match_example of Inl _ \<Rightarrow> False | Inr t \<Rightarrow>
      (case Regexp t of Inl _ \<Rightarrow> False | Inr (ts, ns) \<Rightarrow>
        no_any ts \<and> delimited ut_alph ts \<and> literals_clean (ut_parts t) \<and> all_bound ?vars ns)"
    by code_simp
  then obtain t ts ns where t: "Parse ut_match_example = Inr t" "Regexp t = Inr (ts, ns)"
      and h: "no_any ts \<and> delimited ut_alph ts \<and> literals_clean (ut_parts t) \<and> all_bound ?vars ns"
    by (auto split: sum.splits)
  from match_expand_roundtrip [OF t, of "[]" ?vars demo_fmts] h show ?thesis using t(1) by auto
qed

end
