(* ===== verification/UriFastmcp.thy ===== *)
theory UriFastmcp
  imports Prelude GoStd TemplateRegex UriTemplate
begin

text \<open>
  FastMCP's own template semantics, \<open>src/uritemplate/fastmcp.go\<close>: segment and wildcard
  placeholders, query expressions, name normalization, and the round trip between
  \<open>ExpandURITemplate\<close> and \<open>MatchURITemplate\<close>. A nil map or regular expression is \<open>None\<close>;
  the loops over \<open>path[i:]\<close> recurse on what is left of the path.
\<close>

section \<open>Names and query expressions\<close>

definition normalizeParamName :: "string \<Rightarrow> string" where
  "normalizeParamName nm = replace_all nm ''-'' ''_''"

fun valid_group_chars :: "bool \<Rightarrow> string \<Rightarrow> bool" where
  "valid_group_chars first [] = True"
| "valid_group_chars first (c # cs) =
     (if (CHR ''a'' \<le> c \<and> c \<le> CHR ''z'') \<or> (CHR ''A'' \<le> c \<and> c \<le> CHR ''Z'') \<or> c = CHR ''_''
      then valid_group_chars False cs
      else if CHR ''0'' \<le> c \<and> c \<le> CHR ''9''
      then (if first then False else valid_group_chars False cs)
      else False)"

definition validGroupName :: "string \<Rightarrow> bool" where
  "validGroupName nm = (if nm = [] then False else valid_group_chars True nm)"

definition query_names :: "string \<Rightarrow> string list" where
  "query_names body = filter (\<lambda>r. r \<noteq> []) (map trim_space (split_on (CHR '','') body))"

text \<open>The loop over the two openings; a missing close brace goes on to the next.\<close>

fun split_query_loop :: "string list \<Rightarrow> string \<Rightarrow> string \<times> string list" where
  "split_query_loop [] template = (template, [])"
| "split_query_loop (op # ops) template =
     (case index_str template op of
        None \<Rightarrow> split_query_loop ops template
      | Some idx \<Rightarrow>
          (case index_byte (CHR 0x7D) (drop idx template) of
             None \<Rightarrow> split_query_loop ops template
           | Some e \<Rightarrow>
               (take idx template @ drop (idx + e + 1) template,
                query_names (take (e - 2) (drop (idx + 2) template)))))"

definition splitQueryExpr :: "string \<Rightarrow> string \<times> string list" where
  "splitQueryExpr template = split_query_loop [CHR 0x7B # ''?'', CHR 0x7B # ''&''] template"

text \<open>The expression \<open>^([^*]+)(\*?)$\<close> on a placeholder body: the name and whether it is a
  wildcard.\<close>

definition fmPlaceholder :: "string \<Rightarrow> (string \<times> bool) option" where
  "fmPlaceholder body =
     (let nm = takeWhile (\<lambda>c. c \<noteq> CHR ''*'') body; rest = dropWhile (\<lambda>c. c \<noteq> CHR ''*'') body
      in if nm = [] then None
         else if rest = [] then Some (nm, False)
         else if rest = ''*'' then Some (nm, True)
         else None)"

section \<open>Building the regular expression\<close>

function (sequential) build_loop :: "string \<Rightarrow> string list \<Rightarrow> (rtok list \<times> string list) option" where
  "build_loop [] seen = Some ([], [])"
| "build_loop (c # cs) seen =
     (if c = CHR 0x7B then
        (case index_byte (CHR 0x7D) (c # cs) of
           None \<Rightarrow> None
         | Some e \<Rightarrow>
             (case fmPlaceholder (take (e - 1) cs) of
                None \<Rightarrow> None
              | Some (raw, star) \<Rightarrow>
                  let nm = normalizeParamName raw
                  in if \<not> validGroupName nm \<or> List.member seen nm then None
                     else (case build_loop (drop (e + 1) (c # cs)) (nm # seen) of
                             None \<Rightarrow> None
                           | Some (ts, ns) \<Rightarrow>
                               Some (RCap (if star then AnyChar else NotSlash) False # ts, nm # ns))))
      else (case index_byte (CHR 0x7B) (c # cs) of
              None \<Rightarrow> Some ([RLit (c # cs)], [])
            | Some j \<Rightarrow>
                if j = 0 then None
                else (case build_loop (drop j (c # cs)) seen of
                        None \<Rightarrow> None
                      | Some (ts, ns) \<Rightarrow> Some (RLit (take j (c # cs)) # ts, ns))))"
  by pat_completeness auto
termination
  by (relation "measure (\<lambda>(s, seen). length s)") auto

declare build_loop.simps(2) [simp del]

definition BuildRegex :: "string \<Rightarrow> (rtok list \<times> string list) option" where
  "BuildRegex template = build_loop (fst (splitQueryExpr template)) []"

section \<open>Decoding and query strings\<close>

text \<open>\<open>url.PathUnescape\<close>: an escape is a percent sign and two hexadecimal digits.\<close>

fun url_PathUnescape :: "string \<Rightarrow> string option" where
  "url_PathUnescape [] = Some []"
| "url_PathUnescape (c # cs) =
     (if c = CHR ''%'' then
        (case cs of
           a # b # rest \<Rightarrow>
             if is_hex a \<and> is_hex b then map_option ((#) (unpct a b)) (url_PathUnescape rest) else None
         | _ \<Rightarrow> None)
      else map_option ((#) c) (url_PathUnescape cs))"

definition pathUnescape :: "string \<Rightarrow> string" where
  "pathUnescape s = (case url_PathUnescape s of Some d \<Rightarrow> d | None \<Rightarrow> s)"

definition query_pair :: "string \<Rightarrow> string \<times> string" where
  "query_pair p =
     (case index_byte (CHR ''='') p of
        None \<Rightarrow> (pathUnescape p, pathUnescape [])
      | Some eq \<Rightarrow> (pathUnescape (take eq p), pathUnescape (drop (eq + 1) p)))"

definition append_at :: "(string \<rightharpoonup> string list) \<Rightarrow> string \<times> string \<Rightarrow> (string \<rightharpoonup> string list)" where
  "append_at m kv = m(fst kv \<mapsto> (case m (fst kv) of None \<Rightarrow> [] | Some vs \<Rightarrow> vs) @ [snd kv])"

definition parseQueryKeepBlank :: "string \<Rightarrow> (string \<rightharpoonup> string list)" where
  "parseQueryKeepBlank raw =
     (if raw = [] then Map.empty
      else foldl (\<lambda>m p. if p = [] then m else append_at m (query_pair p)) Map.empty (split_on (CHR ''&'') raw))"

section \<open>Matching\<close>

definition take_query :: "(string \<rightharpoonup> string list) \<Rightarrow> (string \<rightharpoonup> string) \<Rightarrow> string \<Rightarrow> (string \<rightharpoonup> string)" where
  "take_query q out raw =
     (let nm = normalizeParamName raw
      in if out nm \<noteq> None then out
         else (case q raw of Some vals \<Rightarrow> out(nm \<mapsto> hd vals) | None \<Rightarrow> out))"

definition cut_query :: "string \<Rightarrow> string \<times> string" where
  "cut_query uri =
     (case index_byte (CHR ''?'') uri of
        None \<Rightarrow> (uri, []) | Some idx \<Rightarrow> (take idx uri, drop (idx + 1) uri))"

definition MatchURITemplate :: "string \<Rightarrow> string \<Rightarrow> (string \<rightharpoonup> string) option" where
  "MatchURITemplate uri template =
     (case BuildRegex template of
        None \<Rightarrow> None
      | Some (ts, ns) \<Rightarrow>
          let qns = snd (splitQueryExpr template); (uriPath, uriQuery) = cut_query uri
          in case rmatch ts uriPath of
               None \<Rightarrow> None
             | Some ms \<Rightarrow>
                 let out = fill pathUnescape ns ms Map.empty
                 in Some (if qns = [] then out
                          else foldl (take_query (parseQueryKeepBlank uriQuery)) out qns))"

section \<open>Expanding\<close>

abbreviation fmUnreserved :: "char \<Rightarrow> bool" where
  "fmUnreserved \<equiv> utUnreserved"

fun fmEncode :: "bool \<Rightarrow> string \<Rightarrow> string" where
  "fmEncode w [] = []"
| "fmEncode w (c # cs) =
     (if fmUnreserved c \<or> (w \<and> c = CHR ''/'') then c # fmEncode w cs
      else CHR ''%'' # hex_digits ! ((of_char c :: nat) div 16) # hex_digits ! ((of_char c :: nat) mod 16)
           # fmEncode w cs)"

definition param_or_empty :: "(string \<rightharpoonup> string) \<Rightarrow> string \<Rightarrow> string" where
  "param_or_empty params nm = (case params nm of Some v \<Rightarrow> v | None \<Rightarrow> [])"

function (sequential) expand_path :: "string \<Rightarrow> (string \<rightharpoonup> string) \<Rightarrow> string" where
  "expand_path [] params = []"
| "expand_path (c # cs) params =
     (if c = CHR 0x7B then
        (case index_byte (CHR 0x7D) (c # cs) of
           None \<Rightarrow> c # cs
         | Some e \<Rightarrow>
             (case fmPlaceholder (take (e - 1) cs) of
                None \<Rightarrow> take (e + 1) (c # cs)
              | Some (raw, star) \<Rightarrow> fmEncode star (param_or_empty params (normalizeParamName raw)))
             @ expand_path (drop (e + 1) (c # cs)) params)
      else (case index_byte (CHR 0x7B) (c # cs) of
              None \<Rightarrow> c # cs
            | Some j \<Rightarrow>
                if j = 0 then [] else take j (c # cs) @ expand_path (drop j (c # cs)) params))"
  by pat_completeness auto
termination
  by (relation "measure (\<lambda>(s, params). length s)") auto

declare expand_path.simps(2) [simp del]

fun expand_query :: "bool \<Rightarrow> string list \<Rightarrow> (string \<rightharpoonup> string) \<Rightarrow> string" where
  "expand_query first [] params = []"
| "expand_query first (raw # raws) params =
     (case params (normalizeParamName raw) of
        None \<Rightarrow> expand_query first raws params
      | Some v \<Rightarrow>
          (if first then ''?'' else ''&'') @ raw @ ''='' @ fmEncode False v
          @ expand_query False raws params)"

definition ExpandURITemplate :: "string \<Rightarrow> (string \<rightharpoonup> string) \<Rightarrow> string" where
  "ExpandURITemplate template params =
     (let (path, qns) = splitQueryExpr template
      in expand_path path params @ expand_query True qns params)"

section \<open>Facts\<close>

lemma url_PathUnescape_utDecode:
  "url_PathUnescape s = (case utDecode s of Inl _ \<Rightarrow> None | Inr d \<Rightarrow> Some d)"
proof (induction s rule: utDecode.induct)
  case 1
  then show ?case by simp
next
  case (2 c cs)
  show ?case
  proof (cases "c = CHR ''%''")
    case False
    with 2 show ?thesis by (simp split: sum.split)
  next
    case True
    consider "length cs < 2" | a b rest where "cs = a # b # rest"
      by (cases cs; cases "tl cs") auto
    then show ?thesis
    proof cases
      case 1
      with True show ?thesis by (cases cs; cases "tl cs") simp_all
    next
      case (2 a b rest)
      with "2.IH"(1) [OF True 2] True show ?thesis by (simp split: sum.split)
    qed
  qed
qed

lemma fmEncode_pct:
  "fmEncode w (c # cs) = (if fmUnreserved c \<or> (w \<and> c = CHR ''/'') then [c] else pct c) @ fmEncode w cs"
  by (simp add: pct_def)

lemma url_PathUnescape_fmEncode: "url_PathUnescape (fmEncode w s) = Some s"
proof (induction s)
  case Nil
  then show ?case by simp
next
  case (Cons c cs)
  obtain a b where ab: "pct c = [CHR ''%'', a, b]" "is_hex a" "is_hex b" "unpct a b = c"
    using pct_props by blast
  have "fmUnreserved c \<or> (w \<and> c = CHR ''/'') \<Longrightarrow> c \<noteq> CHR ''%''" by auto
  with Cons ab show ?case unfolding fmEncode_pct by simp
qed

interpretation fm_codec: codec "fmEncode w" url_PathUnescape "\<lambda>_. True"
  by unfold_locales (rule url_PathUnescape_fmEncode)

lemma pathUnescape_fmEncode [simp]: "pathUnescape (fmEncode w s) = s"
  by (simp add: pathUnescape_def url_PathUnescape_fmEncode)

lemma url_PathUnescape_plain: "CHR ''%'' \<notin> set s \<Longrightarrow> url_PathUnescape s = Some s"
  by (induction s) auto

lemma pathUnescape_plain: "CHR ''%'' \<notin> set s \<Longrightarrow> pathUnescape s = s"
  by (simp add: pathUnescape_def url_PathUnescape_plain)

definition star_class :: "bool \<Rightarrow> cclass" where
  "star_class star = (if star then AnyChar else NotSlash)"

lemma fmEncode_alph: "list_all (calph ut_alph (star_class w)) (fmEncode w s)"
proof (induction s)
  case Nil
  then show ?case by simp
next
  case (Cons c cs)
  obtain a b where "pct c = [CHR ''%'', a, b]" "is_hex a" "is_hex b" using pct_props by blast
  with Cons show ?case unfolding fmEncode_pct by (auto simp: star_class_def is_hex_unreserved)
qed

lemma alph_not: "ut_alph c \<Longrightarrow> c \<noteq> CHR ''?'' \<and> c \<noteq> CHR ''&'' \<and> c \<noteq> CHR ''='' \<and> c \<noteq> CHR 0x0A \<and> c \<noteq> CHR ''/''"
  by (auto simp: utUnreserved_def less_eq_char_def)

lemma fmEncode_in_class: "list_all (in_class (star_class w)) (fmEncode w s)"
  using fmEncode_alph [of w s] alph_not
  by (cases w) (auto simp: list_all_iff star_class_def)

lemma fmEncode_chars: "c \<in> set (fmEncode w s) \<Longrightarrow> c \<noteq> CHR ''?'' \<and> c \<noteq> CHR ''&''"
  using fmEncode_alph [of w s] alph_not [of c]
  by (cases w) (auto simp: list_all_iff star_class_def)

lemma fmEncode_ne: "s \<noteq> [] \<Longrightarrow> fmEncode w s \<noteq> []"
  by (cases s) auto


section \<open>The round trip, piece by piece\<close>

fun fm_vals :: "rtok list \<Rightarrow> string list \<Rightarrow> (string \<rightharpoonup> string) \<Rightarrow> string list" where
  "fm_vals (RLit l # ts) ns params = fm_vals ts ns params"
| "fm_vals (RCap c lz # ts) (n # ns) params =
     fmEncode (c = AnyChar) (param_or_empty params n) # fm_vals ts ns params"
| "fm_vals _ _ params = []"

lemma build_loop_names:
  "build_loop path seen = Some (ts, ns) \<Longrightarrow>
     length ns = ncaps ts \<and> distinct ns \<and> set ns \<inter> set seen = {} \<and> list_all validGroupName ns"
proof (induction path seen arbitrary: ts ns rule: build_loop.induct)
  case (1 seen)
  then show ?case by simp
next
  case (2 c cs seen)
  show ?case
  proof (cases "c = CHR 0x7B")
    case True
    with "2.prems" obtain e raw star us ms where e: "index_byte (CHR 0x7D) (c # cs) = Some e"
      "fmPlaceholder (take (e - 1) cs) = Some (raw, star)"
      "validGroupName (normalizeParamName raw)" "\<not> List.member seen (normalizeParamName raw)"
      and r: "build_loop (drop (e + 1) (c # cs)) (normalizeParamName raw # seen) = Some (us, ms)"
      and t: "ts = RCap (if star then AnyChar else NotSlash) False # us" "ns = normalizeParamName raw # ms"
      by (auto simp: build_loop.simps(2) Let_def simp del: index_byte.simps split: option.splits if_splits)
    have v: "\<not> (\<not> validGroupName (normalizeParamName raw) \<or> List.member seen (normalizeParamName raw))"
      using e by simp
    from "2.IH"(1) [OF True e(1,2) refl refl v r] t e show ?thesis by auto
  next
    case False
    show ?thesis
    proof (cases "index_byte (CHR 0x7B) (c # cs)")
      case None
      with False "2.prems" show ?thesis by (auto simp: build_loop.simps(2))
    next
      case (Some j)
      with False "2.prems" obtain us where r: "build_loop (drop j (c # cs)) seen = Some (us, ns)"
          and t: "ts = RLit (take j (c # cs)) # us" and j: "j \<noteq> 0"
        by (auto simp: build_loop.simps(2) simp del: index_byte.simps split: option.splits if_splits)
      from "2.IH"(2) [OF False Some j r] t show ?thesis by simp
    qed
  qed
qed

lemma build_expand:
  "build_loop path seen = Some (ts, ns) \<Longrightarrow> expand_path path params = rbuild ts (fm_vals ts ns params)"
proof (induction path seen arbitrary: ts ns rule: build_loop.induct)
  case (1 seen)
  then show ?case by simp
next
  case (2 c cs seen)
  show ?case
  proof (cases "c = CHR 0x7B")
    case True
    with "2.prems" obtain e raw star us ms where e: "index_byte (CHR 0x7D) (c # cs) = Some e"
      "fmPlaceholder (take (e - 1) cs) = Some (raw, star)"
      "\<not> (\<not> validGroupName (normalizeParamName raw) \<or> List.member seen (normalizeParamName raw))"
      and r: "build_loop (drop (e + 1) (c # cs)) (normalizeParamName raw # seen) = Some (us, ms)"
      and t: "ts = RCap (if star then AnyChar else NotSlash) False # us" "ns = normalizeParamName raw # ms"
      by (auto simp: build_loop.simps(2) Let_def simp del: index_byte.simps split: option.splits if_splits)
    from "2.IH"(1) [OF True e(1,2) refl refl e(3) r] t e True show ?thesis
      by (simp add: expand_path.simps(2) del: index_byte.simps)
  next
    case False
    show ?thesis
    proof (cases "index_byte (CHR 0x7B) (c # cs)")
      case None
      with False "2.prems" show ?thesis by (auto simp: build_loop.simps(2) expand_path.simps(2))
    next
      case (Some j)
      with False "2.prems" obtain us where r: "build_loop (drop j (c # cs)) seen = Some (us, ns)"
          and t: "ts = RLit (take j (c # cs)) # us" and j: "j \<noteq> 0"
        by (auto simp: build_loop.simps(2) simp del: index_byte.simps split: option.splits if_splits)
      from "2.IH"(2) [OF False Some j r] t False Some j show ?thesis
        by (simp add: expand_path.simps(2) del: index_byte.simps)
    qed
  qed
qed

lemma star_class_eq: "star_class (c = AnyChar) = c"
  by (cases c) (simp_all add: star_class_def)

lemma fm_vals_fit:
  "length ns = ncaps ts \<Longrightarrow> \<forall>n\<in>set ns. param_or_empty params n \<noteq> [] \<Longrightarrow>
     rfits ts (fm_vals ts ns params) \<and> in_alph ut_alph ts (fm_vals ts ns params)"
proof (induction ts ns params rule: fm_vals.induct)
  case (2 c lz ts n ns params)
  then show ?case
    using fmEncode_in_class [of "c = AnyChar" "param_or_empty params n"]
      fmEncode_alph [of "c = AnyChar" "param_or_empty params n"]
    by (simp add: fmEncode_ne star_class_eq)
qed (auto split: list.splits)

lemma fm_fill:
  "length ns = ncaps ts \<Longrightarrow>
     fill pathUnescape ns (fm_vals ts ns params) out
       = (\<lambda>n. if n \<in> set ns then Some (param_or_empty params n) else out n)"
proof (induction ts ns params arbitrary: out rule: fm_vals.induct)
  case (2 c lz ts n ns params)
  then show ?case by (auto intro!: ext)
qed auto

text \<open>The literals of the path hold no question mark.\<close>

fun no_qmark :: "rtok list \<Rightarrow> bool" where
  "no_qmark [] = True"
| "no_qmark (RLit l # ts) = (CHR ''?'' \<notin> set l \<and> no_qmark ts)"
| "no_qmark (RCap c lz # ts) = no_qmark ts"

lemma rbuild_no_qmark: "no_qmark ts \<Longrightarrow> CHR ''?'' \<notin> set (rbuild ts (fm_vals ts ns params))"
  by (induction ts ns params rule: fm_vals.induct) (auto dest: fmEncode_chars split: list.splits)

text \<open>The query expression's pairs.\<close>

definition query_pairs :: "string list \<Rightarrow> (string \<rightharpoonup> string) \<Rightarrow> (string \<times> string) list" where
  "query_pairs qns params =
     concat (map (\<lambda>raw. case params (normalizeParamName raw) of None \<Rightarrow> [] | Some v \<Rightarrow> [(raw, v)]) qns)"

definition pair_text :: "string \<times> string \<Rightarrow> string" where
  "pair_text kv = fst kv @ ''='' @ fmEncode False (snd kv)"

lemma expand_query_False:
  "expand_query False qns params = concat (map (\<lambda>kv. ''&'' @ pair_text kv) (query_pairs qns params))"
  by (induction qns) (auto simp: query_pairs_def pair_text_def split: option.splits)

lemma expand_query_True:
  "expand_query True qns params =
     (if query_pairs qns params = [] then []
      else CHR ''?'' # join_with ''&'' (map pair_text (query_pairs qns params)))"
proof (induction qns)
  case Nil
  then show ?case by (simp add: query_pairs_def)
next
  case (Cons raw qns)
  show ?case
  proof (cases "params (normalizeParamName raw)")
    case None
    with Cons show ?thesis by (simp add: query_pairs_def)
  next
    case (Some v)
    then have q: "query_pairs (raw # qns) params = (raw, v) # query_pairs qns params"
      by (simp add: query_pairs_def)
    from Some show ?thesis unfolding q
      by (simp add: expand_query_False join_with_concat pair_text_def comp_def)
  qed
qed

definition plain_names :: "string list \<Rightarrow> bool" where
  "plain_names qns \<longleftrightarrow> list_all (list_all fmUnreserved) qns"

lemma query_pair_text:
  assumes "list_all fmUnreserved k"
  shows "query_pair (pair_text (k, v)) = (k, v)" "CHR ''&'' \<notin> set (pair_text (k, v))"
proof -
  have k: "CHR ''='' \<notin> set k" "CHR ''%'' \<notin> set k" "CHR ''&'' \<notin> set k"
    using assms by (auto simp: list_all_iff utUnreserved_def less_eq_char_def)
  have "index_byte (CHR ''='') (pair_text (k, v)) = Some (length k)"
    using index_byte_append [OF k(1), of "fmEncode False v"] by (simp add: pair_text_def)
  then show "query_pair (pair_text (k, v)) = (k, v)"
    by (simp add: query_pair_def) (simp add: pair_text_def pathUnescape_plain [OF k(2)])
  show "CHR ''&'' \<notin> set (pair_text (k, v))"
    using k fmEncode_chars by (auto simp: pair_text_def)
qed

lemma append_at_fold:
  "foldl append_at Map.empty kvs k
     = (if k \<in> fst ` set kvs then Some (map snd (filter (\<lambda>kv. fst kv = k) kvs)) else None)"
  by (induction kvs rule: rev_induct) (auto simp: append_at_def filter_empty_conv image_iff)

lemma parse_pairs:
  assumes "kvs \<noteq> []" "\<forall>kv\<in>set kvs. list_all fmUnreserved (fst kv)"
  shows "parseQueryKeepBlank (join_with ''&'' (map pair_text kvs)) = foldl append_at Map.empty kvs"
proof -
  have sp: "split_on (CHR ''&'') (join_with ''&'' (map pair_text kvs)) = map pair_text kvs"
    by (rule split_join) (use assms query_pair_text(2) in auto)
  have ne: "join_with ''&'' (map pair_text kvs) \<noteq> []"
    using join_with_ne [of "map pair_text kvs" "''&''"] assms(1) by (simp add: hd_map) (simp add: pair_text_def)
  have f: "foldl (\<lambda>m p. if p = [] then m else append_at m (query_pair p)) m (map pair_text qs)
      = foldl append_at m qs" if "\<forall>kv\<in>set qs. list_all fmUnreserved (fst kv)" for m qs
    using that
  proof (induction qs arbitrary: m)
    case Nil
    then show ?case by simp
  next
    case (Cons q qs)
    have "pair_text q \<noteq> []" by (simp add: pair_text_def)
    moreover have "query_pair (pair_text q) = q"
      using query_pair_text(1) [of "fst q" "snd q"] Cons.prems by simp
    ultimately show ?case using Cons by simp
  qed
  show ?thesis unfolding parseQueryKeepBlank_def sp using ne f [OF assms(2)] by simp
qed

lemma take_query_fold:
  assumes "\<forall>raw\<in>set raws. (q raw = None \<and> params (normalizeParamName raw) = None)
      \<or> (\<exists>v vs. q raw = Some (v # vs) \<and> params (normalizeParamName raw) = Some v)"
    "\<forall>n. out n \<noteq> None \<longrightarrow> out n = params n"
  shows "foldl (take_query q) out raws
     = (\<lambda>n. if out n = None \<and> n \<in> normalizeParamName ` set raws then params n else out n)"
  using assms
proof (induction raws arbitrary: out)
  case Nil
  then show ?case by simp
next
  case (Cons raw raws)
  let ?n = "normalizeParamName raw"
  have step: "take_query q out raw = (\<lambda>n. if out n = None \<and> n = ?n then params n else out n)"
    using Cons.prems by (auto simp: take_query_def Let_def intro!: ext split: option.splits)
  have "\<forall>n. take_query q out raw n \<noteq> None \<longrightarrow> take_query q out raw n = params n"
    using Cons.prems(2) by (simp add: step)
  with Cons show ?case by (auto simp: step intro!: ext)
qed

lemma query_pairs_in: "(k, v) \<in> set (query_pairs qns params) \<longleftrightarrow> k \<in> set qns \<and> params (normalizeParamName k) = Some v"
  by (induction qns) (auto simp: query_pairs_def split: option.splits)

lemma query_lookup:
  assumes "raw \<in> set qns"
  shows "(foldl append_at Map.empty (query_pairs qns params) raw = None \<and> params (normalizeParamName raw) = None)
    \<or> (\<exists>v vs. foldl append_at Map.empty (query_pairs qns params) raw = Some (v # vs)
          \<and> params (normalizeParamName raw) = Some v)"
proof (cases "params (normalizeParamName raw)")
  case None
  then have "raw \<notin> fst ` set (query_pairs qns params)" by (auto simp: query_pairs_in)
  with None show ?thesis by (simp add: append_at_fold)
next
  case (Some v)
  let ?f = "filter (\<lambda>kv. fst kv = raw) (query_pairs qns params)"
  have m: "(raw, v) \<in> set (query_pairs qns params)" using Some assms by (simp add: query_pairs_in)
  then have "(raw, v) \<in> set ?f" by simp
  moreover have "\<forall>kv\<in>set ?f. snd kv = v" using Some by (auto simp: query_pairs_in)
  ultimately obtain kv ks where "?f = kv # ks" "snd kv = v" by (cases ?f) auto
  moreover have "raw \<in> fst ` set (query_pairs qns params)" using m by force
  ultimately show ?thesis using Some by (simp add: append_at_fold)
qed

lemma take_query_keeps: "out n = Some v \<Longrightarrow> foldl (take_query q) out raws n = Some v"
proof (induction raws arbitrary: out)
  case Nil
  then show ?case by simp
next
  case (Cons raw raws)
  then have "take_query q out raw n = Some v" by (auto simp: take_query_def Let_def split: option.splits)
  with Cons show ?case by simp
qed

lemma take_query_from:
  "foldl (take_query q) out raws n = Some v \<Longrightarrow> out n = None \<Longrightarrow>
     \<exists>raw\<in>set raws. normalizeParamName raw = n \<and> (\<exists>vs. q raw = Some vs \<and> v = hd vs)"
proof (induction raws arbitrary: out)
  case Nil
  then show ?case by simp
next
  case (Cons raw raws)
  show ?case
  proof (cases "take_query q out raw n")
    case None
    with Cons show ?thesis by auto
  next
    case (Some w)
    have "w = v"
      using Cons.prems(1) take_query_keeps [where out = "take_query q out raw" and n = n and v = w and q = q and raws = raws, OF Some]
      by simp
    with Cons.prems(2) Some show ?thesis
      by (auto simp: take_query_def Let_def split: option.splits if_splits)
  qed
qed

lemma fill_lookup:
  "distinct ns \<Longrightarrow> length vs = length ns \<Longrightarrow>
     fill dec ns vs out = out ++ map_of (zip ns (map dec vs))"
proof (induction dec ns vs out rule: fill.induct)
  case (1 dec n ns v vs out)
  then have "n \<notin> dom (map_of (zip ns (map dec vs)))" by (auto simp: dom_map_of_conv_image_fst dest: set_zip_leftD)
  with 1 show ?case by (simp add: map_add_upd_left del: fun_upd_apply)
qed auto

section \<open>Properties\<close>

text \<open>
  C23: a template's URIs read back. When the template compiles, its placeholders
  are delimited, its literals hold no \<open>?\<close> and its query names are plain, then expanding it
  with non-empty path values (slashes and reserved characters included) and any query values,
  blank ones included, and matching the result gives back exactly the parameters the template
  names, under their normalized names.
\<close>

theorem fastmcp_roundtrip:
  assumes "BuildRegex template = Some (ts, ns)"
    "delimited ut_alph ts" "no_qmark ts" "plain_names (snd (splitQueryExpr template))"
    "\<forall>n\<in>set ns. params n \<noteq> None \<and> params n \<noteq> Some []"
  shows "MatchURITemplate (ExpandURITemplate template params) template
    = Some (\<lambda>n. if n \<in> set ns \<union> normalizeParamName ` set (snd (splitQueryExpr template))
                then params n else None)"
proof -
  obtain path qns where sp: "splitQueryExpr template = (path, qns)" by fastforce
  let ?kvs = "query_pairs qns params"
  let ?P = "rbuild ts (fm_vals ts ns params)"
  let ?Q = "join_with ''&'' (map pair_text ?kvs)"
  have b: "build_loop path [] = Some (ts, ns)" using assms(1) sp by (simp add: BuildRegex_def)
  have len: "length ns = ncaps ts" using build_loop_names [OF b] by simp
  have pe: "\<forall>n\<in>set ns. param_or_empty params n \<noteq> [] \<and> Some (param_or_empty params n) = params n"
    using assms(5) by (auto simp: param_or_empty_def split: option.splits)
  have uri: "ExpandURITemplate template params = ?P @ (if ?kvs = [] then [] else CHR ''?'' # ?Q)"
    using build_expand [OF b, of params] by (simp add: ExpandURITemplate_def sp expand_query_True)
  have noq: "CHR ''?'' \<notin> set ?P" by (rule rbuild_no_qmark [OF assms(3)])
  have cut: "cut_query (ExpandURITemplate template params) = (?P, if ?kvs = [] then [] else ?Q)"
    unfolding uri cut_query_def using noq index_byte_append [OF noq, of ?Q] index_byte_None [of "CHR ''?''" ?P]
    by simp
  have "ut_alph (CHR ''/'') = False" by (simp add: utUnreserved_def less_eq_char_def)
  then have m: "rmatch ts ?P = Some (fm_vals ts ns params)"
    using fm_vals_fit [OF len, of params] pe assms(2) by (intro rmatch_build) auto
  let ?out = "\<lambda>n. if n \<in> set ns then params n else None"
  have "fill pathUnescape ns (fm_vals ts ns params) Map.empty
      = (\<lambda>n. if n \<in> set ns then Some (param_or_empty params n) else None)" by (simp add: fm_fill [OF len])
  also have "\<dots> = ?out" using pe by auto
  finally have out: "fill pathUnescape ns (fm_vals ts ns params) Map.empty = ?out" .
  have q: "parseQueryKeepBlank (if ?kvs = [] then [] else ?Q) = foldl append_at Map.empty ?kvs"
  proof (cases "?kvs = []")
    case False
    have "\<forall>kv\<in>set ?kvs. list_all fmUnreserved (fst kv)"
      using assms(4) sp query_pairs_in [of _ _ qns params] by (force simp: plain_names_def list_all_iff)
    with parse_pairs [OF False] False show ?thesis by simp
  qed (simp add: parseQueryKeepBlank_def)
  have "foldl (take_query (foldl append_at Map.empty ?kvs)) ?out qns
     = (\<lambda>n. if ?out n = None \<and> n \<in> normalizeParamName ` set qns then params n else ?out n)"
    by (rule take_query_fold) (use query_lookup [of _ qns params] in auto)
  also have "\<dots> = (\<lambda>n. if n \<in> set ns \<union> normalizeParamName ` set qns then params n else None)"
    using pe by auto
  finally have f: "foldl (take_query (foldl append_at Map.empty ?kvs)) ?out qns
     = (\<lambda>n. if n \<in> set ns \<union> normalizeParamName ` set qns then params n else None)" .
  have "MatchURITemplate (ExpandURITemplate template params) template
     = Some (if qns = [] then ?out else foldl (take_query (foldl append_at Map.empty ?kvs)) ?out qns)"
    unfolding MatchURITemplate_def assms(1) cut sp using m out q by (simp add: Let_def)
  with f sp show ?thesis by auto
qed

definition fm_example :: string where
  "fm_example = ''files/'' @ CHR 0x7B # ''user-id}/raw:/'' @ CHR 0x7B # ''path*}'' @ CHR 0x7B # ''?page,user-id}''"

definition fm_example_toks :: "rtok list" where
  "fm_example_toks = [RLit ''files/'', RCap NotSlash False, RLit ''/raw:/'', RCap AnyChar False]"

definition fm_example_params :: "string \<rightharpoonup> string" where
  "fm_example_params = [''user_id'' \<mapsto> ''a/b?'', ''path'' \<mapsto> ''x/y z'', ''page'' \<mapsto> []]"

theorem fastmcp_roundtrip_witness:
  "ExpandURITemplate fm_example fm_example_params = ''files/a%2Fb%3F/raw:/x/y%20z?page=&user-id=a%2Fb%3F''
   \<and> MatchURITemplate ''files/a%2Fb%3F/raw:/x/y%20z?page=&user-id=a%2Fb%3F'' fm_example
       = Some (\<lambda>n. if n \<in> {''user_id'', ''path'', ''page''} then fm_example_params n else None)"
proof -
  have 1: "BuildRegex fm_example = Some (fm_example_toks, [''user_id'', ''path''])"
    "snd (splitQueryExpr fm_example) = [''page'', ''user-id'']" by code_simp+
  have 2: "delimited ut_alph fm_example_toks" "no_qmark fm_example_toks" "plain_names [''page'', ''user-id'']"
    by code_simp+
  have 3: "normalizeParamName ''page'' = ''page''" "normalizeParamName ''user-id'' = ''user_id''" by code_simp+
  have 4: "ExpandURITemplate fm_example fm_example_params
      = ''files/a%2Fb%3F/raw:/x/y%20z?page=&user-id=a%2Fb%3F''" by code_simp
  have 5: "\<forall>n\<in>set [''user_id'', ''path'']. fm_example_params n \<noteq> None \<and> fm_example_params n \<noteq> Some []"
    by (simp add: fm_example_params_def)
  have "set [''user_id'', ''path''] \<union> normalizeParamName ` set [''page'', ''user-id'']
      = {''user_id'', ''path'', ''page''}" using 3 by auto
  then show ?thesis
    using fastmcp_roundtrip [OF 1(1) 2(1,2) _ 5] 1(2) 2(3) 4 by simp
qed

text \<open>
  What a successful match means. The path before the first \<open>?\<close> is the template's
  path with some values in place of the placeholders (non-empty, without a slash unless the
  placeholder is a wildcard), every placeholder is bound to its decoded value whatever the
  query says, and any other name comes from a declared query parameter present in the query
  string; a malformed template matches nothing.
\<close>

theorem fastmcp_match_sound:
  assumes "MatchURITemplate uri template = Some out"
  shows "\<exists>ts ns ms. BuildRegex template = Some (ts, ns) \<and> distinct ns
    \<and> rfits ts ms \<and> fst (cut_query uri) = rbuild ts ms
    \<and> (\<forall>i<length ns. out (ns ! i) = Some (pathUnescape (ms ! i)))
    \<and> (\<forall>n v. n \<notin> set ns \<and> out n = Some v \<longrightarrow>
         (\<exists>raw\<in>set (snd (splitQueryExpr template)). normalizeParamName raw = n \<and>
            (\<exists>vs. parseQueryKeepBlank (snd (cut_query uri)) raw = Some vs \<and> v = hd vs)))"
proof -
  from assms obtain ts ns ms where b: "BuildRegex template = Some (ts, ns)"
      and m: "rmatch ts (fst (cut_query uri)) = Some ms"
      and out: "out = foldl (take_query (parseQueryKeepBlank (snd (cut_query uri))))
          (fill pathUnescape ns ms Map.empty) (snd (splitQueryExpr template))"
    by (auto simp: MatchURITemplate_def Let_def split: option.splits prod.splits if_splits)
  have n: "length ns = ncaps ts" "distinct ns"
    using build_loop_names [of "fst (splitQueryExpr template)" "[]"] b by (auto simp: BuildRegex_def)
  from rmatch_sound [OF m] have f: "rfits ts ms" "rbuild ts ms = fst (cut_query uri)" by auto
  then have len: "length ms = length ns" using rfits_length [OF f(1)] n by simp
  have fl: "fill pathUnescape ns ms Map.empty = map_of (zip ns (map pathUnescape ms))"
    using fill_lookup [OF n(2) len, of pathUnescape Map.empty] by simp
  have path: "out (ns ! i) = Some (pathUnescape (ms ! i))" if "i < length ns" for i
    unfolding out by (rule take_query_keeps) (use that n len in \<open>simp add: fl map_of_zip_nth\<close>)
  have query: "\<exists>raw\<in>set (snd (splitQueryExpr template)). normalizeParamName raw = n \<and>
      (\<exists>vs. parseQueryKeepBlank (snd (cut_query uri)) raw = Some vs \<and> v = hd vs)"
    if "n \<notin> set ns" "out n = Some v" for n v
  proof (rule take_query_from)
    show "foldl (take_query (parseQueryKeepBlank (snd (cut_query uri))))
        (fill pathUnescape ns ms Map.empty) (snd (splitQueryExpr template)) n = Some v"
      using that(2) out by simp
    show "fill pathUnescape ns ms Map.empty n = None"
      using that(1) len by (simp add: fl map_of_zip_is_None)
  qed
  show ?thesis
    using b n(2) f path query by (intro exI [of _ ts] exI [of _ ns] exI [of _ ms]) auto
qed

theorem fastmcp_match_sound_witness:
  "\<exists>out. MatchURITemplate ''files/u%20v/raw:/p/q?page=7'' fm_example = Some out
     \<and> out ''user_id'' = Some ''u v'' \<and> BuildRegex fm_example \<noteq> None"
proof -
  have "case MatchURITemplate ''files/u%20v/raw:/p/q?page=7'' fm_example of
      None \<Rightarrow> False | Some out \<Rightarrow> out ''user_id'' = Some ''u v''" by code_simp
  then obtain out where o: "MatchURITemplate ''files/u%20v/raw:/p/q?page=7'' fm_example = Some out"
      "out ''user_id'' = Some ''u v''" by (auto split: option.splits)
  from fastmcp_match_sound [OF o(1)] o show ?thesis by auto
qed

end
