(* ===== verification/Json.thy ===== *)
theory Json
  imports Prelude GoStd
begin

text \<open>
  What \<open>json.Unmarshal\<close> does with a struct target, on decoded JSON trees. An empty
  \<open>json.RawMessage\<close> is \<open>None\<close> and fails; \<open>null\<close> leaves the target alone; an object sets the
  fields its keys name, whatever their case, the last occurrence winning; anything else, or a
  value of the wrong type, is an error. The text of the library's errors is not modelled.
\<close>

fun decode_fields :: "(string \<Rightarrow> gval \<Rightarrow> 's \<Rightarrow> 's option) \<Rightarrow> (string \<times> gval) list \<Rightarrow> 's \<Rightarrow> 's option" where
  "decode_fields step [] s = Some s"
| "decode_fields step ((k, v) # m) s =
     (case step k v s of None \<Rightarrow> None | Some s' \<Rightarrow> decode_fields step m s')"

definition decode_value :: "(string \<Rightarrow> gval \<Rightarrow> 's \<Rightarrow> 's option) \<Rightarrow> gval \<Rightarrow> 's \<Rightarrow> 's option" where
  "decode_value step v s =
     (case v of GNil \<Rightarrow> Some s | GMap m \<Rightarrow> decode_fields step m s | _ \<Rightarrow> None)"

definition unmarshal :: "(string \<Rightarrow> gval \<Rightarrow> 's \<Rightarrow> 's option) \<Rightarrow> 's \<Rightarrow> gval option \<Rightarrow> 's option" where
  "unmarshal step init raw = (case raw of None \<Rightarrow> None | Some v \<Rightarrow> decode_value step v init)"

text \<open>Targets of type \<open>string\<close> and \<open>map[string]string\<close>.\<close>

definition put_str :: "gval \<Rightarrow> string \<Rightarrow> string option" where
  "put_str v old = (case v of GStr s \<Rightarrow> Some s | GNil \<Rightarrow> Some old | _ \<Rightarrow> None)"

fun put_str_entries :: "(string \<times> gval) list \<Rightarrow> (string \<rightharpoonup> string) \<Rightarrow> (string \<rightharpoonup> string) option" where
  "put_str_entries [] m = Some m"
| "put_str_entries ((k, v) # kvs) m =
     (case put_str v [] of None \<Rightarrow> None | Some s \<Rightarrow> put_str_entries kvs (m(k \<mapsto> s)))"

definition put_str_map :: "gval \<Rightarrow> (string \<rightharpoonup> string) \<Rightarrow> (string \<rightharpoonup> string) option" where
  "put_str_map v old =
     (case v of GMap kvs \<Rightarrow> put_str_entries kvs old | GNil \<Rightarrow> Some Map.empty | _ \<Rightarrow> None)"

definition put_int :: "gval \<Rightarrow> int \<Rightarrow> int option" where
  "put_int v old =
     (case v of
        GFloat q \<Rightarrow> if q = of_int (floor q) then Some (floor q) else None
      | GInt i \<Rightarrow> Some i
      | GNil \<Rightarrow> Some old
      | _ \<Rightarrow> None)"

lemma decode_fields_append:
  "decode_fields step (m @ n) s
     = (case decode_fields step m s of None \<Rightarrow> None | Some s' \<Rightarrow> decode_fields step n s')"
  by (induction step m s rule: decode_fields.induct) (auto split: option.splits)

lemma put_str_entries_strings:
  "put_str_entries (map (\<lambda>(k, s). (k, GStr s)) kvs) m = Some (m ++ map_of (rev kvs))"
proof (induction kvs arbitrary: m)
  case Nil
  then show ?case by simp
next
  case (Cons kv kvs)
  then show ?case by (cases kv) (simp add: put_str_def map_add_def fun_eq_iff split: option.splits)
qed

end
