(* ===== verification/Base64.thy ===== *)
theory Base64
  imports Prelude GoStd
begin

text \<open>
  \<open>encoding/base64\<close> as the code uses it: the padded standard encoding of binary resources
  (\<open>src/dispatch.go\<close>, \<open>src/content_media.go\<close>) and the unpadded URL encoding of tokens
  (\<open>src/auth/jwt.go\<close>). Like Go's, the decoder skips line breaks and does not insist that the
  unused bits of the last symbol are zero.
\<close>

definition b64_std :: string where
  "b64_std = ''ABCDEFGHIJKLMNOPQRSTUVWXYZabcdefghijklmnopqrstuvwxyz0123456789+/''"

definition b64_url :: string where
  "b64_url = ''ABCDEFGHIJKLMNOPQRSTUVWXYZabcdefghijklmnopqrstuvwxyz0123456789-_''"

abbreviation ord :: "char \<Rightarrow> nat" where
  "ord c \<equiv> of_char c"

fun b64_encode :: "string \<Rightarrow> string \<Rightarrow> string \<Rightarrow> string" where
  "b64_encode al pad (a # b # c # r) =
     al ! (ord a div 4) # al ! (ord a mod 4 * 16 + ord b div 16)
     # al ! (ord b mod 16 * 4 + ord c div 64) # al ! (ord c mod 64) # b64_encode al pad r"
| "b64_encode al pad [a, b] =
     [al ! (ord a div 4), al ! (ord a mod 4 * 16 + ord b div 16), al ! (ord b mod 16 * 4)] @ pad"
| "b64_encode al pad [a] = [al ! (ord a div 4), al ! (ord a mod 4 * 16)] @ pad @ pad"
| "b64_encode al pad [] = []"

fun b64_symbols :: "string \<Rightarrow> string \<Rightarrow> nat list option" where
  "b64_symbols al [] = Some []"
| "b64_symbols al (c # cs) =
     (if c = CHR 0x0A \<or> c = CHR 0x0D then b64_symbols al cs
      else (case index_byte c al of
              None \<Rightarrow> None
            | Some i \<Rightarrow> map_option ((#) i) (b64_symbols al cs)))"

fun b64_bytes :: "nat list \<Rightarrow> string option" where
  "b64_bytes (w # x # y # z # r) =
     map_option (\<lambda>s. char_of (w * 4 + x div 16) # char_of (x mod 16 * 16 + y div 4)
                     # char_of (y mod 4 * 64 + z) # s) (b64_bytes r)"
| "b64_bytes [w, x, y] = Some [char_of (w * 4 + x div 16), char_of (x mod 16 * 16 + y div 4)]"
| "b64_bytes [w, x] = Some [char_of (w * 4 + x div 16)]"
| "b64_bytes [w] = None"
| "b64_bytes [] = Some []"

text \<open>\<open>RawURLEncoding.DecodeString\<close> and \<open>StdEncoding.EncodeToString\<close>.\<close>

definition rawurl_decode :: "string \<Rightarrow> string option" where
  "rawurl_decode s = (case b64_symbols b64_url s of None \<Rightarrow> None | Some ns \<Rightarrow> b64_bytes ns)"

definition rawurl_encode :: "string \<Rightarrow> string" where
  "rawurl_encode s = b64_encode b64_url [] s"

definition std_encode :: "string \<Rightarrow> string" where
  "std_encode s = b64_encode b64_std ''='' s"

text \<open>What a client reads from a padded encoding.\<close>

definition std_decode :: "string \<Rightarrow> string option" where
  "std_decode s =
     (case b64_symbols b64_std (filter (\<lambda>c. c \<noteq> CHR ''='') s) of None \<Rightarrow> None | Some ns \<Rightarrow> b64_bytes ns)"

section \<open>Facts\<close>

lemma index_byte_nth: "distinct al \<Longrightarrow> i < length al \<Longrightarrow> index_byte (al ! i) al = Some i"
proof (induction al arbitrary: i)
  case Nil
  then show ?case by simp
next
  case (Cons x xs)
  then show ?case by (cases i) auto
qed

definition good_alphabet :: "string \<Rightarrow> bool" where
  "good_alphabet al \<longleftrightarrow> length al = 64 \<and> distinct al
     \<and> CHR 0x0A \<notin> set al \<and> CHR 0x0D \<notin> set al \<and> CHR ''='' \<notin> set al"

lemma good_alphabets: "good_alphabet b64_std" "good_alphabet b64_url"
  by code_simp+

lemma ord_lt: "ord c < 256"
  by simp

lemma alphabet_nth:
  assumes "good_alphabet al" "i < 64"
  shows "al ! i \<in> set al" "al ! i \<noteq> CHR 0x0A" "al ! i \<noteq> CHR 0x0D" "al ! i \<noteq> CHR ''=''"
proof -
  show m: "al ! i \<in> set al" using assms by (simp add: good_alphabet_def)
  show "al ! i \<noteq> CHR 0x0A" "al ! i \<noteq> CHR 0x0D" "al ! i \<noteq> CHR ''=''"
    using m assms(1) unfolding good_alphabet_def by metis+
qed

lemma symbols_nth:
  assumes "good_alphabet al" "i < 64"
  shows "b64_symbols al (al ! i # s) = map_option ((#) i) (b64_symbols al s)"
proof -
  have "index_byte (al ! i) al = Some i"
    using assms by (intro index_byte_nth) (auto simp: good_alphabet_def)
  then show ?thesis using alphabet_nth [OF assms] by simp
qed

lemma nat_sextets:
  fixes a b c :: nat
  assumes "a < 256" "b < 256" "c < 256"
  shows "a div 4 < 64" "a mod 4 * 16 + b div 16 < 64" "b mod 16 * 4 + c div 64 < 64"
    "c mod 64 < 64" "b mod 16 * 4 < 64" "a mod 4 * 16 < 64"
    "(a mod 4 * 16 + b div 16) div 16 = a mod 4" "(a mod 4 * 16 + b div 16) mod 16 = b div 16"
    "(b mod 16 * 4 + c div 64) div 4 = b mod 16" "(b mod 16 * 4 + c div 64) mod 4 = c div 64"
proof -
  have d: "a div 4 < 64" "b div 16 < 16" "c div 64 < 4"
    using assms by (auto intro: less_mult_imp_div_less)
  have m: "a mod 4 < 4" "b mod 16 < 16" by simp_all
  show "a div 4 < 64" by (rule d)
  show "a mod 4 * 16 + b div 16 < 64" "b mod 16 * 4 + c div 64 < 64" "b mod 16 * 4 < 64"
    "a mod 4 * 16 < 64" using d m by linarith+
  show "c mod 64 < 64" by simp
  show "(a mod 4 * 16 + b div 16) div 16 = a mod 4" "(a mod 4 * 16 + b div 16) mod 16 = b div 16"
    "(b mod 16 * 4 + c div 64) div 4 = b mod 16" "(b mod 16 * 4 + c div 64) mod 4 = c div 64"
    using d by simp_all
qed

lemmas sextets = nat_sextets [OF ord_lt ord_lt ord_lt]

lemma bytes_back:
  "char_of (ord a div 4 * 4 + (ord a mod 4 * 16 + ord b div 16) div 16) = a"
  "char_of ((ord a mod 4 * 16 + ord b div 16) mod 16 * 16 + (ord b mod 16 * 4 + ord c div 64) div 4) = b"
  "char_of ((ord b mod 16 * 4 + ord c div 64) mod 4 * 64 + ord c mod 64) = c"
  "char_of (ord a div 4 * 4 + ord a mod 4 * 16 div 16) = a"
  "char_of ((ord a mod 4 * 16 + ord b div 16) mod 16 * 16 + ord b mod 16 * 4 div 4) = b"
  unfolding sextets by (simp_all del: char_of_quasi_inj)

declare b64_symbols.simps(2) [simp del]

lemma b64_roundtrip:
  "good_alphabet al \<Longrightarrow>
     (case b64_symbols al (b64_encode al [] s) of None \<Rightarrow> None | Some ns \<Rightarrow> b64_bytes ns) = Some s"
proof (induction al "[] :: string" s rule: b64_encode.induct)
  case (1 al a b c r)
  then obtain ns where ns: "b64_symbols al (b64_encode al [] r) = Some ns" "b64_bytes ns = Some r"
    by (auto split: option.splits)
  show ?case
    using sextets by (simp add: symbols_nth [OF 1(2)] ns bytes_back)
next
  case (2 al a b)
  then show ?case using sextets by (simp add: symbols_nth bytes_back)
next
  case (3 al a)
  then show ?case using sextets by (simp add: symbols_nth bytes_back)
next
  case (4 al)
  then show ?case by simp
qed

lemma encode_in_alphabet:
  "good_alphabet al \<Longrightarrow> CHR ''='' \<notin> set (b64_encode al [] s)"
proof (induction al "[] :: string" s rule: b64_encode.induct)
  case (1 al a b c r)
  note e = alphabet_nth(4) [OF 1(2)] alphabet_nth(4) [OF 1(2), symmetric]
  with 1 e sextets show ?case by simp
next
  case (2 al a b)
  note e = alphabet_nth(4) [OF 2(1)] alphabet_nth(4) [OF 2(1), symmetric]
  with 2 e sextets show ?case by simp
next
  case (3 al a)
  note e = alphabet_nth(4) [OF 3(1)] alphabet_nth(4) [OF 3(1), symmetric]
  with 3 e sextets show ?case by simp
qed simp

lemma padded_filter:
  "good_alphabet al \<Longrightarrow> filter (\<lambda>c. c \<noteq> CHR ''='') (b64_encode al ''='' s) = b64_encode al [] s"
proof (induction al "''=''" s rule: b64_encode.induct)
  case (1 al a b c r)
  note e = alphabet_nth(4) [OF 1(2)] alphabet_nth(4) [OF 1(2), symmetric]
  with 1 e sextets show ?case by simp
next
  case (2 al a b)
  note e = alphabet_nth(4) [OF 2(1)] alphabet_nth(4) [OF 2(1), symmetric]
  with 2 e sextets show ?case by simp
next
  case (3 al a)
  note e = alphabet_nth(4) [OF 3(1)] alphabet_nth(4) [OF 3(1), symmetric]
  with 3 e sextets show ?case by simp
qed simp

interpretation std_codec: codec std_encode std_decode "\<lambda>_. True"
  by unfold_locales
    (simp add: std_encode_def std_decode_def padded_filter good_alphabets b64_roundtrip)

interpretation url_codec: codec rawurl_encode rawurl_decode "\<lambda>_. True"
  by unfold_locales (simp add: rawurl_encode_def rawurl_decode_def b64_roundtrip good_alphabets)

lemma rawurl_chars: "c \<in> set (rawurl_encode s) \<Longrightarrow> c \<in> set b64_url"
proof -
  have "good_alphabet al \<Longrightarrow> set (b64_encode al [] s) \<subseteq> set al" for al s
  proof (induction al "[] :: string" s rule: b64_encode.induct)
    case (1 al a b c r)
    with sextets show ?case by (simp add: good_alphabet_def)
  next
    case (2 al a b)
    with 2 sextets show ?case by (simp add: good_alphabet_def)
  next
    case (3 al a)
    with 3 sextets show ?case by (simp add: good_alphabet_def)
  qed simp
  then show "c \<in> set (rawurl_encode s) \<Longrightarrow> c \<in> set b64_url"
    using good_alphabets(2) by (auto simp: rawurl_encode_def)
qed

end
