(* ===== verification/Content.thy ===== *)
theory Content
  imports Prelude GoStd Base64
begin

text \<open>
  Content blocks, \<open>src/content.go\<close>, \<open>src/content_extra.go\<close> and \<open>src/content_media.go\<close>: the
  block type with its constructors and its wire form, the conversion of tool results, and the
  media helpers. \<open>json.Marshal\<close> to text is the parameter \<open>marshal\<close>.
\<close>

section \<open>Blocks\<close>

record annotations =
  an_audience :: "string list"
  an_priority :: rat

record resource_contents =
  rc_uri :: string
  rc_mimeType :: string
  rc_text :: string
  rc_blob :: string

record content =
  ct_type :: string
  ct_text :: string
  ct_data :: string
  ct_mimeType :: string
  ct_uri :: string
  ct_name :: string
  ct_resource :: "resource_contents option"
  ct_annotations :: "annotations option"

definition empty_content :: "string \<Rightarrow> content" where
  "empty_content ty = \<lparr>ct_type = ty, ct_text = [], ct_data = [], ct_mimeType = [], ct_uri = [],
     ct_name = [], ct_resource = None, ct_annotations = None\<rparr>"

definition NewTextContent :: "string \<Rightarrow> content" where
  "NewTextContent t = (empty_content ''text'')\<lparr>ct_text := t\<rparr>"

definition NewImageContent :: "string \<Rightarrow> string \<Rightarrow> content" where
  "NewImageContent d m = (empty_content ''image'')\<lparr>ct_data := d, ct_mimeType := m\<rparr>"

definition NewAudioContent :: "string \<Rightarrow> string \<Rightarrow> content" where
  "NewAudioContent d m = (empty_content ''audio'')\<lparr>ct_data := d, ct_mimeType := m\<rparr>"

definition NewResourceLink :: "string \<Rightarrow> string \<Rightarrow> string \<Rightarrow> content" where
  "NewResourceLink uri nm m = (empty_content ''resource_link'')\<lparr>ct_uri := uri, ct_name := nm, ct_mimeType := m\<rparr>"

definition NewEmbeddedResource :: "string \<Rightarrow> string \<Rightarrow> string \<Rightarrow> content" where
  "NewEmbeddedResource uri m t = (empty_content ''resource'')
     \<lparr>ct_resource := Some \<lparr>rc_uri = uri, rc_mimeType = m, rc_text = t, rc_blob = []\<rparr>\<rparr>"

definition NewEmbeddedBlobResource :: "string \<Rightarrow> string \<Rightarrow> string \<Rightarrow> content" where
  "NewEmbeddedBlobResource uri m b = (empty_content ''resource'')
     \<lparr>ct_resource := Some \<lparr>rc_uri = uri, rc_mimeType = m, rc_text = [], rc_blob = b\<rparr>\<rparr>"

definition WithAnnotations :: "content \<Rightarrow> annotations \<Rightarrow> content" where
  "WithAnnotations c a = c\<lparr>ct_annotations := Some a\<rparr>"

definition WithPriority :: "content \<Rightarrow> rat \<Rightarrow> content" where
  "WithPriority c p =
     (let p1 = (if p < 0 then 0 else p); p2 = (if p1 > 1 then 1 else p1)
      in c\<lparr>ct_annotations := Some \<lparr>an_audience = (case ct_annotations c of Some a \<Rightarrow> an_audience a | None \<Rightarrow> []),
             an_priority = p2\<rparr>\<rparr>)"

definition WithAudience :: "content \<Rightarrow> string list \<Rightarrow> content" where
  "WithAudience c au = c\<lparr>ct_annotations := Some \<lparr>an_audience = au,
     an_priority = (case ct_annotations c of Some a \<Rightarrow> an_priority a | None \<Rightarrow> 0)\<rparr>\<rparr>"

definition IsText :: "content \<Rightarrow> bool" where "IsText c \<longleftrightarrow> ct_type c = ''text''"
definition IsImage :: "content \<Rightarrow> bool" where "IsImage c \<longleftrightarrow> ct_type c = ''image''"
definition IsAudio :: "content \<Rightarrow> bool" where "IsAudio c \<longleftrightarrow> ct_type c = ''audio''"
definition IsResource :: "content \<Rightarrow> bool" where
  "IsResource c \<longleftrightarrow> ct_type c = ''resource'' \<or> ct_type c = ''resource_link''"

section \<open>The wire form\<close>

text \<open>The \<open>omitempty\<close> option on a string.\<close>

definition opt_str :: "string \<Rightarrow> string \<Rightarrow> (string \<times> gval) list" where
  "opt_str k s = (if s = [] then [] else [(k, GStr s)])"

definition resource_contents_json :: "resource_contents \<Rightarrow> gval" where
  "resource_contents_json r = GMap ([(''uri'', GStr (rc_uri r))] @ opt_str ''mimeType'' (rc_mimeType r)
     @ opt_str ''text'' (rc_text r) @ opt_str ''blob'' (rc_blob r))"

definition annotations_json :: "annotations \<Rightarrow> gval" where
  "annotations_json a = GMap
     ((if an_audience a = [] then [] else [(''audience'', GList (map GStr (an_audience a)))]) @
      (if an_priority a = 0 then [] else [(''priority'', GFloat (an_priority a))]))"

definition content_json :: "content \<Rightarrow> gval" where
  "content_json c = GMap
     ([(''type'', GStr (ct_type c))] @ opt_str ''text'' (ct_text c) @ opt_str ''data'' (ct_data c)
      @ opt_str ''mimeType'' (ct_mimeType c) @ opt_str ''uri'' (ct_uri c) @ opt_str ''name'' (ct_name c)
      @ (case ct_resource c of None \<Rightarrow> [] | Some r \<Rightarrow> [(''resource'', resource_contents_json r)])
      @ (case ct_annotations c of None \<Rightarrow> [] | Some a \<Rightarrow> [(''annotations'', annotations_json a)]))"

section \<open>Tool results\<close>

text \<open>The value a tool returns: a \<open>Content\<close>, a \<open>[]Content\<close>, or anything else.\<close>

datatype tool_value = TVAny gval | TVContent content | TVContents "content list"

fun toContent :: "(gval \<Rightarrow> string + string) \<Rightarrow> tool_value \<Rightarrow> content list" where
  "toContent marshal (TVAny GNil) = [NewTextContent ''null'']"
| "toContent marshal (TVAny (GStr s)) = [NewTextContent s]"
| "toContent marshal (TVContent c) = [c]"
| "toContent marshal (TVContents cs) = cs"
| "toContent marshal (TVAny v) =
     [NewTextContent (case marshal v of Inl e \<Rightarrow> e | Inr b \<Rightarrow> b)]"

section \<open>Media helpers\<close>

definition extensionMIME :: "string \<rightharpoonup> string" where
  "extensionMIME = map_of
     [(''png'', ''image/png''), (''jpg'', ''image/jpeg''), (''jpeg'', ''image/jpeg''),
      (''gif'', ''image/gif''), (''webp'', ''image/webp''), (''wav'', ''audio/wav''),
      (''mp3'', ''audio/mp3''), (''txt'', ''text/plain''), (''pdf'', ''application/pdf'')]"

text \<open>\<open>path.Base\<close> and \<open>strings.LastIndexByte\<close>.\<close>

definition path_Base :: "string \<Rightarrow> string" where
  "path_Base p =
     (if p = [] then ''.''
      else let q = trim_right (\<lambda>c. c = CHR ''/'') p
           in if q = [] then ''/'' else rev (takeWhile (\<lambda>c. c \<noteq> CHR ''/'') (rev q)))"

definition last_index_byte :: "char \<Rightarrow> string \<Rightarrow> nat option" where
  "last_index_byte c s = map_option (\<lambda>i. length s - 1 - i) (index_byte c (rev s))"

definition trim_prefix :: "string \<Rightarrow> string \<Rightarrow> string" where
  "trim_prefix s p = (if has_prefix s p then drop (length p) s else s)"

definition MIMETypeForExtension :: "string \<Rightarrow> string" where
  "MIMETypeForExtension nameOrExt =
     (let ext = (case last_index_byte (CHR ''.'') (path_Base nameOrExt) of
                   Some i \<Rightarrow> drop (i + 1) (path_Base nameOrExt)
                 | None \<Rightarrow> nameOrExt);
          ext2 = to_lower (trim_prefix ext ''.'')
      in case extensionMIME ext2 of Some m \<Rightarrow> m | None \<Rightarrow> ''application/octet-stream'')"

definition imageMIMEForFormat :: "string \<Rightarrow> string" where
  "imageMIMEForFormat f =
     (let g = to_lower (trim_space f)
      in if g = [] then ''image/png''
         else if g = ''jpg'' \<or> g = ''jpeg'' then ''image/jpeg''
         else ''image/'' @ g)"

definition audioMIMEForFormat :: "string \<Rightarrow> string" where
  "audioMIMEForFormat f =
     (let g = to_lower (trim_space f) in if g = [] then ''audio/wav'' else ''audio/'' @ g)"

definition fileMIMEForFormat :: "string \<Rightarrow> string" where
  "fileMIMEForFormat f =
     (let g = to_lower (trim_space f)
      in if g = [] then ''application/octet-stream''
         else if g = ''plain'' then ''text/plain''
         else ''application/'' @ g)"

definition NewImageBytes :: "string \<Rightarrow> string \<Rightarrow> content" where
  "NewImageBytes d f = NewImageContent (std_encode d) (imageMIMEForFormat f)"

definition NewAudioBytes :: "string \<Rightarrow> string \<Rightarrow> content" where
  "NewAudioBytes d f = NewAudioContent (std_encode d) (audioMIMEForFormat f)"

definition NewFileResource :: "string \<Rightarrow> string \<Rightarrow> string \<Rightarrow> content" where
  "NewFileResource uri d f =
     (let m = fileMIMEForFormat f
      in if has_prefix m ''text/'' then NewEmbeddedResource uri m d
         else NewEmbeddedBlobResource uri m (std_encode d))"

section \<open>Properties\<close>

text \<open>
  The payload of a media block is never lost or altered: the data of an image or
  audio block decodes to the bytes given; a file becomes a text block with the bytes verbatim
  exactly for the format \<open>plain\<close> (in any case, spaces trimmed) and otherwise a blob that
  decodes to the bytes, and every MIME type is of the family of its block.
\<close>

theorem media_payload:
  "std_decode (ct_data (NewImageBytes d f)) = Some d \<and> IsImage (NewImageBytes d f)
   \<and> has_prefix (ct_mimeType (NewImageBytes d f)) ''image/''
   \<and> std_decode (ct_data (NewAudioBytes d f)) = Some d \<and> IsAudio (NewAudioBytes d f)
   \<and> has_prefix (ct_mimeType (NewAudioBytes d f)) ''audio/''
   \<and> IsResource (NewFileResource uri d f)
   \<and> (\<exists>r. ct_resource (NewFileResource uri d f) = Some r \<and> rc_uri r = uri
        \<and> (if to_lower (trim_space f) = ''plain'' then rc_text r = d \<and> rc_blob r = []
           else rc_text r = [] \<and> std_decode (rc_blob r) = Some d))"
  by (simp add: NewImageBytes_def NewAudioBytes_def NewImageContent_def NewAudioContent_def
      empty_content_def std_codec.dec_enc IsImage_def IsAudio_def IsResource_def imageMIMEForFormat_def
      audioMIMEForFormat_def NewFileResource_def fileMIMEForFormat_def Let_def
      NewEmbeddedResource_def NewEmbeddedBlobResource_def)

text \<open>
  Annotations. \<open>WithPriority\<close> clamps to the unit interval and keeps the audience,
  \<open>WithAudience\<close> keeps the priority, so the two commute; neither touches the block's payload,
  and clamping again changes nothing.
\<close>

theorem annotations_independent:
  "0 \<le> an_priority (the (ct_annotations (WithPriority c p)))
   \<and> an_priority (the (ct_annotations (WithPriority c p))) \<le> 1
   \<and> WithAudience (WithPriority c p) au = WithPriority (WithAudience c au) p
   \<and> WithPriority (WithPriority c q) p = WithPriority c p
   \<and> (WithPriority c p)\<lparr>ct_annotations := None\<rparr> = c\<lparr>ct_annotations := None\<rparr>
   \<and> (WithAudience c au)\<lparr>ct_annotations := None\<rparr> = c\<lparr>ct_annotations := None\<rparr>"
  by (auto simp: WithPriority_def WithAudience_def Let_def)

end
