(* ===== verification/Schema.thy ===== *)
theory Schema
  imports Prelude GoStd
begin

text \<open>
  Schemas reflected from Go types, \<open>src/schema.go\<close>, and the validation of tool handlers,
  \<open>src/tool.go\<close>. A Go type is a tree: struct fields carry their name, whether they are
  exported, and their \<open>json\<close> and \<open>jsonschema\<close> tags. (Recursive struct types, on which the
  reflection does not return, have no such tree.) The entries of a reflected map are in the
  order they are first written.
\<close>

section \<open>Types and tags\<close>

datatype gtype =
    TBool
  | TInt
  | TFloat
  | TString
  | TSlice gtype
  | TMapType
  | TStruct "gfld list"
  | TPtr gtype
  | TOther
and gfld = Fld (fl_name: string) (fl_exported: bool) (fl_json: string) (fl_schema: string) (fl_type: gtype)

text \<open>\<open>parseJSONTag\<close>: the property name and the options.\<close>

definition parseJSONTag :: "gfld \<Rightarrow> string \<times> string list" where
  "parseJSONTag f =
     (let parts = split_on (CHR '','') (fl_json f)
      in (if hd parts = [] then fl_name f else hd parts, tl parts))"

fun is_ptr :: "gtype \<Rightarrow> bool" where
  "is_ptr (TPtr t) = True"
| "is_ptr t = False"

definition isOptional :: "gfld \<Rightarrow> string list \<Rightarrow> bool" where
  "isOptional f opts \<longleftrightarrow> is_ptr (fl_type f) \<or> List.member opts ''omitempty''"

definition tag_entry :: "(string \<times> gval) list \<Rightarrow> string \<Rightarrow> (string \<times> gval) list" where
  "tag_entry out part =
     (case split2 (CHR ''='') part of
        [k, v] \<Rightarrow>
          let key = trim_space k; val = trim_space v
          in if key = ''description'' \<or> key = ''title'' \<or> key = ''default'' then AList.update key (GStr val) out
             else if key = ''enum'' then AList.update ''enum'' (GStrs (split_on (CHR ''|'') val)) out
             else if key = ''minimum'' \<or> key = ''maximum'' then AList.update key (GStr val) out
             else out
      | _ \<Rightarrow> out)"

definition parseJSONSchemaTag :: "string \<Rightarrow> (string \<times> gval) list" where
  "parseJSONSchemaTag tag =
     (if tag = [] then [] else foldl tag_entry [] (split_on (CHR '','') tag))"

section \<open>Reflection\<close>

definition set_all :: "(string \<times> gval) list \<Rightarrow> (string \<times> gval) list \<Rightarrow> (string \<times> gval) list" where
  "set_all schema extra = foldl (\<lambda>m (k, v). AList.update k v m) schema extra"

definition object_schema :: "(string \<times> gval) list \<Rightarrow> string list \<Rightarrow> (string \<times> gval) list" where
  "object_schema props req =
     [(''type'', GStr ''object''), (''properties'', GMap props)]
     @ (if req \<noteq> [] then [(''required'', GStrs req)] else [])"

fun typeSchema :: "gtype \<Rightarrow> (string \<times> gval) list"
  and reflect_fields :: "gfld list \<Rightarrow> (string \<times> gval) list \<Rightarrow> string list \<Rightarrow> (string \<times> gval) list \<times> string list"
where
  "typeSchema (TPtr t) = typeSchema t"
| "typeSchema TBool = [(''type'', GStr ''boolean'')]"
| "typeSchema TInt = [(''type'', GStr ''integer'')]"
| "typeSchema TFloat = [(''type'', GStr ''number'')]"
| "typeSchema TString = [(''type'', GStr ''string'')]"
| "typeSchema (TSlice t) = [(''type'', GStr ''array''), (''items'', GMap (typeSchema t))]"
| "typeSchema TMapType = [(''type'', GStr ''object'')]"
| "typeSchema (TStruct fs) = (case reflect_fields fs [] [] of (props, req) \<Rightarrow> object_schema props req)"
| "typeSchema TOther = []"
| "reflect_fields [] props req = (props, req)"
| "reflect_fields (Fld nm ex js sch t # fs) props req =
     (if \<not> ex then reflect_fields fs props req
      else (case parseJSONTag (Fld nm ex js sch t) of
              (name, opts) \<Rightarrow>
                if name = ''-'' then reflect_fields fs props req
                else reflect_fields fs
                       (AList.update name (GMap (set_all (typeSchema t) (parseJSONSchemaTag sch))) props)
                       (if isOptional (Fld nm ex js sch t) opts then req else req @ [name])))"

definition fieldSchema :: "gfld \<Rightarrow> (string \<times> gval) list" where
  "fieldSchema f = set_all (typeSchema (fl_type f)) (parseJSONSchemaTag (fl_schema f))"

fun deref :: "gtype \<Rightarrow> gtype" where
  "deref (TPtr t) = deref t"
| "deref t = t"

definition reflectStructSchema :: "gtype \<Rightarrow> (string \<times> gval) list" where
  "reflectStructSchema t =
     (case deref t of
        TStruct fs \<Rightarrow> (case reflect_fields fs [] [] of (props, req) \<Rightarrow> object_schema props req)
      | _ \<Rightarrow> object_schema [] [])"

section \<open>Tool handlers\<close>

text \<open>The types in a handler's signature: the context, dynamic arguments, a type that
  implements \<open>error\<close>, or any other type.\<close>

datatype gsort = SCtx | SMapArg | SErr | STy gtype

datatype go_handler = NotAFunc | Func (h_ins: "gsort list") (h_outs: "gsort list")

datatype build_error =
    HandlerNotFunc
  | HandlerArity
  | HandlerNoContext
  | HandlerBadArg
  | HandlerSecondNotError
  | HandlerBadResults
  | HandlerOutNotStruct

definition validateOutputs :: "gsort list \<Rightarrow> build_error option" where
  "validateOutputs outs =
     (if length outs = 1 \<or> length outs = 2
      then (if length outs = 2 \<and> outs ! 1 \<noteq> SErr then Some HandlerSecondNotError else None)
      else Some HandlerBadResults)"

fun resultOutType :: "gsort list \<Rightarrow> gsort option" where
  "resultOutType [] = None"
| "resultOutType (s # ss) = (if s = SErr then resultOutType ss else Some s)"

fun sort_struct :: "gsort \<Rightarrow> gtype option" where
  "sort_struct (STy t) = (case deref t of TStruct fs \<Rightarrow> Some t | _ \<Rightarrow> None)"
| "sort_struct _ = None"

record tool_shape =
  sh_input :: "(string \<times> gval) list"
  sh_output :: "(string \<times> gval) list option"
  sh_structured :: bool

text \<open>The end of \<open>buildToolEntry\<close>, once arguments and results are accepted.\<close>

definition build_rest :: "(string \<times> gval) list \<Rightarrow> bool \<Rightarrow> gsort list \<Rightarrow> build_error + tool_shape" where
  "build_rest schema ro outs =
     (if \<not> ro then Inr \<lparr>sh_input = schema, sh_output = None, sh_structured = False\<rparr>
      else (case resultOutType outs of
              None \<Rightarrow> Inr \<lparr>sh_input = schema, sh_output = None, sh_structured = False\<rparr>
            | Some outT \<Rightarrow>
                (case sort_struct outT of
                   None \<Rightarrow> Inl HandlerOutNotStruct
                 | Some t \<Rightarrow> Inr \<lparr>sh_input = schema, sh_output = Some (reflectStructSchema t),
                                 sh_structured = True\<rparr>)))"

definition buildToolEntry :: "go_handler \<Rightarrow> bool \<Rightarrow> build_error + tool_shape" where
  "buildToolEntry h reflectOutput =
     (case h of
        NotAFunc \<Rightarrow> Inl HandlerNotFunc
      | Func ins outs \<Rightarrow>
          if length ins \<noteq> 2 then Inl HandlerArity
          else if ins ! 0 \<noteq> SCtx then Inl HandlerNoContext
          else
            (case (if ins ! 1 = SMapArg then Some [(''type'', GStr ''object'')]
                   else map_option reflectStructSchema (sort_struct (ins ! 1))) of
               None \<Rightarrow> Inl HandlerBadArg
             | Some schema \<Rightarrow>
                 (case validateOutputs outs of
                    Some e \<Rightarrow> Inl e
                  | None \<Rightarrow> build_rest schema reflectOutput outs)))"

section \<open>Facts\<close>

definition kept :: "gfld \<Rightarrow> bool" where
  "kept f \<longleftrightarrow> fl_exported f \<and> fst (parseJSONTag f) \<noteq> ''-''"

lemma fst_update_set: "fst ` set (AList.update k v m) = insert k (fst ` set m)"
  by (induction m) auto

lemma reflect_fields_spec:
  "reflect_fields fs props req = (props', req') \<Longrightarrow>
     req' = req @ map (\<lambda>f. fst (parseJSONTag f))
              (filter (\<lambda>f. kept f \<and> \<not> isOptional f (snd (parseJSONTag f))) fs)
     \<and> fst ` set props' = fst ` set props \<union> (\<lambda>f. fst (parseJSONTag f)) ` {f \<in> set fs. kept f}
     \<and> (distinct (map fst props) \<longrightarrow> distinct (map fst props'))
     \<and> (\<forall>f\<in>set fs. kept f \<and> (\<forall>g\<in>set fs. kept g \<and> fst (parseJSONTag g) = fst (parseJSONTag f) \<longrightarrow> g = f)
          \<longrightarrow> map_of props' (fst (parseJSONTag f)) = Some (GMap (fieldSchema f)))
     \<and> (\<forall>k. (\<forall>f\<in>set fs. kept f \<longrightarrow> fst (parseJSONTag f) \<noteq> k) \<longrightarrow> map_of props' k = map_of props k)"
proof (induction fs arbitrary: props req)
  case Nil
  then show ?case by simp
next
  case (Cons f fs)
  obtain nm ex js sch t where f: "f = Fld nm ex js sch t" by (cases f)
  obtain name opts where p: "parseJSONTag f = (name, opts)" by fastforce
  show ?case
  proof (cases "kept f")
    case False
    with Cons.prems f p have "reflect_fields fs props req = (props', req')"
      by (auto simp: kept_def split: if_splits)
    from Cons.IH [OF this] False show ?thesis by auto
  next
    case True
    with Cons.prems f p have r: "reflect_fields fs (AList.update name (GMap (fieldSchema f)) props)
        (if isOptional f opts then req else req @ [name]) = (props', req')"
      by (simp add: kept_def fieldSchema_def)
    note ih = Cons.IH [OF r]
    show ?thesis
    proof (intro conjI ballI impI allI)
      show "req' = req @ map (\<lambda>f. fst (parseJSONTag f))
              (filter (\<lambda>f. kept f \<and> \<not> isOptional f (snd (parseJSONTag f))) (f # fs))"
        using ih True p by auto
      show "fst ` set props' = fst ` set props \<union> (\<lambda>f. fst (parseJSONTag f)) ` {x \<in> set (f # fs). kept x}"
      proof -
        have "{x \<in> set (f # fs). kept x} = insert f {x \<in> set fs. kept x}" using True by auto
        with ih p show ?thesis by (simp add: fst_update_set)
      qed
      show "distinct (map fst props) \<Longrightarrow> distinct (map fst props')"
        using ih by (simp add: distinct_update)
      show "map_of props' k = map_of props k"
        if "\<forall>g\<in>set (f # fs). kept g \<longrightarrow> fst (parseJSONTag g) \<noteq> k" for k
        using ih that True p by (auto simp: update_conv')
      fix g
      assume g: "g \<in> set (f # fs)"
        "kept g \<and> (\<forall>x\<in>set (f # fs). kept x \<and> fst (parseJSONTag x) = fst (parseJSONTag g) \<longrightarrow> x = g)"
      show "map_of props' (fst (parseJSONTag g)) = Some (GMap (fieldSchema g))"
      proof (cases "g \<in> set fs")
        case True
        with ih g show ?thesis by simp
      next
        case False
        with g have gf: "g = f" by simp
        with g False have "\<forall>x\<in>set fs. kept x \<longrightarrow> fst (parseJSONTag x) \<noteq> name" using p by auto
        with ih gf p show ?thesis by (simp add: update_conv')
      qed
    qed
  qed
qed

lemma validateOutputs_None:
  "validateOutputs outs = None \<longleftrightarrow> (\<exists>r. outs = [r]) \<or> (\<exists>r. outs = [r, SErr])"
proof -
  consider "outs = []" | r where "outs = [r]" | r s where "outs = [r, s]" | r s t us where "outs = r # s # t # us"
    by (cases outs; cases "tl outs"; cases "tl (tl outs)") auto
  then show ?thesis by cases (auto simp: validateOutputs_def)
qed

lemma build_rest_ok:
  "(\<exists>sh. build_rest schema ro outs = Inr sh) \<longleftrightarrow>
     (ro \<longrightarrow> (case resultOutType outs of None \<Rightarrow> True | Some r \<Rightarrow> sort_struct r \<noteq> None))"
  by (auto simp: build_rest_def split: option.splits)

section \<open>Properties\<close>

text \<open>
  The schema reflected from a struct. Its properties are exactly the JSON names of
  the exported fields not tagged \<open>-\<close>, a field whose name no other field shares has its own
  schema there, and the required names are those of the fields that are neither pointers nor
  \<open>omitempty\<close>, in field order; pointers to the struct give the same schema.
\<close>

theorem reflect_struct:
  "deref t = TStruct fs \<longrightarrow>
     (\<exists>props. reflectStructSchema t = object_schema props
          (map (\<lambda>f. fst (parseJSONTag f)) (filter (\<lambda>f. kept f \<and> \<not> isOptional f (snd (parseJSONTag f))) fs))
        \<and> distinct (map fst props)
        \<and> set (map fst props) = {fst (parseJSONTag f) |f. f \<in> set fs \<and> kept f}
        \<and> (\<forall>f\<in>set fs. kept f \<and> (\<forall>g\<in>set fs. kept g \<and> fst (parseJSONTag g) = fst (parseJSONTag f) \<longrightarrow> g = f)
             \<longrightarrow> map_of props (fst (parseJSONTag f)) = Some (GMap (fieldSchema f)))
        \<and> typeSchema t = reflectStructSchema t)"
proof
  assume t: "deref t = TStruct fs"
  obtain props req where r: "reflect_fields fs [] [] = (props, req)" by fastforce
  have "typeSchema (deref t) = typeSchema t" for t
    by (induction t rule: deref.induct) auto
  with t have ty: "typeSchema t = typeSchema (TStruct fs)" by metis
  from reflect_fields_spec [OF r] t r ty show "\<exists>props. reflectStructSchema t = object_schema props
          (map (\<lambda>f. fst (parseJSONTag f)) (filter (\<lambda>f. kept f \<and> \<not> isOptional f (snd (parseJSONTag f))) fs))
        \<and> distinct (map fst props)
        \<and> set (map fst props) = {fst (parseJSONTag f) |f. f \<in> set fs \<and> kept f}
        \<and> (\<forall>f\<in>set fs. kept f \<and> (\<forall>g\<in>set fs. kept g \<and> fst (parseJSONTag g) = fst (parseJSONTag f) \<longrightarrow> g = f)
             \<longrightarrow> map_of props (fst (parseJSONTag f)) = Some (GMap (fieldSchema f)))
        \<and> typeSchema t = reflectStructSchema t"
    by (intro exI [of _ props]) (auto simp: reflectStructSchema_def)
qed

definition schema_example_fields :: "gfld list" where
  "schema_example_fields =
     [Fld ''A'' True ''a'' ''description=the first,minimum=0'' TInt,
      Fld ''b'' False [] [] TString,
      Fld ''C'' True '',omitempty'' [] (TSlice TString),
      Fld ''D'' True ''-'' [] TBool]"

definition schema_example :: gtype where
  "schema_example = TPtr (TStruct schema_example_fields)"

theorem reflect_struct_witness:
  "\<exists>props. reflectStructSchema schema_example = object_schema props [''a''] \<and> set (map fst props) = {''a'', ''C''}"
proof -
  have 1: "map (\<lambda>f. fst (parseJSONTag f))
      (filter (\<lambda>f. kept f \<and> \<not> isOptional f (snd (parseJSONTag f))) schema_example_fields) = [''a'']"
    by code_simp
  have 2: "{fst (parseJSONTag f) |f. f \<in> set schema_example_fields \<and> kept f}
      = set (map (\<lambda>f. fst (parseJSONTag f)) (filter kept schema_example_fields))" by auto
  have 3: "map (\<lambda>f. fst (parseJSONTag f)) (filter kept schema_example_fields) = [''a'', ''C'']" by code_simp
  have "deref schema_example = TStruct schema_example_fields" by (simp add: schema_example_def)
  with reflect_struct [of schema_example schema_example_fields] obtain props where
    "reflectStructSchema schema_example = object_schema props [''a'']"
    "set (map fst props) = set [''a'', ''C'']"
    unfolding 1 2 3 by blast
  then show ?thesis by auto
qed

text \<open>
  A handler is accepted exactly when it takes the context and either dynamic
  arguments or a struct (through any pointers) and returns a result, an error, or both with
  the error second; and with reflected output only when the result, if any, is a struct. A
  registered tool is structured exactly when it declares an output schema.
\<close>

theorem build_tool_accepts:
  "((\<exists>sh. buildToolEntry h ro = Inr sh) \<longleftrightarrow>
     (\<exists>arg outs. h = Func [SCtx, arg] outs
        \<and> (arg = SMapArg \<or> sort_struct arg \<noteq> None)
        \<and> ((\<exists>r. outs = [r]) \<or> (\<exists>r. outs = [r, SErr]))
        \<and> (ro \<longrightarrow> (case resultOutType outs of None \<Rightarrow> True | Some r \<Rightarrow> sort_struct r \<noteq> None))))
   \<and> (buildToolEntry h ro = Inr sh \<longrightarrow> (sh_structured sh \<longleftrightarrow> sh_output sh \<noteq> None) \<and> (sh_structured sh \<longrightarrow> ro))"
proof (intro conjI)
  show "(\<exists>sh. buildToolEntry h ro = Inr sh) \<longleftrightarrow>
     (\<exists>arg outs. h = Func [SCtx, arg] outs
        \<and> (arg = SMapArg \<or> sort_struct arg \<noteq> None)
        \<and> ((\<exists>r. outs = [r]) \<or> (\<exists>r. outs = [r, SErr]))
        \<and> (ro \<longrightarrow> (case resultOutType outs of None \<Rightarrow> True | Some r \<Rightarrow> sort_struct r \<noteq> None)))"
  proof (cases h)
    case NotAFunc
    then show ?thesis by (simp add: buildToolEntry_def)
  next
    case (Func ins outs)
    show ?thesis
    proof (cases "\<exists>arg. ins = [SCtx, arg]")
      case False
      then have "length ins \<noteq> 2 \<or> ins ! 0 \<noteq> SCtx" by (auto simp: numeral_2_eq_2 length_Suc_conv)
      then show ?thesis using Func False by (auto simp: buildToolEntry_def)
    next
      case True
      then obtain arg where ins: "ins = [SCtx, arg]" by blast
      let ?A = "if arg = SMapArg then Some [(''type'', GStr ''object'')]
                else map_option reflectStructSchema (sort_struct arg)"
      have A: "?A \<noteq> None \<longleftrightarrow> arg = SMapArg \<or> sort_struct arg \<noteq> None" by simp
      have b: "buildToolEntry (Func [SCtx, arg] outs) ro =
        (case ?A of None \<Rightarrow> Inl HandlerBadArg
         | Some schema \<Rightarrow> (case validateOutputs outs of Some e \<Rightarrow> Inl e | None \<Rightarrow> build_rest schema ro outs))"
        by (simp add: buildToolEntry_def)
      have "(\<exists>sh. buildToolEntry (Func [SCtx, arg] outs) ro = Inr sh) \<longleftrightarrow>
          ?A \<noteq> None \<and> validateOutputs outs = None
          \<and> (ro \<longrightarrow> (case resultOutType outs of None \<Rightarrow> True | Some r \<Rightarrow> sort_struct r \<noteq> None))"
        unfolding b by (cases ?A; cases "validateOutputs outs") (simp_all only: build_rest_ok option.case simp_thms option.distinct sum.distinct not_Some_eq HOL.simp_thms)
      then show ?thesis unfolding Func ins A validateOutputs_None by blast
    qed
  qed
  show "buildToolEntry h ro = Inr sh \<longrightarrow> (sh_structured sh \<longleftrightarrow> sh_output sh \<noteq> None) \<and> (sh_structured sh \<longrightarrow> ro)"
    by (auto simp: buildToolEntry_def build_rest_def split: go_handler.splits if_splits option.splits)
qed

theorem build_tool_accepts_witness:
  "\<exists>sh. buildToolEntry (Func [SCtx, STy schema_example] [STy TString, SErr]) False = Inr sh"
proof -
  have "sort_struct (STy schema_example) \<noteq> None" by code_simp
  then show ?thesis
    using build_tool_accepts [of "Func [SCtx, STy schema_example] [STy TString, SErr]" False] by auto
qed

end
