(* ===== verification/Registry.thy ===== *)
theory Registry
  imports Prelude GoStd TemplateRegex UriTemplate UriFastmcp Content Schema
begin

text \<open>
  The server's registries: \<open>src/server.go\<close>, \<open>src/tool.go\<close>, \<open>src/resource.go\<close>,
  \<open>src/prompt.go\<close> and the registration half of \<open>src/completion.go\<close>. The type variable \<open>'w\<close>
  is the state user handlers act on; a handler takes it and returns it updated. A handler's
  error is its text. Each registration is one atomic step (the code holds the lock).
\<close>

section \<open>Resource URI templates\<close>

text \<open>The matches of \<open>\{([^}]+)\}\<close> in a template and the literals between them.\<close>

datatype tpart = TLit string | TVar string

fun push_lit :: "char \<Rightarrow> tpart list \<Rightarrow> tpart list" where
  "push_lit c (TLit l # ps) = TLit (c # l) # ps"
| "push_lit c ps = TLit [c] # ps"

function (sequential) tmpl_scan :: "string \<Rightarrow> tpart list" where
  "tmpl_scan [] = []"
| "tmpl_scan (c # cs) =
     (if c = CHR 0x7B then
        (case index_byte (CHR 0x7D) cs of
           None \<Rightarrow> push_lit c (tmpl_scan cs)
         | Some n \<Rightarrow> if n = 0 then push_lit c (tmpl_scan cs)
                     else TVar (take n cs) # tmpl_scan (drop (n + 1) cs))
      else push_lit c (tmpl_scan cs))"
  by pat_completeness auto
termination
  by (relation "measure length") auto

declare tmpl_scan.simps(2) [simp del]

fun tmpl_vars :: "tpart list \<Rightarrow> string list" where
  "tmpl_vars [] = []"
| "tmpl_vars (TLit l # ps) = tmpl_vars ps"
| "tmpl_vars (TVar n # ps) = n # tmpl_vars ps"

fun tmpl_toks :: "tpart list \<Rightarrow> rtok list" where
  "tmpl_toks [] = []"
| "tmpl_toks (TLit l # ps) = RLit l # tmpl_toks ps"
| "tmpl_toks (TVar n # ps) = RCap NotSlash False # tmpl_toks ps"

definition compileURITemplate :: "string \<Rightarrow> rtok list \<times> string list" where
  "compileURITemplate tmpl = (tmpl_toks (tmpl_scan tmpl), tmpl_vars (tmpl_scan tmpl))"

text \<open>\<open>resourceTemplateEntry.match\<close>, on the compiled expression and its names.\<close>

definition tmpl_match :: "rtok list \<Rightarrow> string list \<Rightarrow> string \<Rightarrow> (string \<rightharpoonup> string) option" where
  "tmpl_match re params uri =
     (case rmatch re uri of None \<Rightarrow> None | Some ms \<Rightarrow> Some (fill (\<lambda>v. v) params ms Map.empty))"

text \<open>\<open>expandTemplate\<close> of \<open>src/mount/mount.go\<close>, over the same expression.\<close>

fun expand_tparts :: "(string \<rightharpoonup> string) \<Rightarrow> tpart list \<Rightarrow> string" where
  "expand_tparts params [] = []"
| "expand_tparts params (TLit l # ps) = l @ expand_tparts params ps"
| "expand_tparts params (TVar n # ps) =
     (case params n of Some v \<Rightarrow> v | None \<Rightarrow> CHR 0x7B # n @ [CHR 0x7D]) @ expand_tparts params ps"

definition expandTemplate :: "string \<Rightarrow> (string \<rightharpoonup> string) \<Rightarrow> string" where
  "expandTemplate tmpl params = expand_tparts params (tmpl_scan tmpl)"

section \<open>Entries\<close>

datatype go_out = OErr "string option" | OVal tool_value

definition splitOutputs :: "go_out list \<Rightarrow> tool_value \<times> string option" where
  "splitOutputs outs = foldl (\<lambda>(r, e) v.
      case v of OErr None \<Rightarrow> (r, e) | OErr (Some x) \<Rightarrow> (r, Some x) | OVal x \<Rightarrow> (x, e)) (TVAny GNil, None) outs"

text \<open>The invocation closure of \<open>buildToolEntry\<close>: the arguments are decoded into the
  handler's type by \<open>dec\<close>, starting from its zero value.\<close>

definition tool_call ::
  "(gval \<Rightarrow> string + 'a) \<Rightarrow> 'a \<Rightarrow> ('a \<Rightarrow> 'w \<Rightarrow> go_out list \<times> 'w) \<Rightarrow> gval option \<Rightarrow> 'w \<Rightarrow> (tool_value \<times> string option) \<times> 'w" where
  "tool_call dec zero fn raw w =
     (case (if raw = None \<or> raw = Some GNil then Inr zero else dec (the raw)) of
        Inl e \<Rightarrow> ((TVAny GNil, Some (''invalid arguments: '' @ e)), w)
      | Inr a \<Rightarrow> (case fn a w of (outs, w') \<Rightarrow> (splitOutputs outs, w')))"

record 'w tool_entry =
  te_name :: string
  te_description :: string
  te_inputSchema :: "(string \<times> gval) list"
  te_outputSchema :: "(string \<times> gval) list option"
  te_structured :: bool
  te_call :: "gval option \<Rightarrow> 'w \<Rightarrow> (tool_value \<times> string option) \<times> 'w"

datatype 'w res_handler =
    TextHandler "'w \<Rightarrow> (string + string) \<times> 'w"
  | BlobHandler "'w \<Rightarrow> (string + string) \<times> 'w"

record 'w resource_entry =
  r_uri :: string
  r_name :: string
  r_description :: string
  r_mimeType :: string
  r_handler :: "'w res_handler"

datatype 'w tmpl_handler =
    TextTmpl "(string \<rightharpoonup> string) \<Rightarrow> 'w \<Rightarrow> (string + string) \<times> 'w"
  | BlobTmpl "(string \<rightharpoonup> string) \<Rightarrow> 'w \<Rightarrow> (string + string) \<times> 'w"

type_synonym 'w completer = "string \<Rightarrow> string \<Rightarrow> 'w \<Rightarrow> string list \<times> 'w"

record 'w template_entry =
  t_template :: string
  t_name :: string
  t_description :: string
  t_mimeType :: string
  t_re :: "rtok list"
  t_params :: "string list"
  t_handler :: "'w tmpl_handler"
  t_completer :: "'w completer option"

record prompt_message =
  pm_role :: string
  pm_content :: content

record prompt_argument =
  pa_name :: string
  pa_description :: string
  pa_required :: bool

type_synonym 'w prompt_handler = "(string \<rightharpoonup> string) \<Rightarrow> 'w \<Rightarrow> (string + prompt_message list) \<times> 'w"

record 'w prompt_entry =
  p_name :: string
  p_description :: string
  p_arguments :: "prompt_argument list"
  p_handler :: "'w prompt_handler"
  p_completer :: "'w completer option"

definition NewUserMessage :: "string \<Rightarrow> prompt_message" where
  "NewUserMessage t = \<lparr>pm_role = ''user'', pm_content = NewTextContent t\<rparr>"

definition NewAssistantMessage :: "string \<Rightarrow> prompt_message" where
  "NewAssistantMessage t = \<lparr>pm_role = ''assistant'', pm_content = NewTextContent t\<rparr>"

section \<open>The server\<close>

record 'w server =
  sv_name :: string
  sv_version :: string
  sv_instructions :: string
  sv_tools :: "string \<rightharpoonup> 'w tool_entry"
  sv_toolOrder :: "string list"
  sv_resources :: "string \<rightharpoonup> 'w resource_entry"
  sv_resourceOrder :: "string list"
  sv_templates :: "'w template_entry list"
  sv_prompts :: "string \<rightharpoonup> 'w prompt_entry"
  sv_promptOrder :: "string list"

definition WithVersion :: "string \<Rightarrow> 'w server \<Rightarrow> 'w server" where
  "WithVersion v s = s\<lparr>sv_version := v\<rparr>"

definition WithInstructions :: "string \<Rightarrow> 'w server \<Rightarrow> 'w server" where
  "WithInstructions i s = s\<lparr>sv_instructions := i\<rparr>"

definition New :: "string \<Rightarrow> ('w server \<Rightarrow> 'w server) list \<Rightarrow> 'w server" where
  "New nm opts = foldl (\<lambda>s opt. opt s)
     \<lparr>sv_name = nm, sv_version = ''0.2.0'', sv_instructions = [], sv_tools = Map.empty, sv_toolOrder = [],
      sv_resources = Map.empty, sv_resourceOrder = [], sv_templates = [], sv_prompts = Map.empty,
      sv_promptOrder = []\<rparr> opts"

section \<open>Registration\<close>

definition registerTool :: "string \<Rightarrow> 'w tool_entry \<Rightarrow> 'w server \<Rightarrow> 'w server" where
  "registerTool nm e s =
     s\<lparr>sv_toolOrder := (if sv_tools s nm = None then sv_toolOrder s @ [nm] else sv_toolOrder s),
       sv_tools := (sv_tools s)(nm \<mapsto> e)\<rparr>"

text \<open>\<open>Tool\<close> (\<open>ro = False\<close>) and \<open>ToolWithOutput\<close> (\<open>ro = True\<close>): \<open>Inl\<close> is the panic.\<close>

definition Tool_reg ::
  "bool \<Rightarrow> string \<Rightarrow> string \<Rightarrow> go_handler \<Rightarrow> (gval option \<Rightarrow> 'w \<Rightarrow> (tool_value \<times> string option) \<times> 'w)
     \<Rightarrow> 'w server \<Rightarrow> build_error + 'w server" where
  "Tool_reg ro nm desc h call s =
     (case buildToolEntry h ro of
        Inl e \<Rightarrow> Inl e
      | Inr sh \<Rightarrow> Inr (registerTool nm
          \<lparr>te_name = nm, te_description = desc, te_inputSchema = sh_input sh, te_outputSchema = sh_output sh,
           te_structured = sh_structured sh, te_call = call\<rparr> s))"

definition Tool where "Tool = Tool_reg False"
definition ToolWithOutput where "ToolWithOutput = Tool_reg True"

definition put_resource :: "string \<Rightarrow> 'w resource_entry \<Rightarrow> 'w server \<Rightarrow> 'w server" where
  "put_resource uri e s =
     s\<lparr>sv_resourceOrder := (if sv_resources s uri = None then sv_resourceOrder s @ [uri] else sv_resourceOrder s),
       sv_resources := (sv_resources s)(uri \<mapsto> e)\<rparr>"

definition Resource ::
  "string \<Rightarrow> string \<Rightarrow> string \<Rightarrow> string \<Rightarrow> ('w \<Rightarrow> (string + string) \<times> 'w) \<Rightarrow> 'w server \<Rightarrow> 'w server" where
  "Resource uri nm desc mime h = put_resource uri
     \<lparr>r_uri = uri, r_name = nm, r_description = desc, r_mimeType = mime, r_handler = TextHandler h\<rparr>"

definition BinaryResource ::
  "string \<Rightarrow> string \<Rightarrow> string \<Rightarrow> string \<Rightarrow> ('w \<Rightarrow> (string + string) \<times> 'w) \<Rightarrow> 'w server \<Rightarrow> 'w server" where
  "BinaryResource uri nm desc mime h = put_resource uri
     \<lparr>r_uri = uri, r_name = nm, r_description = desc, r_mimeType = mime, r_handler = BlobHandler h\<rparr>"

definition add_template ::
  "string \<Rightarrow> string \<Rightarrow> string \<Rightarrow> string \<Rightarrow> 'w tmpl_handler \<Rightarrow> 'w server \<Rightarrow> 'w server" where
  "add_template tmpl nm desc mime h s =
     s\<lparr>sv_templates := sv_templates s @
        [\<lparr>t_template = tmpl, t_name = nm, t_description = desc, t_mimeType = mime,
          t_re = fst (compileURITemplate tmpl), t_params = snd (compileURITemplate tmpl),
          t_handler = h, t_completer = None\<rparr>]\<rparr>"

definition ResourceTemplate where
  "ResourceTemplate tmpl nm desc mime h = add_template tmpl nm desc mime (TextTmpl h)"

definition BinaryResourceTemplate where
  "BinaryResourceTemplate tmpl nm desc mime h = add_template tmpl nm desc mime (BlobTmpl h)"

definition put_prompt :: "string \<Rightarrow> 'w prompt_entry \<Rightarrow> 'w server \<Rightarrow> 'w server" where
  "put_prompt nm e s =
     s\<lparr>sv_promptOrder := (if sv_prompts s nm = None then sv_promptOrder s @ [nm] else sv_promptOrder s),
       sv_prompts := (sv_prompts s)(nm \<mapsto> e)\<rparr>"

definition Prompt ::
  "string \<Rightarrow> string \<Rightarrow> 'w prompt_handler \<Rightarrow> prompt_argument list \<Rightarrow> 'w server \<Rightarrow> 'w server" where
  "Prompt nm desc h args = put_prompt nm
     \<lparr>p_name = nm, p_description = desc, p_arguments = args, p_handler = h, p_completer = None\<rparr>"

definition CompletePrompt :: "string \<Rightarrow> 'w completer option \<Rightarrow> 'w server \<Rightarrow> 'w server" where
  "CompletePrompt nm fn s =
     (case sv_prompts s nm of
        Some p \<Rightarrow> s\<lparr>sv_prompts := (sv_prompts s)(nm \<mapsto> p\<lparr>p_completer := fn\<rparr>)\<rparr>
      | None \<Rightarrow> s)"

fun set_completer :: "string \<Rightarrow> 'w completer option \<Rightarrow> 'w template_entry list \<Rightarrow> 'w template_entry list" where
  "set_completer tmpl fn [] = []"
| "set_completer tmpl fn (t # ts) =
     (if t_template t = tmpl then t\<lparr>t_completer := fn\<rparr> # ts else t # set_completer tmpl fn ts)"

definition CompleteResourceTemplate :: "string \<Rightarrow> 'w completer option \<Rightarrow> 'w server \<Rightarrow> 'w server" where
  "CompleteResourceTemplate tmpl fn s = s\<lparr>sv_templates := set_completer tmpl fn (sv_templates s)\<rparr>"

section \<open>The registries keep their contract\<close>

interpretation tools: keyed_registry sv_toolOrder sv_tools registerTool
  by unfold_locales (simp_all add: registerTool_def)

interpretation resources: keyed_registry sv_resourceOrder sv_resources put_resource
  by unfold_locales (simp_all add: put_resource_def)

interpretation prompts: keyed_registry sv_promptOrder sv_prompts put_prompt
  by unfold_locales (simp_all add: put_prompt_def)

text \<open>A template entry is what \<open>compileURITemplate\<close> made of its template.\<close>

definition template_ok :: "'w template_entry \<Rightarrow> bool" where
  "template_ok t \<longleftrightarrow> compileURITemplate (t_template t) = (t_re t, t_params t)"

definition server_wf :: "'w server \<Rightarrow> bool" where
  "server_wf s \<longleftrightarrow> keyed_wf sv_toolOrder sv_tools s \<and> keyed_wf sv_resourceOrder sv_resources s
     \<and> keyed_wf sv_promptOrder sv_prompts s
     \<and> (\<forall>k e. sv_tools s k = Some e \<longrightarrow> te_name e = k \<and> (te_structured e \<longleftrightarrow> te_outputSchema e \<noteq> None))
     \<and> (\<forall>k e. sv_resources s k = Some e \<longrightarrow> r_uri e = k)
     \<and> (\<forall>k e. sv_prompts s k = Some e \<longrightarrow> p_name e = k)
     \<and> (\<forall>t\<in>set (sv_templates s). template_ok t)"

text \<open>The registrations a program can make.\<close>

datatype 'w registration =
    RTool bool string string go_handler "gval option \<Rightarrow> 'w \<Rightarrow> (tool_value \<times> string option) \<times> 'w"
  | RResource string string string string "'w res_handler"
  | RTemplate string string string string "'w tmpl_handler"
  | RPrompt string string "'w prompt_handler" "prompt_argument list"
  | RCompletePrompt string "'w completer option"
  | RCompleteTemplate string "'w completer option"

fun register :: "'w registration \<Rightarrow> 'w server \<Rightarrow> 'w server option" where
  "register (RTool ro nm d h c) s = (case Tool_reg ro nm d h c s of Inl _ \<Rightarrow> None | Inr s' \<Rightarrow> Some s')"
| "register (RResource uri nm d m h) s =
     Some (case h of TextHandler f \<Rightarrow> Resource uri nm d m f s | BlobHandler f \<Rightarrow> BinaryResource uri nm d m f s)"
| "register (RTemplate uri nm d m h) s =
     Some (case h of TextTmpl f \<Rightarrow> ResourceTemplate uri nm d m f s | BlobTmpl f \<Rightarrow> BinaryResourceTemplate uri nm d m f s)"
| "register (RPrompt nm d h args) s = Some (Prompt nm d h args s)"
| "register (RCompletePrompt nm f) s = Some (CompletePrompt nm f s)"
| "register (RCompleteTemplate t f) s = Some (CompleteResourceTemplate t f s)"

fun register_all :: "'w registration list \<Rightarrow> 'w server \<Rightarrow> 'w server option" where
  "register_all [] s = Some s"
| "register_all (r # rs) s = (case register r s of None \<Rightarrow> None | Some s' \<Rightarrow> register_all rs s')"

section \<open>Facts\<close>

lemma tmpl_toks_ncaps: "ncaps (tmpl_toks ps) = length (tmpl_vars ps)"
  by (induction ps rule: tmpl_vars.induct) auto

lemma expand_tparts_cong:
  "(\<And>n. n \<in> set (tmpl_vars ps) \<Longrightarrow> f n = g n) \<Longrightarrow> expand_tparts f ps = expand_tparts g ps"
  by (induction ps rule: tmpl_vars.induct) auto

lemma expand_build:
  "length ms = length (tmpl_vars ps) \<Longrightarrow> distinct (tmpl_vars ps) \<Longrightarrow>
     expand_tparts (map_of (zip (tmpl_vars ps) ms)) ps = rbuild (tmpl_toks ps) ms"
proof (induction ps arbitrary: ms rule: tmpl_vars.induct)
  case 1
  then show ?case by simp
next
  case (2 l ps)
  then show ?case by simp
next
  case (3 n ps)
  then obtain m ms' where ms: "ms = m # ms'" by (cases ms) auto
  let ?M = "map_of (zip (n # tmpl_vars ps) (m # ms'))"
  have "expand_tparts ?M ps = expand_tparts (map_of (zip (tmpl_vars ps) ms')) ps"
    by (rule expand_tparts_cong) (use 3 in auto)
  also have "\<dots> = rbuild (tmpl_toks ps) ms'" using 3 ms by simp
  finally have r: "expand_tparts ?M ps = rbuild (tmpl_toks ps) ms'" .
  have "?M n = Some m" by simp
  then show ?case
    unfolding ms tmpl_vars.simps tmpl_toks.simps expand_tparts.simps r by (simp only: option.case list.case rbuild.simps)
qed

lemma tmpl_match_fill:
  assumes "tmpl_match (tmpl_toks ps) (tmpl_vars ps) uri = Some vars" "distinct (tmpl_vars ps)"
  shows "expand_tparts vars ps = uri"
proof -
  from assms(1) obtain ms where m: "rmatch (tmpl_toks ps) uri = Some ms"
      and v: "vars = fill (\<lambda>v. v) (tmpl_vars ps) ms Map.empty"
    by (auto simp: tmpl_match_def split: option.splits)
  from rmatch_sound [OF m] have f: "rfits (tmpl_toks ps) ms" "rbuild (tmpl_toks ps) ms = uri" by auto
  have len: "length ms = length (tmpl_vars ps)"
    using rfits_length [OF f(1)] by (simp add: tmpl_toks_ncaps)
  then have "vars = map_of (zip (tmpl_vars ps) ms)"
    using fill_lookup [OF assms(2) len, of "\<lambda>v. v" Map.empty] v by simp
  then show ?thesis using expand_build [OF len assms(2)] f(2) by simp
qed

interpretation resource_tmpl: template_matcher
  "\<lambda>tmpl uri. tmpl_match (fst (compileURITemplate tmpl)) (snd (compileURITemplate tmpl)) uri"
  expandTemplate
  "\<lambda>tmpl. distinct (snd (compileURITemplate tmpl))"
  by unfold_locales (simp add: compileURITemplate_def expandTemplate_def tmpl_match_fill)

lemma keyed_wf_frame:
  "order s = order t \<Longrightarrow> look s = look t \<Longrightarrow> keyed_wf order look s = keyed_wf order look t"
  by (simp add: keyed_wf_def)

lemma register_frames [frame_rules]:
  "sv_tools (put_resource k r s) = sv_tools s" "sv_toolOrder (put_resource k r s) = sv_toolOrder s"
  "sv_prompts (put_resource k r s) = sv_prompts s" "sv_promptOrder (put_resource k r s) = sv_promptOrder s"
  "sv_templates (put_resource k r s) = sv_templates s"
  "sv_resources (registerTool k e s) = sv_resources s" "sv_resourceOrder (registerTool k e s) = sv_resourceOrder s"
  "sv_prompts (registerTool k e s) = sv_prompts s" "sv_promptOrder (registerTool k e s) = sv_promptOrder s"
  "sv_templates (registerTool k e s) = sv_templates s"
  "sv_tools (put_prompt k p s) = sv_tools s" "sv_toolOrder (put_prompt k p s) = sv_toolOrder s"
  "sv_resources (put_prompt k p s) = sv_resources s" "sv_resourceOrder (put_prompt k p s) = sv_resourceOrder s"
  "sv_templates (put_prompt k p s) = sv_templates s"
  by (simp_all add: put_resource_def registerTool_def put_prompt_def)

lemma keyed_wf_others [frame_rules]:
  "keyed_wf sv_toolOrder sv_tools (put_resource k r s) = keyed_wf sv_toolOrder sv_tools s"
  "keyed_wf sv_promptOrder sv_prompts (put_resource k r s) = keyed_wf sv_promptOrder sv_prompts s"
  "keyed_wf sv_resourceOrder sv_resources (registerTool k e s) = keyed_wf sv_resourceOrder sv_resources s"
  "keyed_wf sv_promptOrder sv_prompts (registerTool k e s) = keyed_wf sv_promptOrder sv_prompts s"
  "keyed_wf sv_toolOrder sv_tools (put_prompt k p s) = keyed_wf sv_toolOrder sv_tools s"
  "keyed_wf sv_resourceOrder sv_resources (put_prompt k p s) = keyed_wf sv_resourceOrder sv_resources s"
  by (simp_all add: keyed_wf_def frame_rules)

lemma wf_registerTool:
  "server_wf s \<Longrightarrow> te_name e = k \<Longrightarrow> (te_structured e \<longleftrightarrow> te_outputSchema e \<noteq> None) \<Longrightarrow> server_wf (registerTool k e s)"
  unfolding server_wf_def by (simp add: frame_rules tools.wf_reg) (simp add: registerTool_def)

lemma wf_put_resource: "server_wf s \<Longrightarrow> r_uri e = k \<Longrightarrow> server_wf (put_resource k e s)"
  unfolding server_wf_def by (simp add: frame_rules resources.wf_reg) (simp add: put_resource_def)

lemma wf_put_prompt: "server_wf s \<Longrightarrow> p_name e = k \<Longrightarrow> server_wf (put_prompt k e s)"
  unfolding server_wf_def by (simp add: frame_rules prompts.wf_reg) (simp add: put_prompt_def)

lemma wf_add_template: "server_wf s \<Longrightarrow> server_wf (add_template t nm d m h s)"
  by (auto simp: server_wf_def add_template_def keyed_wf_def template_ok_def)

lemma set_completer_ok: "\<forall>t\<in>set ts. template_ok t \<Longrightarrow> \<forall>t\<in>set (set_completer u f ts). template_ok t"
  by (induction u f ts rule: set_completer.induct) (auto simp: template_ok_def)

lemma buildToolEntry_structured:
  "buildToolEntry h ro = Inr sh \<Longrightarrow> sh_structured sh \<longleftrightarrow> sh_output sh \<noteq> None"
  by (auto simp: buildToolEntry_def build_rest_def split: go_handler.splits if_splits option.splits)

lemma register_wf: "server_wf s \<Longrightarrow> register r s = Some s' \<Longrightarrow> server_wf s'"
proof (cases r)
  case (RTool ro nm d h c)
  assume "server_wf s" "register r s = Some s'"
  with RTool obtain sh where sh: "buildToolEntry h ro = Inr sh"
    "s' = registerTool nm \<lparr>te_name = nm, te_description = d, te_inputSchema = sh_input sh,
       te_outputSchema = sh_output sh, te_structured = sh_structured sh, te_call = c\<rparr> s"
    by (auto simp: Tool_reg_def split: sum.splits)
  then show ?thesis
    using \<open>server_wf s\<close> buildToolEntry_structured [OF sh(1)] by (simp add: wf_registerTool)
next
  case (RResource uri nm d m h)
  assume "server_wf s" "register r s = Some s'"
  with RResource show ?thesis
    by (cases h) (auto simp: Resource_def BinaryResource_def wf_put_resource)
next
  case (RTemplate uri nm d m h)
  assume "server_wf s" "register r s = Some s'"
  with RTemplate show ?thesis
    by (cases h) (auto simp: ResourceTemplate_def BinaryResourceTemplate_def wf_add_template)
next
  case (RPrompt nm d h args)
  assume "server_wf s" "register r s = Some s'"
  with RPrompt show ?thesis by (auto simp: Prompt_def wf_put_prompt)
next
  case (RCompletePrompt nm f)
  assume wf: "server_wf s" and r: "register r s = Some s'"
  show ?thesis
  proof (cases "sv_prompts s nm")
    case None
    with RCompletePrompt wf r show ?thesis by (simp add: CompletePrompt_def)
  next
    case (Some p)
    with RCompletePrompt r have s': "s' = s\<lparr>sv_prompts := (sv_prompts s)(nm \<mapsto> p\<lparr>p_completer := f\<rparr>)\<rparr>"
      by (simp add: CompletePrompt_def)
    have "keyed_wf sv_promptOrder sv_prompts s'"
      using wf Some unfolding server_wf_def keyed_wf_def s' by auto
    then show ?thesis using wf Some unfolding server_wf_def keyed_wf_def s' by simp
  qed
next
  case (RCompleteTemplate t f)
  assume "server_wf s" "register r s = Some s'"
  with RCompleteTemplate show ?thesis
    using set_completer_ok [of "sv_templates s" t f]
    by (auto simp: CompleteResourceTemplate_def server_wf_def keyed_wf_def)
qed

lemma register_all_wf: "server_wf s \<Longrightarrow> register_all rs s = Some s' \<Longrightarrow> server_wf s'"
  by (induction rs s rule: register_all.induct) (auto split: option.splits dest: register_wf)

lemma New_fields:
  assumes "\<forall>opt\<in>set opts. (\<exists>v. opt = WithVersion v) \<or> (\<exists>i. opt = WithInstructions i)"
  shows "sv_name (New nm opts) = nm \<and> sv_tools (New nm opts) = Map.empty \<and> sv_toolOrder (New nm opts) = []
    \<and> sv_resources (New nm opts) = Map.empty \<and> sv_resourceOrder (New nm opts) = []
    \<and> sv_templates (New nm opts) = [] \<and> sv_prompts (New nm opts) = Map.empty \<and> sv_promptOrder (New nm opts) = []"
  using assms unfolding New_def
  by (induction opts rule: rev_induct) (auto simp: WithVersion_def WithInstructions_def)

section \<open>Properties\<close>

text \<open>
  C21: the registries' invariant. Whatever a program registers on a new server (tools,
  replaced tools, resources, templates, prompts, completers), each order lists every key of
  its map once, every entry is stored under its own name, a tool is structured exactly when it
  has an output schema, and every template's expression is the one compiled from it.
\<close>

theorem registration_invariant:
  assumes "\<forall>opt\<in>set opts. (\<exists>v. opt = WithVersion v) \<or> (\<exists>i. opt = WithInstructions i)"
    "register_all rs (New nm opts) = Some s"
  shows "server_wf s"
proof (rule register_all_wf [OF _ assms(2)])
  show "server_wf (New nm opts)"
    using New_fields [OF assms(1), of nm] by (simp add: server_wf_def keyed_wf_def)
qed

definition demo_tool :: "nat registration" where
  "demo_tool = RTool False ''add'' ''adds'' (Func [SCtx, SMapArg] [STy TInt, SErr]) (\<lambda>a w. ((TVAny (GInt 1), None), Suc w))"

definition demo_regs :: "nat registration list" where
  "demo_regs = [demo_tool, RTemplate (''u://'' @ CHR 0x7B # ''id}'') ''u'' [] [] (TextTmpl (\<lambda>ps w. (Inr ''x'', w))),
     demo_tool, RPrompt ''hi'' [] (\<lambda>args w. (Inr [NewUserMessage ''hello''], w)) []]"

theorem registration_invariant_witness:
  "\<exists>s. register_all demo_regs (New ''demo'' [WithVersion ''1'']) = Some s \<and> server_wf s"
proof -
  obtain sh where "buildToolEntry (Func [SCtx, SMapArg] [STy TInt, SErr]) False = Inr sh"
    by (auto simp: buildToolEntry_def build_rest_def validateOutputs_def)
  then have "\<exists>s. register_all demo_regs (New ''demo'' [WithVersion ''1'']) = Some s"
    by (simp add: demo_regs_def demo_tool_def Tool_reg_def)
  with registration_invariant [of "[WithVersion ''1'']" demo_regs "''demo''"] show ?thesis by auto
qed

text \<open>
  Matching a resource URI. A URI matches a template exactly when some non-empty,
  slash-free values in place of the placeholders build it; when the placeholder names are
  distinct, substituting the matched values in the template gives the URI back, so two URIs
  with the same values are the same URI.
\<close>

theorem template_match_correct:
  "(tmpl_match (fst (compileURITemplate tmpl)) (snd (compileURITemplate tmpl)) uri \<noteq> None
      \<longleftrightarrow> (\<exists>ms. rfits (fst (compileURITemplate tmpl)) ms \<and> rbuild (fst (compileURITemplate tmpl)) ms = uri))
   \<and> (distinct (snd (compileURITemplate tmpl)) \<and>
      tmpl_match (fst (compileURITemplate tmpl)) (snd (compileURITemplate tmpl)) uri = Some vars \<longrightarrow>
        expandTemplate tmpl vars = uri
        \<and> (tmpl_match (fst (compileURITemplate tmpl)) (snd (compileURITemplate tmpl)) uri2 = Some vars \<longrightarrow> uri2 = uri))"
proof (intro conjI impI)
  show "tmpl_match (fst (compileURITemplate tmpl)) (snd (compileURITemplate tmpl)) uri \<noteq> None
      \<longleftrightarrow> (\<exists>ms. rfits (fst (compileURITemplate tmpl)) ms \<and> rbuild (fst (compileURITemplate tmpl)) ms = uri)"
    using rmatch_iff [of "fst (compileURITemplate tmpl)" uri]
    by (auto simp: tmpl_match_def split: option.splits)
qed (auto intro: resource_tmpl.expand_match resource_tmpl.match_inj)

theorem template_match_correct_witness:
  "expandTemplate (''users://'' @ CHR 0x7B # ''id}/profile'') [''id'' \<mapsto> ''42''] = ''users://42/profile''"
proof -
  let ?t = "''users://'' @ CHR 0x7B # ''id}/profile''"
  have c: "compileURITemplate ?t = ([RLit ''users://'', RCap NotSlash False, RLit ''/profile''], [''id''])"
    by code_simp
  have "rmatch [RLit ''users://'', RCap NotSlash False, RLit ''/profile''] ''users://42/profile'' = Some [''42'']"
    by code_simp
  then have "tmpl_match (fst (compileURITemplate ?t)) (snd (compileURITemplate ?t)) ''users://42/profile''
      = Some [''id'' \<mapsto> ''42'']" unfolding c by (simp add: tmpl_match_def)
  moreover have "distinct (snd (compileURITemplate ?t))" unfolding c by simp
  ultimately show ?thesis using template_match_correct [of ?t "''users://42/profile''" "[''id'' \<mapsto> ''42'']"] by blast
qed

end
