(* ===== verification/Dispatch.thy ===== *)
theory Dispatch
  imports Prelude GoStd Json Content Base64 Registry
begin

text \<open>
  JSON-RPC dispatch: \<open>src/jsonrpc.go\<close>, \<open>src/dispatch.go\<close> and the serving half of
  \<open>src/completion.go\<close>. A handler takes the server, its decoded parameters, the connection's
  subscriptions (\<open>None\<close> when the transport has no connection) and the state user handlers act
  on. Results are the JSON trees the code builds. \<open>DecodeMsg\<close> stands for the text of a
  decoding error; \<open>marshal\<close> is \<open>json.Marshal\<close> to text.
\<close>

section \<open>Messages\<close>

datatype rpc_msg = Msg string | DecodeMsg

record rpc_error =
  re_code :: int
  re_msg :: rpc_msg
  re_data :: "rpc_msg option"

definition ErrParse :: int where "ErrParse = - 32700"
definition ErrInvalidRequest :: int where "ErrInvalidRequest = - 32600"
definition ErrMethodNotFound :: int where "ErrMethodNotFound = - 32601"
definition ErrInvalidParams :: int where "ErrInvalidParams = - 32602"
definition ErrInternal :: int where "ErrInternal = - 32603"

lemmas err_defs = ErrParse_def ErrInvalidRequest_def ErrMethodNotFound_def ErrInvalidParams_def ErrInternal_def

record request =
  rq_id :: "gval option"
  rq_method :: string
  rq_params :: "gval option"

definition IsNotification :: "request \<Rightarrow> bool" where
  "IsNotification r \<longleftrightarrow> rq_id r = None"

record response =
  rs_id :: "gval option"
  rs_result :: "gval option"
  rs_error :: "rpc_error option"

definition newError :: "int \<Rightarrow> rpc_msg \<Rightarrow> rpc_error" where
  "newError c m = \<lparr>re_code = c, re_msg = m, re_data = None\<rparr>"

definition resultResponse :: "gval option \<Rightarrow> gval option \<Rightarrow> response" where
  "resultResponse i r = \<lparr>rs_id = i, rs_result = r, rs_error = None\<rparr>"

definition errorResponse :: "gval option \<Rightarrow> rpc_error \<Rightarrow> response" where
  "errorResponse i e = \<lparr>rs_id = i, rs_result = None, rs_error = Some e\<rparr>"

type_synonym conn = "string set option"

text \<open>What a handler returns: an error, or a result that may be nil.\<close>

type_synonym reply = "rpc_error + gval option"

definition invalid_params :: reply where
  "invalid_params = Inl (newError ErrInvalidParams DecodeMsg)"

definition ok :: "(string \<times> gval) list \<Rightarrow> reply" where
  "ok m = Inr (Some (GMap m))"

section \<open>Initialize and listings\<close>

definition step_protocol :: "string \<Rightarrow> gval \<Rightarrow> string \<Rightarrow> string option" where
  "step_protocol k v p = (if equal_fold k ''protocolVersion'' then put_str v p else Some p)"

definition ProtocolVersion :: string where
  "ProtocolVersion = ''2024-11-05''"

text \<open>The three registries are non-empty exactly when their orders are.\<close>

definition handleInitialize :: "'w server \<Rightarrow> gval option \<Rightarrow> gval" where
  "handleInitialize s params =
     (let protocol = (case unmarshal step_protocol [] params of
                        Some p \<Rightarrow> if p \<noteq> [] then p else ProtocolVersion
                      | None \<Rightarrow> ProtocolVersion);
          listChanged = (''listChanged'', GBool True);
          capabilities = [(''logging'', GMap []), (''completions'', GMap [])]
            @ (if sv_toolOrder s \<noteq> [] then [(''tools'', GMap [listChanged])] else [])
            @ (if sv_resourceOrder s \<noteq> [] \<or> sv_templates s \<noteq> []
               then [(''resources'', GMap [listChanged, (''subscribe'', GBool True)])] else [])
            @ (if sv_promptOrder s \<noteq> [] then [(''prompts'', GMap [listChanged])] else [])
      in GMap ([(''protocolVersion'', GStr protocol), (''capabilities'', GMap capabilities),
                (''serverInfo'', GMap [(''name'', GStr (sv_name s)), (''version'', GStr (sv_version s))])]
               @ (if sv_instructions s \<noteq> [] then [(''instructions'', GStr (sv_instructions s))] else [])))"

definition tool_json :: "'w tool_entry \<Rightarrow> gval" where
  "tool_json t = GMap ([(''name'', GStr (te_name t)), (''description'', GStr (te_description t)),
      (''inputSchema'', GMap (te_inputSchema t))]
     @ (case te_outputSchema t of None \<Rightarrow> [] | Some o' \<Rightarrow> [(''outputSchema'', GMap o')]))"

definition handleToolsList :: "'w server \<Rightarrow> gval" where
  "handleToolsList s =
     GMap [(''tools'', GList (map (\<lambda>nm. tool_json (the (sv_tools s nm))) (sv_toolOrder s)))]"

definition resource_json :: "'w resource_entry \<Rightarrow> gval" where
  "resource_json r = GMap [(''uri'', GStr (r_uri r)), (''name'', GStr (r_name r)),
     (''description'', GStr (r_description r)), (''mimeType'', GStr (r_mimeType r))]"

definition handleResourcesList :: "'w server \<Rightarrow> gval" where
  "handleResourcesList s =
     GMap [(''resources'', GList (map (\<lambda>uri. resource_json (the (sv_resources s uri))) (sv_resourceOrder s)))]"

definition template_json :: "'w template_entry \<Rightarrow> gval" where
  "template_json t = GMap [(''uriTemplate'', GStr (t_template t)), (''name'', GStr (t_name t)),
     (''description'', GStr (t_description t)), (''mimeType'', GStr (t_mimeType t))]"

definition handleResourceTemplatesList :: "'w server \<Rightarrow> gval" where
  "handleResourceTemplatesList s =
     GMap [(''resourceTemplates'', GList (map template_json (sv_templates s)))]"

definition argument_json :: "prompt_argument \<Rightarrow> gval" where
  "argument_json a = GMap ([(''name'', GStr (pa_name a))] @ opt_str ''description'' (pa_description a)
     @ (if pa_required a then [(''required'', GBool True)] else []))"

definition prompt_json :: "'w prompt_entry \<Rightarrow> gval" where
  "prompt_json p = GMap [(''name'', GStr (p_name p)), (''description'', GStr (p_description p)),
     (''arguments'', GList (map argument_json (p_arguments p)))]"

definition handlePromptsList :: "'w server \<Rightarrow> gval" where
  "handlePromptsList s =
     GMap [(''prompts'', GList (map (\<lambda>nm. prompt_json (the (sv_prompts s nm))) (sv_promptOrder s)))]"

section \<open>Calling tools\<close>

record call_params =
  cp_name :: string
  cp_arguments :: "gval option"

definition step_call :: "string \<Rightarrow> gval \<Rightarrow> call_params \<Rightarrow> call_params option" where
  "step_call k v p =
     (if equal_fold k ''name'' then map_option (\<lambda>s. p\<lparr>cp_name := s\<rparr>) (put_str v (cp_name p))
      else if equal_fold k ''arguments'' then Some (p\<lparr>cp_arguments := Some v\<rparr>)
      else Some p)"

fun tv_json :: "tool_value \<Rightarrow> gval" where
  "tv_json (TVAny v) = v"
| "tv_json (TVContent c) = content_json c"
| "tv_json (TVContents cs) = GList (map content_json cs)"

definition contents_json :: "content list \<Rightarrow> gval" where
  "contents_json cs = GList (map content_json cs)"

definition tool_result :: "(gval \<Rightarrow> string + string) \<Rightarrow> bool \<Rightarrow> tool_value \<times> string option \<Rightarrow> gval" where
  "tool_result marshal structured re =
     (case re of
        (_, Some e) \<Rightarrow> GMap [(''content'', contents_json [NewTextContent e]), (''isError'', GBool True)]
      | (r, None) \<Rightarrow> GMap ([(''content'', contents_json (toContent marshal r))]
          @ (if structured \<and> r \<noteq> TVAny GNil then [(''structuredContent'', tv_json r)] else [])))"

definition handleToolsCall ::
  "(gval \<Rightarrow> string + string) \<Rightarrow> 'w server \<Rightarrow> gval option \<Rightarrow> 'w \<Rightarrow> reply \<times> 'w" where
  "handleToolsCall marshal s params w =
     (case unmarshal step_call \<lparr>cp_name = [], cp_arguments = None\<rparr> params of
        None \<Rightarrow> (invalid_params, w)
      | Some p \<Rightarrow>
          (case sv_tools s (cp_name p) of
             None \<Rightarrow> (Inl (newError ErrInvalidParams (Msg (''unknown tool: '' @ cp_name p))), w)
           | Some tool \<Rightarrow>
               (case te_call tool (cp_arguments p) w of
                  (re, w') \<Rightarrow> (Inr (Some (tool_result marshal (te_structured tool) re)), w'))))"

section \<open>Reading resources\<close>

definition step_uri :: "string \<Rightarrow> gval \<Rightarrow> string \<Rightarrow> string option" where
  "step_uri k v p = (if equal_fold k ''uri'' then put_str v p else Some p)"

definition resourceTextContents :: "string \<Rightarrow> string \<Rightarrow> string \<Rightarrow> reply" where
  "resourceTextContents uri mime t =
     ok [(''contents'', GList [GMap [(''uri'', GStr uri), (''mimeType'', GStr mime), (''text'', GStr t)]])]"

definition resourceBlobContents :: "string \<Rightarrow> string \<Rightarrow> string \<Rightarrow> reply" where
  "resourceBlobContents uri mime b =
     ok [(''contents'', GList [GMap [(''uri'', GStr uri), (''mimeType'', GStr mime),
                                     (''blob'', GStr (std_encode b))]])]"

definition read_outcome :: "(string \<Rightarrow> reply) \<Rightarrow> (string + string) \<times> 'w \<Rightarrow> reply \<times> 'w" where
  "read_outcome wrap r =
     (case r of (Inl e, w) \<Rightarrow> (Inl (newError ErrInternal (Msg e)), w) | (Inr t, w) \<Rightarrow> (wrap t, w))"

fun read_templates :: "'w template_entry list \<Rightarrow> string \<Rightarrow> 'w \<Rightarrow> reply \<times> 'w" where
  "read_templates [] uri w = (Inl (newError ErrInvalidParams (Msg (''unknown resource: '' @ uri))), w)"
| "read_templates (t # ts) uri w =
     (case tmpl_match (t_re t) (t_params t) uri of
        None \<Rightarrow> read_templates ts uri w
      | Some vars \<Rightarrow>
          (case t_handler t of
             BlobTmpl h \<Rightarrow> read_outcome (resourceBlobContents uri (t_mimeType t)) (h vars w)
           | TextTmpl h \<Rightarrow> read_outcome (resourceTextContents uri (t_mimeType t)) (h vars w)))"

definition read_uri :: "'w server \<Rightarrow> string \<Rightarrow> 'w \<Rightarrow> reply \<times> 'w" where
  "read_uri s uri w =
     (case sv_resources s uri of
        Some r \<Rightarrow>
          (case r_handler r of
             BlobHandler h \<Rightarrow> read_outcome (resourceBlobContents uri (r_mimeType r)) (h w)
           | TextHandler h \<Rightarrow> read_outcome (resourceTextContents uri (r_mimeType r)) (h w))
      | None \<Rightarrow> read_templates (sv_templates s) uri w)"

definition handleResourcesRead :: "'w server \<Rightarrow> gval option \<Rightarrow> 'w \<Rightarrow> reply \<times> 'w" where
  "handleResourcesRead s params w =
     (case unmarshal step_uri [] params of None \<Rightarrow> (invalid_params, w) | Some uri \<Rightarrow> read_uri s uri w)"

section \<open>Subscriptions\<close>

definition handleSubscribe :: "gval option \<Rightarrow> conn \<Rightarrow> reply \<times> conn" where
  "handleSubscribe params c =
     (case unmarshal step_uri [] params of
        None \<Rightarrow> (invalid_params, c)
      | Some uri \<Rightarrow> (ok [], map_option (insert uri) c))"

definition handleUnsubscribe :: "gval option \<Rightarrow> conn \<Rightarrow> reply \<times> conn" where
  "handleUnsubscribe params c =
     (case unmarshal step_uri [] params of
        None \<Rightarrow> (invalid_params, c)
      | Some uri \<Rightarrow> (ok [], map_option (\<lambda>subs. subs - {uri}) c))"

section \<open>Prompts\<close>

record prompt_params =
  pp_name :: string
  pp_arguments :: "string \<rightharpoonup> string"

definition step_prompt :: "string \<Rightarrow> gval \<Rightarrow> prompt_params \<Rightarrow> prompt_params option" where
  "step_prompt k v p =
     (if equal_fold k ''name'' then map_option (\<lambda>s. p\<lparr>pp_name := s\<rparr>) (put_str v (pp_name p))
      else if equal_fold k ''arguments''
      then map_option (\<lambda>m. p\<lparr>pp_arguments := m\<rparr>) (put_str_map v (pp_arguments p))
      else Some p)"

definition message_json :: "prompt_message \<Rightarrow> gval" where
  "message_json m = GMap [(''role'', GStr (pm_role m)), (''content'', content_json (pm_content m))]"

definition handlePromptsGet :: "'w server \<Rightarrow> gval option \<Rightarrow> 'w \<Rightarrow> reply \<times> 'w" where
  "handlePromptsGet s params w =
     (case unmarshal step_prompt \<lparr>pp_name = [], pp_arguments = Map.empty\<rparr> params of
        None \<Rightarrow> (invalid_params, w)
      | Some p \<Rightarrow>
          (case sv_prompts s (pp_name p) of
             None \<Rightarrow> (Inl (newError ErrInvalidParams (Msg (''unknown prompt: '' @ pp_name p))), w)
           | Some prompt \<Rightarrow>
               (case p_handler prompt (pp_arguments p) w of
                  (Inl e, w') \<Rightarrow> (Inl (newError ErrInternal (Msg e)), w')
                | (Inr msgs, w') \<Rightarrow>
                    (ok [(''description'', GStr (p_description prompt)),
                         (''messages'', GList (map message_json msgs))], w'))))"

section \<open>Completion\<close>

record complete_params =
  rf_type :: string
  rf_name :: string
  rf_uri :: string
  ag_name :: string
  ag_value :: string

definition step_ref :: "string \<Rightarrow> gval \<Rightarrow> complete_params \<Rightarrow> complete_params option" where
  "step_ref k v p =
     (if equal_fold k ''type'' then map_option (\<lambda>s. p\<lparr>rf_type := s\<rparr>) (put_str v (rf_type p))
      else if equal_fold k ''name'' then map_option (\<lambda>s. p\<lparr>rf_name := s\<rparr>) (put_str v (rf_name p))
      else if equal_fold k ''uri'' then map_option (\<lambda>s. p\<lparr>rf_uri := s\<rparr>) (put_str v (rf_uri p))
      else Some p)"

definition step_argument :: "string \<Rightarrow> gval \<Rightarrow> complete_params \<Rightarrow> complete_params option" where
  "step_argument k v p =
     (if equal_fold k ''name'' then map_option (\<lambda>s. p\<lparr>ag_name := s\<rparr>) (put_str v (ag_name p))
      else if equal_fold k ''value'' then map_option (\<lambda>s. p\<lparr>ag_value := s\<rparr>) (put_str v (ag_value p))
      else Some p)"

definition step_complete :: "string \<Rightarrow> gval \<Rightarrow> complete_params \<Rightarrow> complete_params option" where
  "step_complete k v p =
     (if equal_fold k ''ref'' then decode_value step_ref v p
      else if equal_fold k ''argument'' then decode_value step_argument v p
      else Some p)"

definition empty_complete :: complete_params where
  "empty_complete = \<lparr>rf_type = [], rf_name = [], rf_uri = [], ag_name = [], ag_value = []\<rparr>"

fun template_completer :: "string \<Rightarrow> 'w template_entry list \<Rightarrow> 'w completer option" where
  "template_completer uri [] = None"
| "template_completer uri (t # ts) = (if t_template t = uri then t_completer t else template_completer uri ts)"

definition find_completer :: "'w server \<Rightarrow> complete_params \<Rightarrow> 'w completer option" where
  "find_completer s p =
     (if rf_type p = ''ref/prompt'' then
        (case sv_prompts s (rf_name p) of Some pr \<Rightarrow> p_completer pr | None \<Rightarrow> None)
      else if rf_type p = ''ref/resource'' then template_completer (rf_uri p) (sv_templates s)
      else None)"

definition completionLimit :: nat where
  "completionLimit = 100"

definition completion_json :: "string list \<Rightarrow> (string \<times> gval) list" where
  "completion_json values =
     [(''completion'', GMap
        [(''values'', GStrs (if length values > completionLimit then take completionLimit values else values)),
         (''total'', GInt (int (length values))),
         (''hasMore'', GBool (length values > completionLimit))])]"

definition handleComplete :: "'w server \<Rightarrow> gval option \<Rightarrow> 'w \<Rightarrow> reply \<times> 'w" where
  "handleComplete s params w =
     (case unmarshal step_complete empty_complete params of
        None \<Rightarrow> (invalid_params, w)
      | Some p \<Rightarrow>
          (case (case find_completer s p of
                   Some f \<Rightarrow> f (ag_name p) (ag_value p) w
                 | None \<Rightarrow> ([], w)) of
             (values, w') \<Rightarrow> (ok (completion_json values), w')))"

section \<open>Routing\<close>

definition route ::
  "(gval \<Rightarrow> string + string) \<Rightarrow> 'w server \<Rightarrow> string \<Rightarrow> gval option \<Rightarrow> conn \<Rightarrow> 'w \<Rightarrow> reply \<times> conn \<times> 'w" where
  "route marshal s meth params c w =
     (let still = (\<lambda>r. (r, c, w)); user = (\<lambda>(r, w'). (r, c, w')); subs = (\<lambda>(r, c'). (r, c', w))
      in if meth = ''initialize'' then still (Inr (Some (handleInitialize s params)))
         else if meth = ''notifications/initialized'' \<or> meth = ''notifications/cancelled''
              \<or> meth = ''notifications/progress'' then still (Inr None)
         else if meth = ''ping'' then still (ok [])
         else if meth = ''tools/list'' then still (Inr (Some (handleToolsList s)))
         else if meth = ''tools/call'' then user (handleToolsCall marshal s params w)
         else if meth = ''resources/list'' then still (Inr (Some (handleResourcesList s)))
         else if meth = ''resources/templates/list'' then still (Inr (Some (handleResourceTemplatesList s)))
         else if meth = ''resources/read'' then user (handleResourcesRead s params w)
         else if meth = ''resources/subscribe'' then subs (handleSubscribe params c)
         else if meth = ''resources/unsubscribe'' then subs (handleUnsubscribe params c)
         else if meth = ''prompts/list'' then still (Inr (Some (handlePromptsList s)))
         else if meth = ''prompts/get'' then user (handlePromptsGet s params w)
         else if meth = ''completion/complete'' then user (handleComplete s params w)
         else still (Inl (newError ErrMethodNotFound (Msg (''method not found: '' @ meth)))))"

definition Dispatch ::
  "(gval \<Rightarrow> string + string) \<Rightarrow> 'w server \<Rightarrow> request \<Rightarrow> conn \<Rightarrow> 'w \<Rightarrow> response option \<times> conn \<times> 'w" where
  "Dispatch marshal s req c w =
     (case route marshal s (rq_method req) (rq_params req) c w of
        (r, c', w') \<Rightarrow>
          (if IsNotification req then None
           else (case r of
                   Inl e \<Rightarrow> Some (errorResponse (rq_id req) e)
                 | Inr res \<Rightarrow> Some (resultResponse (rq_id req) res)), c', w'))"

section \<open>Facts\<close>

definition notification_methods :: "string set" where
  "notification_methods = {''notifications/initialized'', ''notifications/cancelled'', ''notifications/progress''}"

lemma read_outcome_some: "(\<And>t. wrap t \<noteq> Inr None) \<Longrightarrow> fst (read_outcome wrap r) \<noteq> Inr None"
  by (auto simp: read_outcome_def split: prod.splits sum.splits)

lemma read_templates_some: "fst (read_templates ts uri w) \<noteq> Inr None"
  by (induction ts uri w rule: read_templates.induct)
    (auto split: option.splits tmpl_handler.splits
      simp: read_outcome_some resourceBlobContents_def resourceTextContents_def ok_def)

lemma handlers_some [simp]:
  "fst (handleToolsCall m s p w) \<noteq> Inr None"
  "fst (handleResourcesRead s p w) \<noteq> Inr None"
  "fst (handleSubscribe p c) \<noteq> Inr None"
  "fst (handleUnsubscribe p c) \<noteq> Inr None"
  "fst (handlePromptsGet s p w) \<noteq> Inr None"
  "fst (handleComplete s p w) \<noteq> Inr None"
  by (auto simp: handleToolsCall_def handleResourcesRead_def read_uri_def handleSubscribe_def
      handleUnsubscribe_def handlePromptsGet_def handleComplete_def invalid_params_def ok_def
      read_templates_some read_outcome_some resourceBlobContents_def resourceTextContents_def
      split: option.splits prod.splits sum.splits res_handler.splits)

lemma case_prod_fst: "fst (case x of (r, w') \<Rightarrow> (r, c, w')) = fst x" "fst (case x of (r, c') \<Rightarrow> (r, c', w)) = fst x"
  by (cases x; simp)+

lemma route_nil: "fst (route m s meth p c w) = Inr None \<longleftrightarrow> meth \<in> notification_methods"
  unfolding route_def Let_def notification_methods_def
  by (simp add: case_prod_fst ok_def)

lemma route_conn:
  "fst (snd (route m s meth p c w)) =
     (if meth = ''resources/subscribe'' then snd (handleSubscribe p c)
      else if meth = ''resources/unsubscribe'' then snd (handleUnsubscribe p c) else c)"
  unfolding route_def Let_def by (simp split: prod.split)

fun dispatch_all ::
  "(gval \<Rightarrow> string + string) \<Rightarrow> 'w server \<Rightarrow> request list \<Rightarrow> conn \<Rightarrow> 'w \<Rightarrow> response list \<times> conn \<times> 'w" where
  "dispatch_all m s [] c w = ([], c, w)"
| "dispatch_all m s (r # rs) c w =
     (case Dispatch m s r c w of (resp, c1, w1) \<Rightarrow>
        (case dispatch_all m s rs c1 w1 of (resps, c2, w2) \<Rightarrow>
           ((case resp of None \<Rightarrow> resps | Some x \<Rightarrow> x # resps), c2, w2)))"

text \<open>What a request does to the subscriptions: the URI it names and whether it subscribes.\<close>

definition sub_change :: "request \<Rightarrow> (string \<times> bool) option" where
  "sub_change r =
     (if rq_method r = ''resources/subscribe'' then map_option (\<lambda>u. (u, True)) (unmarshal step_uri [] (rq_params r))
      else if rq_method r = ''resources/unsubscribe''
      then map_option (\<lambda>u. (u, False)) (unmarshal step_uri [] (rq_params r))
      else None)"

definition apply_change :: "(string \<times> bool) option \<Rightarrow> conn \<Rightarrow> conn" where
  "apply_change ch c =
     (case ch of None \<Rightarrow> c
      | Some (u, True) \<Rightarrow> map_option (insert u) c
      | Some (u, False) \<Rightarrow> map_option (\<lambda>subs. subs - {u}) c)"

lemma Dispatch_conn: "fst (snd (Dispatch m s r c w)) = apply_change (sub_change r) c"
proof -
  have "fst (snd (Dispatch m s r c w)) = fst (snd (route m s (rq_method r) (rq_params r) c w))"
    by (simp add: Dispatch_def split: prod.split)
  then show ?thesis
    by (simp add: route_conn sub_change_def handleSubscribe_def handleUnsubscribe_def apply_change_def
        split: option.split)
qed

lemma dispatch_all_conn:
  "fst (snd (dispatch_all m s rs c w)) = foldl (\<lambda>c ch. apply_change ch c) c (map sub_change rs)"
proof (induction rs arbitrary: c w)
  case Nil
  then show ?case by simp
next
  case (Cons r rs)
  obtain resp c1 w1 where d: "Dispatch m s r c w = (resp, c1, w1)" by (metis prod_cases3)
  obtain resps c2 w2 where e: "dispatch_all m s rs c1 w1 = (resps, c2, w2)" by (metis prod_cases3)
  from Dispatch_conn [of m s r c w] d have "c1 = apply_change (sub_change r) c" by simp
  with Cons.IH [of c1 w1] d e show ?case by simp
qed

text \<open>The last change made to one URI.\<close>

fun last_change :: "string \<Rightarrow> bool \<Rightarrow> request list \<Rightarrow> bool" where
  "last_change u b [] = b"
| "last_change u b (r # rs) =
     last_change u (case sub_change r of Some (v, x) \<Rightarrow> if v = u then x else b | None \<Rightarrow> b) rs"

lemma fold_changes:
  "foldl (\<lambda>c ch. apply_change ch c) (Some S) (map sub_change rs) = Some {u. last_change u (u \<in> S) rs}"
proof (induction rs arbitrary: S)
  case Nil
  then show ?case by simp
next
  case (Cons r rs)
  have "\<exists>T. apply_change (sub_change r) (Some S) = Some T
      \<and> (\<forall>u. u \<in> T \<longleftrightarrow> (case sub_change r of Some (v, x) \<Rightarrow> if v = u then x else u \<in> S | None \<Rightarrow> u \<in> S))"
    by (auto simp: apply_change_def split: option.splits bool.splits)
  then obtain T where T: "apply_change (sub_change r) (Some S) = Some T"
    "\<And>u. u \<in> T \<longleftrightarrow> (case sub_change r of Some (v, x) \<Rightarrow> if v = u then x else u \<in> S | None \<Rightarrow> u \<in> S)"
    by blast
  show ?case using Cons.IH [of T] by (simp add: T)
qed

lemma fold_changes_None: "foldl (\<lambda>c ch. apply_change ch c) None chs = None"
  by (induction chs) (auto simp: apply_change_def split: option.split bool.split)

lemma dispatch_all_responses:
  "\<exists>outs. length outs = length rs \<and> fst (dispatch_all m s rs c w) = concat outs
     \<and> (\<forall>i<length rs. if IsNotification (rs ! i) then outs ! i = []
                       else \<exists>r. outs ! i = [r] \<and> rs_id r = rq_id (rs ! i))"
proof (induction rs arbitrary: c w)
  case Nil
  then show ?case by simp
next
  case (Cons q rs)
  obtain resp c1 w1 where d: "Dispatch m s q c w = (resp, c1, w1)" by (metis prod_cases3)
  obtain resps c2 w2 where e: "dispatch_all m s rs c1 w1 = (resps, c2, w2)" by (metis prod_cases3)
  from Cons.IH [of c1 w1] e obtain outs where o: "length outs = length rs" "resps = concat outs"
    "\<forall>i<length rs. if IsNotification (rs ! i) then outs ! i = [] else \<exists>r. outs ! i = [r] \<and> rs_id r = rq_id (rs ! i)"
    by auto
  let ?o = "case resp of None \<Rightarrow> [] | Some x \<Rightarrow> [x]"
  have h: "if IsNotification q then ?o = [] else \<exists>r. ?o = [r] \<and> rs_id r = rq_id q"
    using d by (auto simp: Dispatch_def errorResponse_def resultResponse_def split: prod.splits sum.splits if_splits)
  have "fst (dispatch_all m s (q # rs) c w) = concat (?o # outs)"
    using d e o(2) by (simp split: option.split)
  moreover have "\<forall>i<length (q # rs). if IsNotification ((q # rs) ! i) then (?o # outs) ! i = []
      else \<exists>r. (?o # outs) ! i = [r] \<and> rs_id r = rq_id ((q # rs) ! i)"
    using h o(3) by (auto simp: nth_Cons split: nat.split)
  ultimately show ?case using o(1) by (intro exI [of _ "?o # outs"]) simp
qed

section \<open>Properties\<close>

text \<open>
  C1: replies. A request without an id gets none, and any other gets exactly one, with
  its own id; the reply never holds a result and an error together, and holds neither exactly
  for the three client notifications sent with an id. The handler runs, with the same effect
  on the connection and on the state, whether or not an id was given.
\<close>

theorem dispatch_replies:
  "(fst (Dispatch m s req c w) = None \<longleftrightarrow> rq_id req = None)
   \<and> (fst (Dispatch m s req c w) = Some r \<longrightarrow>
        rs_id r = rq_id req \<and> \<not> (rs_result r \<noteq> None \<and> rs_error r \<noteq> None)
        \<and> (rs_result r = None \<and> rs_error r = None \<longleftrightarrow> rq_method req \<in> notification_methods))
   \<and> snd (Dispatch m s (req\<lparr>rq_id := i\<rparr>) c w) = snd (Dispatch m s req c w)"
proof (intro conjI impI)
  obtain x c' w' where rt: "route m s (rq_method req) (rq_params req) c w = (x, c', w')" by (metis prod_cases3)
  then have nil: "x = Inr None \<longleftrightarrow> rq_method req \<in> notification_methods"
    using route_nil [of m s "rq_method req" "rq_params req" c w] by simp
  show "fst (Dispatch m s req c w) = None \<longleftrightarrow> rq_id req = None"
    by (simp add: Dispatch_def rt IsNotification_def split: sum.split)
  show "snd (Dispatch m s (req\<lparr>rq_id := i\<rparr>) c w) = snd (Dispatch m s req c w)"
    by (simp add: Dispatch_def rt)
  assume r: "fst (Dispatch m s req c w) = Some r"
  then show "rs_id r = rq_id req" "\<not> (rs_result r \<noteq> None \<and> rs_error r \<noteq> None)"
    "rs_result r = None \<and> rs_error r = None \<longleftrightarrow> rq_method req \<in> notification_methods"
    using nil by (auto simp: Dispatch_def rt errorResponse_def resultResponse_def split: sum.splits if_splits)
qed

definition demo_marshal :: "gval \<Rightarrow> string + string" where
  "demo_marshal v = Inr ''null''"

definition demo_ping :: request where
  "demo_ping = \<lparr>rq_id = Some (GInt 7), rq_method = ''ping'', rq_params = None\<rparr>"

theorem dispatch_replies_witness:
  "\<exists>r. fst (Dispatch demo_marshal (New ''s'' []) demo_ping None ()) = Some r \<and> rs_id r = Some (GInt 7)"
proof -
  have "fst (Dispatch demo_marshal (New ''s'' []) demo_ping None ()) \<noteq> None"
    using dispatch_replies [of demo_marshal "New ''s'' []" demo_ping None "()"] by (simp add: demo_ping_def)
  then obtain r where "fst (Dispatch demo_marshal (New ''s'' []) demo_ping None ()) = Some r" by blast
  with dispatch_replies [of demo_marshal "New ''s'' []" demo_ping None "()" r] show ?thesis
    by (simp add: demo_ping_def)
qed

text \<open>
  Subscriptions. After any sequence of requests on a connection, it is subscribed to
  exactly the URIs whose last well-formed subscribe or unsubscribe request was a subscribe
  (or that were subscribed before and not named since); no other request changes the
  subscriptions, and without a connection nothing is kept.
\<close>

theorem subscriptions_exact:
  "fst (snd (dispatch_all m s rs (Some S) w)) = Some {u. last_change u (u \<in> S) rs}
   \<and> fst (snd (dispatch_all m s rs None w)) = None"
  by (simp add: dispatch_all_conn fold_changes fold_changes_None)

text \<open>
  C2: calling a tool. A call of the tool just registered under a name runs its handler
  once, with the arguments as sent, and the reply is never a JSON-RPC error: a handler error
  becomes the text of a result marked \<open>isError\<close>, and otherwise the content is the converted
  value, with the raw value as \<open>structuredContent\<close> exactly for a structured tool that did not
  return nil. Registering a tool leaves calls of every other tool as they were, and a name
  never registered is an invalid-params error that runs nothing.
\<close>

definition call_request :: "gval option \<Rightarrow> string \<Rightarrow> gval \<Rightarrow> request" where
  "call_request i nm a = \<lparr>rq_id = i, rq_method = ''tools/call'',
     rq_params = Some (GMap [(''name'', GStr nm), (''arguments'', a)])\<rparr>"

lemma decode_call:
  "unmarshal step_call \<lparr>cp_name = [], cp_arguments = None\<rparr>
     (Some (GMap [(''name'', GStr nm), (''arguments'', a)])) = Some \<lparr>cp_name = nm, cp_arguments = Some a\<rparr>"
proof -
  have "equal_fold ''name'' ''name''" "\<not> equal_fold ''arguments'' ''name''" "equal_fold ''arguments'' ''arguments''"
    by code_simp+
  then show ?thesis by (simp add: unmarshal_def decode_value_def step_call_def put_str_def)
qed

lemma route_call: "route m s ''tools/call'' p c w = (case handleToolsCall m s p w of (r, w') \<Rightarrow> (r, c, w'))"
  by (simp add: route_def Let_def)

theorem tools_call_correct:
  assumes "te_call e (Some a) w = ((v, err), w')"
  shows "\<exists>body. Dispatch m (registerTool nm e s) (call_request (Some i) nm a) c w
       = (Some (resultResponse (Some i) (Some (GMap body))), c, w')
     \<and> map_of body ''content'' = Some (contents_json (case err of Some x \<Rightarrow> [NewTextContent x] | None \<Rightarrow> toContent m v))
     \<and> map_of body ''isError'' = (if err = None then None else Some (GBool True))
     \<and> map_of body ''structuredContent'' =
         (if err = None \<and> te_structured e \<and> v \<noteq> TVAny GNil then Some (tv_json v) else None)
     \<and> (other \<noteq> nm \<longrightarrow> Dispatch m (registerTool nm e s) (call_request j other b) c w
                       = Dispatch m s (call_request j other b) c w)
     \<and> (sv_tools s other = None \<longrightarrow>
          Dispatch m s (call_request (Some i) other b) c w
            = (Some (errorResponse (Some i) (newError ErrInvalidParams (Msg (''unknown tool: '' @ other)))), c, w))"
proof -
  let ?res = "tool_result m (te_structured e) (v, err)"
  obtain body where body: "?res = GMap body"
    by (cases err) (auto simp: tool_result_def)
  have look: "sv_tools (registerTool nm e s) k = (if k = nm then Some e else sv_tools s k)" for k
    by (rule tools.look_reg)
  have 1: "Dispatch m (registerTool nm e s) (call_request (Some i) nm a) c w
       = (Some (resultResponse (Some i) (Some (GMap body))), c, w')"
    using assms by (simp add: Dispatch_def call_request_def route_call handleToolsCall_def decode_call
        look IsNotification_def body)
  have 2: "map_of body ''content'' = Some (contents_json (case err of Some x \<Rightarrow> [NewTextContent x] | None \<Rightarrow> toContent m v))"
    "map_of body ''isError'' = (if err = None then None else Some (GBool True))"
    "map_of body ''structuredContent'' =
         (if err = None \<and> te_structured e \<and> v \<noteq> TVAny GNil then Some (tv_json v) else None)"
    using body by (auto simp: tool_result_def split: option.splits if_splits)
  have 3: "Dispatch m (registerTool nm e s) (call_request j other b) c w
      = Dispatch m s (call_request j other b) c w" if "other \<noteq> nm"
    using that by (simp add: Dispatch_def call_request_def route_call handleToolsCall_def decode_call look)
  have 4: "Dispatch m s (call_request (Some i) other b) c w
      = (Some (errorResponse (Some i) (newError ErrInvalidParams (Msg (''unknown tool: '' @ other)))), c, w)"
    if "sv_tools s other = None"
    using that by (simp add: Dispatch_def call_request_def route_call handleToolsCall_def decode_call IsNotification_def)
  from 1 2 3 4 show ?thesis by (intro exI [of _ body]) simp
qed

definition demo_entry :: "nat tool_entry" where
  "demo_entry = \<lparr>te_name = ''fail'', te_description = [], te_inputSchema = [], te_outputSchema = None,
     te_structured = False, te_call = (\<lambda>a w. ((TVAny GNil, Some ''boom''), Suc w))\<rparr>"

theorem tools_call_correct_witness:
  "\<exists>r. Dispatch demo_marshal (registerTool ''fail'' demo_entry (New ''s'' [])) (call_request (Some (GInt 1)) ''fail'' GNil) None 0
     = (Some r, None, 1) \<and> rs_error r = None"
proof -
  have "te_call demo_entry (Some GNil) 0 = ((TVAny GNil, Some ''boom''), 1)" by (simp add: demo_entry_def)
  from tools_call_correct [OF this, where m = demo_marshal and nm = "''fail''" and s = "New ''s'' []"
      and i = "GInt 1" and c = None and other = "''x''" and j = None and b = GNil]
  obtain body where "Dispatch demo_marshal (registerTool ''fail'' demo_entry (New ''s'' []))
      (call_request (Some (GInt 1)) ''fail'' GNil) None 0
      = (Some (resultResponse (Some (GInt 1)) (Some (GMap body))), None, 1)" by blast
  then show ?thesis by (simp add: resultResponse_def)
qed

text \<open>
  C22: reading a resource. A URI registered statically is read by that entry whatever the
  templates say; otherwise the first template in registration order that matches reads it,
  with the values matched, and when none does the reply is an invalid-params error and no
  handler runs. A handler's error is an internal error with its text; a text comes back as
  given and a blob in an encoding that decodes to it, under the requested URI.
\<close>

definition read_request :: "gval option \<Rightarrow> string \<Rightarrow> request" where
  "read_request i uri = \<lparr>rq_id = i, rq_method = ''resources/read'', rq_params = Some (GMap [(''uri'', GStr uri)])\<rparr>"

definition t_matches :: "'w template_entry \<Rightarrow> string \<Rightarrow> (string \<rightharpoonup> string) option" where
  "t_matches t uri = tmpl_match (t_re t) (t_params t) uri"

text \<open>Who reads a URI: the handler's outcome, its MIME type, and whether it is a blob.\<close>

definition reader :: "'w server \<Rightarrow> string \<Rightarrow> ('w \<Rightarrow> (string + string) \<times> 'w) option \<times> string \<times> bool" where
  "reader s uri =
     (case sv_resources s uri of
        Some r \<Rightarrow> (case r_handler r of TextHandler h \<Rightarrow> (Some h, r_mimeType r, False)
                                      | BlobHandler h \<Rightarrow> (Some h, r_mimeType r, True))
      | None \<Rightarrow>
          (case filter (\<lambda>t. t_matches t uri \<noteq> None) (sv_templates s) of
             [] \<Rightarrow> (None, [], False)
           | t # _ \<Rightarrow> (case t_handler t of
                TextTmpl h \<Rightarrow> (Some (h (the (t_matches t uri))), t_mimeType t, False)
              | BlobTmpl h \<Rightarrow> (Some (h (the (t_matches t uri))), t_mimeType t, True))))"

definition outcome_reply :: "string \<Rightarrow> string \<Rightarrow> bool \<Rightarrow> string + string \<Rightarrow> reply" where
  "outcome_reply uri mime blob r =
     (case r of
        Inl e \<Rightarrow> Inl (newError ErrInternal (Msg e))
      | Inr t \<Rightarrow> if blob then resourceBlobContents uri mime t else resourceTextContents uri mime t)"

lemma read_templates_first:
  "read_templates ts uri w =
     (case filter (\<lambda>t. t_matches t uri \<noteq> None) ts of
        [] \<Rightarrow> (Inl (newError ErrInvalidParams (Msg (''unknown resource: '' @ uri))), w)
      | t # _ \<Rightarrow> (case t_handler t of
           BlobTmpl h \<Rightarrow> read_outcome (resourceBlobContents uri (t_mimeType t)) (h (the (t_matches t uri)) w)
         | TextTmpl h \<Rightarrow> read_outcome (resourceTextContents uri (t_mimeType t)) (h (the (t_matches t uri)) w)))"
proof (induction ts)
  case Nil
  then show ?case by simp
next
  case (Cons t ts)
  then show ?case
    by (cases "tmpl_match (t_re t) (t_params t) uri"; cases "t_handler t") (simp_all add: t_matches_def)
qed

lemma read_uri_reader:
  "read_uri s uri w =
     (case reader s uri of
        (None, _, _) \<Rightarrow> (Inl (newError ErrInvalidParams (Msg (''unknown resource: '' @ uri))), w)
      | (Some h, mime, blob) \<Rightarrow> (outcome_reply uri mime blob (fst (h w)), snd (h w)))"
  by (auto simp: read_uri_def reader_def read_templates_first read_outcome_def outcome_reply_def
      split: option.splits list.splits res_handler.splits tmpl_handler.splits prod.splits sum.splits)

lemma decode_read: "unmarshal step_uri [] (Some (GMap [(''uri'', GStr uri)])) = Some uri"
proof -
  have "equal_fold ''uri'' ''uri''" by code_simp
  then show ?thesis by (simp add: unmarshal_def decode_value_def step_uri_def put_str_def)
qed

theorem resources_read_correct:
  "Dispatch m s (read_request (Some i) uri) c w =
     (case reader s uri of
        (None, _, _) \<Rightarrow> (Some (errorResponse (Some i) (newError ErrInvalidParams (Msg (''unknown resource: '' @ uri)))), c, w)
      | (Some h, mime, blob) \<Rightarrow>
          (Some (case outcome_reply uri mime blob (fst (h w)) of
                   Inl e \<Rightarrow> errorResponse (Some i) e | Inr r \<Rightarrow> resultResponse (Some i) r), c, snd (h w)))
   \<and> (reader s uri = (None, mime', blob') \<longleftrightarrow>
        sv_resources s uri = None \<and> list_all (\<lambda>t. t_matches t uri = None) (sv_templates s) \<and> mime' = [] \<and> \<not> blob')
   \<and> (\<forall>b. std_decode (std_encode b) = Some b)"
proof (intro conjI allI)
  have r: "route m s ''resources/read'' p c w = (case handleResourcesRead s p w of (r, w') \<Rightarrow> (r, c, w'))" for p
    by (simp add: route_def Let_def)
  show "Dispatch m s (read_request (Some i) uri) c w =
     (case reader s uri of
        (None, _, _) \<Rightarrow> (Some (errorResponse (Some i) (newError ErrInvalidParams (Msg (''unknown resource: '' @ uri)))), c, w)
      | (Some h, mime, blob) \<Rightarrow>
          (Some (case outcome_reply uri mime blob (fst (h w)) of
                   Inl e \<Rightarrow> errorResponse (Some i) e | Inr r \<Rightarrow> resultResponse (Some i) r), c, snd (h w)))"
    by (simp add: Dispatch_def read_request_def r handleResourcesRead_def decode_read read_uri_reader
        IsNotification_def split: prod.split option.split sum.split)
  show "reader s uri = (None, mime', blob') \<longleftrightarrow>
        sv_resources s uri = None \<and> list_all (\<lambda>t. t_matches t uri = None) (sv_templates s) \<and> mime' = [] \<and> \<not> blob'"
    by (auto simp: reader_def filter_empty_conv list_all_iff split: option.splits list.splits res_handler.splits tmpl_handler.splits
        dest!: filter_eq_ConsD)
qed (rule std_codec.dec_enc, simp)

text \<open>
  Completion. The suggestions are the first hundred of what the callback returns,
  in its order, with the full count, and \<open>hasMore\<close> exactly when some are left out; a
  reference without a callback gives no suggestions rather than an error.
\<close>

theorem completion_bounds:
  assumes "unmarshal step_complete empty_complete params = Some p"
  shows "\<exists>shown values w'. handleComplete s params w = (ok [(''completion'', GMap [(''values'', GStrs shown),
        (''total'', GInt (int (length values))), (''hasMore'', GBool (shown \<noteq> values))])], w')
     \<and> length shown \<le> 100 \<and> (\<exists>rest. values = shown @ rest \<and> (rest \<noteq> [] \<longrightarrow> length shown = 100))
     \<and> (case find_completer s p of
          Some f \<Rightarrow> f (ag_name p) (ag_value p) w = (values, w')
        | None \<Rightarrow> values = [] \<and> w' = w)"
proof -
  obtain vs w' where f: "(case find_completer s p of Some f \<Rightarrow> f (ag_name p) (ag_value p) w | None \<Rightarrow> ([], w)) = (vs, w')"
    by fastforce
  let ?shown = "if length vs > 100 then take 100 vs else vs"
  have "vs = ?shown @ drop 100 vs \<and> (drop 100 vs \<noteq> [] \<longrightarrow> length ?shown = 100)" by simp
  then have 1: "\<exists>rest. vs = ?shown @ rest \<and> (rest \<noteq> [] \<longrightarrow> length ?shown = 100)" by blast
  have 2: "(?shown \<noteq> vs) = (length vs > 100)"
    by (metis length_take min.absorb4 nat_neq_iff)
  have 3: "handleComplete s params w = (ok [(''completion'', GMap [(''values'', GStrs ?shown),
        (''total'', GInt (int (length vs))), (''hasMore'', GBool (?shown \<noteq> vs))])], w')"
    unfolding 2 using assms f by (simp add: handleComplete_def completion_json_def completionLimit_def)
  have 4: "case find_completer s p of Some f \<Rightarrow> f (ag_name p) (ag_value p) w = (vs, w') | None \<Rightarrow> vs = [] \<and> w' = w"
    using f by (auto split: option.splits)
  have 5: "length ?shown \<le> 100" by simp
  show ?thesis using 1 3 4 5 by blast
qed

theorem completion_bounds_witness:
  "\<exists>p. unmarshal step_complete empty_complete (Some (GMap [(''ref'', GMap [(''type'', GStr ''ref/none'')])])) = Some p
     \<and> fst (handleComplete (New ''s'' []) (Some (GMap [(''ref'', GMap [(''type'', GStr ''ref/none'')])])) ()) = ok (completion_json [])"
proof -
  let ?q = "Some (GMap [(''ref'', GMap [(''type'', GStr ''ref/none'')])])"
  have "equal_fold ''ref'' ''ref''" "equal_fold ''type'' ''type''" by code_simp+
  then have p: "unmarshal step_complete empty_complete ?q = Some (empty_complete\<lparr>rf_type := ''ref/none''\<rparr>)"
    by (simp add: unmarshal_def decode_value_def step_complete_def step_ref_def put_str_def)
  have "find_completer (New ''s'' [] :: unit server) (empty_complete\<lparr>rf_type := ''ref/none''\<rparr>) = None"
    by (simp add: find_completer_def)
  with completion_bounds [OF p, of "New ''s'' []" "()"] p show ?thesis
    by (auto simp: completion_json_def completionLimit_def)
qed

text \<open>
  The listings. After any registrations of tools on a new server, \<open>tools/list\<close> names
  each tool once, in the order of first registration, with the description and schemas of its
  latest registration.
\<close>

theorem tools_list_order:
  "handleToolsList (foldl (\<lambda>s (nm, e). registerTool nm e s) (New srv []) kes)
     = GMap [(''tools'', GList (map (\<lambda>nm. tool_json (the (map_of (rev kes) nm))) (first_occurrences (map fst kes))))]"
proof -
  have "map (\<lambda>k. (k, the (sv_tools (tools.reg_all kes (New srv [])) k))) (sv_toolOrder (tools.reg_all kes (New srv [])))
      = map (\<lambda>k. (k, the (map_of (rev kes) k))) (first_occurrences (map fst kes))"
    by (rule tools.listing) (simp_all add: New_def)
  from arg_cong [OF this, of "map (\<lambda>(k, e). tool_json e)"]
  have "map (\<lambda>k. tool_json (the (sv_tools (tools.reg_all kes (New srv [])) k))) (sv_toolOrder (tools.reg_all kes (New srv [])))
      = map (\<lambda>k. tool_json (the (map_of (rev kes) k))) (first_occurrences (map fst kes))"
    by (simp add: comp_def)
  then show ?thesis by (simp add: handleToolsList_def tools.reg_all_def)
qed

end
