(* ===== verification/Session.thy ===== *)
theory Session
  imports Prelude GoStd Json Dispatch "HOL-Library.Multiset"
begin

text \<open>
  Connections: \<open>src/session.go\<close>, the notification helpers of \<open>src/context.go\<close> and the
  broadcasts of \<open>src/server.go\<close>. A session is a state and a step relation whose labels are
  what can happen next: a line read, a dispatched request finishing (on its own goroutine, so
  in any order), a handler's server-to-client request starting, its answer being taken or its
  context being cancelled. A waiter's one-place channel is an entry of \<open>ss_pending\<close>, empty or
  full; a send on a full channel blocks the read loop. Identifiers are decoded JSON.
\<close>

section \<open>Messages\<close>

record notification =
  nt_method :: string
  nt_params :: "gval option"

record wire_error =
  we_code :: int
  we_message :: string
  we_data :: gval

record pending_response =
  pr_result :: "gval option"
  pr_err :: "wire_error option"

datatype outgoing =
    OutResponse response
  | OutRequest gval string "gval option"
  | OutNotification notification

record inbound =
  in_id :: "gval option"
  in_method :: string
  in_params :: "gval option"
  in_result :: "gval option"
  in_error :: "wire_error option"

definition step_error :: "string \<Rightarrow> gval \<Rightarrow> wire_error \<Rightarrow> wire_error option" where
  "step_error k v e =
     (if equal_fold k ''code'' then map_option (\<lambda>i. e\<lparr>we_code := i\<rparr>) (put_int v (we_code e))
      else if equal_fold k ''message'' then map_option (\<lambda>s. e\<lparr>we_message := s\<rparr>) (put_str v (we_message e))
      else if equal_fold k ''data'' then Some (e\<lparr>we_data := v\<rparr>)
      else Some e)"

text \<open>A pointer target: \<open>null\<close> is nil, an object decodes into what is there or a new zero.\<close>

definition put_error :: "gval \<Rightarrow> wire_error option \<Rightarrow> wire_error option option" where
  "put_error v old =
     (case v of
        GNil \<Rightarrow> Some None
      | _ \<Rightarrow> map_option Some (decode_value step_error v
               (case old of Some e \<Rightarrow> e | None \<Rightarrow> \<lparr>we_code = 0, we_message = [], we_data = GNil\<rparr>)))"

definition step_inbound :: "string \<Rightarrow> gval \<Rightarrow> inbound \<Rightarrow> inbound option" where
  "step_inbound k v m =
     (if equal_fold k ''id'' then Some (m\<lparr>in_id := Some v\<rparr>)
      else if equal_fold k ''method'' then map_option (\<lambda>s. m\<lparr>in_method := s\<rparr>) (put_str v (in_method m))
      else if equal_fold k ''params'' then Some (m\<lparr>in_params := Some v\<rparr>)
      else if equal_fold k ''result'' then Some (m\<lparr>in_result := Some v\<rparr>)
      else if equal_fold k ''error'' then map_option (\<lambda>e. m\<lparr>in_error := e\<rparr>) (put_error v (in_error m))
      else Some m)"

definition empty_inbound :: inbound where
  "empty_inbound = \<lparr>in_id = None, in_method = [], in_params = None, in_result = None, in_error = None\<rparr>"

section \<open>The session\<close>

datatype call_outcome = Answered pending_response | Cancelled

record 'w sess =
  ss_supports :: bool
  ss_idCtr :: nat
  ss_pending :: "gval \<rightharpoonup> pending_response option"
  ss_blocked :: "gval option"
  ss_subs :: "string set"
  ss_jobs :: "request list"
  ss_out :: "outgoing list"
  ss_done :: "(gval \<times> call_outcome) list"
  ss_world :: 'w

definition newSession :: "bool \<Rightarrow> 'w \<Rightarrow> 'w sess" where
  "newSession supports w = \<lparr>ss_supports = supports, ss_idCtr = 0, ss_pending = Map.empty, ss_blocked = None,
     ss_subs = {}, ss_jobs = [], ss_out = [], ss_done = [], ss_world = w\<rparr>"

definition ss_write :: "outgoing \<Rightarrow> 'w sess \<Rightarrow> 'w sess" where
  "ss_write msg ss = ss\<lparr>ss_out := ss_out ss @ [msg]\<rparr>"

definition ss_notify :: "notification \<Rightarrow> 'w sess \<Rightarrow> 'w sess" where
  "ss_notify n = ss_write (OutNotification n)"

definition ss_subscribe :: "string \<Rightarrow> 'w sess \<Rightarrow> 'w sess" where
  "ss_subscribe uri ss = ss\<lparr>ss_subs := insert uri (ss_subs ss)\<rparr>"

definition ss_unsubscribe :: "string \<Rightarrow> 'w sess \<Rightarrow> 'w sess" where
  "ss_unsubscribe uri ss = ss\<lparr>ss_subs := ss_subs ss - {uri}\<rparr>"

definition isSubscribed :: "'w sess \<Rightarrow> string \<Rightarrow> bool" where
  "isSubscribed ss uri \<longleftrightarrow> uri \<in> ss_subs ss"

text \<open>The identifier of the n-th server-to-client request.\<close>

definition srv_id :: "nat \<Rightarrow> gval" where
  "srv_id n = GStr (''srv-'' @ nat_dec n)"

text \<open>\<open>request\<close>, up to the wait, with params that marshal and a connection that takes the write:
  \<open>None\<close> when the transport takes no requests.\<close>

definition start_request :: "string \<Rightarrow> gval option \<Rightarrow> 'w sess \<Rightarrow> 'w sess option" where
  "start_request meth params ss =
     (if \<not> ss_supports ss then None
      else let n = ss_idCtr ss + 1
           in Some (ss_write (OutRequest (srv_id n) meth params)
                (ss\<lparr>ss_idCtr := n, ss_pending := (ss_pending ss)(srv_id n \<mapsto> None)\<rparr>)))"

text \<open>The two ways the wait ends; both run the deferred delete.\<close>

definition take_answer :: "gval \<Rightarrow> 'w sess \<Rightarrow> 'w sess option" where
  "take_answer key ss =
     (case ss_pending ss key of
        Some (Some r) \<Rightarrow>
          Some (ss\<lparr>ss_pending := (ss_pending ss)(key := None), ss_done := ss_done ss @ [(key, Answered r)],
                  ss_blocked := (if ss_blocked ss = Some key then None else ss_blocked ss)\<rparr>)
      | _ \<Rightarrow> None)"

definition cancel_request :: "gval \<Rightarrow> 'w sess \<Rightarrow> 'w sess option" where
  "cancel_request key ss =
     (case ss_pending ss key of
        Some _ \<Rightarrow> Some (ss\<lparr>ss_pending := (ss_pending ss)(key := None), ss_done := ss_done ss @ [(key, Cancelled)]\<rparr>)
      | None \<Rightarrow> None)"

text \<open>\<open>deliver\<close>: fills the channel of the waiter, blocks when it is full already, and drops an
  answer nobody waits for.\<close>

definition deliver :: "gval option \<Rightarrow> pending_response \<Rightarrow> 'w sess \<Rightarrow> 'w sess" where
  "deliver i r ss =
     (case i of
        None \<Rightarrow> ss
      | Some key \<Rightarrow>
          (case ss_pending ss key of
             None \<Rightarrow> ss
           | Some None \<Rightarrow> ss\<lparr>ss_pending := (ss_pending ss)(key \<mapsto> Some r)\<rparr>
           | Some (Some _) \<Rightarrow> ss\<lparr>ss_blocked := Some key\<rparr>))"

text \<open>\<open>handle\<close>: a line is \<open>None\<close> when it is not JSON.\<close>

definition handle :: "gval option \<Rightarrow> 'w sess \<Rightarrow> 'w sess" where
  "handle line ss =
     (case unmarshal step_inbound empty_inbound line of
        None \<Rightarrow> ss_write (OutResponse (errorResponse None (newError ErrParse DecodeMsg))) ss
      | Some m \<Rightarrow>
          if in_method m = [] then deliver (in_id m) \<lparr>pr_result = in_result m, pr_err = in_error m\<rparr> ss
          else ss\<lparr>ss_jobs := ss_jobs ss @
                    [\<lparr>rq_id = in_id m, rq_method = in_method m, rq_params = in_params m\<rparr>]\<rparr>)"

text \<open>The goroutine of a dispatched request: dispatch, then write the reply if there is one.\<close>

definition run_job :: "(gval \<Rightarrow> string + string) \<Rightarrow> 'w server \<Rightarrow> nat \<Rightarrow> 'w sess \<Rightarrow> 'w sess option" where
  "run_job m s i ss =
     (if i < length (ss_jobs ss) then
        (case Dispatch m s (ss_jobs ss ! i) (Some (ss_subs ss)) (ss_world ss) of
           (resp, c, w) \<Rightarrow>
             let ss' = ss\<lparr>ss_jobs := take i (ss_jobs ss) @ drop (Suc i) (ss_jobs ss),
                         ss_subs := (case c of Some S \<Rightarrow> S | None \<Rightarrow> ss_subs ss), ss_world := w\<rparr>
             in Some (case resp of None \<Rightarrow> ss' | Some r \<Rightarrow> ss_write (OutResponse r) ss'))
      else None)"

datatype label =
    LLine "gval option"
  | LRun nat
  | LCall string "gval option"
  | LTake gval
  | LCancel gval
  | LNotify notification

inductive sess_step :: "(gval \<Rightarrow> string + string) \<Rightarrow> 'w server \<Rightarrow> 'w sess \<Rightarrow> label \<Rightarrow> 'w sess \<Rightarrow> bool"
  for m :: "gval \<Rightarrow> string + string" and s :: "'w server" where
  read_line: "ss_blocked ss = None \<Longrightarrow> sess_step m s ss (LLine line) (handle line ss)"
| finish_job: "run_job m s i ss = Some ss' \<Longrightarrow> sess_step m s ss (LRun i) ss'"
| start_call: "start_request meth params ss = Some ss' \<Longrightarrow> sess_step m s ss (LCall meth params) ss'"
| take_resp: "take_answer key ss = Some ss' \<Longrightarrow> sess_step m s ss (LTake key) ss'"
| cancel: "cancel_request key ss = Some ss' \<Longrightarrow> sess_step m s ss (LCancel key) ss'"
| notify: "sess_step m s ss (LNotify n) (ss_notify n ss)"

inductive_cases sess_stepE: "sess_step m s ss l ss'"
inductive_simps sess_step_simps:
  "sess_step m s ss (LLine line) ss'" "sess_step m s ss (LRun i) ss'" "sess_step m s ss (LCall meth ps) ss'"
  "sess_step m s ss (LTake k) ss'" "sess_step m s ss (LCancel k) ss'" "sess_step m s ss (LNotify n) ss'"

inductive sess_run :: "(gval \<Rightarrow> string + string) \<Rightarrow> 'w server \<Rightarrow> 'w sess \<Rightarrow> label list \<Rightarrow> 'w sess \<Rightarrow> bool"
  for m :: "gval \<Rightarrow> string + string" and s :: "'w server" where
  run_Nil: "sess_run m s ss [] ss"
| run_snoc: "sess_run m s ss ls ss' \<Longrightarrow> sess_step m s ss' l ss'' \<Longrightarrow> sess_run m s ss (ls @ [l]) ss''"

section \<open>Progress tokens, logging and progress\<close>

definition step_meta :: "string \<Rightarrow> gval \<Rightarrow> gval option \<Rightarrow> gval option option" where
  "step_meta k v t = (if equal_fold k ''progressToken'' then Some (Some v) else Some t)"

definition step_params_meta :: "string \<Rightarrow> gval \<Rightarrow> gval option \<Rightarrow> gval option option" where
  "step_params_meta k v t = (if equal_fold k ''_meta'' then decode_value step_meta v t else Some t)"

definition parseProgressToken :: "gval option \<Rightarrow> gval option" where
  "parseProgressToken params =
     (case params of None \<Rightarrow> None
      | Some v \<Rightarrow> (case unmarshal step_params_meta None (Some v) of None \<Rightarrow> None | Some t \<Rightarrow> t))"

text \<open>What \<open>Log\<close> and \<open>Progress\<close> send: nothing without a sender (\<open>None\<close>), and no progress
  without the caller's token.\<close>

definition ctx_Log :: "bool \<Rightarrow> string \<Rightarrow> gval \<Rightarrow> notification option" where
  "ctx_Log can_send level data =
     (if \<not> can_send then None
      else Some \<lparr>nt_method = ''notifications/message'',
                 nt_params = Some (GMap [(''level'', GStr level), (''data'', data)])\<rparr>)"

definition ctx_Debug where "ctx_Debug snd' d = ctx_Log snd' ''debug'' d"
definition ctx_Info where "ctx_Info snd' d = ctx_Log snd' ''info'' d"
definition ctx_Warning where "ctx_Warning snd' d = ctx_Log snd' ''warning'' d"
definition ctx_Error where "ctx_Error snd' d = ctx_Log snd' ''error'' d"

definition ctx_Progress :: "bool \<Rightarrow> gval option \<Rightarrow> rat \<Rightarrow> rat \<Rightarrow> string \<Rightarrow> notification option" where
  "ctx_Progress can_send token progress tot msg =
     (case token of
        None \<Rightarrow> None
      | Some t \<Rightarrow>
          if \<not> can_send then None
          else Some \<lparr>nt_method = ''notifications/progress'',
                     nt_params = Some (GMap ([(''progressToken'', t), (''progress'', GFloat progress)]
                       @ (if tot > 0 then [(''total'', GFloat tot)] else [])
                       @ (if msg \<noteq> [] then [(''message'', GStr msg)] else [])))\<rparr>)"

section \<open>Server-to-client requests from a handler\<close>

definition errNoServerRequests :: string where
  "errNoServerRequests = ''fastmcp: transport does not support server-to-client requests''"

text \<open>What \<open>request\<close> returns once it has started (\<open>None\<close>: it did not): the message of the client's
  error, the error of the cancelled context, or the raw result.\<close>

definition request_return :: "string \<Rightarrow> call_outcome option \<Rightarrow> rpc_msg + gval option" where
  "request_return ctx_err res =
     (case res of
        None \<Rightarrow> Inl (Msg errNoServerRequests)
      | Some Cancelled \<Rightarrow> Inl (Msg ctx_err)
      | Some (Answered r) \<Rightarrow> (case pr_err r of Some e \<Rightarrow> Inl (Msg (we_message e)) | None \<Rightarrow> Inr (pr_result r)))"

record root_entry =
  rt_uri :: string
  rt_name :: string

definition step_root :: "string \<Rightarrow> gval \<Rightarrow> root_entry \<Rightarrow> root_entry option" where
  "step_root k v r =
     (if equal_fold k ''uri'' then map_option (\<lambda>s. r\<lparr>rt_uri := s\<rparr>) (put_str v (rt_uri r))
      else if equal_fold k ''name'' then map_option (\<lambda>s. r\<lparr>rt_name := s\<rparr>) (put_str v (rt_name r))
      else Some r)"

definition step_roots :: "string \<Rightarrow> gval \<Rightarrow> root_entry list \<Rightarrow> root_entry list option" where
  "step_roots k v rs =
     (if equal_fold k ''roots''
      then (case v of
              GNil \<Rightarrow> Some []
            | GList vs \<Rightarrow> those (map (\<lambda>x. decode_value step_root x \<lparr>rt_uri = [], rt_name = []\<rparr>) vs)
            | _ \<Rightarrow> None)
      else Some rs)"

definition ctx_ListRoots :: "string \<Rightarrow> call_outcome option \<Rightarrow> rpc_msg + root_entry list" where
  "ctx_ListRoots ctx_err res =
     (case request_return ctx_err res of
        Inl e \<Rightarrow> Inl e
      | Inr raw \<Rightarrow> (case unmarshal step_roots [] raw of None \<Rightarrow> Inl DecodeMsg | Some rs \<Rightarrow> Inr rs))"

section \<open>Broadcasts\<close>

text \<open>The connected sessions of a server, in the order the map is walked.\<close>

type_synonym 'w hub = "(nat \<times> 'w sess) list"

definition addSession :: "nat \<Rightarrow> 'w sess \<Rightarrow> 'w hub \<Rightarrow> 'w hub" where
  "addSession i ss h = AList.update i ss h"

definition removeSession :: "nat \<Rightarrow> 'w hub \<Rightarrow> 'w hub" where
  "removeSession i h = AList.delete i h"

definition broadcast :: "notification \<Rightarrow> 'w hub \<Rightarrow> 'w hub" where
  "broadcast n h = map (\<lambda>(i, ss). (i, ss_notify n ss)) h"

definition NotifyToolsChanged :: "'w hub \<Rightarrow> 'w hub" where
  "NotifyToolsChanged = broadcast \<lparr>nt_method = ''notifications/tools/list_changed'', nt_params = None\<rparr>"

definition NotifyResourcesChanged :: "'w hub \<Rightarrow> 'w hub" where
  "NotifyResourcesChanged = broadcast \<lparr>nt_method = ''notifications/resources/list_changed'', nt_params = None\<rparr>"

definition NotifyPromptsChanged :: "'w hub \<Rightarrow> 'w hub" where
  "NotifyPromptsChanged = broadcast \<lparr>nt_method = ''notifications/prompts/list_changed'', nt_params = None\<rparr>"

definition updated_note :: "string \<Rightarrow> notification" where
  "updated_note uri = \<lparr>nt_method = ''notifications/resources/updated'', nt_params = Some (GMap [(''uri'', GStr uri)])\<rparr>"

definition NotifyResourceUpdated :: "string \<Rightarrow> 'w hub \<Rightarrow> 'w hub" where
  "NotifyResourceUpdated uri h =
     map (\<lambda>(i, ss). (i, if isSubscribed ss uri then ss_notify (updated_note uri) ss else ss)) h"

section \<open>Facts\<close>

lemma srv_id_inj: "srv_id a = srv_id b \<longleftrightarrow> a = b"
  by (simp add: srv_id_def nat_dec_inj)

definition line_inbound :: "gval option \<Rightarrow> inbound option" where
  "line_inbound line = unmarshal step_inbound empty_inbound line"

text \<open>The ids of the requests among some lines, and those of the replies written; a malformed
  line is answered without an id.\<close>

definition line_ids :: "gval option \<Rightarrow> gval option list" where
  "line_ids line =
     (case line_inbound line of
        None \<Rightarrow> [None]
      | Some m \<Rightarrow> if in_method m = [] \<or> in_id m = None then [] else [in_id m])"

definition label_ids :: "label \<Rightarrow> gval option list" where
  "label_ids l = (case l of LLine line \<Rightarrow> line_ids line | _ \<Rightarrow> [])"

definition reply_ids :: "outgoing list \<Rightarrow> gval option list" where
  "reply_ids outs = concat (map (\<lambda>x. case x of OutResponse r \<Rightarrow> [rs_id r] | _ \<Rightarrow> []) outs)"

definition job_ids :: "request list \<Rightarrow> gval option list" where
  "job_ids js = concat (map (\<lambda>r. if rq_id r = None then [] else [rq_id r]) js)"

lemma ids_append [simp]:
  "reply_ids (a @ b) = reply_ids a @ reply_ids b" "job_ids (xs @ ys) = job_ids xs @ job_ids ys"
  "reply_ids [] = []" "job_ids [] = []"
  by (simp_all add: reply_ids_def job_ids_def)

lemma deliver_frames [frame_rules]:
  "ss_out (deliver i r ss) = ss_out ss" "ss_jobs (deliver i r ss) = ss_jobs ss"
  "ss_idCtr (deliver i r ss) = ss_idCtr ss" "ss_done (deliver i r ss) = ss_done ss"
  "ss_subs (deliver i r ss) = ss_subs ss" "ss_supports (deliver i r ss) = ss_supports ss"
  by (auto simp: deliver_def split: option.splits)

lemma write_frames [frame_rules]:
  "ss_jobs (ss_write x ss) = ss_jobs ss" "ss_idCtr (ss_write x ss) = ss_idCtr ss"
  "ss_done (ss_write x ss) = ss_done ss" "ss_subs (ss_write x ss) = ss_subs ss"
  "ss_pending (ss_write x ss) = ss_pending ss" "ss_blocked (ss_write x ss) = ss_blocked ss"
  "ss_out (ss_write x ss) = ss_out ss @ [x]"
  by (simp_all add: ss_write_def)

lemma run_job_frames:
  "run_job m s i ss = Some ss' \<Longrightarrow>
     ss_pending ss' = ss_pending ss \<and> ss_done ss' = ss_done ss \<and> ss_idCtr ss' = ss_idCtr ss
     \<and> ss_blocked ss' = ss_blocked ss"
  by (auto simp: run_job_def Let_def frame_rules split: if_splits prod.splits option.splits)

lemma run_job_ids:
  assumes "run_job m s i ss = Some ss'"
  shows "mset (reply_ids (ss_out ss')) + mset (job_ids (ss_jobs ss'))
       = mset (reply_ids (ss_out ss)) + mset (job_ids (ss_jobs ss))"
proof -
  let ?j = "ss_jobs ss ! i"
  from assms have i: "i < length (ss_jobs ss)" by (auto simp: run_job_def split: if_splits)
  have jobs: "ss_jobs ss = take i (ss_jobs ss) @ ?j # drop (Suc i) (ss_jobs ss)"
    using i by (simp add: id_take_nth_drop)
  obtain resp c w where d: "Dispatch m s ?j (Some (ss_subs ss)) (ss_world ss) = (resp, c, w)"
    by (metis prod_cases3)
  have new: "ss_jobs ss' = take i (ss_jobs ss) @ drop (Suc i) (ss_jobs ss)"
    "ss_out ss' = ss_out ss @ (case resp of None \<Rightarrow> [] | Some r \<Rightarrow> [OutResponse r])"
    using assms i d by (auto simp: run_job_def Let_def frame_rules split: option.splits)
  have r: "reply_ids (case resp of None \<Rightarrow> [] | Some r \<Rightarrow> [OutResponse r]) = job_ids [?j]"
    using d by (auto simp: Dispatch_def IsNotification_def reply_ids_def job_ids_def errorResponse_def
        resultResponse_def split: prod.splits sum.splits if_splits)
  have "mset (job_ids (ss_jobs ss)) = mset (job_ids (take i (ss_jobs ss))) + mset (job_ids [?j])
      + mset (job_ids (drop (Suc i) (ss_jobs ss)))"
    by (subst jobs) (simp add: job_ids_def)
  then show ?thesis unfolding new by (simp add: r)
qed

lemma handle_ids:
  "mset (reply_ids (ss_out (handle line ss))) + mset (job_ids (ss_jobs (handle line ss)))
     = mset (reply_ids (ss_out ss)) + mset (job_ids (ss_jobs ss)) + mset (line_ids line)"
proof (cases "line_inbound line")
  case None
  then have "handle line ss = ss_write (OutResponse (errorResponse None (newError ErrParse DecodeMsg))) ss"
    by (simp add: handle_def line_inbound_def)
  then show ?thesis
    using None by (simp add: frame_rules line_ids_def reply_ids_def errorResponse_def)
next
  case (Some x)
  show ?thesis
  proof (cases "in_method x = []")
    case True
    with Some show ?thesis
      by (simp add: handle_def line_inbound_def [symmetric] frame_rules line_ids_def)
  next
    case False
    with Some show ?thesis
      by (simp add: handle_def line_inbound_def [symmetric] line_ids_def job_ids_def)
  qed
qed

lemma step_ids:
  "sess_step m s ss l ss' \<Longrightarrow>
     mset (reply_ids (ss_out ss')) + mset (job_ids (ss_jobs ss'))
       = mset (reply_ids (ss_out ss)) + mset (job_ids (ss_jobs ss)) + mset (label_ids l)"
proof (induction rule: sess_step.induct)
  case (read_line ss line)
  then show ?case by (simp add: handle_ids label_ids_def)
next
  case (finish_job i ss ss')
  then show ?case by (simp add: run_job_ids label_ids_def)
next
  case (start_call meth params ss ss')
  then show ?case
    by (auto simp: start_request_def Let_def label_ids_def frame_rules reply_ids_def split: if_splits)
next
  case (take_resp key ss ss')
  then show ?case by (auto simp: take_answer_def label_ids_def split: option.splits)
next
  case (cancel key ss ss')
  then show ?case by (auto simp: cancel_request_def label_ids_def split: option.splits)
next
  case (notify n ss)
  then show ?case by (simp add: ss_notify_def label_ids_def frame_rules reply_ids_def)
qed

lemma run_ids:
  "sess_run m s ss ls ss' \<Longrightarrow>
     mset (reply_ids (ss_out ss')) + mset (job_ids (ss_jobs ss'))
       = mset (reply_ids (ss_out ss)) + mset (job_ids (ss_jobs ss)) + mset (concat (map label_ids ls))"
proof (induction rule: sess_run.induct)
  case (run_Nil ss)
  then show ?case by simp
next
  case (run_snoc ss ls ss' l ss'')
  from step_ids [OF run_snoc.hyps(2)] run_snoc.IH show ?case by (simp add: add.assoc)
qed

text \<open>What holds of a session between its own requests and their answers.\<close>

definition answer_line :: "label \<Rightarrow> gval \<Rightarrow> pending_response \<Rightarrow> bool" where
  "answer_line l key r \<longleftrightarrow>
     (\<exists>line x. l = LLine line \<and> line_inbound line = Some x \<and> in_method x = [] \<and> in_id x = Some key
        \<and> r = \<lparr>pr_result = in_result x, pr_err = in_error x\<rparr>)"

definition requests_out :: "outgoing list \<Rightarrow> gval list" where
  "requests_out outs = concat (map (\<lambda>x. case x of OutRequest i meth p \<Rightarrow> [i] | _ \<Rightarrow> []) outs)"

definition issued :: "nat \<Rightarrow> gval list" where
  "issued n = map srv_id [1..<Suc n]"

lemma issued_Suc: "issued (Suc n) = issued n @ [srv_id (Suc n)]"
  by (simp add: issued_def)

lemma issued_fresh: "srv_id (Suc n) \<notin> set (issued n)"
  by (auto simp: issued_def srv_id_inj)

lemma issued_0 [simp]: "issued 0 = []"
  by (simp add: issued_def)

lemma issued_distinct: "distinct (issued n)"
  by (auto simp: issued_def distinct_map inj_on_def srv_id_inj)

definition sess_inv :: "label list \<Rightarrow> 'w sess \<Rightarrow> bool" where
  "sess_inv ls ss \<longleftrightarrow>
     requests_out (ss_out ss) = issued (ss_idCtr ss)
     \<and> distinct (map fst (ss_done ss))
     \<and> (\<forall>k. ss_pending ss k \<noteq> None \<longrightarrow> k \<notin> fst ` set (ss_done ss) \<and> k \<in> set (requests_out (ss_out ss)))
     \<and> fst ` set (ss_done ss) \<subseteq> set (requests_out (ss_out ss))
     \<and> (\<forall>k r. ss_pending ss k = Some (Some r) \<longrightarrow> (\<exists>l\<in>set ls. answer_line l k r))
     \<and> (\<forall>k r. (k, Answered r) \<in> set (ss_done ss) \<longrightarrow> (\<exists>l\<in>set ls. answer_line l k r))"

lemma requests_out_simps [simp]:
  "requests_out [] = []" "requests_out (a @ b) = requests_out a @ requests_out b"
  "requests_out [OutRequest i meth p] = [i]" "requests_out [OutResponse r] = []"
  "requests_out [OutNotification n] = []"
  by (simp_all add: requests_out_def)

lemma sess_inv_mono: "sess_inv ls ss \<Longrightarrow> sess_inv (ls @ [l]) ss"
  by (auto simp: sess_inv_def)

lemma run_job_requests: "run_job m s i ss = Some ss' \<Longrightarrow> requests_out (ss_out ss') = requests_out (ss_out ss)"
  by (auto simp: run_job_def Let_def frame_rules split: if_splits prod.splits option.splits)

lemma inv_run_job: "run_job m s i ss = Some ss' \<Longrightarrow> sess_inv ls ss \<Longrightarrow> sess_inv ls ss'"
proof -
  assume run: "run_job m s i ss = Some ss'" and inv: "sess_inv ls ss"
  have f: "ss_pending ss' = ss_pending ss" "ss_done ss' = ss_done ss" "ss_idCtr ss' = ss_idCtr ss"
    "requests_out (ss_out ss') = requests_out (ss_out ss)"
    using run_job_frames [OF run] run_job_requests [OF run] by simp_all
  from inv show "sess_inv ls ss'" unfolding sess_inv_def f .
qed

lemma inv_start: "start_request meth ps ss = Some ss' \<Longrightarrow> sess_inv ls ss \<Longrightarrow> sess_inv ls ss'"
proof -
  assume st: "start_request meth ps ss = Some ss'" and inv: "sess_inv ls ss"
  let ?k = "srv_id (Suc (ss_idCtr ss))"
  from st have f: "ss_out ss' = ss_out ss @ [OutRequest ?k meth ps]" "ss_idCtr ss' = Suc (ss_idCtr ss)"
    "ss_pending ss' = (ss_pending ss)(?k \<mapsto> None)" "ss_done ss' = ss_done ss"
    by (auto simp: start_request_def Let_def frame_rules split: if_splits)
  have r: "requests_out (ss_out ss) = issued (ss_idCtr ss)" using inv by (simp add: sess_inv_def)
  have fresh: "?k \<notin> set (requests_out (ss_out ss))" unfolding r by (rule issued_fresh)
  then have nd: "?k \<notin> fst ` set (ss_done ss)" using inv by (auto simp: sess_inv_def)
  show "sess_inv ls ss'"
    unfolding sess_inv_def f
  proof (intro conjI allI impI)
    show "requests_out (ss_out ss @ [OutRequest ?k meth ps]) = issued (Suc (ss_idCtr ss))"
      using r by (simp add: issued_Suc)
    show "distinct (map fst (ss_done ss))" using inv by (simp add: sess_inv_def)
    show "fst ` set (ss_done ss) \<subseteq> set (requests_out (ss_out ss @ [OutRequest ?k meth ps]))"
      using inv by (auto simp: sess_inv_def)
    fix k r
    show "k \<notin> fst ` set (ss_done ss)" if "((ss_pending ss)(?k \<mapsto> None)) k \<noteq> None"
      using that inv nd by (auto simp: sess_inv_def split: if_splits)
    show "k \<in> set (requests_out (ss_out ss @ [OutRequest ?k meth ps]))"
      if "((ss_pending ss)(?k \<mapsto> None)) k \<noteq> None"
      using that inv by (auto simp: sess_inv_def split: if_splits)
    show "\<exists>l\<in>set ls. answer_line l k r" if "((ss_pending ss)(?k \<mapsto> None)) k = Some (Some r)"
      using that inv by (auto simp: sess_inv_def split: if_splits)
    show "\<exists>l\<in>set ls. answer_line l k r" if "(k, Answered r) \<in> set (ss_done ss)"
      using that inv by (auto simp: sess_inv_def)
  qed
qed

lemma inv_finish:
  assumes inv: "sess_inv ls ss" and p: "ss_pending ss key = Some x"
    and o: "oc = Cancelled \<or> (\<exists>r. x = Some r \<and> oc = Answered r)"
    and f: "ss_out ss' = ss_out ss" "ss_idCtr ss' = ss_idCtr ss" "ss_pending ss' = (ss_pending ss)(key := None)"
      "ss_done ss' = ss_done ss @ [(key, oc)]"
  shows "sess_inv ls ss'"
proof -
  from inv p have k: "key \<notin> fst ` set (ss_done ss)" "key \<in> set (requests_out (ss_out ss))"
    by (auto simp: sess_inv_def)
  show ?thesis
    unfolding sess_inv_def f
  proof (intro conjI allI impI)
    show "requests_out (ss_out ss) = issued (ss_idCtr ss)" using inv by (simp add: sess_inv_def)
    show "distinct (map fst (ss_done ss @ [(key, oc)]))" using inv k by (auto simp: sess_inv_def)
    show "fst ` set (ss_done ss @ [(key, oc)]) \<subseteq> set (requests_out (ss_out ss))"
      using inv k by (auto simp: sess_inv_def)
    fix k' r
    show "k' \<notin> fst ` set (ss_done ss @ [(key, oc)])" "k' \<in> set (requests_out (ss_out ss))"
      if "((ss_pending ss)(key := None)) k' \<noteq> None"
      using that inv by (auto simp: sess_inv_def split: if_splits)
    show "\<exists>l\<in>set ls. answer_line l k' r" if "((ss_pending ss)(key := None)) k' = Some (Some r)"
      using that inv by (auto simp: sess_inv_def split: if_splits)
    show "\<exists>l\<in>set ls. answer_line l k' r" if "(k', Answered r) \<in> set (ss_done ss @ [(key, oc)])"
      using that inv p o by (auto simp: sess_inv_def)
  qed
qed

lemma inv_handle: "sess_inv ls ss \<Longrightarrow> sess_inv (ls @ [LLine line]) (handle line ss)"
proof (cases "line_inbound line")
  case None
  assume "sess_inv ls ss"
  with None show ?thesis
    by (auto simp: handle_def line_inbound_def sess_inv_def frame_rules)
next
  case (Some x)
  assume inv: "sess_inv ls ss"
  show ?thesis
  proof (cases "in_method x = []")
    case False
    with Some inv show ?thesis by (auto simp: handle_def line_inbound_def [symmetric] sess_inv_def)
  next
    case True
    let ?r = "\<lparr>pr_result = in_result x, pr_err = in_error x\<rparr>"
    have h: "handle line ss = deliver (in_id x) ?r ss"
      using Some True by (simp add: handle_def line_inbound_def [symmetric])
    show ?thesis
    proof (cases "\<exists>key. in_id x = Some key \<and> ss_pending ss key = Some None")
      case False
      then have "ss_pending (handle line ss) = ss_pending ss"
        unfolding h by (auto simp: deliver_def split: option.splits)
      then show ?thesis using inv unfolding sess_inv_def h by (auto simp: frame_rules)
    next
      case key: True
      then obtain key where k: "in_id x = Some key" "ss_pending ss key = Some None" by blast
      then have p: "ss_pending (handle line ss) = (ss_pending ss)(key \<mapsto> Some ?r)"
        unfolding h by (simp add: deliver_def)
      have a: "answer_line (LLine line) key ?r" using Some True k by (auto simp: answer_line_def)
      have fr: "ss_out (handle line ss) = ss_out ss" "ss_done (handle line ss) = ss_done ss"
        "ss_idCtr (handle line ss) = ss_idCtr ss" unfolding h by (simp_all add: frame_rules)
      show ?thesis
        using inv k a unfolding sess_inv_def p fr by (auto split: if_splits)
    qed
  qed
qed

lemma inv_run: "sess_run m s ss0 ls ss \<Longrightarrow> ss0 = newSession supp w \<Longrightarrow> sess_inv ls ss"
proof (induction rule: sess_run.induct)
  case (run_Nil ss)
  then show ?case by (simp add: sess_inv_def newSession_def)
next
  case (run_snoc ss ls ss' l ss'')
  then have inv: "sess_inv ls ss'" by simp
  from run_snoc.hyps(2) show ?case
  proof (cases rule: sess_step.cases)
    case (read_line line)
    then show ?thesis using inv_handle [OF inv] by simp
  next
    case (finish_job i)
    then show ?thesis using inv_run_job inv sess_inv_mono by blast
  next
    case (start_call meth params)
    then show ?thesis using inv_start inv sess_inv_mono by blast
  next
    case (take_resp key)
    then obtain r where "ss_pending ss' key = Some (Some r)"
      and f: "ss_out ss'' = ss_out ss'" "ss_idCtr ss'' = ss_idCtr ss'" "ss_pending ss'' = (ss_pending ss')(key := None)"
      "ss_done ss'' = ss_done ss' @ [(key, Answered r)]"
      by (auto simp: take_answer_def split: option.splits)
    from inv_finish [OF inv this(1) _ f] show ?thesis using sess_inv_mono by blast
  next
    case (cancel key)
    then obtain x where "ss_pending ss' key = Some x"
      and f: "ss_out ss'' = ss_out ss'" "ss_idCtr ss'' = ss_idCtr ss'" "ss_pending ss'' = (ss_pending ss')(key := None)"
      "ss_done ss'' = ss_done ss' @ [(key, Cancelled)]"
      by (auto simp: cancel_request_def split: option.splits)
    from inv_finish [OF inv this(1) _ f] show ?thesis using sess_inv_mono by blast
  next
    case (notify n)
    then show ?thesis using inv by (auto simp: sess_inv_def ss_notify_def frame_rules)
  qed
qed

lemma run_append: "sess_run m s a l1 b \<Longrightarrow> sess_step m s b l c \<Longrightarrow> sess_run m s a (l1 @ [l]) c"
  by (rule run_snoc)

text \<open>A read loop blocked on a channel its waiter has left stays blocked.\<close>

definition stuck :: "gval \<Rightarrow> 'w sess \<Rightarrow> bool" where
  "stuck key ss \<longleftrightarrow> ss_blocked ss = Some key \<and> ss_pending ss key = None
     \<and> (\<exists>n\<le>ss_idCtr ss. key = srv_id n)"

lemma stuck_step: "stuck key ss \<Longrightarrow> sess_step m s ss l ss' \<Longrightarrow> stuck key ss' \<and> (\<forall>line. l \<noteq> LLine line)"
proof (erule sess_stepE)
  fix line
  assume "stuck key ss" "ss_blocked ss = None"
  then show ?thesis by (simp add: stuck_def)
next
  fix i
  assume "stuck key ss" "l = LRun i" "run_job m s i ss = Some ss'"
  then show ?thesis using run_job_frames [of m s i ss ss'] by (simp add: stuck_def)
next
  fix meth params
  assume st: "stuck key ss" "l = LCall meth params" "start_request meth params ss = Some ss'"
  then have "key \<noteq> srv_id (Suc (ss_idCtr ss))" by (auto simp: stuck_def srv_id_inj)
  with st show ?thesis
    by (auto simp: stuck_def start_request_def Let_def frame_rules split: if_splits) (metis le_SucI)
next
  fix k
  assume "stuck key ss" "l = LTake k" "take_answer k ss = Some ss'"
  then show ?thesis by (auto simp: stuck_def take_answer_def split: option.splits if_splits)
next
  fix k
  assume "stuck key ss" "l = LCancel k" "cancel_request k ss = Some ss'"
  then show ?thesis by (auto simp: stuck_def cancel_request_def split: option.splits)
next
  fix n
  assume "stuck key ss" "l = LNotify n" "ss' = ss_notify n ss"
  then show ?thesis by (simp add: stuck_def ss_notify_def frame_rules)
qed

lemma stuck_run: "sess_run m s ss ls ss' \<Longrightarrow> stuck key ss \<Longrightarrow> stuck key ss' \<and> (\<forall>line. LLine line \<notin> set ls)"
proof (induction rule: sess_run.induct)
  case (run_Nil ss)
  then show ?case by simp
next
  case (run_snoc ss ls ss' l ss'')
  with stuck_step [of key ss' m s l ss''] show ?case by auto
qed

section \<open>Properties\<close>

text \<open>
  C3: replies on a connection. In any interleaving of lines read, dispatched
  requests finishing and server-to-client traffic, the replies written and the requests still
  being handled are together exactly the requests read: each request with an id is answered
  once, under its own id, none is lost or answered twice, notifications are not answered, and
  each line that is not a message is answered once without an id.
\<close>

theorem session_replies_once:
  assumes "sess_run m s (newSession supp w) ls ss"
  shows "mset (reply_ids (ss_out ss)) + mset (job_ids (ss_jobs ss)) = mset (concat (map label_ids ls))"
    using run_ids [OF assms] by (simp add: newSession_def)

definition demo_line :: "gval option" where
  "demo_line = Some (GMap [(''id'', GFloat 1), (''method'', GStr ''ping'')])"

lemma demo_inbound:
  "line_inbound demo_line = Some (empty_inbound\<lparr>in_id := Some (GFloat 1), in_method := ''ping''\<rparr>)"
proof -
  have "equal_fold ''id'' ''id''" "\<not> equal_fold ''method'' ''id''" "equal_fold ''method'' ''method''" by code_simp+
  then show ?thesis
    by (simp add: line_inbound_def demo_line_def unmarshal_def decode_value_def step_inbound_def
        put_str_def empty_inbound_def)
qed

theorem session_replies_once_witness:
  "\<exists>ss. sess_run demo_marshal (New ''s'' []) (newSession True ()) [LLine demo_line] ss
      \<and> mset (reply_ids (ss_out ss)) + mset (job_ids (ss_jobs ss)) = {#Some (GFloat 1)#}"
proof -
  have r: "sess_run demo_marshal (New ''s'' []) (newSession True ()) ([] @ [LLine demo_line]) (handle demo_line (newSession True ()))"
    by (rule run_snoc, rule run_Nil, rule read_line) (simp add: newSession_def)
  have "mset (concat (map label_ids ([] @ [LLine demo_line]))) = {#Some (GFloat 1)#}"
    by (simp add: label_ids_def line_ids_def demo_inbound)
  with session_replies_once [OF r] r show ?thesis by auto
qed

text \<open>
  C10: answers to server-to-client requests. The requests written carry the
  identifiers srv-1, srv-2, ... in order, so never one twice; every one is completed at most
  once; and a caller that got an answer got the result and error of a message the client sent
  with that very identifier.
\<close>

theorem session_correlation:
  assumes "sess_run m s (newSession supp w) ls ss"
  shows "requests_out (ss_out ss) = map srv_id [1..<Suc (ss_idCtr ss)]
    \<and> distinct (requests_out (ss_out ss)) \<and> distinct (map fst (ss_done ss))
    \<and> fst ` set (ss_done ss) \<subseteq> set (requests_out (ss_out ss))
    \<and> ((key, Answered r) \<in> set (ss_done ss) \<longrightarrow> (\<exists>l\<in>set ls. answer_line l key r))"
  using inv_run [OF assms refl] issued_distinct [of "ss_idCtr ss"]
  unfolding sess_inv_def issued_def by metis

definition demo_answer :: "gval option" where
  "demo_answer = Some (GMap [(''id'', srv_id 1), (''result'', GBool True)])"

definition demo_response :: pending_response where
  "demo_response = \<lparr>pr_result = Some (GBool True), pr_err = None\<rparr>"

lemma demo_answer_inbound:
  "line_inbound demo_answer = Some (empty_inbound\<lparr>in_id := Some (srv_id 1), in_result := Some (GBool True)\<rparr>)"
proof -
  have "equal_fold ''id'' ''id''" "\<not> equal_fold ''result'' ''id''" "\<not> equal_fold ''result'' ''method''"
    "\<not> equal_fold ''result'' ''params''" "equal_fold ''result'' ''result''" by code_simp+
  then show ?thesis
    by (simp add: line_inbound_def demo_answer_def unmarshal_def decode_value_def step_inbound_def empty_inbound_def)
qed

lemma handle_demo_answer: "handle demo_answer ss = deliver (Some (srv_id 1)) demo_response ss"
proof -
  have "unmarshal step_inbound empty_inbound demo_answer =
      Some (empty_inbound\<lparr>in_id := Some (srv_id 1), in_result := Some (GBool True)\<rparr>)"
    using demo_answer_inbound unfolding line_inbound_def .
  then show ?thesis unfolding handle_def by (simp add: demo_response_def) (simp add: empty_inbound_def)
qed

lemma demo_call:
  "start_request ''roots/list'' None (newSession True w) =
     Some ((newSession True w)\<lparr>ss_idCtr := 1, ss_pending := [srv_id 1 \<mapsto> None],
       ss_out := [OutRequest (srv_id 1) ''roots/list'' None]\<rparr>)"
  by (simp add: start_request_def newSession_def ss_write_def)

theorem session_correlation_witness:
  "\<exists>ss. sess_run demo_marshal (New ''s'' []) (newSession True ())
        [LCall ''roots/list'' None, LLine demo_answer, LTake (srv_id 1)] ss
     \<and> ss_done ss = [(srv_id 1, Answered demo_response)] \<and> requests_out (ss_out ss) = [srv_id 1]"
proof -
  let ?s1 = "(newSession True ())\<lparr>ss_idCtr := 1, ss_pending := [srv_id 1 \<mapsto> None],
       ss_out := [OutRequest (srv_id 1) ''roots/list'' None]\<rparr>"
  let ?s2 = "handle demo_answer ?s1"
  let ?s3 = "?s2\<lparr>ss_pending := Map.empty, ss_done := [(srv_id 1, Answered demo_response)]\<rparr>"
  have 1: "sess_run demo_marshal (New ''s'' []) (newSession True ()) ([] @ [LCall ''roots/list'' None]) ?s1"
    by (rule run_snoc, rule run_Nil, rule start_call) (rule demo_call)
  have 2: "sess_run demo_marshal (New ''s'' []) (newSession True ())
      (([] @ [LCall ''roots/list'' None]) @ [LLine demo_answer]) ?s2"
    by (rule run_snoc [OF 1], rule read_line) (simp add: newSession_def)
  have "take_answer (srv_id 1) ?s2 = Some ?s3"
    by (simp add: handle_demo_answer deliver_def take_answer_def newSession_def)
  then have 3: "sess_run demo_marshal (New ''s'' []) (newSession True ())
      ((([] @ [LCall ''roots/list'' None]) @ [LLine demo_answer]) @ [LTake (srv_id 1)]) ?s3"
    by (intro run_snoc [OF 2] take_resp)
  have "ss_done ?s3 = [(srv_id 1, Answered demo_response)]" by simp
  moreover have "requests_out (ss_out ?s3) = [srv_id 1]"
    using session_correlation [OF 3] by (simp add: handle_demo_answer deliver_def newSession_def)
  ultimately show ?thesis using 3 by (intro exI [of _ ?s3]) simp
qed

text \<open>
  C25: the read loop can be stopped by a client. If it answers a request twice before
  the first answer is taken, the second send waits on the full channel with the loop; if the
  waiter's context is cancelled then, nothing empties the channel any more: in every
  continuation no further line is ever read.
\<close>

theorem read_loop_can_block:
  "\<exists>ss. sess_run m s (newSession True w)
       [LCall ''roots/list'' None, LLine demo_answer, LLine demo_answer, LCancel (srv_id 1)] ss
     \<and> ss_blocked ss = Some (srv_id 1)
     \<and> \<not> (\<exists>ls line ss'. sess_run m s ss ls ss' \<and> LLine line \<in> set ls)"
proof -
  let ?s1 = "(newSession True w)\<lparr>ss_idCtr := 1, ss_pending := [srv_id 1 \<mapsto> None],
       ss_out := [OutRequest (srv_id 1) ''roots/list'' None]\<rparr>"
  let ?s2 = "?s1\<lparr>ss_pending := [srv_id 1 \<mapsto> Some demo_response]\<rparr>"
  let ?s3 = "?s2\<lparr>ss_blocked := Some (srv_id 1)\<rparr>"
  let ?s4 = "?s3\<lparr>ss_pending := Map.empty, ss_done := [(srv_id 1, Cancelled)]\<rparr>"
  have h: "handle demo_answer ?s1 = ?s2" "handle demo_answer ?s2 = ?s3"
    by (simp_all add: handle_demo_answer deliver_def newSession_def)
  have "sess_run m s (newSession True w) ([] @ [LCall ''roots/list'' None]) ?s1"
    by (rule run_snoc, rule run_Nil, rule start_call) (rule demo_call)
  then have "sess_run m s (newSession True w) (([] @ [LCall ''roots/list'' None]) @ [LLine demo_answer]) ?s2"
    by (rule run_snoc) (subst h(1) [symmetric], rule read_line, simp add: newSession_def)
  then have "sess_run m s (newSession True w)
      ((([] @ [LCall ''roots/list'' None]) @ [LLine demo_answer]) @ [LLine demo_answer]) ?s3"
    by (rule run_snoc) (subst h(2) [symmetric], rule read_line, simp add: newSession_def)
  then have r: "sess_run m s (newSession True w)
      (((([] @ [LCall ''roots/list'' None]) @ [LLine demo_answer]) @ [LLine demo_answer]) @ [LCancel (srv_id 1)]) ?s4"
    by (rule run_snoc) (rule cancel, simp add: cancel_request_def newSession_def)
  have "stuck (srv_id 1) ?s4" by (auto simp: stuck_def newSession_def)
  then have "\<not> (\<exists>ls line ss'. sess_run m s ?s4 ls ss' \<and> LLine line \<in> set ls)"
    using stuck_run [where key = "srv_id 1"] by blast
  moreover have "ss_blocked ?s4 = Some (srv_id 1)" by simp
  ultimately show ?thesis using r by (intro exI [of _ ?s4]) simp
qed

text \<open>
  C26: broadcasts. A resource update is written once to each connected session that
  is subscribed to the URI and to no other, a list change once to every session, and neither
  changes anything else; a session that was removed gets nothing. A session whose lines are
  never read, which is what the HTTP event stream opens, is subscribed to nothing, so resource
  updates never reach it.
\<close>

definition quiet :: "label \<Rightarrow> bool" where
  "quiet l \<longleftrightarrow> (\<forall>line. l \<noteq> LLine line)"

lemma quiet_run: "sess_run m s ss0 ls ss \<Longrightarrow> ss0 = newSession supp w \<Longrightarrow> list_all quiet ls \<Longrightarrow> ss_jobs ss = [] \<and> ss_subs ss = {}"
proof (induction rule: sess_run.induct)
  case (run_Nil ss)
  then show ?case by (simp add: newSession_def)
next
  case (run_snoc ss ls ss' l ss'')
  then have ih: "ss_jobs ss' = []" "ss_subs ss' = {}" "quiet l" by auto
  from run_snoc.hyps(2) ih show ?case
    by (cases rule: sess_stepE)
      (auto simp: quiet_def run_job_def start_request_def take_answer_def cancel_request_def Let_def
        ss_notify_def frame_rules split: option.splits if_splits)
qed

theorem broadcast_exact:
  "map_of (NotifyResourceUpdated uri h) i =
     map_option (\<lambda>ss. if uri \<in> ss_subs ss then ss\<lparr>ss_out := ss_out ss @ [OutNotification (updated_note uri)]\<rparr> else ss) (map_of h i)
   \<and> map_of (broadcast n h) i = map_option (\<lambda>ss. ss\<lparr>ss_out := ss_out ss @ [OutNotification n]\<rparr>) (map_of h i)
   \<and> map_of (NotifyResourceUpdated uri (removeSession j (addSession j ss1 h))) j = None
   \<and> (sess_run m s (newSession supp w) ls ss \<and> list_all quiet ls \<longrightarrow>
        map_of (NotifyResourceUpdated uri (addSession j ss h)) j = Some ss)"
proof (intro conjI impI)
  show 2: "map_of (NotifyResourceUpdated uri h) i =
     map_option (\<lambda>ss. if uri \<in> ss_subs ss then ss\<lparr>ss_out := ss_out ss @ [OutNotification (updated_note uri)]\<rparr> else ss) (map_of h i)" for h i
    by (induction h) (auto simp: NotifyResourceUpdated_def isSubscribed_def ss_notify_def ss_write_def)
  show "map_of (broadcast n h) i = map_option (\<lambda>ss. ss\<lparr>ss_out := ss_out ss @ [OutNotification n]\<rparr>) (map_of h i)"
    by (induction h) (auto simp: broadcast_def ss_notify_def ss_write_def)
  show "map_of (NotifyResourceUpdated uri (removeSession j (addSession j ss1 h))) j = None"
    unfolding 2 by (simp add: removeSession_def addSession_def delete_conv)
  assume r: "sess_run m s (newSession supp w) ls ss \<and> list_all quiet ls"
  then have "ss_subs ss = {}" using quiet_run [of m s "newSession supp w" ls ss supp w] by simp
  then show "map_of (NotifyResourceUpdated uri (addSession j ss h)) j = Some ss"
    unfolding 2 by (simp add: addSession_def update_conv')
qed

theorem broadcast_exact_witness:
  "map_of (NotifyResourceUpdated ''a'' (addSession 1 (newSession False ()) [])) 1 = Some (newSession False ())"
proof -
  have "sess_run demo_marshal (New ''s'' []) (newSession False ()) [] (newSession False ()) \<and> list_all quiet []"
    by (simp add: run_Nil)
  with broadcast_exact [where m = demo_marshal and s = "New ''s'' []" and supp = False and w = "()"
      and ls = "[]" and ss = "newSession False ()" and uri = "''a''" and j = 1 and h = "[]"]
  show ?thesis by blast
qed

end
