(* ===== verification/Transport.thy ===== *)
theory Transport
  imports Prelude GoStd Json Dispatch Session
begin

text \<open>
  The two transports of the root package. \<open>src/http.go\<close>: method routing, a POST with one
  message or a batch, and the event stream a GET opens. \<open>src/stdio.go\<close>: the line scanner, the
  read loop of \<open>ServeStdio\<close> feeding a session, and its return after the last handler. The
  text-to-tree half of \<open>json.Unmarshal\<close> is the parameter \<open>parse\<close> (\<open>None\<close> for malformed text);
  headers and texts the HTTP library adds by itself are left out.
\<close>

section \<open>HTTP\<close>

datatype http_body = BNone | BText string | BResponse response | BResponses "response list" | BStream

record http_response =
  hr_status :: nat
  hr_headers :: "(string \<times> string) list"
  hr_body :: http_body

definition writeJSONResponse :: "http_body \<Rightarrow> http_response" where
  "writeJSONResponse v = \<lparr>hr_status = 200, hr_headers = [(''Content-Type'', ''application/json'')], hr_body = v\<rparr>"

definition writeHTTPError :: "gval option \<Rightarrow> int \<Rightarrow> rpc_msg \<Rightarrow> http_response" where
  "writeHTTPError i code msg = writeJSONResponse (BResponse (errorResponse i (newError code msg)))"

definition http_accepted :: http_response where
  "http_accepted = \<lparr>hr_status = 202, hr_headers = [], hr_body = BNone\<rparr>"

text \<open>Decoding into a \<open>Request\<close> and into a slice of them.\<close>

definition step_request :: "string \<Rightarrow> gval \<Rightarrow> request \<Rightarrow> request option" where
  "step_request k v r =
     (if equal_fold k ''jsonrpc'' then map_option (\<lambda>_. r) (put_str v [])
      else if equal_fold k ''id'' then Some (r\<lparr>rq_id := Some v\<rparr>)
      else if equal_fold k ''method'' then map_option (\<lambda>s. r\<lparr>rq_method := s\<rparr>) (put_str v (rq_method r))
      else if equal_fold k ''params'' then Some (r\<lparr>rq_params := Some v\<rparr>)
      else Some r)"

definition empty_request :: request where
  "empty_request = \<lparr>rq_id = None, rq_method = [], rq_params = None\<rparr>"

definition unmarshal_requests :: "gval option \<Rightarrow> request list option" where
  "unmarshal_requests raw =
     (case raw of
        Some (GList vs) \<Rightarrow> those (map (\<lambda>v. decode_value step_request v empty_request) vs)
      | Some GNil \<Rightarrow> Some []
      | _ \<Rightarrow> None)"

text \<open>A request body: what is sent, or the error reading it; 16 MiB of it are read.\<close>

definition max_body :: nat where "max_body = 16 * 1024 * 1024"

definition post_trimmed :: "string \<Rightarrow> string" where
  "post_trimmed b = trim_space (take max_body b)"

fun batch_loop ::
  "(gval \<Rightarrow> string + string) \<Rightarrow> 'w server \<Rightarrow> request list \<Rightarrow> response list \<Rightarrow> 'w \<Rightarrow> response list \<times> 'w" where
  "batch_loop m s [] responses w = (responses, w)"
| "batch_loop m s (r # rs) responses w =
     (case Dispatch m s r None w of (resp, c, w') \<Rightarrow>
        batch_loop m s rs (case resp of None \<Rightarrow> responses | Some x \<Rightarrow> responses @ [x]) w')"

definition handleHTTPBatch ::
  "(gval \<Rightarrow> string + string) \<Rightarrow> (string \<Rightarrow> gval option) \<Rightarrow> 'w server \<Rightarrow> string \<Rightarrow> 'w \<Rightarrow> http_response \<times> 'w" where
  "handleHTTPBatch m parse s body w =
     (case unmarshal_requests (parse body) of
        None \<Rightarrow> (writeHTTPError None ErrParse DecodeMsg, w)
      | Some reqs \<Rightarrow>
          (case batch_loop m s reqs [] w of (responses, w') \<Rightarrow>
             (if responses = [] then http_accepted else writeJSONResponse (BResponses responses), w')))"

definition handleHTTPPost ::
  "(gval \<Rightarrow> string + string) \<Rightarrow> (string \<Rightarrow> gval option) \<Rightarrow> 'w server \<Rightarrow> string + string \<Rightarrow> 'w \<Rightarrow> http_response \<times> 'w" where
  "handleHTTPPost m parse s body w =
     (case body of
        Inl e \<Rightarrow> (writeHTTPError None ErrParse (Msg e), w)
      | Inr b \<Rightarrow>
          let trimmed = post_trimmed b
          in if trimmed \<noteq> [] \<and> hd trimmed = CHR ''['' then handleHTTPBatch m parse s trimmed w
             else (case unmarshal step_request empty_request (parse trimmed) of
                     None \<Rightarrow> (writeHTTPError None ErrParse DecodeMsg, w)
                   | Some req \<Rightarrow>
                       (case Dispatch m s req None w of
                          (None, c, w') \<Rightarrow> (http_accepted, w')
                        | (Some resp, c, w') \<Rightarrow> (writeJSONResponse (BResponse resp), w'))))"

text \<open>A GET: the stream is a session that takes no requests from the server, registered under
  a fresh name \<open>i\<close> until the client goes away.\<close>

definition handleHTTPGet :: "bool \<Rightarrow> nat \<Rightarrow> 'v \<Rightarrow> 'v hub \<Rightarrow> http_response \<times> 'v hub" where
  "handleHTTPGet can_flush i v h =
     (if \<not> can_flush then (\<lparr>hr_status = 500, hr_headers = [], hr_body = BText ''streaming unsupported''\<rparr>, h)
      else (\<lparr>hr_status = 200,
              hr_headers = [(''Content-Type'', ''text/event-stream''), (''Cache-Control'', ''no-cache''),
                            (''Connection'', ''keep-alive'')],
              hr_body = BStream\<rparr>,
            addSession i (newSession False v) h))"

text \<open>How one message is framed on the stream.\<close>

definition sse_frame :: "string \<Rightarrow> string" where
  "sse_frame b = ''data: '' @ b @ [CHR 0x0A, CHR 0x0A]"

definition HTTPHandler ::
  "(gval \<Rightarrow> string + string) \<Rightarrow> (string \<Rightarrow> gval option) \<Rightarrow> 'w server \<Rightarrow> bool \<Rightarrow> nat \<Rightarrow> 'v \<Rightarrow> string \<Rightarrow> string + string
     \<Rightarrow> 'w \<times> 'v hub \<Rightarrow> http_response \<times> 'w \<times> 'v hub" where
  "HTTPHandler m parse s can_flush i v meth body st =
     (case st of (w, h) \<Rightarrow>
        if meth = ''POST'' then (case handleHTTPPost m parse s body w of (r, w') \<Rightarrow> (r, w', h))
        else if meth = ''GET'' then (case handleHTTPGet can_flush i v h of (r, h') \<Rightarrow> (r, w, h'))
        else (\<lparr>hr_status = 405, hr_headers = [(''Allow'', ''GET, POST'')], hr_body = BText ''method not allowed''\<rparr>, w, h))"

section \<open>Standard input and output\<close>

definition isSpace :: "char \<Rightarrow> bool" where
  "isSpace c \<longleftrightarrow> c = CHR '' '' \<or> c = CHR 0x09 \<or> c = CHR 0x0D \<or> c = CHR 0x0A"

definition trimSpace :: "string \<Rightarrow> string" where
  "trimSpace b = rev (dropWhile isSpace (rev (dropWhile isSpace b)))"

text \<open>\<open>bufio.Scanner\<close> with \<open>ScanLines\<close> and a buffer of \<open>mx\<close> bytes: the lines, and whether one was
  too long, where it stops.\<close>

definition drop_cr :: "string \<Rightarrow> string" where
  "drop_cr l = (if l \<noteq> [] \<and> last l = CHR 0x0D then butlast l else l)"

fun scan_lines :: "nat \<Rightarrow> string \<Rightarrow> string \<Rightarrow> string list \<times> bool" where
  "scan_lines mx cur [] =
     (if length cur \<ge> mx then ([], True) else if cur = [] then ([], False) else ([drop_cr cur], False))"
| "scan_lines mx cur (c # cs) =
     (if length cur \<ge> mx then ([], True)
      else if c = CHR 0x0A then (case scan_lines mx [] cs of (ls, e) \<Rightarrow> (drop_cr cur # ls, e))
      else scan_lines mx (cur @ [c]) cs)"

definition max_line :: nat where "max_line = 16 * 1024 * 1024"

text \<open>The lines the loop passes to the session; \<open>cancelled n\<close> tells whether the context is done
  when the n-th line has been scanned.\<close>

fun serve_loop :: "(nat \<Rightarrow> bool) \<Rightarrow> nat \<Rightarrow> string list \<Rightarrow> string list" where
  "serve_loop cancelled n [] = []"
| "serve_loop cancelled n (l # ls) =
     (if cancelled n then []
      else if length (trimSpace l) = 0 then serve_loop cancelled (Suc n) ls
      else l # serve_loop cancelled (Suc n) ls)"

definition stdio_lines :: "(nat \<Rightarrow> bool) \<Rightarrow> string \<Rightarrow> string list" where
  "stdio_lines cancelled input = serve_loop cancelled 0 (fst (scan_lines max_line [] input))"

fun line_of :: "label \<Rightarrow> gval option option" where
  "line_of (LLine line) = Some line"
| "line_of _ = None"

text \<open>A complete run of \<open>ServeStdio\<close>: a new session that takes requests reads exactly the lines
  of the loop, whatever else happens in between, and the wait for the handlers is over.\<close>

definition ServeStdio ::
  "(gval \<Rightarrow> string + string) \<Rightarrow> (string \<Rightarrow> gval option) \<Rightarrow> 'w server \<Rightarrow> (nat \<Rightarrow> bool) \<Rightarrow> string \<Rightarrow> 'w
     \<Rightarrow> label list \<Rightarrow> 'w sess \<Rightarrow> bool" where
  "ServeStdio m parse s cancelled input w ls ss \<longleftrightarrow>
     sess_run m s (newSession True w) ls ss
     \<and> List.map_filter line_of ls = map parse (stdio_lines cancelled input) \<and> ss_jobs ss = []"

definition handleLine ::
  "(gval \<Rightarrow> string + string) \<Rightarrow> (string \<Rightarrow> gval option) \<Rightarrow> 'w server \<Rightarrow> string \<Rightarrow> 'w \<Rightarrow> response option \<times> 'w" where
  "handleLine m parse s line w =
     (case unmarshal step_request empty_request (parse line) of
        None \<Rightarrow> (Some (errorResponse None (newError ErrParse DecodeMsg)), w)
      | Some req \<Rightarrow> (case Dispatch m s req None w of (resp, c, w') \<Rightarrow> (resp, w')))"

section \<open>Facts\<close>

text \<open>Posting bodies one after the other.\<close>

fun post_all ::
  "(gval \<Rightarrow> string + string) \<Rightarrow> (string \<Rightarrow> gval option) \<Rightarrow> 'w server \<Rightarrow> string list \<Rightarrow> 'w \<Rightarrow> http_response list \<times> 'w" where
  "post_all m parse s [] w = ([], w)"
| "post_all m parse s (b # bs) w =
     (case handleHTTPPost m parse s (Inr b) w of (r, w1) \<Rightarrow>
        (case post_all m parse s bs w1 of (rs, w2) \<Rightarrow> (r # rs, w2)))"

definition replies_of :: "http_response \<Rightarrow> response list" where
  "replies_of r = (case hr_body r of BResponse x \<Rightarrow> [x] | BResponses xs \<Rightarrow> xs | _ \<Rightarrow> [])"

text \<open>A body that is one message, and the tree it parses to; a body that is a batch.\<close>

definition single_body :: "(string \<Rightarrow> gval option) \<Rightarrow> string \<Rightarrow> gval \<Rightarrow> bool" where
  "single_body parse b v \<longleftrightarrow>
     parse (post_trimmed b) = Some v \<and> \<not> (post_trimmed b \<noteq> [] \<and> hd (post_trimmed b) = CHR ''['')
     \<and> decode_value step_request v empty_request \<noteq> None"

definition batch_body :: "(string \<Rightarrow> gval option) \<Rightarrow> string \<Rightarrow> gval list \<Rightarrow> bool" where
  "batch_body parse b vs \<longleftrightarrow>
     parse (post_trimmed b) = Some (GList vs) \<and> post_trimmed b \<noteq> [] \<and> hd (post_trimmed b) = CHR ''[''"

lemma post_single:
  assumes "single_body parse b v" "decode_value step_request v empty_request = Some req"
  shows "handleHTTPPost m parse s (Inr b) w =
     (case Dispatch m s req None w of (resp, c, w') \<Rightarrow>
        (case resp of None \<Rightarrow> http_accepted | Some x \<Rightarrow> writeJSONResponse (BResponse x), w'))"
proof -
  have d: "unmarshal step_request empty_request (parse (post_trimmed b)) = Some req"
    using assms by (simp add: single_body_def unmarshal_def)
  have n: "(post_trimmed b \<noteq> [] \<and> hd (post_trimmed b) = CHR ''['') = False"
    using assms by (simp add: single_body_def)
  show ?thesis
    unfolding handleHTTPPost_def Let_def sum.case n if_False d option.case
    by (auto split: prod.splits option.splits)
qed

lemma batch_loop_append:
  "batch_loop m s rs acc w = (case batch_loop m s rs [] w of (xs, w') \<Rightarrow> (acc @ xs, w'))"
proof (induction rs arbitrary: acc w)
  case Nil
  then show ?case by simp
next
  case (Cons r rs)
  obtain resp c w1 where d: "Dispatch m s r None w = (resp, c, w1)" by (metis prod_cases3)
  show ?case
    using Cons.IH [of "acc @ [the resp]" w1] Cons.IH [of acc w1] Cons.IH [of "[the resp]" w1]
    by (cases resp) (auto simp: d split: prod.splits)
qed

lemma accepted_replies [simp]:
  "replies_of http_accepted = []" "replies_of (writeJSONResponse (BResponse x)) = [x]"
  "replies_of (writeJSONResponse (BResponses xs)) = xs"
  by (simp_all add: replies_of_def http_accepted_def writeJSONResponse_def)

lemma batch_posts:
  assumes "list_all2 (single_body parse) bs vs"
  shows "\<exists>reqs. those (map (\<lambda>v. decode_value step_request v empty_request) vs) = Some reqs
    \<and> (\<forall>w. batch_loop m s reqs [] w =
          (concat (map replies_of (fst (post_all m parse s bs w))), snd (post_all m parse s bs w)))"
  using assms
proof (induction rule: list_all2_induct)
  case Nil
  then show ?case by simp
next
  case (Cons b bs v vs)
  then obtain reqs where th: "those (map (\<lambda>v. decode_value step_request v empty_request) vs) = Some reqs"
    and ih: "\<And>w. batch_loop m s reqs [] w =
        (concat (map replies_of (fst (post_all m parse s bs w))), snd (post_all m parse s bs w))" by blast
  from Cons.hyps(1) obtain req where r: "decode_value step_request v empty_request = Some req"
    unfolding single_body_def by blast
  note post = post_single [OF Cons.hyps(1) r, where m = m and s = s]
  have "batch_loop m s (req # reqs) [] w =
      (concat (map replies_of (fst (post_all m parse s (b # bs) w))), snd (post_all m parse s (b # bs) w))" for w
  proof -
    obtain resp c w1 where d: "Dispatch m s req None w = (resp, c, w1)" by (metis prod_cases3)
    show ?thesis
    proof (cases resp)
      case None
      with post [of w] d show ?thesis by (simp add: ih split: prod.split)
    next
      case (Some x)
      with post [of w] d show ?thesis
        using batch_loop_append [of m s reqs "[x]" w1] by (simp add: ih split: prod.split)
    qed
  qed
  then show ?case using th r by (intro exI [of _ "req # reqs"]) simp
qed

section \<open>Properties\<close>

text \<open>
  A batch is answered like its messages posted one after the other. The handlers
  run in the order of the batch and leave the same state behind; the reply is the array of the
  replies, in that order, without the notifications, and 202 without a body when nothing is
  left.
\<close>

theorem http_batch_sequential:
  assumes "batch_body parse b vs" and "list_all2 (single_body parse) bs vs"
  shows "handleHTTPPost m parse s (Inr b) w =
     (case post_all m parse s bs w of (rs, w') \<Rightarrow>
        (if concat (map replies_of rs) = [] then http_accepted
         else writeJSONResponse (BResponses (concat (map replies_of rs))), w'))"
proof -
  from batch_posts [OF assms(2), of m s] obtain reqs where
    th: "those (map (\<lambda>v. decode_value step_request v empty_request) vs) = Some reqs"
    and bl: "batch_loop m s reqs [] w =
        (concat (map replies_of (fst (post_all m parse s bs w))), snd (post_all m parse s bs w))" by blast
  have c: "(post_trimmed b \<noteq> [] \<and> hd (post_trimmed b) = CHR ''['') = True"
    and p: "parse (post_trimmed b) = Some (GList vs)"
    using assms(1) by (simp_all add: batch_body_def)
  show ?thesis
    unfolding handleHTTPPost_def Let_def sum.case c if_True handleHTTPBatch_def p unmarshal_requests_def
      option.case gval.case th bl
    by (simp split: prod.split)
qed

definition demo_ping_tree :: gval where
  "demo_ping_tree = GMap [(''id'', GInt 7), (''method'', GStr ''ping'')]"

definition demo_parse :: "string \<Rightarrow> gval option" where
  "demo_parse b = (if b = ''[p]'' then Some (GList [demo_ping_tree]) else if b = ''p'' then Some demo_ping_tree else None)"

lemma demo_bodies: "batch_body demo_parse '' [p]'' [demo_ping_tree] \<and> list_all2 (single_body demo_parse) [''p''] [demo_ping_tree]"
proof
  have t: "post_trimmed '' [p]'' = ''[p]''" "post_trimmed ''p'' = ''p''"
    by (simp_all add: post_trimmed_def max_body_def trim_both_def trim_left_def trim_right_def is_space_def)
  have f: "\<not> equal_fold ''id'' ''jsonrpc''" "equal_fold ''id'' ''id''" "\<not> equal_fold ''method'' ''jsonrpc''"
    "\<not> equal_fold ''method'' ''id''" "equal_fold ''method'' ''method''" by code_simp+
  show "batch_body demo_parse '' [p]'' [demo_ping_tree]" by (simp add: batch_body_def t demo_parse_def)
  show "list_all2 (single_body demo_parse) [''p''] [demo_ping_tree]"
    by (simp add: single_body_def t demo_parse_def demo_ping_tree_def decode_value_def step_request_def put_str_def f)
qed

theorem http_batch_sequential_witness:
  "handleHTTPPost demo_marshal demo_parse (New ''s'' []) (Inr '' [p]'') () =
     (case post_all demo_marshal demo_parse (New ''s'' []) [''p''] () of (rs, w') \<Rightarrow>
        (if concat (map replies_of rs) = [] then http_accepted
         else writeJSONResponse (BResponses (concat (map replies_of rs))), w'))"
  by (rule http_batch_sequential [OF conjunct1 [OF demo_bodies] conjunct2 [OF demo_bodies]])

text \<open>Requests served one after the other: whether the connection can be flushed, the name and
  state of a stream it would open, method and body.\<close>

type_synonym 'v http_request = "bool \<times> nat \<times> 'v \<times> string \<times> (string + string)"

fun http_all ::
  "(gval \<Rightarrow> string + string) \<Rightarrow> (string \<Rightarrow> gval option) \<Rightarrow> 'w server \<Rightarrow> 'v http_request list
     \<Rightarrow> 'w \<times> 'v hub \<Rightarrow> http_response list \<times> 'w \<times> 'v hub" where
  "http_all m parse s [] st = ([], st)"
| "http_all m parse s ((fl, i, v, meth, body) # rqs) st =
     (case HTTPHandler m parse s fl i v meth body st of (r, st1) \<Rightarrow>
        (case http_all m parse s rqs st1 of (rs, st2) \<Rightarrow> (r # rs, st2)))"

definition decodable :: "(string \<Rightarrow> gval option) \<Rightarrow> string + string \<Rightarrow> bool" where
  "decodable parse body =
     (case body of
        Inl e \<Rightarrow> False
      | Inr b \<Rightarrow> (let t = post_trimmed b
                 in if t \<noteq> [] \<and> hd t = CHR ''['' then unmarshal_requests (parse t) \<noteq> None
                    else unmarshal step_request empty_request (parse t) \<noteq> None))"

definition posts_of :: "(string \<Rightarrow> gval option) \<Rightarrow> 'v http_request list \<Rightarrow> (string + string) list" where
  "posts_of parse rqs = concat (map (\<lambda>(fl, i, v, meth, body). if meth = ''POST'' \<and> decodable parse body then [body] else []) rqs)"

definition streams_of :: "'v http_request list \<Rightarrow> (nat \<times> 'v) list" where
  "streams_of rqs = concat (map (\<lambda>(fl, i, v, meth, body). if meth = ''GET'' \<and> fl then [(i, v)] else []) rqs)"

definition status_of :: "'v http_request \<Rightarrow> nat set" where
  "status_of = (\<lambda>(fl, i, v, meth, body).
     if meth = ''POST'' then {200, 202} else if meth = ''GET'' then (if fl then {200} else {500}) else {405})"

lemma undecodable_post: "\<not> decodable parse body \<Longrightarrow> snd (handleHTTPPost m parse s body w) = w"
  by (auto simp: decodable_def handleHTTPPost_def handleHTTPBatch_def Let_def split: sum.splits if_splits option.splits)

lemma post_status: "hr_status (fst (handleHTTPPost m parse s body w)) \<in> {200, 202}"
  by (auto simp: handleHTTPPost_def handleHTTPBatch_def Let_def writeHTTPError_def writeJSONResponse_def
      http_accepted_def split: sum.splits option.splits prod.splits)

lemma handler_status: "hr_status (fst (HTTPHandler m parse s fl i v meth body st)) \<in> status_of (fl, i, v, meth, body)"
  using post_status [of m parse s body "fst st"]
  by (auto simp: HTTPHandler_def handleHTTPGet_def status_of_def split: prod.split)

lemma handler_world:
  "fst (snd (HTTPHandler m parse s fl i v meth body st)) =
     fold (\<lambda>b w. snd (handleHTTPPost m parse s b w)) (posts_of parse [(fl, i, v, meth, body)]) (fst st)"
  using undecodable_post [of parse body m s "fst st"]
  by (cases st) (auto simp: HTTPHandler_def posts_of_def split: prod.split)

lemma handler_hub:
  "snd (snd (HTTPHandler m parse s fl i v meth body st)) =
     fold (\<lambda>(i, v). addSession i (newSession False v)) (streams_of [(fl, i, v, meth, body)]) (snd st)"
  by (cases st) (simp add: HTTPHandler_def handleHTTPGet_def streams_of_def split: prod.split)

lemma one_request:
  "posts_of parse (rq # rqs) = posts_of parse [rq] @ posts_of parse rqs"
  "streams_of (rq # rqs) = streams_of [rq] @ streams_of rqs"
  by (simp_all add: posts_of_def streams_of_def)

text \<open>
  What a sequence of HTTP requests does. The state of the handlers is what the
  decodable POST bodies alone make of it, in order: bodies that cannot be read or decoded, GETs
  and other methods run no handler. The connected sessions gain exactly one stream per GET that
  can be flushed, opened without subscriptions and unable to carry requests; POSTs never touch
  them. Every request is answered, with a status that depends on its method only in the way the
  table says: 200 or 202, 200 or 500, and 405.
\<close>

theorem http_isolation:
  "case http_all m parse s rqs (w, h) of (rs, w', h') \<Rightarrow>
     w' = fold (\<lambda>b w. snd (handleHTTPPost m parse s b w)) (posts_of parse rqs) w
   \<and> h' = fold (\<lambda>(i, v). addSession i (newSession False v)) (streams_of rqs) h
   \<and> list_all2 (\<lambda>rq r. hr_status r \<in> status_of rq) rqs rs"
proof (induction rqs arbitrary: w h)
  case Nil
  then show ?case by (simp add: posts_of_def streams_of_def)
next
  case (Cons rq rqs)
  obtain fl i v meth body where rq: "rq = (fl, i, v, meth, body)" by (metis prod_cases5)
  obtain r w1 h1 where st: "HTTPHandler m parse s fl i v meth body (w, h) = (r, w1, h1)" by (metis prod_cases3)
  obtain rs w2 h2 where all: "http_all m parse s rqs (w1, h1) = (rs, w2, h2)" by (metis prod_cases3)
  note step = handler_status [of m parse s fl i v meth body "(w, h)", unfolded st]
    handler_world [of m parse s fl i v meth body "(w, h)", unfolded st]
    handler_hub [of m parse s fl i v meth body "(w, h)", unfolded st]
  from Cons.IH [of w1 h1] all step show ?case
    unfolding one_request(1) [of parse rq rqs] one_request(2) [of rq rqs] by (simp add: rq st)
qed

text \<open>The lines of an event stream, read the way the EventSource format prescribes: data lines
  accumulate and an empty line ends the event.\<close>

fun sse_read :: "string list \<Rightarrow> string list \<Rightarrow> string list" where
  "sse_read cur [] = []"
| "sse_read cur (l # ls) =
     (if l = [] then (if cur = [] then sse_read [] ls else join_with [CHR 0x0A] cur # sse_read [] ls)
      else if has_prefix l ''data: '' then sse_read (cur @ [drop 6 l]) ls
      else sse_read cur ls)"

lemma split_on_line: "c \<notin> set a \<Longrightarrow> split_on c (a @ c # s) = a # split_on c s"
  by (induction a) auto

lemma sse_frame_read:
  assumes "CHR 0x0A \<notin> set b"
  shows "sse_read [] (split_on (CHR 0x0A) (sse_frame b @ s)) = b # sse_read [] (split_on (CHR 0x0A) s)"
proof -
  have "split_on (CHR 0x0A) (''data: '' @ b @ [CHR 0x0A, CHR 0x0A] @ s) = (''data: '' @ b) # [] # split_on (CHR 0x0A) s"
    using split_on_line [of "CHR 0x0A" "''data: '' @ b" "CHR 0x0A # s"]
      split_on_line [of "CHR 0x0A" "[]" s] assms by simp
  then show ?thesis by (simp add: sse_frame_def)
qed

text \<open>
  Event stream framing. Whatever messages are written to a stream, an EventSource reader
  gets exactly those messages back, in order, none merged, split or lost, provided no encoded
  message has a line break, which JSON encoding guarantees.
\<close>

theorem sse_frames_roundtrip:
  assumes "list_all (\<lambda>b. CHR 0x0A \<notin> set b) msgs"
  shows "sse_read [] (split_on (CHR 0x0A) (concat (map sse_frame msgs))) = msgs"
  using assms by (induction msgs) (simp_all add: sse_frame_read)

theorem sse_frames_roundtrip_witness:
  "sse_read [] (split_on (CHR 0x0A) (concat (map sse_frame [''1'', ''{}'']))) = [''1'', ''{}'']"
  by (rule sse_frames_roundtrip) simp

section \<open>Serving standard input\<close>

lemma mf_simps [simp]:
  "List.map_filter line_of [] = []" "List.map_filter line_of (xs @ ys) = List.map_filter line_of xs @ List.map_filter line_of ys"
  "List.map_filter line_of [LLine l] = [l]" "List.map_filter line_of [LRun i] = []"
  by (simp_all add: List.map_filter_def)

lemma line_ids_of: "concat (map label_ids ls) = concat (map line_ids (List.map_filter line_of ls))"
proof (induction ls)
  case Nil
  then show ?case by simp
next
  case (Cons l ls)
  then show ?case by (cases l) (simp_all add: List.map_filter_def label_ids_def)
qed

text \<open>A connection without server-to-client requests never blocks, and its handlers can always
  be finished.\<close>

definition calm :: "'w sess \<Rightarrow> bool" where
  "calm ss \<longleftrightarrow> ss_pending ss = Map.empty \<and> ss_blocked ss = None"

lemma calm_handle: "calm ss \<Longrightarrow> calm (handle line ss)"
  by (auto simp: calm_def handle_def deliver_def frame_rules split: option.splits)

lemma read_all:
  assumes "sess_run m s ss0 ls ss" "calm ss"
  shows "\<exists>ls' ss'. sess_run m s ss0 ls' ss' \<and> calm ss'
           \<and> List.map_filter line_of ls' = List.map_filter line_of ls @ lines"
  using assms
proof (induction lines arbitrary: ls ss)
  case Nil
  then show ?case by (intro exI [of _ ls] exI [of _ ss]) simp
next
  case (Cons line lines)
  have "sess_run m s ss0 (ls @ [LLine line]) (handle line ss)"
    by (rule run_snoc [OF Cons.prems(1)], rule read_line) (use Cons.prems(2) in \<open>simp add: calm_def\<close>)
  from Cons.IH [OF this calm_handle [OF Cons.prems(2)]] show ?case by simp
qed

lemma drain:
  assumes "sess_run m s ss0 ls ss"
  shows "\<exists>ls' ss'. sess_run m s ss0 ls' ss' \<and> ss_jobs ss' = [] \<and> List.map_filter line_of ls' = List.map_filter line_of ls"
  using assms
proof (induction "length (ss_jobs ss)" arbitrary: ls ss)
  case 0
  then show ?case by (intro exI [of _ ls] exI [of _ ss]) simp
next
  case (Suc n)
  from Suc.hyps(2) have lt: "0 < length (ss_jobs ss)" by linarith
  then obtain ss1 where r: "run_job m s 0 ss = Some ss1"
    by (cases "Dispatch m s (ss_jobs ss ! 0) (Some (ss_subs ss)) (ss_world ss)") (auto simp: run_job_def Let_def)
  then have "length (ss_jobs ss1) = n"
    using Suc.hyps(2) lt by (auto simp: run_job_def Let_def frame_rules split: prod.splits option.splits)
  with Suc.hyps(1) [of ss1 "ls @ [LRun 0]"] run_snoc [OF Suc.prems finish_job [OF r]] show ?case by simp
qed

lemma serve_loop_all:
  "serve_loop (\<lambda>_. False) n ls = filter (\<lambda>l. trimSpace l \<noteq> []) ls"
  by (induction ls arbitrary: n) simp_all

lemma trimSpace_blank: "trimSpace l = [] \<longleftrightarrow> list_all isSpace l"
proof -
  have "dropWhile isSpace l = [] \<longleftrightarrow> list_all isSpace l" by (induction l) simp_all
  moreover have "rev (dropWhile isSpace (rev (dropWhile isSpace l))) = [] \<longleftrightarrow> dropWhile isSpace l = []"
    by (metis dropWhile_eq_Nil_conv dropWhile_idem set_rev rev_is_Nil_conv hd_dropWhile list.set_sel(1))
  ultimately show ?thesis by (simp add: trimSpace_def)
qed

lemma scan_lines_text:
  assumes "list_all (\<lambda>l. CHR 0x0A \<notin> set l \<and> length l < mx) ls"
  shows "scan_lines mx [] (concat (map (\<lambda>l. l @ [CHR 0x0A]) ls)) = (map drop_cr ls, mx = 0)"
proof -
  have one: "CHR 0x0A \<notin> set l \<Longrightarrow> length (cur @ l) < mx \<Longrightarrow>
      scan_lines mx cur (l @ CHR 0x0A # s) = (case scan_lines mx [] s of (ts, e) \<Rightarrow> (drop_cr (cur @ l) # ts, e))" for l cur s
    by (induction l arbitrary: cur) auto
  from assms show ?thesis
  proof (induction ls)
    case Nil
    then show ?case by simp
  next
    case (Cons l ls)
    then show ?case using one [of l "[]"] by simp
  qed
qed

text \<open>
  C27: serving standard input. For every input ServeStdio has a run that returns, and
  whatever the schedule of handlers, server requests, answers and notifications, when it returns
  the replies written are exactly one per request with an id on its non-blank lines, under that
  id, plus one without an id for each line that is not a message. Blank lines are skipped, and
  unless the context is cancelled no other line is.
\<close>

theorem stdio_serves_all:
  "(\<exists>ls ss. ServeStdio m parse s cancelled input w ls ss)
   \<and> (ServeStdio m parse s cancelled input w ls ss \<longrightarrow>
        mset (reply_ids (ss_out ss)) = mset (concat (map line_ids (map parse (stdio_lines cancelled input)))))
   \<and> stdio_lines (\<lambda>_. False) input = filter (\<lambda>l. \<not> list_all isSpace l) (fst (scan_lines max_line [] input))"
proof (intro conjI impI)
  have "calm (newSession True w)" by (simp add: calm_def newSession_def)
  from read_all [OF run_Nil this, of m s "map parse (stdio_lines cancelled input)"]
  obtain ls1 ss1 where "sess_run m s (newSession True w) ls1 ss1"
    and l: "List.map_filter line_of ls1 = map parse (stdio_lines cancelled input)" by auto
  from drain [OF this(1)] l show "\<exists>ls ss. ServeStdio m parse s cancelled input w ls ss"
    unfolding ServeStdio_def by auto
  show "mset (reply_ids (ss_out ss)) = mset (concat (map line_ids (map parse (stdio_lines cancelled input))))"
    if "ServeStdio m parse s cancelled input w ls ss"
    using that run_ids [of m s "newSession True w" ls ss]
    by (simp add: ServeStdio_def line_ids_of newSession_def)
  show "stdio_lines (\<lambda>_. False) input = filter (\<lambda>l. \<not> list_all isSpace l) (fst (scan_lines max_line [] input))"
    by (simp add: stdio_lines_def serve_loop_all trimSpace_blank)
qed

text \<open>A decoded message as the only text a parser knows, and a run over it between blank lines.\<close>

definition ping_line_parse :: "string \<Rightarrow> gval option" where
  "ping_line_parse b = (if b = ''p'' then demo_line else None)"

theorem stdio_serves_all_witness:
  "\<exists>ls ss. ServeStdio demo_marshal ping_line_parse (New ''s'' []) (\<lambda>_. False) [CHR 0x0A, CHR ''p'', CHR 0x0A] () ls ss
     \<and> reply_ids (ss_out ss) = [Some (GFloat 1)]"
proof -
  let ?i = "[CHR 0x0A, CHR ''p'', CHR 0x0A]"
  have l: "stdio_lines (\<lambda>_. False) ?i = [''p'']"
    by (simp add: stdio_lines_def max_line_def drop_cr_def trimSpace_def isSpace_def)
  obtain ls ss where r: "ServeStdio demo_marshal ping_line_parse (New ''s'' []) (\<lambda>_. False) ?i () ls ss"
    using stdio_serves_all [of demo_marshal ping_line_parse "New ''s'' []" "\<lambda>_. False" ?i "()"] by blast
  then have "mset (reply_ids (ss_out ss)) = mset (concat (map line_ids (map ping_line_parse (stdio_lines (\<lambda>_. False) ?i))))"
    by (rule stdio_serves_all [THEN conjunct2, THEN conjunct1, THEN mp])
  then have "mset (reply_ids (ss_out ss)) = {#Some (GFloat 1)#}"
    unfolding l by (simp add: ping_line_parse_def line_ids_def demo_inbound)
  with r show ?thesis by (intro exI conjI) auto
qed

end
