(* ===== verification/Middleware.thy ===== *)
theory Middleware
  imports Prelude GoStd McpError Dispatch
begin

text \<open>
  The middleware pipeline, \<open>src/middleware/\<close>. A handler acts on the request context and a world
  and returns a response or panics; the context is threaded because the code shares one pointer.
  The world holds what the middlewares keep behind their pointers: the readings of the clock,
  the buckets and counters of each instance, the log, the connection, and the state of the
  wrapped server's handlers. Times are nanoseconds, token counts exact rationals where the code has float64.
\<close>

section \<open>Contexts and handlers\<close>

datatype mc_key = TimingKey | UserKey gval

record mctx =
  mc_method :: string
  mc_id :: "gval option"
  mc_params :: "gval option"
  mc_fmcp :: "request option"
  mc_values :: "mc_key \<rightharpoonup> gval"

datatype outcome = Returned "response option" | Panicked string

record bucket =
  bk_tokens :: rat
  bk_last :: int

record method_stats =
  st_total :: int
  st_success :: int
  st_errors :: int
  st_duration :: int

datatype slog_level = SDebug | SInfo | SWarn | SError

record log_record =
  lr_level :: slog_level
  lr_msg :: string
  lr_attrs :: "(string \<times> gval) list"

record 'u world =
  wd_clock :: "nat \<Rightarrow> int"
  wd_reads :: nat
  wd_buckets :: "nat \<Rightarrow> string \<rightharpoonup> bucket"
  wd_stats :: "nat \<Rightarrow> string \<rightharpoonup> method_stats"
  wd_log :: "log_record list"
  wd_conn :: conn
  wd_user :: 'u

type_synonym 'u handler = "mctx \<Rightarrow> 'u world \<Rightarrow> outcome \<times> mctx \<times> 'u world"
type_synonym 'u hook = "mctx \<Rightarrow> 'u handler \<Rightarrow> 'u world \<Rightarrow> outcome \<times> mctx \<times> 'u world"

text \<open>What follows a call: skipped when the call panics.\<close>

definition andThen ::
  "outcome \<times> mctx \<times> 'u world \<Rightarrow> (response option \<Rightarrow> mctx \<Rightarrow> 'u world \<Rightarrow> outcome \<times> mctx \<times> 'u world)
     \<Rightarrow> outcome \<times> mctx \<times> 'u world" where
  "andThen x k = (case x of (Returned r, mc, w) \<Rightarrow> k r mc w | (Panicked v, mc, w) \<Rightarrow> (Panicked v, mc, w))"

text \<open>Reading the clock.\<close>

definition now_of :: "'u world \<Rightarrow> int" where
  "now_of w = wd_clock w (wd_reads w)"

definition tick :: "'u world \<Rightarrow> 'u world" where
  "tick w = w\<lparr>wd_reads := Suc (wd_reads w)\<rparr>"

definition NewMiddlewareContext :: "request option \<Rightarrow> mctx" where
  "NewMiddlewareContext req =
     (case req of
        None \<Rightarrow> \<lparr>mc_method = [], mc_id = None, mc_params = None, mc_fmcp = None, mc_values = Map.empty\<rparr>
      | Some r \<Rightarrow> \<lparr>mc_method = rq_method r, mc_id = rq_id r, mc_params = rq_params r, mc_fmcp = None,
                  mc_values = Map.empty\<rparr>)"

definition FromFastMCPContext :: "request option \<Rightarrow> mctx" where
  "FromFastMCPContext c =
     (case c of None \<Rightarrow> NewMiddlewareContext None
      | Some r \<Rightarrow> (NewMiddlewareContext (Some r))\<lparr>mc_fmcp := Some r\<rparr>)"

definition mc_IsNotification :: "mctx \<Rightarrow> bool" where
  "mc_IsNotification mc \<longleftrightarrow> mc_id mc = None"

definition SetValue :: "mc_key \<Rightarrow> gval \<Rightarrow> mctx \<Rightarrow> mctx" where
  "SetValue k v mc = mc\<lparr>mc_values := (mc_values mc)(k \<mapsto> v)\<rparr>"

definition mc_Value :: "mctx \<Rightarrow> mc_key \<Rightarrow> gval option" where
  "mc_Value mc k = mc_values mc k"

definition mw_errorResponse :: "mctx \<Rightarrow> int \<Rightarrow> rpc_msg \<Rightarrow> response option" where
  "mw_errorResponse mc c msg =
     (if mc_IsNotification mc then None else Some \<lparr>rs_id = mc_id mc, rs_result = None, rs_error = Some (newError c msg)\<rparr>)"

section \<open>Middlewares and chains\<close>

record 'u middleware =
  OnRequest :: "'u hook"
  OnCallTool :: "'u hook"
  OnListTools :: "'u hook"
  OnReadResource :: "'u hook"
  OnGetPrompt :: "'u hook"

definition pass :: "'u hook" where
  "pass mc next w = next mc w"

definition Base :: "'u middleware" where
  "Base = \<lparr>OnRequest = pass, OnCallTool = pass, OnListTools = pass, OnReadResource = pass, OnGetPrompt = pass\<rparr>"

definition Func :: "'u hook \<Rightarrow> 'u middleware" where
  "Func f = Base\<lparr>OnRequest := f\<rparr>"

definition wrap_mw :: "'u middleware \<Rightarrow> 'u handler \<Rightarrow> 'u handler" where
  "wrap_mw m next = (\<lambda>mc.
     OnRequest m mc
       (\<lambda>mc. if mc_method mc = ''tools/call'' then OnCallTool m mc next
             else if mc_method mc = ''tools/list'' then OnListTools m mc next
             else if mc_method mc = ''resources/read'' then OnReadResource m mc next
             else if mc_method mc = ''prompts/get'' then OnGetPrompt m mc next
             else next mc))"

text \<open>\<open>Then\<close>: the loop from the last middleware to the first.\<close>

fun wrap_loop :: "'u middleware list \<Rightarrow> 'u handler \<Rightarrow> 'u handler" where
  "wrap_loop [] h = h"
| "wrap_loop (m # ms) h = wrap_loop ms (wrap_mw m h)"

definition Then :: "'u middleware list \<Rightarrow> 'u handler option \<Rightarrow> 'u handler" where
  "Then ms final =
     wrap_loop (rev ms) (case final of None \<Rightarrow> \<lambda>mc w. (Returned None, mc, w) | Some h \<Rightarrow> h)"

definition Use :: "'u middleware list \<Rightarrow> 'u middleware list \<Rightarrow> 'u middleware list" where
  "Use c ms = c @ ms"

definition terminal :: "(gval \<Rightarrow> string + string) \<Rightarrow> 'u server \<Rightarrow> 'u handler" where
  "terminal m s mc w =
     (case mc_fmcp mc of
        None \<Rightarrow> (Returned (mw_errorResponse mc ErrInternal (Msg ''middleware: dispatch without a server context'')), mc, w)
      | Some r \<Rightarrow> (case Dispatch m s r (wd_conn w) (wd_user w) of
                    (resp, c, u) \<Rightarrow> (Returned resp, mc, w\<lparr>wd_conn := c, wd_user := u\<rparr>)))"

definition NewDispatcher :: "(gval \<Rightarrow> string + string) \<Rightarrow> 'u server \<Rightarrow> 'u middleware list \<Rightarrow> 'u handler" where
  "NewDispatcher m s ms = Then ms (Some (terminal m s))"

definition Dispatcher_Dispatch ::
  "(gval \<Rightarrow> string + string) \<Rightarrow> 'u server \<Rightarrow> 'u middleware list \<Rightarrow> request option \<Rightarrow> 'u world
     \<Rightarrow> outcome \<times> mctx \<times> 'u world" where
  "Dispatcher_Dispatch m s ms req w = NewDispatcher m s ms (FromFastMCPContext req) w"

section \<open>Rate limiting\<close>

definition CodeRateLimited :: int where "CodeRateLimited = - 32001"

record 'u rate_limit =
  rl_inst :: nat
  rl_capacity :: rat
  rl_refill :: rat
  rl_key :: "mctx \<Rightarrow> string"
  rl_errCode :: int
  rl_errMsg :: string
  rl_onLimited :: "mctx \<Rightarrow> 'u world \<Rightarrow> 'u world"

definition NewRateLimit :: "nat \<Rightarrow> int \<Rightarrow> rat \<Rightarrow> ('u rate_limit \<Rightarrow> 'u rate_limit) list \<Rightarrow> 'u rate_limit" where
  "NewRateLimit inst capacity refill opts =
     fold (\<lambda>opt r. opt r) opts
       \<lparr>rl_inst = inst, rl_capacity = (if of_int capacity < (1::rat) then 1 else of_int capacity), rl_refill = refill,
        rl_key = mc_method, rl_errCode = CodeRateLimited, rl_errMsg = ''rate limit exceeded'',
        rl_onLimited = (\<lambda>mc w. w)\<rparr>"

definition WithKeyFunc :: "(mctx \<Rightarrow> string) option \<Rightarrow> 'u rate_limit \<Rightarrow> 'u rate_limit" where
  "WithKeyFunc f r = (case f of None \<Rightarrow> r | Some g \<Rightarrow> r\<lparr>rl_key := g\<rparr>)"

definition WithRateLimitError :: "int \<Rightarrow> string \<Rightarrow> 'u rate_limit \<Rightarrow> 'u rate_limit" where
  "WithRateLimitError c msg r = r\<lparr>rl_errCode := c, rl_errMsg := msg\<rparr>"

definition WithOnLimited :: "(mctx \<Rightarrow> 'u world \<Rightarrow> 'u world) \<Rightarrow> 'u rate_limit \<Rightarrow> 'u rate_limit" where
  "WithOnLimited f r = r\<lparr>rl_onLimited := f\<rparr>"

text \<open>\<open>allow\<close> at time \<open>t\<close>: a new bucket is full, an old one is refilled for the time elapsed.\<close>

definition refilled :: "rat \<Rightarrow> rat \<Rightarrow> int \<Rightarrow> bucket option \<Rightarrow> bucket" where
  "refilled capacity refill t old =
     (case old of
        None \<Rightarrow> \<lparr>bk_tokens = capacity, bk_last = t\<rparr>
      | Some b \<Rightarrow>
          let elapsed = of_int (t - bk_last b) / 10 ^ 9 :: rat
          in if elapsed > 0
             then let tokens = bk_tokens b + elapsed * refill
                  in \<lparr>bk_tokens = (if tokens > capacity then capacity else tokens), bk_last = t\<rparr>
             else b)"

definition allow :: "rat \<Rightarrow> rat \<Rightarrow> int \<Rightarrow> string \<Rightarrow> (string \<rightharpoonup> bucket) \<Rightarrow> bool \<times> (string \<rightharpoonup> bucket)" where
  "allow capacity refill t key buckets =
     (let b = refilled capacity refill t (buckets key)
      in if bk_tokens b \<ge> 1 then (True, buckets(key \<mapsto> b\<lparr>bk_tokens := bk_tokens b - 1\<rparr>))
         else (False, buckets(key \<mapsto> b)))"

definition RateLimit_OnRequest :: "'u rate_limit \<Rightarrow> 'u hook" where
  "RateLimit_OnRequest r mc next w =
     (if mc_IsNotification mc then next mc w
      else (case allow (rl_capacity r) (rl_refill r) (now_of w) (rl_key r mc) (wd_buckets w (rl_inst r)) of
              (allowed, bs) \<Rightarrow>
                let w' = (tick w)\<lparr>wd_buckets := (wd_buckets w)(rl_inst r := bs)\<rparr>
                in if allowed then next mc w'
                   else (Returned (mw_errorResponse mc (rl_errCode r) (Msg (rl_errMsg r))), mc, rl_onLimited r mc w')))"

definition RateLimit :: "'u rate_limit \<Rightarrow> 'u middleware" where
  "RateLimit r = Base\<lparr>OnRequest := RateLimit_OnRequest r\<rparr>"

section \<open>Panics and errors\<close>

definition DefaultMaskedMessage :: string where
  "DefaultMaskedMessage = ''internal error''"

record 'u recovery =
  rc_Message :: string
  rc_OnPanic :: "mctx \<Rightarrow> string \<Rightarrow> 'u world \<Rightarrow> 'u world"

definition NewRecovery :: "'u recovery" where
  "NewRecovery = \<lparr>rc_Message = DefaultMaskedMessage, rc_OnPanic = (\<lambda>mc v w. w)\<rparr>"

definition Recovery_OnRequest :: "'u recovery \<Rightarrow> 'u hook" where
  "Recovery_OnRequest m mc next w =
     (case next mc w of
        (Returned r, mc', w') \<Rightarrow> (Returned r, mc', w')
      | (Panicked v, mc', w') \<Rightarrow>
          (Returned (mw_errorResponse mc' ErrInternal
             (Msg (if rc_Message m = [] then DefaultMaskedMessage else rc_Message m))), mc', rc_OnPanic m mc' v w'))"

record 'u error_handling =
  eh_Message :: string
  eh_MaskAll :: bool
  eh_IncludeError :: bool
  eh_OnError :: "mctx \<Rightarrow> rpc_error \<Rightarrow> 'u world \<Rightarrow> 'u world"

definition NewErrorHandling :: "'u error_handling" where
  "NewErrorHandling = \<lparr>eh_Message = DefaultMaskedMessage, eh_MaskAll = False, eh_IncludeError = False,
     eh_OnError = (\<lambda>mc e w. w)\<rparr>"

definition shouldMask :: "'u error_handling \<Rightarrow> rpc_error \<Rightarrow> bool" where
  "shouldMask m e = (if eh_MaskAll m then True else re_code e = ErrInternal)"

definition maskError :: "'u error_handling \<Rightarrow> rpc_error \<Rightarrow> rpc_error" where
  "maskError m e =
     \<lparr>re_code = re_code e, re_msg = Msg (if eh_Message m = [] then DefaultMaskedMessage else eh_Message m),
      re_data = (if eh_IncludeError m then Some (re_msg e) else None)\<rparr>"

definition masked :: "'u error_handling \<Rightarrow> mctx \<Rightarrow> rpc_error \<Rightarrow> response option" where
  "masked m mc e =
     (if mc_IsNotification mc then None
      else Some \<lparr>rs_id = mc_id mc, rs_result = None, rs_error = Some (maskError m e)\<rparr>)"

definition ErrorHandling_OnRequest :: "'u error_handling \<Rightarrow> 'u hook" where
  "ErrorHandling_OnRequest m mc next w =
     (case next mc w of
        (Panicked v, mc', w') \<Rightarrow>
          let e = newError ErrInternal (Msg (''panic: '' @ v))
          in (Returned (masked m mc' e), mc', eh_OnError m mc' e w')
      | (Returned None, mc', w') \<Rightarrow> (Returned None, mc', w')
      | (Returned (Some r), mc', w') \<Rightarrow>
          (case rs_error r of
             None \<Rightarrow> (Returned (Some r), mc', w')
           | Some e \<Rightarrow>
               let w'' = eh_OnError m mc' e w'
               in if \<not> shouldMask m e then (Returned (Some r), mc', w'')
                  else (Returned (Some (r\<lparr>rs_error := Some (maskError m e)\<rparr>)), mc', w'')))"

definition Recovery :: "'u recovery \<Rightarrow> 'u middleware" where
  "Recovery m = Base\<lparr>OnRequest := Recovery_OnRequest m\<rparr>"

definition ErrorHandling :: "'u error_handling \<Rightarrow> 'u middleware" where
  "ErrorHandling m = Base\<lparr>OnRequest := ErrorHandling_OnRequest m\<rparr>"

section \<open>Timing, counters and the log\<close>

definition failed :: "response option \<Rightarrow> bool" where
  "failed r \<longleftrightarrow> (case r of None \<Rightarrow> False | Some x \<Rightarrow> rs_error x \<noteq> None)"

definition Timing_OnRequest :: "(string \<Rightarrow> int \<Rightarrow> 'u world \<Rightarrow> 'u world) \<Rightarrow> 'u hook" where
  "Timing_OnRequest report mc next w =
     (let start = now_of w
      in andThen (next mc (tick w))
           (\<lambda>r mc' w'. let dur = now_of w' - start
                       in (Returned r, SetValue TimingKey (GInt dur) mc', report (mc_method mc') dur (tick w'))))"

definition DurationOf :: "mctx \<Rightarrow> int option" where
  "DurationOf mc = (case mc_Value mc TimingKey of Some (GInt d) \<Rightarrow> Some d | _ \<Rightarrow> None)"

definition zero_stats :: method_stats where
  "zero_stats = \<lparr>st_total = 0, st_success = 0, st_errors = 0, st_duration = 0\<rparr>"

definition count_stats :: "bool \<Rightarrow> int \<Rightarrow> method_stats \<Rightarrow> method_stats" where
  "count_stats err dur s =
     (let s1 = s\<lparr>st_total := st_total s + 1, st_duration := st_duration s + dur\<rparr>
      in if err then s1\<lparr>st_errors := st_errors s1 + 1\<rparr> else s1\<lparr>st_success := st_success s1 + 1\<rparr>)"

definition Metrics_OnRequest :: "nat \<Rightarrow> 'u hook" where
  "Metrics_OnRequest inst mc next w =
     (let start = now_of w
      in andThen (next mc (tick w))
           (\<lambda>r mc' w'.
              let dur = now_of w' - start;
                  stats = wd_stats w' inst;
                  s = (case stats (mc_method mc') of None \<Rightarrow> zero_stats | Some s \<Rightarrow> s)
              in (Returned r, mc',
                  (tick w')\<lparr>wd_stats := (wd_stats w')(inst := stats(mc_method mc' \<mapsto> count_stats (failed r) dur s))\<rparr>)))"

definition Snapshot :: "nat \<Rightarrow> 'u world \<Rightarrow> string \<rightharpoonup> method_stats" where
  "Snapshot inst w = wd_stats w inst"

definition Metrics_Reset :: "nat \<Rightarrow> 'u world \<Rightarrow> 'u world" where
  "Metrics_Reset inst w = w\<lparr>wd_stats := (wd_stats w)(inst := Map.empty)\<rparr>"

definition trunc_div :: "int \<Rightarrow> int \<Rightarrow> int" where
  "trunc_div a b = (if a \<ge> 0 then a div b else - ((- a) div b))"

text \<open>\<open>LogAttrs\<close>: a record for every call; which of them the handler of the logger drops by level
  is the logger's.\<close>

definition LogAttrs :: "slog_level \<Rightarrow> string \<Rightarrow> (string \<times> gval) list \<Rightarrow> 'u world \<Rightarrow> 'u world" where
  "LogAttrs l msg attrs w = w\<lparr>wd_log := wd_log w @ [\<lparr>lr_level = l, lr_msg = msg, lr_attrs = attrs\<rparr>]\<rparr>"

definition msg_gval :: "rpc_msg \<Rightarrow> gval" where
  "msg_gval m = (case m of Msg s \<Rightarrow> GStr s | DecodeMsg \<Rightarrow> GNil)"

definition Logging_OnRequest :: "slog_level \<Rightarrow> bool \<Rightarrow> 'u hook" where
  "Logging_OnRequest level log_start mc next w =
     (let w0 = (if log_start then LogAttrs level ''request started'' [(''method'', GStr (mc_method mc))] w else w);
          start = now_of w0
      in andThen (next mc (tick w0))
           (\<lambda>r mc' w'.
              let dur = now_of w' - start;
                  attrs = [(''method'', GStr (mc_method mc')), (''duration_ms'', GInt (trunc_div dur 1000000))]
              in (Returned r, mc',
                  case r of
                    None \<Rightarrow> LogAttrs level ''request completed'' (attrs @ [(''status'', GStr ''ok'')]) (tick w')
                  | Some x \<Rightarrow>
                      (case rs_error x of
                         None \<Rightarrow> LogAttrs level ''request completed'' (attrs @ [(''status'', GStr ''ok'')]) (tick w')
                       | Some e \<Rightarrow> LogAttrs SError ''request failed''
                           (attrs @ [(''status'', GStr ''error''), (''error_code'', GInt (re_code e)),
                                     (''error'', msg_gval (re_msg e))]) (tick w')))))"

definition Timing :: "(string \<Rightarrow> int \<Rightarrow> 'u world \<Rightarrow> 'u world) \<Rightarrow> 'u middleware" where
  "Timing report = Base\<lparr>OnRequest := Timing_OnRequest report\<rparr>"

definition Metrics :: "nat \<Rightarrow> 'u middleware" where
  "Metrics inst = Base\<lparr>OnRequest := Metrics_OnRequest inst\<rparr>"

definition Logging :: "slog_level \<Rightarrow> bool \<Rightarrow> 'u middleware" where
  "Logging level log_start = Base\<lparr>OnRequest := Logging_OnRequest level log_start\<rparr>"

text \<open>The constructors: the callback of \<open>NewTiming\<close>, the level and the start record of \<open>NewLogging\<close>.
  The clock overrides are for tests, a nil logger is the default one.\<close>

type_synonym 'u timing_report = "string \<Rightarrow> int \<Rightarrow> 'u world \<Rightarrow> 'u world"

definition WithReport :: "'u timing_report \<Rightarrow> 'u timing_report option \<Rightarrow> 'u timing_report option" where
  "WithReport report t = Some report"

definition NewTiming :: "('u timing_report option \<Rightarrow> 'u timing_report option) list \<Rightarrow> 'u middleware" where
  "NewTiming opts = Timing (case fold (\<lambda>opt. opt) opts None of None \<Rightarrow> (\<lambda>_ _ w. w) | Some report \<Rightarrow> report)"

record log_settings =
  lo_level :: slog_level
  lo_logStart :: bool

definition WithLogLevel :: "slog_level \<Rightarrow> log_settings \<Rightarrow> log_settings" where
  "WithLogLevel level l = l\<lparr>lo_level := level\<rparr>"

definition WithLogStart :: "log_settings \<Rightarrow> log_settings" where
  "WithLogStart l = l\<lparr>lo_logStart := True\<rparr>"

definition NewLogging :: "(log_settings \<Rightarrow> log_settings) list \<Rightarrow> 'u middleware" where
  "NewLogging opts =
     (let l = fold (\<lambda>opt. opt) opts \<lparr>lo_level = SInfo, lo_logStart = False\<rparr> in Logging (lo_level l) (lo_logStart l))"

section \<open>Facts about chains\<close>

lemma wrap_loop_append: "wrap_loop (xs @ ys) h = wrap_loop ys (wrap_loop xs h)"
  by (induction xs arbitrary: h) simp_all

lemma wrap_Base: "wrap_mw Base next = next"
  by (rule ext, rule ext) (simp add: wrap_mw_def Base_def pass_def)

lemma Func_hooks [simp]:
  "OnRequest (Func f) = f" "OnCallTool (Func f) = pass" "OnListTools (Func f) = pass"
  "OnReadResource (Func f) = pass" "OnGetPrompt (Func f) = pass"
  by (simp_all add: Func_def Base_def)

lemma wrap_Func: "wrap_mw (Func f) next mc w = f mc next w"
proof -
  have "(\<lambda>mc. if mc_method mc = ''tools/call'' then pass mc next
      else if mc_method mc = ''tools/list'' then pass mc next
      else if mc_method mc = ''resources/read'' then pass mc next
      else if mc_method mc = ''prompts/get'' then pass mc next else next mc) = next"
    by (rule ext, rule ext) (simp add: pass_def)
  then show ?thesis unfolding wrap_mw_def Func_hooks by (rule arg_cong)
qed

lemma Then_Cons: "Then (m # ms) h = wrap_mw m (Then ms h)"
  by (simp add: Then_def wrap_loop_append)

lemma Then_append: "Then (xs @ ys) h = Then xs (Some (Then ys h))"
  by (simp add: Then_def wrap_loop_append)

text \<open>A middleware that does something to the world on the way in and on the way out.\<close>

definition around :: "('u world \<Rightarrow> 'u world) \<Rightarrow> ('u world \<Rightarrow> 'u world) \<Rightarrow> 'u middleware" where
  "around pre post = Func (\<lambda>mc next w. andThen (next mc (pre w)) (\<lambda>r mc' w'. (Returned r, mc', post w')))"

section \<open>Facts about buckets\<close>

fun allow_all ::
  "rat \<Rightarrow> rat \<Rightarrow> (int \<times> string) list \<Rightarrow> (string \<rightharpoonup> bucket) \<Rightarrow> bool list \<times> (string \<rightharpoonup> bucket)" where
  "allow_all capacity refill [] bs = ([], bs)"
| "allow_all capacity refill ((t, k) # cs) bs =
     (case allow capacity refill t k bs of (a, bs1) \<Rightarrow>
        (case allow_all capacity refill cs bs1 of (rest, bs2) \<Rightarrow> (a # rest, bs2)))"

definition admitted :: "string \<Rightarrow> (int \<times> string) list \<Rightarrow> bool list \<Rightarrow> nat" where
  "admitted k calls results = length (filter (\<lambda>(c, a). snd c = k \<and> a) (zip calls results))"

text \<open>What is left in a bucket and what it gave out since \<open>t0\<close>, against what came in.\<close>

definition bucket_ok :: "rat \<Rightarrow> bucket option \<Rightarrow> bool" where
  "bucket_ok capacity b = (case b of None \<Rightarrow> True | Some x \<Rightarrow> 0 \<le> bk_tokens x \<and> bk_tokens x \<le> capacity)"

definition inflow :: "rat \<Rightarrow> int \<Rightarrow> int \<Rightarrow> int \<Rightarrow> rat" where
  "inflow refill t0 t1 lst = refill * (of_int (max 0 (min lst t1 - t0)) / 10 ^ 9)"

definition budget :: "rat \<Rightarrow> rat \<Rightarrow> int \<Rightarrow> int \<Rightarrow> nat \<Rightarrow> bucket option \<Rightarrow> bool" where
  "budget capacity refill t0 t1 given b =
     (case b of None \<Rightarrow> given = 0
      | Some x \<Rightarrow> bk_tokens x + of_nat given \<le> capacity + inflow refill t0 t1 (bk_last x)
                 \<and> (bk_last x < t0 \<longrightarrow> given = 0))"

lemma inflow_nonneg: "0 \<le> refill \<Longrightarrow> 0 \<le> inflow refill t0 t1 lst"
  by (simp add: inflow_def)

lemma inflow_step:
  assumes "0 \<le> refill" "t0 \<le> lst" "lst < t" "t \<le> t1"
  shows "inflow refill t0 t1 lst + (of_int (t - lst) / 10 ^ 9) * refill = inflow refill t0 t1 t"
proof -
  have m: "max 0 (min lst t1 - t0) = lst - t0" "max 0 (min t t1 - t0) = t - t0" using assms by auto
  show ?thesis unfolding inflow_def m by (simp add: field_simps)
qed

lemma refilled_ok:
  assumes "1 \<le> capacity" "0 \<le> refill" "bucket_ok capacity b"
  shows "0 \<le> bk_tokens (refilled capacity refill t b) \<and> bk_tokens (refilled capacity refill t b) \<le> capacity"
  using assms by (auto simp: refilled_def bucket_ok_def Let_def split: option.splits)

lemma refilled_budget:
  assumes "1 \<le> capacity" "0 \<le> refill" "t0 \<le> t" "t \<le> t1" "bucket_ok capacity b" "budget capacity refill t0 t1 given b"
  shows "bk_tokens (refilled capacity refill t b) + of_nat given
      \<le> capacity + inflow refill t0 t1 (bk_last (refilled capacity refill t b))
    \<and> t0 \<le> bk_last (refilled capacity refill t b)"
proof (cases b)
  case None
  then show ?thesis using assms inflow_nonneg [of refill t0 t1 t] by (simp add: refilled_def budget_def)
next
  case (Some x)
  note bud = assms(6)[unfolded Some budget_def option.case]
  show ?thesis
  proof (cases "bk_last x < t")
    case lt: True
    let ?new = "bk_tokens x + (of_int (t - bk_last x) / 10 ^ 9) * refill"
    have r: "refilled capacity refill t b = \<lparr>bk_tokens = min ?new capacity, bk_last = t\<rparr>"
      using lt by (simp add: refilled_def Some Let_def min_def)
    show ?thesis
    proof (cases "bk_last x < t0")
      case True
      then show ?thesis using bud r assms(3) inflow_nonneg [OF assms(2), of t0 t1 t] by (simp add: min_le_iff_disj)
    next
      case False
      then have "inflow refill t0 t1 (bk_last x) + (of_int (t - bk_last x) / 10 ^ 9) * refill = inflow refill t0 t1 t"
        using inflow_step assms lt by simp
      then show ?thesis using bud r assms(3) by (simp add: min_def)
    qed
  next
    case False
    then have "refilled capacity refill t b = x" by (simp add: refilled_def Some Let_def)
    then show ?thesis using bud False assms(3) by simp
  qed
qed

lemma allow_other: "k' \<noteq> k \<Longrightarrow> snd (allow capacity refill t k' bs) k = bs k"
  by (simp add: allow_def Let_def)

lemma allow_result:
  "fst (allow capacity refill t k bs) \<longleftrightarrow> 1 \<le> bk_tokens (refilled capacity refill t (bs k))"
  "snd (allow capacity refill t k bs) k =
     Some (let b = refilled capacity refill t (bs k)
           in if 1 \<le> bk_tokens b then b\<lparr>bk_tokens := bk_tokens b - 1\<rparr> else b)"
  by (simp_all add: allow_def Let_def)

lemma allow_ok:
  assumes "1 \<le> capacity" "0 \<le> refill" "bucket_ok capacity (bs k)"
  shows "bucket_ok capacity (snd (allow capacity refill t k' bs) k)"
proof (cases "k' = k")
  case True
  with refilled_ok [where b = "bs k" and t = t, OF assms] show ?thesis by (simp add: allow_result bucket_ok_def Let_def)
next
  case False
  then show ?thesis using assms by (simp add: allow_other)
qed

lemma allow_budget:
  assumes "1 \<le> capacity" "0 \<le> refill" "t0 \<le> t" "t \<le> t1" "bucket_ok capacity (bs k)"
    "budget capacity refill t0 t1 given (bs k)"
  shows "budget capacity refill t0 t1 (given + (if k' = k \<and> fst (allow capacity refill t k' bs) then 1 else 0))
           (snd (allow capacity refill t k' bs) k)"
proof (cases "k' = k")
  case True
  with refilled_budget [where b = "bs k" and t = t, OF assms] show ?thesis by (auto simp: allow_result budget_def Let_def)
next
  case False
  then show ?thesis using assms by (simp add: allow_other)
qed

lemma allow_all_budget:
  assumes "1 \<le> capacity" "0 \<le> refill" "list_all (\<lambda>c. t0 \<le> fst c \<and> fst c \<le> t1) calls"
    "bucket_ok capacity (bs k)" "budget capacity refill t0 t1 given (bs k)"
  shows "bucket_ok capacity (snd (allow_all capacity refill calls bs) k)
    \<and> budget capacity refill t0 t1 (given + admitted k calls (fst (allow_all capacity refill calls bs)))
        (snd (allow_all capacity refill calls bs) k)"
  using assms(3-5)
proof (induction calls arbitrary: bs given)
  case Nil
  then show ?case by (simp add: admitted_def)
next
  case (Cons c cs)
  obtain t k' where c: "c = (t, k')" by (cases c)
  obtain a bs1 where st: "allow capacity refill t k' bs = (a, bs1)" by (cases "allow capacity refill t k' bs")
  obtain rest bs2 where al: "allow_all capacity refill cs bs1 = (rest, bs2)" by (cases "allow_all capacity refill cs bs1")
  have 1: "bucket_ok capacity (bs1 k)"
    using allow_ok [where bs = bs and k = k and t = t and k' = k', OF assms(1,2) Cons.prems(2)] st by simp
  have 2: "budget capacity refill t0 t1 (given + (if k' = k \<and> a then 1 else 0)) (bs1 k)"
    using allow_budget [where bs = bs and k = k and t = t and k' = k' and given = given, OF assms(1,2) _ _ Cons.prems(2,3)] Cons.prems(1) st c by simp
  from Cons.IH [where bs = bs1 and given = "given + (if k' = k \<and> a then 1 else 0)", OF _ 1 2] Cons.prems(1) al st c show ?case
    by (cases "k' = k \<and> a") (auto simp: admitted_def)
qed

lemma reachable_ok:
  assumes "1 \<le> capacity" "0 \<le> refill" "bucket_ok capacity (bs k)"
  shows "bucket_ok capacity (snd (allow_all capacity refill calls bs) k)"
  using assms(3)
proof (induction calls arbitrary: bs)
  case Nil
  then show ?case by simp
next
  case (Cons c cs)
  obtain t k' where c: "c = (t, k')" by (cases c)
  obtain a bs1 where st: "allow capacity refill t k' bs = (a, bs1)" by (cases "allow capacity refill t k' bs")
  from Cons.IH [of bs1] allow_ok [where bs = bs and k = k and t = t and k' = k', OF assms(1,2) Cons.prems] st c show ?case
    by (cases "allow_all capacity refill cs bs1") simp
qed

lemma budget_bound:
  assumes "bucket_ok capacity b" "budget capacity refill t0 t1 given b"
    "\<And>l. inflow refill t0 t1 l \<le> B" "0 \<le> B" "1 \<le> capacity"
  shows "of_nat given \<le> capacity + B"
proof (cases b)
  case None
  then show ?thesis using assms by (simp add: budget_def)
next
  case (Some x)
  then show ?thesis using assms(1,2) assms(3) [of "bk_last x"] by (simp add: budget_def bucket_ok_def)
qed

section \<open>Properties\<close>

text \<open>
  C12: the rate limit. After any history of requests, in any later stretch of time from
  t0 to t1, whatever the clock does inside it, a key is admitted at most capacity plus refill
  times the length of the stretch in seconds many times; a request whose last predecessor under
  that key is long enough ago for one token, or that has none, is admitted; and a call never
  changes the bucket of another key.
\<close>

theorem rate_limit_bound:
  assumes "1 \<le> capacity" and "0 \<le> refill"
    and "bs = snd (allow_all capacity refill history Map.empty)"
    and "list_all (\<lambda>c. t0 \<le> fst c \<and> fst c \<le> t1) calls" and "t0 \<le> t1"
  shows "of_nat (admitted k calls (fst (allow_all capacity refill calls bs)))
           \<le> capacity + refill * (of_int (t1 - t0) / 10 ^ 9)
    \<and> ((case bs k of None \<Rightarrow> True | Some b \<Rightarrow> 10 ^ 9 \<le> of_int (t - bk_last b) * refill)
          \<longrightarrow> fst (allow capacity refill t k bs))
    \<and> (k' \<noteq> k \<longrightarrow> snd (allow capacity refill t k' bs) k = bs k)"
proof (intro conjI impI)
  have ok: "bucket_ok capacity (bs k)"
    unfolding assms(3) by (rule reachable_ok [OF assms(1,2)]) (simp add: bucket_ok_def)
  then have "budget capacity refill t0 t1 0 (bs k)"
    using inflow_nonneg [OF assms(2)] by (auto simp: budget_def bucket_ok_def add_increasing2 split: option.splits)
  from allow_all_budget [where bs = bs and k = k, OF assms(1,2,4) ok this]
  obtain b where "bucket_ok capacity b" "budget capacity refill t0 t1 (admitted k calls (fst (allow_all capacity refill calls bs))) b"
    by auto
  moreover have "inflow refill t0 t1 l \<le> refill * (of_int (t1 - t0) / 10 ^ 9)" for l
  proof -
    have "max 0 (min l t1 - t0) \<le> t1 - t0" using assms(5) by simp
    then have "(of_int (max 0 (min l t1 - t0)) :: rat) \<le> of_int (t1 - t0)" by (rule of_int_le_iff [THEN iffD2])
    then show ?thesis unfolding inflow_def using assms(2)
      by (intro mult_left_mono divide_right_mono) simp_all
  qed
  moreover have "0 \<le> refill * (of_int (t1 - t0) / 10 ^ 9)" using assms(2,5) by simp
  ultimately show "of_nat (admitted k calls (fst (allow_all capacity refill calls bs)))
      \<le> capacity + refill * (of_int (t1 - t0) / 10 ^ 9)"
    using assms(1) by (rule budget_bound)
  show "fst (allow capacity refill t k bs)"
    if "case bs k of None \<Rightarrow> True | Some b \<Rightarrow> 10 ^ 9 \<le> of_int (t - bk_last b) * refill"
  proof (cases "bs k")
    case None
    then show ?thesis using assms(1) by (simp add: allow_result refilled_def)
  next
    case (Some b)
    have big: "10 ^ 9 \<le> of_int (t - bk_last b) * refill" using that Some by simp
    then have pos: "0 < t - bk_last b" using assms(2)
      by (metis (no_types, opaque_lifting) less_le_not_le linorder_not_le mult_nonpos_nonneg of_int_le_0_iff order_trans zero_less_numeral zero_less_power)
    have "1 \<le> (of_int (t - bk_last b) / 10 ^ 9) * refill" using big by (simp add: field_simps)
    then show ?thesis using Some pos ok assms(1) by (simp add: allow_result refilled_def bucket_ok_def Let_def)
  qed
  show "snd (allow capacity refill t k' bs) k = bs k" if "k' \<noteq> k" using that by (rule allow_other)
qed

theorem rate_limit_bound_witness:
  "of_nat (admitted ''m'' [(5, ''m'')] (fst (allow_all 2 1 [(5, ''m'')] (snd (allow_all 2 1 [(0, ''m'')] Map.empty)))))
     \<le> (2 :: rat) + 1 * (of_int (5 - 5) / 10 ^ 9)"
  by (rule rate_limit_bound [where history = "[(0, ''m'')]", THEN conjunct1]) simp_all

text \<open>
  The order of a chain. Middlewares run from the first to the last before the
  handler and from the last to the first after it, whatever each does to the world; a panic
  skips every step after it. Adding middlewares with Use is chaining the chains, the base
  middleware changes nothing, and a dispatcher without middlewares is the server's Dispatch.
\<close>

theorem chain_onion:
  "Then (map (\<lambda>(pre, post). around pre post) ps) (Some h) mc w =
     (case h mc (fold fst ps w) of
        (Returned r, mc', w') \<Rightarrow> (Returned r, mc', foldr snd ps w')
      | (Panicked v, mc', w') \<Rightarrow> (Panicked v, mc', w'))
   \<and> Then (Use c ms) f = Then c (Some (Then ms f))
   \<and> wrap_mw Base h = h
   \<and> fst (Dispatcher_Dispatch m s [] (Some req) w) = Returned (fst (Dispatch m s req (wd_conn w) (wd_user w)))"
proof (intro conjI)
  show "Then (map (\<lambda>(pre, post). around pre post) ps) (Some h) mc w =
     (case h mc (fold fst ps w) of
        (Returned r, mc', w') \<Rightarrow> (Returned r, mc', foldr snd ps w')
      | (Panicked v, mc', w') \<Rightarrow> (Panicked v, mc', w'))"
  proof (induction ps arbitrary: w)
    case Nil
    then show ?case by (simp add: Then_def split: prod.split outcome.split)
  next
    case (Cons p ps)
    obtain pre post where p: "p = (pre, post)" by (cases p)
    obtain x mc' w' where h: "h mc (fold fst ps (pre w)) = (x, mc', w')" by (metis prod_cases3)
    show ?case
      using Cons.IH [of "pre w"] by (cases x) (simp_all add: p Then_Cons around_def wrap_Func h andThen_def)
  qed
  show "Then (Use c ms) f = Then c (Some (Then ms f))" by (simp add: Use_def Then_append)
  show "wrap_mw Base h = h" by (rule wrap_Base)
  show "fst (Dispatcher_Dispatch m s [] (Some req) w) = Returned (fst (Dispatch m s req (wd_conn w) (wd_user w)))"
    by (simp add: Dispatcher_Dispatch_def NewDispatcher_def Then_def terminal_def FromFastMCPContext_def
        NewMiddlewareContext_def split: prod.split)
qed

text \<open>Two outcomes that differ at most in what ErrorHandling hides: the value of a panic, or the
  text and data of an error it masks.\<close>

definition same_but_text :: "'u error_handling \<Rightarrow> outcome \<Rightarrow> outcome \<Rightarrow> bool" where
  "same_but_text m a b \<longleftrightarrow>
     (case (a, b) of
        (Panicked v, Panicked v') \<Rightarrow> True
      | (Returned (Some r), Returned (Some r')) \<Rightarrow>
          r = r' \<or> (case (rs_error r, rs_error r') of
                      (Some e, Some e') \<Rightarrow> re_code e = re_code e' \<and> shouldMask m e \<and> r\<lparr>rs_error := None\<rparr> = r'\<lparr>rs_error := None\<rparr>
                    | _ \<Rightarrow> False)
      | (Returned None, Returned None) \<Rightarrow> True
      | _ \<Rightarrow> False)"

lemma ErrorHandling_outcome:
  "fst (ErrorHandling_OnRequest m mc next w) =
     (case next mc w of
        (Panicked v, mc', w') \<Rightarrow> Returned (masked m mc' (newError ErrInternal (Msg (''panic: '' @ v))))
      | (Returned None, mc', w') \<Rightarrow> Returned None
      | (Returned (Some r), mc', w') \<Rightarrow>
          (case rs_error r of
             None \<Rightarrow> Returned (Some r)
           | Some e \<Rightarrow> Returned (Some (if shouldMask m e then r\<lparr>rs_error := Some (maskError m e)\<rparr> else r))))"
  by (simp add: ErrorHandling_OnRequest_def Let_def split: prod.split outcome.split option.split)

lemma mask_text:
  "\<not> eh_IncludeError m \<Longrightarrow> re_code e = re_code e' \<Longrightarrow> maskError m e = maskError m e'"
  by (simp add: maskError_def)

lemma response_error_eq: "r\<lparr>rs_error := None\<rparr> = r'\<lparr>rs_error := None\<rparr> \<Longrightarrow> r\<lparr>rs_error := e\<rparr> = (r' :: response)\<lparr>rs_error := e\<rparr>"
  by (cases r; cases r') simp

text \<open>
  C28: error handling. Whatever a handler does, panicking included, the middleware
  returns; without IncludeError the reply depends neither on the value of a panic nor on the
  text or data of an error it masks; a result and an error it does not mask pass unchanged; and
  a panic is answered under the id of the request, and not at all for a notification.
\<close>

theorem error_masking:
  assumes "\<not> eh_IncludeError m" and "next1 mc w = (o1, mc', w1)" and "next2 mc w = (o2, mc', w2)"
    and "same_but_text m o1 o2"
  shows "fst (ErrorHandling_OnRequest m mc next1 w) = fst (ErrorHandling_OnRequest m mc next2 w)
    \<and> (\<exists>r. fst (ErrorHandling_OnRequest m mc next w) = Returned r)
    \<and> (o1 = Returned (Some r) \<and> (rs_error r = None \<or> \<not> shouldMask m (the (rs_error r))) \<longrightarrow>
         fst (ErrorHandling_OnRequest m mc next1 w) = Returned (Some r))
    \<and> (o1 = Panicked v \<longrightarrow>
         fst (ErrorHandling_OnRequest m mc next1 w) =
           Returned (map_option (\<lambda>i. \<lparr>rs_id = Some i, rs_result = None,
             rs_error = Some (maskError m (newError ErrInternal (Msg [])))\<rparr>) (mc_id mc')))"
proof (intro conjI impI)
  show "\<exists>r. fst (ErrorHandling_OnRequest m mc next w) = Returned r"
    unfolding ErrorHandling_outcome by (simp split: prod.split outcome.split option.split)
  show "fst (ErrorHandling_OnRequest m mc next1 w) = Returned (Some r)"
    if "o1 = Returned (Some r) \<and> (rs_error r = None \<or> \<not> shouldMask m (the (rs_error r)))"
    unfolding ErrorHandling_outcome assms(2) using that by (auto split: option.split)
  show "fst (ErrorHandling_OnRequest m mc next1 w) =
      Returned (map_option (\<lambda>i. \<lparr>rs_id = Some i, rs_result = None,
        rs_error = Some (maskError m (newError ErrInternal (Msg [])))\<rparr>) (mc_id mc'))"
    if "o1 = Panicked v"
    unfolding ErrorHandling_outcome assms(2) using that assms(1)
    by (cases "mc_id mc'") (simp_all add: masked_def mc_IsNotification_def maskError_def newError_def)
  show "fst (ErrorHandling_OnRequest m mc next1 w) = fst (ErrorHandling_OnRequest m mc next2 w)"
  proof (cases o1)
    case (Panicked v)
    with assms(4) obtain v' where "o2 = Panicked v'"
      by (auto simp: same_but_text_def split: outcome.splits option.splits)
    with Panicked show ?thesis
      unfolding ErrorHandling_outcome assms(2,3) using assms(1)
      by (simp add: masked_def maskError_def newError_def)
  next
    case (Returned x)
    show ?thesis
    proof (cases "o1 = o2")
      case True
      then show ?thesis unfolding ErrorHandling_outcome assms(2,3) by (simp split: outcome.split option.split)
    next
      case False
      with assms(4) Returned obtain r r' e e' where
        r: "o1 = Returned (Some r)" "o2 = Returned (Some r')" "rs_error r = Some e" "rs_error r' = Some e'"
        and e: "re_code e = re_code e'" "shouldMask m e" "r\<lparr>rs_error := None\<rparr> = r'\<lparr>rs_error := None\<rparr>"
        by (auto simp: same_but_text_def split: outcome.splits option.splits)
      then have "shouldMask m e'" by (simp add: shouldMask_def split: if_splits)
      with r e mask_text [OF assms(1) e(1)] response_error_eq [OF e(3), of "Some (maskError m e)"] show ?thesis
        unfolding ErrorHandling_outcome assms(2,3) by simp
    qed
  qed
qed

theorem error_masking_witness:
  "\<forall>w :: nat world.
     fst (ErrorHandling_OnRequest NewErrorHandling (NewMiddlewareContext None) (\<lambda>mc w. (Panicked ''a'', mc, w)) w) =
     fst (ErrorHandling_OnRequest NewErrorHandling (NewMiddlewareContext None) (\<lambda>mc w. (Panicked ''b'', mc, w)) w)"
proof
  fix w :: "nat world"
  have "same_but_text (NewErrorHandling :: nat error_handling) (Panicked ''a'') (Panicked ''b'')"
    by (simp add: same_but_text_def)
  then show "fst (ErrorHandling_OnRequest NewErrorHandling (NewMiddlewareContext None) (\<lambda>mc w. (Panicked ''a'', mc, w)) w) =
     fst (ErrorHandling_OnRequest NewErrorHandling (NewMiddlewareContext None) (\<lambda>mc w. (Panicked ''b'', mc, w)) w)"
    by (rule error_masking [where ?o1.0 = "Panicked ''a''" and ?o2.0 = "Panicked ''b''", THEN conjunct1, rotated 3])
      (simp_all add: NewErrorHandling_def)
qed

text \<open>Requests going through a counter one after the other: for each its method, what came back
  and the time between the two readings of the clock.\<close>

fun metrics_all :: "nat \<Rightarrow> 'u handler \<Rightarrow> mctx list \<Rightarrow> 'u world \<Rightarrow> (string \<times> outcome \<times> int) list \<times> 'u world" where
  "metrics_all inst next [] w = ([], w)"
| "metrics_all inst next (mc # mcs) w =
     (case next mc (tick w) of (x, mc1, w1) \<Rightarrow>
        (case Metrics_OnRequest inst mc next w of (y, mc', w') \<Rightarrow>
           (case metrics_all inst next mcs w' of (evs, w'') \<Rightarrow>
              ((mc_method mc', y, now_of w1 - now_of w) # evs, w''))))"

definition seen :: "string \<Rightarrow> (string \<times> outcome \<times> int) list \<Rightarrow> (response option \<times> int) list" where
  "seen k evs = concat (map (\<lambda>(meth, x, d). case x of Returned r \<Rightarrow> if meth = k then [(r, d)] else [] | Panicked v \<Rightarrow> []) evs)"

definition stats_of :: "(response option \<times> int) list \<Rightarrow> method_stats \<Rightarrow> method_stats" where
  "stats_of rs s =
     \<lparr>st_total = st_total s + int (length rs),
      st_success = st_success s + int (length (filter (\<lambda>(r, d). \<not> failed r) rs)),
      st_errors = st_errors s + int (length (filter (\<lambda>(r, d). failed r) rs)),
      st_duration = st_duration s + sum_list (map snd rs)\<rparr>"

lemma count_stats_of: "stats_of rs (count_stats (failed r) d s) = stats_of ((r, d) # rs) s"
  by (simp add: stats_of_def count_stats_def Let_def)

lemma stats_of_Nil [simp]: "stats_of [] s = s"
  by (simp add: stats_of_def)

definition stats_from :: "(response option \<times> int) list \<Rightarrow> method_stats option \<Rightarrow> method_stats option" where
  "stats_from rs old = (if rs = [] then old else Some (stats_of rs (case old of None \<Rightarrow> zero_stats | Some s \<Rightarrow> s)))"

lemma seen_simps:
  "seen k [] = []"
  "seen k ((meth, Returned r, d) # evs) = (if meth = k then (r, d) # seen k evs else seen k evs)"
  "seen k ((meth, Panicked v, d) # evs) = seen k evs"
  by (simp_all add: seen_def)

lemma stats_from_Cons:
  "stats_from ((r, d) # rs) old =
     stats_from rs (Some (count_stats (failed r) d (case old of None \<Rightarrow> zero_stats | Some s \<Rightarrow> s)))"
  by (simp add: stats_from_def count_stats_of)
    (simp add: stats_of_def count_stats_def Let_def)

lemma Metrics_step:
  assumes "next mc (tick w) = (x, mc1, w1)" "wd_stats w1 inst = wd_stats w inst"
    "Metrics_OnRequest inst mc next w = (y, mc2, w2)"
  shows "y = x \<and> mc2 = mc1 \<and>
     Snapshot inst w2 k =
       (case x of
          Panicked v \<Rightarrow> Snapshot inst w k
        | Returned r \<Rightarrow>
            if mc_method mc1 = k
            then Some (count_stats (failed r) (now_of w1 - now_of w) (case Snapshot inst w k of None \<Rightarrow> zero_stats | Some s \<Rightarrow> s))
            else Snapshot inst w k)"
  using assms by (cases x) (auto simp: Metrics_OnRequest_def andThen_def Let_def Snapshot_def tick_def)

lemma metrics_run:
  assumes "\<forall>mc w. wd_stats (snd (snd (next mc w))) inst = wd_stats w inst"
    and "metrics_all inst next mcs w = (evs, w')"
  shows "Snapshot inst w' k = stats_from (seen k evs) (Snapshot inst w k)"
  using assms(2)
proof (induction mcs arbitrary: w evs)
  case Nil
  then show ?case by (simp add: seen_def stats_from_def)
next
  case (Cons mc mcs)
  obtain x mc1 w1 where n: "next mc (tick w) = (x, mc1, w1)" by (metis prod_cases3)
  then have st: "wd_stats w1 inst = wd_stats w inst"
    using spec [OF spec [OF assms(1), of mc], of "tick w"] by (simp add: tick_def)
  obtain y mc2 w2 where m: "Metrics_OnRequest inst mc next w = (y, mc2, w2)" by (metis prod_cases3)
  obtain evs2 where r: "metrics_all inst next mcs w2 = (evs2, w')" "evs = (mc_method mc2, y, now_of w1 - now_of w) # evs2"
    using Cons.prems n m by (auto split: prod.splits)
  from Cons.IH [OF r(1)] Metrics_step [OF n st m, of k] show ?case
    by (cases x) (auto simp: r(2) seen_simps stats_from_Cons)
qed

text \<open>
  The counters. After a reset and any sequence of requests through the counter,
  in front of a handler that leaves its counters alone, the snapshot of a method is absent when
  none of its requests returned and otherwise holds their number, how many of them came back
  with an error and without, and the summed time between the readings; so total is success plus
  errors. A request whose handler panics is counted nowhere.
\<close>

theorem metrics_exact:
  assumes "\<forall>mc w. wd_stats (snd (snd (next mc w))) inst = wd_stats w inst"
    and "metrics_all inst next mcs (Metrics_Reset inst w) = (evs, w')"
  shows "Snapshot inst w' k = stats_from (seen k evs) None
    \<and> (\<forall>s. Snapshot inst w' k = Some s \<longrightarrow> st_total s = st_success s + st_errors s)"
proof (intro conjI allI impI)
  show 1: "Snapshot inst w' k = stats_from (seen k evs) None"
    using metrics_run [OF assms, of k] by (simp add: Metrics_Reset_def Snapshot_def)
  have 2: "length (filter (\<lambda>(r, d). \<not> failed r) rs) + length (filter (\<lambda>(r, d). failed r) rs) = length rs"
    for rs :: "(response option \<times> int) list"
    by (induction rs) auto
  show "st_total s = st_success s + st_errors s" if "Snapshot inst w' k = Some s" for s
    using that 2 [of "seen k evs"] unfolding 1
    by (auto simp: stats_from_def stats_of_def zero_stats_def split: if_splits)
qed

definition demo_world :: "nat world" where
  "demo_world = \<lparr>wd_clock = int, wd_reads = 0, wd_buckets = (\<lambda>_. Map.empty), wd_stats = (\<lambda>_. Map.empty),
     wd_log = [], wd_conn = None, wd_user = 0\<rparr>"

theorem metrics_exact_witness:
  "Snapshot 0 (snd (metrics_all 0 (\<lambda>mc w. (Returned None, mc, w)) [NewMiddlewareContext None] (Metrics_Reset 0 demo_world))) []
     = stats_from [(None, 1)] None"
proof -
  obtain evs w' where r: "metrics_all 0 (\<lambda>mc w. (Returned None, mc, w)) [NewMiddlewareContext None] (Metrics_Reset 0 demo_world) = (evs, w')"
    by (cases "metrics_all 0 (\<lambda>mc w. (Returned None, mc, w)) [NewMiddlewareContext None] (Metrics_Reset 0 demo_world)")
  moreover have "seen [] evs = [(None, 1)]"
    using r by (auto simp: Metrics_OnRequest_def andThen_def Let_def seen_def NewMiddlewareContext_def now_of_def
        tick_def Metrics_Reset_def demo_world_def)
  ultimately show ?thesis
    using metrics_exact [OF _ r, of "[]"] by simp
qed

end
