(* ===== verification/Auth.thy ===== *)
theory Auth
  imports Prelude GoStd Json Base64 Transport
begin

text \<open>
  Bearer-token authentication, \<open>src/auth/\<close>: access tokens and scopes (\<open>token.go\<close>), the
  verification of signed tokens against configured keys (\<open>jwt.go\<close>), the guard in front of an
  HTTP handler with its challenge (\<open>middleware.go\<close>), and the metadata document of a protected
  resource (\<open>metadata.go\<close>). Cryptography, JSON text parsing and the texts of library errors
  are fields of \<open>jwt_lib\<close>. A time is the nanoseconds since the zero \<open>time.Time\<close>, so the zero
  time is 0; a float64 is an exact rational.
\<close>

section \<open>Tokens and errors\<close>

datatype sentinel = ENoToken | EInvalidToken | EExpiredToken | EInsufficientScope

text \<open>An error: the sentinel \<open>errors.Is\<close> finds in it, if any, and its text.\<close>

record auth_error =
  ae_kind :: "sentinel option"
  ae_text :: string

fun sentinel_text :: "sentinel \<Rightarrow> string" where
  "sentinel_text ENoToken = ''auth: no bearer token''"
| "sentinel_text EInvalidToken = ''auth: invalid token''"
| "sentinel_text EExpiredToken = ''auth: token expired''"
| "sentinel_text EInsufficientScope = ''auth: insufficient scope''"

definition sentinel_error :: "sentinel \<Rightarrow> auth_error" where
  "sentinel_error k = \<lparr>ae_kind = Some k, ae_text = sentinel_text k\<rparr>"

definition wrapped :: "sentinel \<Rightarrow> string \<Rightarrow> auth_error" where
  "wrapped k detail = \<lparr>ae_kind = Some k, ae_text = sentinel_text k @ '': '' @ detail\<rparr>"

record access_token =
  at_token :: string
  at_subject :: string
  at_client :: string
  at_issuer :: string
  at_audience :: "string list"
  at_scopes :: "string list"
  at_claims :: "(string \<times> gval) list"
  at_iat :: int
  at_nbf :: int
  at_exp :: int

definition empty_token :: access_token where
  "empty_token = \<lparr>at_token = [], at_subject = [], at_client = [], at_issuer = [], at_audience = [],
     at_scopes = [], at_claims = [], at_iat = 0, at_nbf = 0, at_exp = 0\<rparr>"

fun containsString :: "string list \<Rightarrow> string \<Rightarrow> bool" where
  "containsString [] want = False"
| "containsString (s # ss) want = (if s = want then True else containsString ss want)"

definition HasScope :: "access_token option \<Rightarrow> string \<Rightarrow> bool" where
  "HasScope t scope = (case t of None \<Rightarrow> False | Some a \<Rightarrow> containsString (at_scopes a) scope)"

definition Expired :: "access_token option \<Rightarrow> int \<Rightarrow> bool" where
  "Expired t now =
     (case t of None \<Rightarrow> True
      | Some a \<Rightarrow>
          if at_exp a \<noteq> 0 \<and> \<not> now < at_exp a then True
          else if at_nbf a \<noteq> 0 \<and> now < at_nbf a then True
          else False)"

text \<open>\<open>q\<close> is the quoting of \<open>%q\<close>. The first scope that is missing is named.\<close>

fun missing_scope :: "access_token option \<Rightarrow> string list \<Rightarrow> string option" where
  "missing_scope t [] = None"
| "missing_scope t (want # ws) = (if \<not> HasScope t want then Some want else missing_scope t ws)"

definition RequireScopes :: "(string \<Rightarrow> string) \<Rightarrow> access_token option \<Rightarrow> string list \<Rightarrow> auth_error option" where
  "RequireScopes q t scopes =
     (if scopes = [] then None
      else if t = None then Some (wrapped EInsufficientScope ''no token'')
      else (case missing_scope t scopes of
              Some want \<Rightarrow> Some (wrapped EInsufficientScope (''missing '' @ q want))
            | None \<Rightarrow> None))"

section \<open>The static verifier\<close>

text \<open>The copy of the table is a map; a nil token stands for the empty one.\<close>

definition Static_Set :: "string \<Rightarrow> access_token option \<Rightarrow> (string \<rightharpoonup> access_token) \<Rightarrow> (string \<rightharpoonup> access_token)" where
  "Static_Set raw tok m =
     (let cp = (case tok of None \<Rightarrow> empty_token | Some a \<Rightarrow> a);
          cp' = (if at_token cp = [] then cp\<lparr>at_token := raw\<rparr> else cp)
      in m(raw \<mapsto> cp'))"

definition NewStaticTokenVerifier :: "(string \<times> access_token option) list \<Rightarrow> (string \<rightharpoonup> access_token)" where
  "NewStaticTokenVerifier toks = fold (\<lambda>(raw, tok). Static_Set raw tok) toks Map.empty"

definition Static_Verify :: "(string \<rightharpoonup> access_token) \<Rightarrow> int \<Rightarrow> string \<Rightarrow> auth_error + access_token option" where
  "Static_Verify m now token =
     (if token = [] then Inl (sentinel_error ENoToken)
      else (case m token of
              None \<Rightarrow> Inl (wrapped EInvalidToken ''unknown token'')
            | Some tok \<Rightarrow> if Expired (Some tok) now then Inl (sentinel_error EExpiredToken) else Inr (Some tok)))"

section \<open>Keys\<close>

record jwt_lib =
  lb_parse :: "string \<Rightarrow> gval option"
  lb_hmac :: "string \<Rightarrow> string \<Rightarrow> string"
  lb_rsa :: "nat \<times> int \<Rightarrow> string \<Rightarrow> string \<Rightarrow> bool"
  lb_f2i :: "rat \<Rightarrow> int"
  lb_quote :: "string \<Rightarrow> string"
  lb_err :: "string \<Rightarrow> string"
  lb_list :: "string list \<Rightarrow> string"
  lb_time :: "int \<Rightarrow> string"

record jwk =
  jk_kty :: string
  jk_kid :: string
  jk_use :: string
  jk_alg :: string
  jk_n :: string
  jk_e :: string
  jk_k :: string

definition empty_jwk :: jwk where
  "empty_jwk = \<lparr>jk_kty = [], jk_kid = [], jk_use = [], jk_alg = [], jk_n = [], jk_e = [], jk_k = []\<rparr>"

definition step_jwk :: "string \<Rightarrow> gval \<Rightarrow> jwk \<Rightarrow> jwk option" where
  "step_jwk k v j =
     (if equal_fold k ''kty'' then map_option (\<lambda>s. j\<lparr>jk_kty := s\<rparr>) (put_str v (jk_kty j))
      else if equal_fold k ''kid'' then map_option (\<lambda>s. j\<lparr>jk_kid := s\<rparr>) (put_str v (jk_kid j))
      else if equal_fold k ''use'' then map_option (\<lambda>s. j\<lparr>jk_use := s\<rparr>) (put_str v (jk_use j))
      else if equal_fold k ''alg'' then map_option (\<lambda>s. j\<lparr>jk_alg := s\<rparr>) (put_str v (jk_alg j))
      else if equal_fold k ''n'' then map_option (\<lambda>s. j\<lparr>jk_n := s\<rparr>) (put_str v (jk_n j))
      else if equal_fold k ''e'' then map_option (\<lambda>s. j\<lparr>jk_e := s\<rparr>) (put_str v (jk_e j))
      else if equal_fold k ''k'' then map_option (\<lambda>s. j\<lparr>jk_k := s\<rparr>) (put_str v (jk_k j))
      else Some j)"

definition step_jwks :: "string \<Rightarrow> gval \<Rightarrow> jwk list \<Rightarrow> jwk list option" where
  "step_jwks k v keys =
     (if equal_fold k ''keys''
      then (case v of
              GNil \<Rightarrow> Some []
            | GList vs \<Rightarrow> those (map (\<lambda>x. decode_value step_jwk x empty_jwk) vs)
            | _ \<Rightarrow> None)
      else Some keys)"

definition ParseJWKS :: "jwt_lib \<Rightarrow> string \<Rightarrow> auth_error + jwk list" where
  "ParseJWKS lb data =
     (case unmarshal step_jwks [] (lb_parse lb data) of
        None \<Rightarrow> Inl \<lparr>ae_kind = None, ae_text = ''auth: parse JWKS: '' @ lb_err lb data\<rparr>
      | Some keys \<Rightarrow> Inr keys)"

definition wrap64 :: "int \<Rightarrow> int" where
  "wrap64 x = (x + 2 ^ 63) mod 2 ^ 64 - 2 ^ 63"

fun candidates :: "string \<Rightarrow> string \<Rightarrow> jwk list \<Rightarrow> jwk list" where
  "candidates kty kid [] = []"
| "candidates kty kid (k # ks) =
     (if jk_kty k \<noteq> kty then candidates kty kid ks
      else if kid = [] \<or> jk_kid k = kid then k # candidates kty kid ks
      else candidates kty kid ks)"

definition big_bytes :: "string \<Rightarrow> nat" where
  "big_bytes bs = foldl (\<lambda>n b. n * 256 + of_char b) 0 bs"

definition exponent :: "string \<Rightarrow> int" where
  "exponent bs = foldl (\<lambda>e b. wrap64 (e * 256) + of_char b) 0 bs"

definition rsaPublicKey :: "jwt_lib \<Rightarrow> jwk \<Rightarrow> auth_error + nat \<times> int" where
  "rsaPublicKey lb k =
     (case rawurl_decode (trim_right (\<lambda>c. c = CHR ''='') (jk_n k)) of
        None \<Rightarrow> Inl (wrapped EInvalidToken (''bad RSA modulus: '' @ lb_err lb (jk_n k)))
      | Some nb \<Rightarrow>
          (case rawurl_decode (trim_right (\<lambda>c. c = CHR ''='') (jk_e k)) of
             None \<Rightarrow> Inl (wrapped EInvalidToken (''bad RSA exponent: '' @ lb_err lb (jk_e k)))
           | Some eb \<Rightarrow>
               if exponent eb = 0 then Inl (wrapped EInvalidToken ''zero RSA exponent'')
               else Inr (big_bytes nb, exponent eb)))"

definition rsaKey :: "jwt_lib \<Rightarrow> jwk list option \<Rightarrow> string \<Rightarrow> auth_error + nat \<times> int" where
  "rsaKey lb s kid =
     (case s of
        None \<Rightarrow> Inl (wrapped EInvalidToken ''no key set'')
      | Some keys \<Rightarrow>
          (case candidates ''RSA'' kid keys of
             [] \<Rightarrow> Inl (wrapped EInvalidToken (''no RSA key for kid '' @ lb_quote lb kid))
           | k # ks \<Rightarrow>
               if kid = [] \<and> ks \<noteq> [] then Inl (wrapped EInvalidToken ''ambiguous key set, kid required'')
               else rsaPublicKey lb k))"

definition hmacKey :: "jwt_lib \<Rightarrow> jwk list option \<Rightarrow> string \<Rightarrow> auth_error + string" where
  "hmacKey lb s kid =
     (case s of
        None \<Rightarrow> Inl (wrapped EInvalidToken ''no key set'')
      | Some keys \<Rightarrow>
          (case candidates ''oct'' kid keys of
             [] \<Rightarrow> Inl (wrapped EInvalidToken (''no oct key for kid '' @ lb_quote lb kid))
           | k # ks \<Rightarrow>
               if kid = [] \<and> ks \<noteq> [] then Inl (wrapped EInvalidToken ''ambiguous key set, kid required'')
               else (case rawurl_decode (trim_right (\<lambda>c. c = CHR ''='') (jk_k k)) of
                       None \<Rightarrow> Inl \<lparr>ae_kind = None, ae_text = lb_err lb (jk_k k)\<rparr>
                     | Some b \<Rightarrow> Inr b)))"

section \<open>Signed tokens\<close>

record jwt_verifier =
  jv_hmac :: "string option"
  jv_rsa :: "(nat \<times> int) option"
  jv_jwks :: "jwk list option"
  jv_issuer :: string
  jv_audience :: string
  jv_scopes :: "string list"
  jv_scopeClaim :: string
  jv_leeway :: int

definition NewJWTVerifier :: "(jwt_verifier \<Rightarrow> jwt_verifier) list \<Rightarrow> jwt_verifier" where
  "NewJWTVerifier opts =
     fold (\<lambda>opt v. opt v) opts
       \<lparr>jv_hmac = None, jv_rsa = None, jv_jwks = None, jv_issuer = [], jv_audience = [], jv_scopes = [],
        jv_scopeClaim = ''scope'', jv_leeway = 0\<rparr>"

definition WithHMACSecret :: "string option \<Rightarrow> jwt_verifier \<Rightarrow> jwt_verifier" where
  "WithHMACSecret secret v = v\<lparr>jv_hmac := secret\<rparr>"
definition WithRSAPublicKey :: "(nat \<times> int) option \<Rightarrow> jwt_verifier \<Rightarrow> jwt_verifier" where
  "WithRSAPublicKey key v = v\<lparr>jv_rsa := key\<rparr>"
definition WithJWKS :: "jwk list option \<Rightarrow> jwt_verifier \<Rightarrow> jwt_verifier" where
  "WithJWKS set' v = v\<lparr>jv_jwks := set'\<rparr>"
definition WithIssuer :: "string \<Rightarrow> jwt_verifier \<Rightarrow> jwt_verifier" where
  "WithIssuer iss v = v\<lparr>jv_issuer := iss\<rparr>"
definition WithAudience :: "string \<Rightarrow> jwt_verifier \<Rightarrow> jwt_verifier" where
  "WithAudience aud v = v\<lparr>jv_audience := aud\<rparr>"
definition WithRequiredScopes :: "string list \<Rightarrow> jwt_verifier \<Rightarrow> jwt_verifier" where
  "WithRequiredScopes scopes v = v\<lparr>jv_scopes := scopes\<rparr>"
definition WithScopeClaim :: "string \<Rightarrow> jwt_verifier \<Rightarrow> jwt_verifier" where
  "WithScopeClaim name v = v\<lparr>jv_scopeClaim := name\<rparr>"
definition WithLeeway :: "int \<Rightarrow> jwt_verifier \<Rightarrow> jwt_verifier" where
  "WithLeeway d v = v\<lparr>jv_leeway := d\<rparr>"

record jwt_header =
  jh_alg :: string
  jh_typ :: string
  jh_kid :: string

definition step_header :: "string \<Rightarrow> gval \<Rightarrow> jwt_header \<Rightarrow> jwt_header option" where
  "step_header k v h =
     (if equal_fold k ''alg'' then map_option (\<lambda>s. h\<lparr>jh_alg := s\<rparr>) (put_str v (jh_alg h))
      else if equal_fold k ''typ'' then map_option (\<lambda>s. h\<lparr>jh_typ := s\<rparr>) (put_str v (jh_typ h))
      else if equal_fold k ''kid'' then map_option (\<lambda>s. h\<lparr>jh_kid := s\<rparr>) (put_str v (jh_kid h))
      else Some h)"

definition empty_header :: jwt_header where
  "empty_header = \<lparr>jh_alg = [], jh_typ = [], jh_kid = []\<rparr>"

text \<open>A claims object; of a repeated name the last value counts, \<open>null\<close> is the nil map.\<close>

definition put_claims :: "gval option \<Rightarrow> (string \<times> gval) list option" where
  "put_claims v = (case v of Some (GMap m) \<Rightarrow> Some m | Some GNil \<Rightarrow> Some [] | _ \<Rightarrow> None)"

definition claim :: "(string \<times> gval) list \<Rightarrow> string \<Rightarrow> gval" where
  "claim m name = (case map_of (rev m) name of None \<Rightarrow> GNil | Some v \<Rightarrow> v)"

definition stringClaim :: "(string \<times> gval) list \<Rightarrow> string \<Rightarrow> string" where
  "stringClaim m name = (case claim m name of GStr s \<Rightarrow> s | _ \<Rightarrow> [])"

text \<open>\<open>time.Unix\<close>, as nanoseconds since the zero time; the seconds wrap around.\<close>

definition time_Unix :: "int \<Rightarrow> int \<Rightarrow> int" where
  "time_Unix sec nsec = wrap64 (sec + nsec div 10 ^ 9 + 62135596800) * 10 ^ 9 + nsec mod 10 ^ 9"

definition unixSeconds :: "jwt_lib \<Rightarrow> rat \<Rightarrow> int" where
  "unixSeconds lb f =
     (let sec = lb_f2i lb f; nsec = lb_f2i lb ((f - of_int sec) * 10 ^ 9) in time_Unix sec nsec)"

definition timeClaim :: "jwt_lib \<Rightarrow> (string \<times> gval) list \<Rightarrow> string \<Rightarrow> int" where
  "timeClaim lb m name = (case claim m name of GFloat f \<Rightarrow> unixSeconds lb f | _ \<Rightarrow> 0)"

fun only_strings :: "gval list \<Rightarrow> string list" where
  "only_strings [] = []"
| "only_strings (v # vs) = (case v of GStr s \<Rightarrow> s # only_strings vs | _ \<Rightarrow> only_strings vs)"

definition audienceClaim :: "gval \<Rightarrow> string list" where
  "audienceClaim v =
     (case v of GStr a \<Rightarrow> (if a = [] then [] else [a]) | GList vs \<Rightarrow> only_strings vs | _ \<Rightarrow> [])"

definition scopeValues :: "gval \<Rightarrow> string list" where
  "scopeValues v = (case v of GStr s \<Rightarrow> GoStd.fields s | GList vs \<Rightarrow> only_strings vs | _ \<Rightarrow> [])"

definition buildToken :: "jwt_lib \<Rightarrow> jwt_verifier \<Rightarrow> string \<Rightarrow> (string \<times> gval) list \<Rightarrow> access_token" where
  "buildToken lb v raw claims =
     \<lparr>at_token = raw, at_subject = stringClaim claims ''sub'',
      at_client = (let i = stringClaim claims ''client_id'' in if i \<noteq> [] then i else stringClaim claims ''azp''),
      at_issuer = stringClaim claims ''iss'',
      at_audience = audienceClaim (claim claims ''aud''),
      at_scopes = scopeValues (claim claims (jv_scopeClaim v)), at_claims = claims,
      at_iat = timeClaim lb claims ''iat'', at_nbf = timeClaim lb claims ''nbf'', at_exp = timeClaim lb claims ''exp''\<rparr>"

definition validateClaims :: "jwt_lib \<Rightarrow> jwt_verifier \<Rightarrow> int \<Rightarrow> access_token \<Rightarrow> auth_error option" where
  "validateClaims lb v now tok =
     (if at_exp tok \<noteq> 0 \<and> \<not> now - jv_leeway v < at_exp tok
      then Some (wrapped EExpiredToken (''exp '' @ lb_time lb (at_exp tok)))
      else if at_nbf tok \<noteq> 0 \<and> now + jv_leeway v < at_nbf tok
      then Some (wrapped EExpiredToken (''not valid before '' @ lb_time lb (at_nbf tok)))
      else if jv_issuer v \<noteq> [] \<and> at_issuer tok \<noteq> jv_issuer v
      then Some (wrapped EInvalidToken (''issuer '' @ lb_quote lb (at_issuer tok) @ '' not accepted''))
      else if jv_audience v \<noteq> [] \<and> \<not> containsString (at_audience tok) (jv_audience v)
      then Some (wrapped EInvalidToken (''audience '' @ lb_list lb (at_audience tok) @ '' does not include ''
                  @ lb_quote lb (jv_audience v)))
      else RequireScopes (lb_quote lb) (Some tok) (jv_scopes v))"

definition verifySignature :: "jwt_lib \<Rightarrow> jwt_verifier \<Rightarrow> jwt_header \<Rightarrow> string \<Rightarrow> string \<Rightarrow> auth_error option" where
  "verifySignature lb v hdr input sig =
     (if jh_alg hdr = ''HS256'' then
        (case (if jv_hmac v = None \<and> jv_jwks v \<noteq> None
               then (case hmacKey lb (jv_jwks v) (jh_kid hdr) of Inl e \<Rightarrow> Inl e | Inr k \<Rightarrow> Inr (Some k))
               else Inr (jv_hmac v)) of
           Inl e \<Rightarrow> Some e
         | Inr None \<Rightarrow> Some (wrapped EInvalidToken ''no HMAC secret configured'')
         | Inr (Some secret) \<Rightarrow>
             if lb_hmac lb secret input \<noteq> sig then Some (wrapped EInvalidToken ''HMAC signature mismatch'') else None)
      else if jh_alg hdr = ''RS256'' then
        (case (if jv_rsa v = None \<and> jv_jwks v \<noteq> None
               then (case rsaKey lb (jv_jwks v) (jh_kid hdr) of Inl e \<Rightarrow> Inl e | Inr k \<Rightarrow> Inr (Some k))
               else Inr (jv_rsa v)) of
           Inl e \<Rightarrow> Some e
         | Inr None \<Rightarrow> Some (wrapped EInvalidToken ''no RSA key configured'')
         | Inr (Some key) \<Rightarrow>
             if \<not> lb_rsa lb key input sig
             then Some (wrapped EInvalidToken (''RSA signature invalid: '' @ lb_err lb sig)) else None)
      else Some (wrapped EInvalidToken (''unsupported alg '' @ lb_quote lb (jh_alg hdr))))"

definition JWT_Verify :: "jwt_lib \<Rightarrow> jwt_verifier \<Rightarrow> int \<Rightarrow> string \<Rightarrow> auth_error + access_token option" where
  "JWT_Verify lb v now token =
     (if token = [] then Inl (sentinel_error ENoToken)
      else (case split_on CHR ''.'' token of
        [h, p, s] \<Rightarrow>
          (case rawurl_decode h of
             None \<Rightarrow> Inl (wrapped EInvalidToken (''bad header encoding: '' @ lb_err lb h))
           | Some hb \<Rightarrow>
          (case unmarshal step_header empty_header (lb_parse lb hb) of
             None \<Rightarrow> Inl (wrapped EInvalidToken (''bad header JSON: '' @ lb_err lb hb))
           | Some hdr \<Rightarrow>
          (case rawurl_decode p of
             None \<Rightarrow> Inl (wrapped EInvalidToken (''bad payload encoding: '' @ lb_err lb p))
           | Some pb \<Rightarrow>
          (case rawurl_decode s of
             None \<Rightarrow> Inl (wrapped EInvalidToken (''bad signature encoding: '' @ lb_err lb s))
           | Some sig \<Rightarrow>
          (case verifySignature lb v hdr (h @ ''.'' @ p) sig of
             Some e \<Rightarrow> Inl e
           | None \<Rightarrow>
          (case put_claims (lb_parse lb pb) of
             None \<Rightarrow> Inl (wrapped EInvalidToken (''bad payload JSON: '' @ lb_err lb pb))
           | Some claims \<Rightarrow>
          (case validateClaims lb v now (buildToken lb v token claims) of
             Some e \<Rightarrow> Inl e
           | None \<Rightarrow> Inr (Some (buildToken lb v token claims)))))))))
      | parts \<Rightarrow> Inl (wrapped EInvalidToken (''expected 3 JWT segments, got '' @ nat_dec (length parts)))))"

section \<open>The guard of an HTTP handler\<close>

record mw_config =
  mw_realm :: string
  mw_resourceMeta :: string
  mw_requiredScopes :: "string list"

definition WithRealm :: "string \<Rightarrow> mw_config \<Rightarrow> mw_config" where
  "WithRealm realm c = c\<lparr>mw_realm := realm\<rparr>"
definition WithResourceMetadataURL :: "string \<Rightarrow> mw_config \<Rightarrow> mw_config" where
  "WithResourceMetadataURL url c = c\<lparr>mw_resourceMeta := url\<rparr>"
definition WithMiddlewareScopes :: "string list \<Rightarrow> mw_config \<Rightarrow> mw_config" where
  "WithMiddlewareScopes scopes c = c\<lparr>mw_requiredScopes := scopes\<rparr>"

definition mw_configure :: "(mw_config \<Rightarrow> mw_config) list \<Rightarrow> mw_config" where
  "mw_configure opts = fold (\<lambda>opt c. opt c) opts \<lparr>mw_realm = ''mcp'', mw_resourceMeta = [], mw_requiredScopes = []\<rparr>"

text \<open>\<open>escapeQuoted\<close> and the challenge; the body has the same code and text.\<close>

definition escapeQuoted :: "string \<Rightarrow> string" where
  "escapeQuoted s = replace_all (replace_all s [CHR 0x5C] [CHR 0x5C, CHR 0x5C]) [CHR 0x22] [CHR 0x5C, CHR 0x22]"

fun write_params :: "string \<Rightarrow> (string \<times> string) list \<Rightarrow> string" where
  "write_params sep [] = []"
| "write_params sep ((k, v) # ps) = sep @ k @ [CHR ''='', CHR 0x22] @ escapeQuoted v @ [CHR 0x22] @ write_params '', '' ps"

definition challenge_params :: "mw_config \<Rightarrow> string \<Rightarrow> string \<Rightarrow> (string \<times> string) list" where
  "challenge_params cfg code desc =
     (if mw_realm cfg \<noteq> [] then [(''realm'', mw_realm cfg)] else [])
     @ (if code \<noteq> [] then [(''error'', code)] else [])
     @ (if desc \<noteq> [] then [(''error_description'', desc)] else [])
     @ (if mw_resourceMeta cfg \<noteq> [] then [(''resource_metadata'', mw_resourceMeta cfg)] else [])"

record challenge =
  ch_status :: nat
  ch_authenticate :: string
  ch_body :: "(string \<times> string) list"

definition writeChallenge :: "mw_config \<Rightarrow> nat \<Rightarrow> string \<Rightarrow> string \<Rightarrow> challenge" where
  "writeChallenge cfg status code desc =
     \<lparr>ch_status = status, ch_authenticate = ''Bearer'' @ write_params '' '' (challenge_params cfg code desc),
      ch_body = [(''error'', code), (''error_description'', desc)]\<rparr>"

definition statusForError :: "auth_error \<Rightarrow> nat" where
  "statusForError e = (if ae_kind e = Some EInsufficientScope then 403 else 401)"

definition errorCode :: "auth_error \<Rightarrow> string" where
  "errorCode e =
     (if ae_kind e = Some EInsufficientScope then ''insufficient_scope''
      else if ae_kind e = Some ENoToken then ''invalid_request''
      else ''invalid_token'')"

text \<open>The header is empty when the request has none.\<close>

definition bearerToken :: "string \<Rightarrow> auth_error + string" where
  "bearerToken h =
     (if h = [] then Inl (sentinel_error ENoToken)
      else if length h < 7 \<or> \<not> equal_fold (take 7 h) ''bearer ''
      then Inl \<lparr>ae_kind = None, ae_text = ''authorization scheme is not Bearer''\<rparr>
      else let token = trim_space (drop 7 h)
           in if token = [] then Inl (sentinel_error ENoToken) else Inr token)"

text \<open>The handler behind the guard gets the verified token with the request; a request that is
  turned away gets a challenge.\<close>

definition BearerMiddleware ::
  "(string \<Rightarrow> string) \<Rightarrow> mw_config \<Rightarrow> (string \<Rightarrow> auth_error + access_token option)
     \<Rightarrow> (access_token option \<Rightarrow> 'w \<Rightarrow> 'r \<times> 'w) \<Rightarrow> string \<Rightarrow> 'w \<Rightarrow> (challenge + 'r) \<times> 'w" where
  "BearerMiddleware q cfg verify next h w =
     (case bearerToken h of
        Inl e \<Rightarrow> (Inl (writeChallenge cfg 401 ''invalid_request'' (ae_text e)), w)
      | Inr token \<Rightarrow>
          (case verify token of
             Inl e \<Rightarrow> (Inl (writeChallenge cfg (statusForError e) (errorCode e) (ae_text e)), w)
           | Inr tok \<Rightarrow>
               (case RequireScopes q tok (mw_requiredScopes cfg) of
                  Some e \<Rightarrow> (Inl (writeChallenge cfg 403 ''insufficient_scope'' (ae_text e)), w)
                | None \<Rightarrow> (case next tok w of (r, w') \<Rightarrow> (Inr r, w')))))"

section \<open>Protected resource metadata\<close>

definition WellKnownPath :: string where
  "WellKnownPath = ''/.well-known/oauth-protected-resource''"

record oauth_provider =
  op_issuer :: string
  op_audience :: string
  op_jwks :: string
  op_servers :: "string list"

record auth_settings =
  as_resource :: string
  as_provider :: oauth_provider
  as_scopes :: "string list"
  as_name :: string
  as_docs :: string

record resource_metadata =
  md_resource :: string
  md_servers :: "string list"
  md_jwks :: string
  md_scopes :: "string list"
  md_methods :: "string list"
  md_name :: string
  md_docs :: string

definition as_Metadata :: "auth_settings \<Rightarrow> resource_metadata" where
  "as_Metadata s =
     \<lparr>md_resource = as_resource s,
      md_servers = (if op_servers (as_provider s) = [] \<and> op_issuer (as_provider s) \<noteq> []
                    then [op_issuer (as_provider s)] else op_servers (as_provider s)),
      md_jwks = op_jwks (as_provider s), md_scopes = as_scopes s, md_methods = [''header''],
      md_name = as_name s, md_docs = as_docs s\<rparr>"

definition metadata_json :: "resource_metadata \<Rightarrow> gval" where
  "metadata_json m = GMap
     ([(''resource'', GStr (md_resource m))]
      @ (if md_servers m \<noteq> [] then [(''authorization_servers'', GStrs (md_servers m))] else [])
      @ (if md_jwks m \<noteq> [] then [(''jwks_uri'', GStr (md_jwks m))] else [])
      @ (if md_scopes m \<noteq> [] then [(''scopes_supported'', GStrs (md_scopes m))] else [])
      @ (if md_methods m \<noteq> [] then [(''bearer_methods_supported'', GStrs (md_methods m))] else [])
      @ (if md_name m \<noteq> [] then [(''resource_name'', GStr (md_name m))] else [])
      @ (if md_docs m \<noteq> [] then [(''resource_documentation'', GStr (md_docs m))] else []))"

definition MetadataURL :: "auth_settings \<Rightarrow> string" where
  "MetadataURL s = (if as_resource s = [] then [] else trim_right (\<lambda>c. c = CHR ''/'') (as_resource s) @ WellKnownPath)"

datatype metadata_reply = MetaDoc gval | MetaHead | MetaNotAllowed

definition MetadataHandler :: "resource_metadata \<Rightarrow> string \<Rightarrow> metadata_reply" where
  "MetadataHandler meta meth =
     (if meth \<noteq> ''GET'' \<and> meth \<noteq> ''HEAD'' then MetaNotAllowed
      else if meth = ''HEAD'' then MetaHead
      else MetaDoc (metadata_json meta))"

text \<open>\<open>Protect\<close>: the metadata path is open, everything else is behind the guard; explicit options
  come after the derived metadata URL and win.\<close>

definition protect_config :: "auth_settings \<Rightarrow> (mw_config \<Rightarrow> mw_config) list \<Rightarrow> mw_config" where
  "protect_config settings opts =
     mw_configure ((if MetadataURL settings \<noteq> [] then [WithResourceMetadataURL (MetadataURL settings)] else []) @ opts)"

datatype 'r protected = PMeta metadata_reply | PRefused challenge | PServed 'r

definition Protect ::
  "(string \<Rightarrow> string) \<Rightarrow> (string \<Rightarrow> auth_error + access_token option) \<Rightarrow> auth_settings \<Rightarrow> (mw_config \<Rightarrow> mw_config) list
     \<Rightarrow> (access_token option \<Rightarrow> 'w \<Rightarrow> 'r \<times> 'w) \<Rightarrow> string \<Rightarrow> string \<Rightarrow> string \<Rightarrow> 'w \<Rightarrow> 'r protected \<times> 'w" where
  "Protect q verify settings opts server path meth h w =
     (if path = WellKnownPath then (PMeta (MetadataHandler (as_Metadata settings) meth), w)
      else (case BearerMiddleware q (protect_config settings opts) verify server h w of
              (Inl c, w') \<Rightarrow> (PRefused c, w')
            | (Inr r, w') \<Rightarrow> (PServed r, w')))"

section \<open>Facts\<close>

lemma containsString_set [simp]: "containsString ss x \<longleftrightarrow> x \<in> set ss"
  by (induction ss) auto

lemma missing_scope_None: "missing_scope t ws = None \<longleftrightarrow> (\<forall>x\<in>set ws. HasScope t x)"
  by (induction ws) auto

lemma RequireScopes_None:
  "RequireScopes q (Some a) scopes = None \<longleftrightarrow> set scopes \<subseteq> set (at_scopes a)"
proof -
  have "missing_scope (Some a) scopes = None \<longleftrightarrow> set scopes \<subseteq> set (at_scopes a)"
    by (auto simp: missing_scope_None HasScope_def)
  then show ?thesis by (cases "missing_scope (Some a) scopes") (auto simp: RequireScopes_def)
qed

lemma RequireScopes_kind: "RequireScopes q t scopes = Some e \<Longrightarrow> ae_kind e = Some EInsufficientScope"
  by (auto simp: RequireScopes_def wrapped_def split: if_splits option.splits)

lemma split_three:
  "split_on c t = [h, p, s] \<longleftrightarrow> t = h @ c # p @ c # s \<and> c \<notin> set h \<and> c \<notin> set p \<and> c \<notin> set s"
proof
  assume sp: "split_on c t = [h, p, s]"
  have "t = h @ c # p @ c # s" using join_split [of c t] by (simp add: sp)
  moreover have "c \<notin> set h" "c \<notin> set p" "c \<notin> set s"
    using split_on_pieces [of _ c t] unfolding sp by simp_all
  ultimately show "t = h @ c # p @ c # s \<and> c \<notin> set h \<and> c \<notin> set p \<and> c \<notin> set s" by simp
next
  assume "t = h @ c # p @ c # s \<and> c \<notin> set h \<and> c \<notin> set p \<and> c \<notin> set s"
  then show "split_on c t = [h, p, s]" by (simp add: split_on_append split_on_no_sep)
qed

text \<open>What a token has to satisfy: the signature under the key its algorithm selects, and the
  claims.\<close>

definition hmac_source :: "jwt_lib \<Rightarrow> jwt_verifier \<Rightarrow> string \<Rightarrow> string option" where
  "hmac_source lb v kid =
     (case jv_hmac v of Some k \<Rightarrow> Some k
      | None \<Rightarrow> (case hmacKey lb (jv_jwks v) kid of Inr k \<Rightarrow> Some k | Inl e \<Rightarrow> None))"

definition rsa_source :: "jwt_lib \<Rightarrow> jwt_verifier \<Rightarrow> string \<Rightarrow> (nat \<times> int) option" where
  "rsa_source lb v kid =
     (case jv_rsa v of Some k \<Rightarrow> Some k
      | None \<Rightarrow> (case rsaKey lb (jv_jwks v) kid of Inr k \<Rightarrow> Some k | Inl e \<Rightarrow> None))"

definition signed :: "jwt_lib \<Rightarrow> jwt_verifier \<Rightarrow> jwt_header \<Rightarrow> string \<Rightarrow> string \<Rightarrow> bool" where
  "signed lb v hdr input sig \<longleftrightarrow>
     (\<exists>k. jh_alg hdr = ''HS256'' \<and> hmac_source lb v (jh_kid hdr) = Some k \<and> lb_hmac lb k input = sig)
   \<or> (\<exists>k. jh_alg hdr = ''RS256'' \<and> rsa_source lb v (jh_kid hdr) = Some k \<and> lb_rsa lb k input sig)"

definition in_window :: "int \<Rightarrow> int \<Rightarrow> access_token \<Rightarrow> bool" where
  "in_window slack now a \<longleftrightarrow> (at_exp a = 0 \<or> now - slack < at_exp a) \<and> (at_nbf a = 0 \<or> at_nbf a \<le> now + slack)"

definition claims_ok :: "jwt_verifier \<Rightarrow> int \<Rightarrow> access_token \<Rightarrow> bool" where
  "claims_ok v now a \<longleftrightarrow> in_window (jv_leeway v) now a
     \<and> (jv_issuer v = [] \<or> at_issuer a = jv_issuer v)
     \<and> (jv_audience v = [] \<or> jv_audience v \<in> set (at_audience a))
     \<and> set (jv_scopes v) \<subseteq> set (at_scopes a)"

lemma no_keys: "hmacKey lb None kid = Inl (wrapped EInvalidToken ''no key set'')"
  "rsaKey lb None kid = Inl (wrapped EInvalidToken ''no key set'')"
  by (simp_all add: hmacKey_def rsaKey_def)

lemma verifySignature_None: "verifySignature lb v hdr input sig = None \<longleftrightarrow> signed lb v hdr input sig"
  by (auto simp: verifySignature_def signed_def hmac_source_def rsa_source_def no_keys
      split: option.splits sum.splits if_splits)

lemma validateClaims_None: "validateClaims lb v now a = None \<longleftrightarrow> claims_ok v now a"
  by (auto simp: validateClaims_def claims_ok_def in_window_def RequireScopes_None)

definition presented :: "jwt_lib \<Rightarrow> string \<Rightarrow> jwt_header \<Rightarrow> string \<Rightarrow> string \<Rightarrow> (string \<times> gval) list \<Rightarrow> bool" where
  "presented lb token hdr input sig claims \<longleftrightarrow>
     (\<exists>h p s hb pb. token = h @ CHR ''.'' # p @ CHR ''.'' # s \<and> CHR ''.'' \<notin> set h \<and> CHR ''.'' \<notin> set p \<and> CHR ''.'' \<notin> set s
        \<and> input = h @ ''.'' @ p \<and> rawurl_decode h = Some hb \<and> rawurl_decode p = Some pb \<and> rawurl_decode s = Some sig
        \<and> unmarshal step_header empty_header (lb_parse lb hb) = Some hdr \<and> put_claims (lb_parse lb pb) = Some claims)"

lemma split_not_three:
  "\<not> (\<exists>h p s. ps = [h, p, s]) \<Longrightarrow> (case ps of [h, p, s] \<Rightarrow> f h p s | parts \<Rightarrow> Inl (g parts)) \<noteq> Inr x"
  by (auto split: list.splits)

lemma JWT_Verify_accepts:
  "JWT_Verify lb v now token = Inr x \<longleftrightarrow>
     (\<exists>hdr input sig claims. presented lb token hdr input sig claims \<and> signed lb v hdr input sig
        \<and> claims_ok v now (buildToken lb v token claims) \<and> x = Some (buildToken lb v token claims))"
proof (cases "\<exists>h p s. split_on CHR ''.'' token = [h, p, s]")
  case True
  then obtain h p s where sp: "split_on CHR ''.'' token = [h, p, s]" by blast
  then have ne: "token \<noteq> []" by auto
  have un: "(token = h' @ CHR ''.'' # p' @ CHR ''.'' # s' \<and> CHR ''.'' \<notin> set h' \<and> CHR ''.'' \<notin> set p' \<and> CHR ''.'' \<notin> set s')
      \<longleftrightarrow> h' = h \<and> p' = p \<and> s' = s" for h' p' s'
    unfolding split_three [symmetric] sp by auto
  have pres: "presented lb token hdr input sig claims \<longleftrightarrow>
      (\<exists>hb pb. input = h @ ''.'' @ p \<and> rawurl_decode h = Some hb \<and> rawurl_decode p = Some pb \<and> rawurl_decode s = Some sig
        \<and> unmarshal step_header empty_header (lb_parse lb hb) = Some hdr \<and> put_claims (lb_parse lb pb) = Some claims)"
    for hdr input sig claims
    unfolding presented_def conj_assoc [symmetric] using un by (auto simp: conj_assoc)
  show ?thesis
    unfolding pres JWT_Verify_def sp verifySignature_None [symmetric] validateClaims_None [symmetric, of v now _ lb]
    using ne by (auto split: option.splits)
next
  case False
  then have "JWT_Verify lb v now token \<noteq> Inr x"
    unfolding JWT_Verify_def by (auto split: list.splits)
  moreover have "\<not> presented lb token hdr input sig claims" for hdr input sig claims
    using False unfolding presented_def split_three by blast
  ultimately show ?thesis by blast
qed

text \<open>The statuses and codes a request is turned away with.\<close>

definition refusals :: "(nat \<times> string) set" where
  "refusals = {(401, ''invalid_request''), (401, ''invalid_token''), (403, ''insufficient_scope'')}"

section \<open>The contract of a verifier\<close>

text \<open>
  What the guard relies on, for every kind of token: nothing is accepted for an empty token, an
  accepted token is there, and it is within its validity window up to the verifier's tolerance.
\<close>

locale token_verifier =
  fixes verify :: "int \<Rightarrow> string \<Rightarrow> auth_error + access_token option"
    and slack :: int
  assumes verify_empty: "verify now [] = Inl (sentinel_error ENoToken)"
    and verify_some: "verify now t = Inr x \<Longrightarrow> \<exists>a. x = Some a \<and> in_window slack now a"
begin

lemma guard_cases:
  "(\<exists>t a. bearerToken h = Inr t \<and> verify now t = Inr (Some a) \<and> in_window slack now a
      \<and> set (mw_requiredScopes cfg) \<subseteq> set (at_scopes a)
      \<and> BearerMiddleware q cfg (verify now) next h w = (Inr (fst (next (Some a) w)), snd (next (Some a) w)))
   \<or> (\<exists>c. BearerMiddleware q cfg (verify now) next h w = (Inl c, w)
      \<and> (ch_status c, snd (hd (ch_body c))) \<in> refusals)"
proof (cases "bearerToken h")
  case (Inl e)
  then show ?thesis by (simp add: BearerMiddleware_def writeChallenge_def refusals_def)
next
  case tok: (Inr t)
  show ?thesis
  proof (cases "verify now t")
    case (Inl e)
    with tok show ?thesis
      by (cases "ae_kind e = Some EInsufficientScope")
        (simp_all add: BearerMiddleware_def writeChallenge_def statusForError_def errorCode_def refusals_def)
  next
    case (Inr x)
    from verify_some [OF this] obtain a where x: "x = Some a" and w: "in_window slack now a" by blast
    show ?thesis
    proof (cases "RequireScopes q (Some a) (mw_requiredScopes cfg)")
      case None
      then have "set (mw_requiredScopes cfg) \<subseteq> set (at_scopes a)" by (simp add: RequireScopes_None)
      with tok Inr x w None show ?thesis by (simp add: BearerMiddleware_def split: prod.split)
    next
      case (Some e)
      with tok Inr x show ?thesis by (simp add: BearerMiddleware_def writeChallenge_def refusals_def)
    qed
  qed
qed

lemma no_token_no_entry: "verify now t = Inr x \<Longrightarrow> t \<noteq> []"
  using verify_empty by auto

end

interpretation static_tokens: token_verifier "Static_Verify m" 0 for m
proof
  fix now t x
  show "Static_Verify m now [] = Inl (sentinel_error ENoToken)" by (simp add: Static_Verify_def)
  assume "Static_Verify m now t = Inr x"
  then show "\<exists>a. x = Some a \<and> in_window 0 now a"
    by (auto simp: Static_Verify_def Expired_def in_window_def split: if_splits option.splits)
qed

interpretation signed_tokens: token_verifier "JWT_Verify lb v" "jv_leeway v" for lb v
proof
  fix now t x
  show "JWT_Verify lb v now [] = Inl (sentinel_error ENoToken)" by (simp add: JWT_Verify_def)
  assume "JWT_Verify lb v now t = Inr x"
  then show "\<exists>a. x = Some a \<and> in_window (jv_leeway v) now a"
    unfolding JWT_Verify_accepts by (auto simp: claims_ok_def)
qed

section \<open>Reading a challenge\<close>

text \<open>The grammar of RFC 7235 for the parameters: \<open>name="value"\<close>, a backslash taking the next
  character literally, separated by a comma and a space.\<close>

fun read_quoted :: "string \<Rightarrow> (string \<times> string) option" where
  "read_quoted [] = None"
| "read_quoted (c # cs) =
     (if c = CHR 0x22 then Some ([], cs)
      else if c = CHR 0x5C then
        (case cs of [] \<Rightarrow> None | d # ds \<Rightarrow> map_option (\<lambda>(v, r). (d # v, r)) (read_quoted ds))
      else map_option (\<lambda>(v, r). (c # v, r)) (read_quoted cs))"

fun read_params :: "nat \<Rightarrow> string \<Rightarrow> (string \<times> string) list option" where
  "read_params 0 s = None"
| "read_params (Suc n) s =
     (case split2 CHR ''='' s of
        [k, r] \<Rightarrow>
          (if has_prefix r [CHR 0x22] then
             (case read_quoted (tl r) of
                None \<Rightarrow> None
              | Some (v, rest) \<Rightarrow>
                  if rest = [] then Some [(k, v)]
                  else if has_prefix rest '', '' then map_option ((#) (k, v)) (read_params n (drop 2 rest))
                  else None)
           else None)
      | _ \<Rightarrow> None)"

definition read_challenge :: "string \<Rightarrow> (string \<times> string) list option" where
  "read_challenge s =
     (if s = ''Bearer'' then Some []
      else if has_prefix s ''Bearer '' then read_params (length s) (drop 7 s) else None)"

lemma escapeQuoted_Cons:
  "escapeQuoted (x # xs) =
     (if x = CHR 0x5C then [CHR 0x5C, CHR 0x5C] else if x = CHR 0x22 then [CHR 0x5C, CHR 0x22] else [x]) @ escapeQuoted xs"
  by (simp add: escapeQuoted_def replace_all_char)

lemma escapeQuoted_Nil [simp]: "escapeQuoted [] = []"
  by (simp add: escapeQuoted_def)

lemma read_escaped: "read_quoted (escapeQuoted v @ CHR 0x22 # r) = Some (v, r)"
  by (induction v) (auto simp: escapeQuoted_Cons)

lemma split2_eq: "CHR ''='' \<notin> set k \<Longrightarrow> split2 CHR ''='' (k @ CHR ''='' # r) = [k, r]"
proof -
  assume "CHR ''='' \<notin> set k"
  then have "index_byte CHR ''='' (k @ CHR ''='' # r) = Some (length k)" by (induction k) auto
  then show ?thesis by (simp add: split2_def)
qed

lemma read_written:
  assumes "ps \<noteq> []" "list_all (\<lambda>(k, v). CHR ''='' \<notin> set k) ps" "length ps \<le> n"
  shows "read_params n (drop (length sep) (write_params sep ps)) = Some ps"
  using assms
proof (induction ps arbitrary: n sep)
  case Nil
  then show ?case by simp
next
  case (Cons p ps)
  obtain k v where p: "p = (k, v)" by (cases p)
  from Cons.prems obtain m where n: "n = Suc m" by (cases n) auto
  have "drop (length sep) (write_params sep (p # ps)) =
      k @ CHR ''='' # CHR 0x22 # escapeQuoted v @ CHR 0x22 # write_params '', '' ps"
    by (simp add: p)
  moreover have "split2 CHR ''='' (k @ CHR ''='' # CHR 0x22 # escapeQuoted v @ CHR 0x22 # write_params '', '' ps)
      = [k, CHR 0x22 # escapeQuoted v @ CHR 0x22 # write_params '', '' ps]"
    using Cons.prems by (intro split2_eq) (simp add: p)
  moreover have "ps \<noteq> [] \<Longrightarrow> write_params '', '' ps \<noteq> [] \<and> has_prefix (write_params '', '' ps) '', ''
      \<and> read_params m (drop 2 (write_params '', '' ps)) = Some ps"
    using Cons.IH [of m "'', ''"] Cons.prems n by (cases ps) auto
  ultimately show ?case
    by (cases "ps = []") (simp_all add: n p read_escaped)
qed

lemma read_challenge_params: "read_challenge (''Bearer '' @ t) = read_params (length t + 7) t"
  by (simp add: read_challenge_def eval_nat_numeral del: read_params.simps)

text \<open>No error of a key set or a signature is about expiry or scopes.\<close>

lemma key_errors:
  "hmacKey lb ks kid = Inl e \<Longrightarrow> ae_kind e \<noteq> Some EExpiredToken \<and> ae_kind e \<noteq> Some EInsufficientScope"
  "rsaKey lb ks kid = Inl e \<Longrightarrow> ae_kind e \<noteq> Some EExpiredToken \<and> ae_kind e \<noteq> Some EInsufficientScope"
  by (auto simp: hmacKey_def rsaKey_def rsaPublicKey_def wrapped_def split: option.splits list.splits if_splits)

lemma signature_errors:
  "verifySignature lb v hdr input sig = Some e \<Longrightarrow> ae_kind e \<noteq> Some EExpiredToken \<and> ae_kind e \<noteq> Some EInsufficientScope"
  unfolding verifySignature_def
  by (auto simp: wrapped_def dest: key_errors split: if_splits option.splits sum.splits)

lemma JWT_Verify_reports:
  assumes "JWT_Verify lb v now token = Inl e" "ae_kind e = Some EExpiredToken \<or> ae_kind e = Some EInsufficientScope"
  shows "\<exists>hdr input sig claims. presented lb token hdr input sig claims \<and> signed lb v hdr input sig"
proof -
  have "\<exists>h p s. split_on CHR ''.'' token = [h, p, s]"
    using assms unfolding JWT_Verify_def
    by (auto simp: wrapped_def sentinel_error_def split: if_splits list.splits)
  then obtain h p s where sp: "split_on CHR ''.'' token = [h, p, s]" by blast
  have "\<exists>hb hdr pb sig claims. rawurl_decode h = Some hb \<and> unmarshal step_header empty_header (lb_parse lb hb) = Some hdr
      \<and> rawurl_decode p = Some pb \<and> rawurl_decode s = Some sig
      \<and> verifySignature lb v hdr (h @ ''.'' @ p) sig = None \<and> put_claims (lb_parse lb pb) = Some claims"
    using assms unfolding JWT_Verify_def sp
    by (auto simp: wrapped_def sentinel_error_def dest: signature_errors split: if_splits option.splits)
  then show ?thesis
    unfolding verifySignature_None presented_def using sp [unfolded split_three] by blast
qed

section \<open>Properties\<close>

text \<open>
  C4: which signed tokens are accepted. A token is accepted exactly when it has three
  segments without dots, its signature over the first two verifies under the key its algorithm
  selects (HS256 only ever with a symmetric key, RS256 only with an RSA key, no other
  algorithm), its payload is a claims object, the current time is in its window up to the
  leeway, and issuer, audience and every required scope match; the result is then exactly what
  the claims say. Which scope is missing, or that the token has expired, is reported only for a
  token whose signature verified.
\<close>

theorem jwt_accepts_exactly:
  "(JWT_Verify lb v now token = Inr x \<longleftrightarrow>
     (\<exists>hdr input sig claims. presented lb token hdr input sig claims \<and> signed lb v hdr input sig
        \<and> claims_ok v now (buildToken lb v token claims) \<and> x = Some (buildToken lb v token claims)))
   \<and> (JWT_Verify lb v now token = Inl e \<and> (ae_kind e = Some EExpiredToken \<or> ae_kind e = Some EInsufficientScope) \<longrightarrow>
        (\<exists>hdr input sig claims. presented lb token hdr input sig claims \<and> signed lb v hdr input sig))"
proof (intro conjI impI)
  show "JWT_Verify lb v now token = Inr x \<longleftrightarrow>
     (\<exists>hdr input sig claims. presented lb token hdr input sig claims \<and> signed lb v hdr input sig
        \<and> claims_ok v now (buildToken lb v token claims) \<and> x = Some (buildToken lb v token claims))"
    by (rule JWT_Verify_accepts)
  show "\<exists>hdr input sig claims. presented lb token hdr input sig claims \<and> signed lb v hdr input sig"
    if "JWT_Verify lb v now token = Inl e \<and> (ae_kind e = Some EExpiredToken \<or> ae_kind e = Some EInsufficientScope)"
    using that JWT_Verify_reports by blast
qed

definition demo_lib :: jwt_lib where
  "demo_lib =
     \<lparr>lb_parse = (\<lambda>s. if s = ''h'' then Some (GMap [(''alg'', GStr ''HS256'')])
                  else if s = ''p'' then Some (GMap [(''exp'', GFloat 0)]) else None),
      lb_hmac = (\<lambda>k m. []), lb_rsa = (\<lambda>k m s. False), lb_f2i = (\<lambda>q. 0), lb_quote = (\<lambda>s. s), lb_err = (\<lambda>s. []),
      lb_list = (\<lambda>l. []), lb_time = (\<lambda>t. [])\<rparr>"

lemma demo_expired:
  "JWT_Verify demo_lib (NewJWTVerifier [WithHMACSecret (Some ''k'')]) (10 ^ 20) ''aA.cA.'' = Inl (wrapped EExpiredToken ''exp '')"
  by code_simp

theorem jwt_accepts_exactly_witness:
  "\<exists>hdr input sig claims. presented demo_lib ''aA.cA.'' hdr input sig claims
     \<and> signed demo_lib (NewJWTVerifier [WithHMACSecret (Some ''k'')]) hdr input sig"
  by (rule jwt_accepts_exactly [where lb = demo_lib and v = "NewJWTVerifier [WithHMACSecret (Some ''k'')]" and now = "10 ^ 20"
        and token = "''aA.cA.''" and e = "wrapped EExpiredToken ''exp ''", THEN conjunct2, THEN mp])
    (use demo_expired in \<open>simp add: wrapped_def\<close>)

text \<open>
  C5: what a protected server lets through. A request other than for the metadata
  document reaches the server only with a bearer token that the verifier accepts, that is
  within its window up to the leeway and that has every scope the guard asks for, and the
  server gets that very token; every other request is answered with one of the three challenges
  of RFC 6750 and changes nothing, and the metadata document is served without a token.
\<close>

theorem protect_guard:
  "(path = WellKnownPath
      \<and> Protect q (JWT_Verify lb v now) settings opts server path meth h w = (PMeta (MetadataHandler (as_Metadata settings) meth), w))
   \<or> (path \<noteq> WellKnownPath \<and> (\<exists>c. Protect q (JWT_Verify lb v now) settings opts server path meth h w = (PRefused c, w)
        \<and> (ch_status c, snd (hd (ch_body c))) \<in> refusals))
   \<or> (path \<noteq> WellKnownPath \<and> (\<exists>t a. bearerToken h = Inr t \<and> JWT_Verify lb v now t = Inr (Some a) \<and> at_token a = t
        \<and> in_window (jv_leeway v) now a
        \<and> set (mw_requiredScopes (protect_config settings opts)) \<union> set (jv_scopes v) \<subseteq> set (at_scopes a)
        \<and> Protect q (JWT_Verify lb v now) settings opts server path meth h w =
             (PServed (fst (server (Some a) w)), snd (server (Some a) w))))"
proof (cases "path = WellKnownPath")
  case True
  then show ?thesis by (simp add: Protect_def)
next
  case False
  have acc: "at_token a = t \<and> set (jv_scopes v) \<subseteq> set (at_scopes a)" if "JWT_Verify lb v now t = Inr (Some a)" for t a
    using that unfolding JWT_Verify_accepts by (auto simp: claims_ok_def buildToken_def)
  from signed_tokens.guard_cases [of h lb v now "protect_config settings opts" q server w] False show ?thesis
    by (elim disjE exE conjE) (simp_all add: Protect_def acc)
qed

text \<open>
  C29: the challenge header. Reading the WWW-Authenticate header back by its grammar
  gives exactly the parameters that are set, with their values, whatever characters they hold:
  no realm, error text or metadata URL can end its quotes or add a parameter.
\<close>

theorem challenge_roundtrip:
  "read_challenge (ch_authenticate (writeChallenge cfg status code desc)) = Some (challenge_params cfg code desc)"
proof (cases "challenge_params cfg code desc = []")
  case True
  then show ?thesis by (simp add: writeChallenge_def read_challenge_def)
next
  case False
  let ?ps = "challenge_params cfg code desc"
  have k: "list_all (\<lambda>(k, v). CHR ''='' \<notin> set k) ?ps" by (simp add: challenge_params_def)
  have l: "length ?ps \<le> 4" by (simp add: challenge_params_def)
  obtain p ps where p: "?ps = p # ps" using False by (cases ?ps) auto
  obtain t where t: "write_params '' '' ?ps = CHR '' '' # t" by (cases p) (simp add: p)
  have "read_params (length t + 7) (drop (length '' '') (write_params '' '' ?ps)) = Some ?ps"
    using l by (intro read_written [OF False k]) simp
  then show ?thesis
    unfolding writeChallenge_def challenge.simps t using read_challenge_params [of t] by (simp del: read_params.simps)
qed

text \<open>A symmetric key of a set whose \<open>k\<close> member is missing is the empty key, so whoever can compute
  HMAC with the empty key can sign for it; and an expiry at the zero time, or one that is not a
  number, never expires.\<close>

lemma missing_key_is_empty:
  "hmacKey lb (Some [empty_jwk\<lparr>jk_kty := ''oct''\<rparr>]) [] = Inr []"
  by (simp add: hmacKey_def empty_jwk_def trim_right_def rawurl_decode_def)

lemma text_expiry_ignored:
  "claim claims ''exp'' = GStr t \<Longrightarrow> at_exp (buildToken lb v raw claims) = 0"
  by (simp add: buildToken_def timeClaim_def)

end
