(* ===== verification/Mount.thy ===== *)
theory Mount
  imports Prelude GoStd Json Base64 Content Schema Registry Dispatch Transport
begin

text \<open>
  Composition of servers, \<open>src/mount/\<close>: the in-process delegate that talks JSON-RPC to a child
  through its HTTP handler (\<open>delegate.go\<close>), and the registration of the child's components on a
  parent under a prefix, with its collision policies (\<open>mount.go\<close>). The child is read from the
  state at call time, which is what makes a mount live. JSON text is written by \<open>js_enc\<close> and
  read by \<open>js_dec\<close>; \<open>js_text\<close> is the text of a decoding error, \<open>js_quote\<close> the verb \<open>%q\<close>.
\<close>

section \<open>JSON text\<close>

record json_lib =
  js_enc :: "gval \<Rightarrow> string + string"
  js_dec :: "string \<Rightarrow> gval option"
  js_text :: string
  js_quote :: "string \<Rightarrow> string"

text \<open>What decoding gives back of a value written: numbers are float64, string slices are
  slices.\<close>

fun jnorm :: "gval \<Rightarrow> gval" where
  "jnorm (GInt i) = GFloat (of_int i)"
| "jnorm (GStrs ss) = GList (map GStr ss)"
| "jnorm (GList vs) = GList (map jnorm vs)"
| "jnorm (GMap m) = GMap (map (\<lambda>(k, v). (k, jnorm v)) m)"
| "jnorm v = v"

text \<open>The documented behaviour of \<open>encoding/json\<close>: a value that marshals is read back, and the
  text of an object does not start with a bracket or with white space.\<close>

definition json_ok :: "json_lib \<Rightarrow> bool" where
  "json_ok js \<longleftrightarrow>
     (\<forall>m t. js_enc js (GMap m) = Inr t \<longrightarrow>
        js_dec js t = Some (jnorm (GMap m)) \<and> js_dec js (t @ [CHR 0x0A]) = Some (jnorm (GMap m))
        \<and> trim_space t = t \<and> t \<noteq> [] \<and> hd t \<noteq> CHR ''['')"

text \<open>More targets of decoding.\<close>

definition put_list :: "(string \<Rightarrow> gval \<Rightarrow> 's \<Rightarrow> 's option) \<Rightarrow> 's \<Rightarrow> gval \<Rightarrow> 's list option" where
  "put_list step zero v =
     (case v of GNil \<Rightarrow> Some [] | GList vs \<Rightarrow> those (map (\<lambda>x. decode_value step x zero) vs) | _ \<Rightarrow> None)"

definition put_ptr :: "(string \<Rightarrow> gval \<Rightarrow> 's \<Rightarrow> 's option) \<Rightarrow> 's \<Rightarrow> gval \<Rightarrow> 's option \<Rightarrow> 's option option" where
  "put_ptr step zero v old =
     (case v of GNil \<Rightarrow> Some None
      | _ \<Rightarrow> map_option Some (decode_value step v (case old of Some x \<Rightarrow> x | None \<Rightarrow> zero)))"

definition put_strs :: "gval \<Rightarrow> string list option" where
  "put_strs v = (case v of GNil \<Rightarrow> Some [] | GList vs \<Rightarrow> those (map (\<lambda>x. put_str x []) vs) | _ \<Rightarrow> None)"

definition put_float :: "gval \<Rightarrow> rat \<Rightarrow> rat option" where
  "put_float v old = (case v of GFloat q \<Rightarrow> Some q | GInt i \<Rightarrow> Some (of_int i) | GNil \<Rightarrow> Some old | _ \<Rightarrow> None)"

definition put_bool :: "gval \<Rightarrow> bool \<Rightarrow> bool option" where
  "put_bool v old = (case v of GBool b \<Rightarrow> Some b | GNil \<Rightarrow> Some old | _ \<Rightarrow> None)"

section \<open>Reading content blocks back\<close>

definition step_annotations :: "string \<Rightarrow> gval \<Rightarrow> annotations \<Rightarrow> annotations option" where
  "step_annotations k v a =
     (if equal_fold k ''audience'' then map_option (\<lambda>s. a\<lparr>an_audience := s\<rparr>) (put_strs v)
      else if equal_fold k ''priority'' then map_option (\<lambda>q. a\<lparr>an_priority := q\<rparr>) (put_float v (an_priority a))
      else Some a)"

definition step_res :: "string \<Rightarrow> gval \<Rightarrow> resource_contents \<Rightarrow> resource_contents option" where
  "step_res k v r =
     (if equal_fold k ''uri'' then map_option (\<lambda>s. r\<lparr>rc_uri := s\<rparr>) (put_str v (rc_uri r))
      else if equal_fold k ''mimeType'' then map_option (\<lambda>s. r\<lparr>rc_mimeType := s\<rparr>) (put_str v (rc_mimeType r))
      else if equal_fold k ''text'' then map_option (\<lambda>s. r\<lparr>rc_text := s\<rparr>) (put_str v (rc_text r))
      else if equal_fold k ''blob'' then map_option (\<lambda>s. r\<lparr>rc_blob := s\<rparr>) (put_str v (rc_blob r))
      else Some r)"

definition empty_res :: resource_contents where
  "empty_res = \<lparr>rc_uri = [], rc_mimeType = [], rc_text = [], rc_blob = []\<rparr>"

definition step_content :: "string \<Rightarrow> gval \<Rightarrow> content \<Rightarrow> content option" where
  "step_content k v c =
     (if equal_fold k ''type'' then map_option (\<lambda>s. c\<lparr>ct_type := s\<rparr>) (put_str v (ct_type c))
      else if equal_fold k ''text'' then map_option (\<lambda>s. c\<lparr>ct_text := s\<rparr>) (put_str v (ct_text c))
      else if equal_fold k ''data'' then map_option (\<lambda>s. c\<lparr>ct_data := s\<rparr>) (put_str v (ct_data c))
      else if equal_fold k ''mimeType'' then map_option (\<lambda>s. c\<lparr>ct_mimeType := s\<rparr>) (put_str v (ct_mimeType c))
      else if equal_fold k ''uri'' then map_option (\<lambda>s. c\<lparr>ct_uri := s\<rparr>) (put_str v (ct_uri c))
      else if equal_fold k ''name'' then map_option (\<lambda>s. c\<lparr>ct_name := s\<rparr>) (put_str v (ct_name c))
      else if equal_fold k ''resource''
      then map_option (\<lambda>x. c\<lparr>ct_resource := x\<rparr>) (put_ptr step_res empty_res v (ct_resource c))
      else if equal_fold k ''annotations''
      then map_option (\<lambda>x. c\<lparr>ct_annotations := x\<rparr>)
             (put_ptr step_annotations \<lparr>an_audience = [], an_priority = 0\<rparr> v (ct_annotations c))
      else Some c)"

section \<open>The delegate\<close>

definition rpc_msg_text :: "json_lib \<Rightarrow> rpc_msg \<Rightarrow> string" where
  "rpc_msg_text js m = (case m of Msg s \<Rightarrow> s | DecodeMsg \<Rightarrow> js_text js)"

definition response_json :: "json_lib \<Rightarrow> response \<Rightarrow> gval" where
  "response_json js r = GMap
     ([(''jsonrpc'', GStr ''2.0'')]
      @ (case rs_id r of None \<Rightarrow> [] | Some i \<Rightarrow> [(''id'', i)])
      @ (case rs_result r of None \<Rightarrow> [] | Some x \<Rightarrow> [(''result'', x)])
      @ (case rs_error r of None \<Rightarrow> []
         | Some e \<Rightarrow> [(''error'', GMap ([(''code'', GInt (re_code e)), (''message'', GStr (rpc_msg_text js (re_msg e)))]
             @ (case re_data e of None \<Rightarrow> [] | Some d \<Rightarrow> [(''data'', GStr (rpc_msg_text js d))])))]))"

text \<open>The text of a response body; \<open>Encode\<close> ends it with a line break and writes nothing when it
  fails.\<close>

definition body_text :: "json_lib \<Rightarrow> http_body \<Rightarrow> string" where
  "body_text js b =
     (case b of
        BNone \<Rightarrow> [] | BStream \<Rightarrow> [] | BText t \<Rightarrow> t @ [CHR 0x0A]
      | BResponse r \<Rightarrow> (case js_enc js (response_json js r) of Inl e \<Rightarrow> [] | Inr t \<Rightarrow> t @ [CHR 0x0A])
      | BResponses rs \<Rightarrow> (case js_enc js (GList (map (response_json js) rs)) of Inl e \<Rightarrow> [] | Inr t \<Rightarrow> t @ [CHR 0x0A]))"

record rpcError =
  rp_code :: int
  rp_message :: string

definition step_rpcError :: "string \<Rightarrow> gval \<Rightarrow> rpcError \<Rightarrow> rpcError option" where
  "step_rpcError k v e =
     (if equal_fold k ''code'' then map_option (\<lambda>i. e\<lparr>rp_code := i\<rparr>) (put_int v (rp_code e))
      else if equal_fold k ''message'' then map_option (\<lambda>s. e\<lparr>rp_message := s\<rparr>) (put_str v (rp_message e))
      else Some e)"

record rpc_reply =
  ry_result :: "gval option"
  ry_error :: "rpcError option"

definition step_reply :: "string \<Rightarrow> gval \<Rightarrow> rpc_reply \<Rightarrow> rpc_reply option" where
  "step_reply k v r =
     (if equal_fold k ''result'' then Some (r\<lparr>ry_result := Some v\<rparr>)
      else if equal_fold k ''error''
      then map_option (\<lambda>e. r\<lparr>ry_error := e\<rparr>) (put_ptr step_rpcError \<lparr>rp_code = 0, rp_message = []\<rparr> v (ry_error r))
      else Some r)"

definition call_body :: "string \<Rightarrow> gval option \<Rightarrow> gval" where
  "call_body meth params = GMap
     ([(''id'', GInt 1), (''jsonrpc'', GStr ''2.0''), (''method'', GStr meth)]
      @ (case params of None \<Rightarrow> [] | Some p \<Rightarrow> [(''params'', p)]))"

definition delegate_call ::
  "json_lib \<Rightarrow> (gval \<Rightarrow> string + string) \<Rightarrow> ('w \<Rightarrow> 'w server) \<Rightarrow> string \<Rightarrow> gval option \<Rightarrow> 'w
     \<Rightarrow> (string + gval option) \<times> 'w" where
  "delegate_call js m child meth params w =
     (case js_enc js (call_body meth params) of
        Inl e \<Rightarrow> (Inl (''mount: encoding '' @ meth @ '' request: '' @ e), w)
      | Inr buf \<Rightarrow>
          (case handleHTTPPost m (js_dec js) (child w) (Inr buf) w of
             (r, w') \<Rightarrow>
               (case unmarshal step_reply \<lparr>ry_result = None, ry_error = None\<rparr> (js_dec js (body_text js (hr_body r))) of
                  None \<Rightarrow> (Inl (''mount: decoding '' @ meth @ '' response: '' @ js_text js), w')
                | Some resp \<Rightarrow>
                    (case ry_error resp of
                       Some e \<Rightarrow> (Inl (''mount: child '' @ meth @ '' error '' @ itoa (rp_code e) @ '': '' @ rp_message e), w')
                     | None \<Rightarrow> (Inr (ry_result resp), w')))))"

text \<open>A result object with one field of interest, read by \<open>put\<close>.\<close>

definition step_field :: "string \<Rightarrow> (gval \<Rightarrow> 's \<Rightarrow> 's option) \<Rightarrow> string \<Rightarrow> gval \<Rightarrow> 's \<Rightarrow> 's option" where
  "step_field name put k v s = (if equal_fold k name then put v s else Some s)"

definition delegate_list ::
  "json_lib \<Rightarrow> (gval \<Rightarrow> string + string) \<Rightarrow> ('w \<Rightarrow> 'w server) \<Rightarrow> string \<Rightarrow> string \<Rightarrow> string
     \<Rightarrow> (string \<Rightarrow> gval \<Rightarrow> 's \<Rightarrow> 's option) \<Rightarrow> 's \<Rightarrow> 'w \<Rightarrow> (string + 's list) \<times> 'w" where
  "delegate_list js m d meth field what step zero w =
     (case delegate_call js m d meth None w of
        (Inl e, w') \<Rightarrow> (Inl e, w')
      | (Inr raw, w') \<Rightarrow>
          (case unmarshal (step_field field (\<lambda>v _. put_list step zero v)) [] raw of
             None \<Rightarrow> (Inl (''mount: decoding '' @ what @ '' list: '' @ js_text js), w')
           | Some xs \<Rightarrow> (Inr xs, w')))"

record tool_info =
  ti_name :: string
  ti_description :: string

record res_info =
  ri_uri :: string
  ri_name :: string
  ri_description :: string
  ri_mimeType :: string

record prompt_info =
  pi_name :: string
  pi_description :: string
  pi_arguments :: "prompt_argument list"

definition step_tool_info :: "string \<Rightarrow> gval \<Rightarrow> tool_info \<Rightarrow> tool_info option" where
  "step_tool_info k v t =
     (if equal_fold k ''name'' then map_option (\<lambda>s. t\<lparr>ti_name := s\<rparr>) (put_str v (ti_name t))
      else if equal_fold k ''description'' then map_option (\<lambda>s. t\<lparr>ti_description := s\<rparr>) (put_str v (ti_description t))
      else Some t)"

text \<open>Resources and templates differ in the name of the field that holds the URI.\<close>

definition step_res_info :: "string \<Rightarrow> string \<Rightarrow> gval \<Rightarrow> res_info \<Rightarrow> res_info option" where
  "step_res_info uri_field k v t =
     (if equal_fold k uri_field then map_option (\<lambda>s. t\<lparr>ri_uri := s\<rparr>) (put_str v (ri_uri t))
      else if equal_fold k ''name'' then map_option (\<lambda>s. t\<lparr>ri_name := s\<rparr>) (put_str v (ri_name t))
      else if equal_fold k ''description'' then map_option (\<lambda>s. t\<lparr>ri_description := s\<rparr>) (put_str v (ri_description t))
      else if equal_fold k ''mimeType'' then map_option (\<lambda>s. t\<lparr>ri_mimeType := s\<rparr>) (put_str v (ri_mimeType t))
      else Some t)"

definition step_argument_info :: "string \<Rightarrow> gval \<Rightarrow> prompt_argument \<Rightarrow> prompt_argument option" where
  "step_argument_info k v a =
     (if equal_fold k ''name'' then map_option (\<lambda>s. a\<lparr>pa_name := s\<rparr>) (put_str v (pa_name a))
      else if equal_fold k ''description'' then map_option (\<lambda>s. a\<lparr>pa_description := s\<rparr>) (put_str v (pa_description a))
      else if equal_fold k ''required'' then map_option (\<lambda>b. a\<lparr>pa_required := b\<rparr>) (put_bool v (pa_required a))
      else Some a)"

definition step_prompt_info :: "string \<Rightarrow> gval \<Rightarrow> prompt_info \<Rightarrow> prompt_info option" where
  "step_prompt_info k v p =
     (if equal_fold k ''name'' then map_option (\<lambda>s. p\<lparr>pi_name := s\<rparr>) (put_str v (pi_name p))
      else if equal_fold k ''description'' then map_option (\<lambda>s. p\<lparr>pi_description := s\<rparr>) (put_str v (pi_description p))
      else if equal_fold k ''arguments''
      then map_option (\<lambda>xs. p\<lparr>pi_arguments := xs\<rparr>)
             (put_list step_argument_info \<lparr>pa_name = [], pa_description = [], pa_required = False\<rparr> v)
      else Some p)"

definition listTools where
  "listTools js m d = delegate_list js m d ''tools/list'' ''tools'' ''tools'' step_tool_info \<lparr>ti_name = [], ti_description = []\<rparr>"

definition empty_res_info :: res_info where
  "empty_res_info = \<lparr>ri_uri = [], ri_name = [], ri_description = [], ri_mimeType = []\<rparr>"

definition listResources where
  "listResources js m d =
     delegate_list js m d ''resources/list'' ''resources'' ''resources'' (step_res_info ''uri'') empty_res_info"

definition listTemplates where
  "listTemplates js m d =
     delegate_list js m d ''resources/templates/list'' ''resourceTemplates'' ''resource templates''
       (step_res_info ''uriTemplate'') empty_res_info"

definition listPrompts where
  "listPrompts js m d =
     delegate_list js m d ''prompts/list'' ''prompts'' ''prompts'' step_prompt_info
       \<lparr>pi_name = [], pi_description = [], pi_arguments = []\<rparr>"

record tool_out =
  to_content :: "content list"
  to_isError :: bool

definition step_tool_out :: "string \<Rightarrow> gval \<Rightarrow> tool_out \<Rightarrow> tool_out option" where
  "step_tool_out k v r =
     (if equal_fold k ''content''
      then map_option (\<lambda>cs. r\<lparr>to_content := cs\<rparr>) (put_list step_content (empty_content []) v)
      else if equal_fold k ''isError'' then map_option (\<lambda>b. r\<lparr>to_isError := b\<rparr>) (put_bool v (to_isError r))
      else Some r)"

definition contentText :: "content list \<Rightarrow> string" where
  "contentText blocks = concat (map (\<lambda>c. if ct_type c = ''text'' then ct_text c else []) blocks)"

definition callTool ::
  "json_lib \<Rightarrow> (gval \<Rightarrow> string + string) \<Rightarrow> ('w \<Rightarrow> 'w server) \<Rightarrow> string \<Rightarrow> gval \<Rightarrow> 'w \<Rightarrow> (string + content list) \<times> 'w" where
  "callTool js m d name args w =
     (case delegate_call js m d ''tools/call'' (Some (GMap [(''arguments'', args), (''name'', GStr name)])) w of
        (Inl e, w') \<Rightarrow> (Inl e, w')
      | (Inr raw, w') \<Rightarrow>
          (case unmarshal step_tool_out \<lparr>to_content = [], to_isError = False\<rparr> raw of
             None \<Rightarrow> (Inl (''mount: decoding tool result: '' @ js_text js), w')
           | Some out \<Rightarrow> (if to_isError out then Inl (contentText (to_content out)) else Inr (to_content out), w')))"

text \<open>\<open>StdEncoding.DecodeString\<close>: line breaks are skipped, whole groups of four, padding at the
  end only.\<close>

definition std_decode_strict :: "string \<Rightarrow> string option" where
  "std_decode_strict s =
     (let t = filter (\<lambda>c. c \<noteq> CHR 0x0A \<and> c \<noteq> CHR 0x0D) s;
          body = trim_right (\<lambda>c. c = CHR ''='') t
      in if length t mod 4 \<noteq> 0 \<or> length t - length body > 2 then None
         else (case b64_symbols b64_std body of None \<Rightarrow> None | Some ns \<Rightarrow> b64_bytes ns))"

definition step_body :: "string \<Rightarrow> gval \<Rightarrow> resource_contents \<Rightarrow> resource_contents option" where
  "step_body k v r =
     (if equal_fold k ''text'' then map_option (\<lambda>s. r\<lparr>rc_text := s\<rparr>) (put_str v (rc_text r))
      else if equal_fold k ''blob'' then map_option (\<lambda>s. r\<lparr>rc_blob := s\<rparr>) (put_str v (rc_blob r))
      else Some r)"

definition readResource ::
  "json_lib \<Rightarrow> (gval \<Rightarrow> string + string) \<Rightarrow> ('w \<Rightarrow> 'w server) \<Rightarrow> string \<Rightarrow> 'w \<Rightarrow> (string + string) \<times> 'w" where
  "readResource js m d uri w =
     (case delegate_call js m d ''resources/read'' (Some (GMap [(''uri'', GStr uri)])) w of
        (Inl e, w') \<Rightarrow> (Inl e, w')
      | (Inr raw, w') \<Rightarrow>
          (case unmarshal (step_field ''contents'' (\<lambda>v _. put_list step_body empty_res v)) [] raw of
             None \<Rightarrow> (Inl (''mount: decoding resource contents: '' @ js_text js), w')
           | Some [] \<Rightarrow> (Inr [], w')
           | Some (c # cs) \<Rightarrow>
               (if rc_blob c \<noteq> [] then
                  (case std_decode_strict (rc_blob c) of
                     None \<Rightarrow> Inl (''mount: decoding resource blob: '' @ js_text js)
                   | Some b \<Rightarrow> Inr b)
                else Inr (rc_text c), w')))"

definition step_message :: "string \<Rightarrow> gval \<Rightarrow> prompt_message \<Rightarrow> prompt_message option" where
  "step_message k v p =
     (if equal_fold k ''role'' then map_option (\<lambda>s. p\<lparr>pm_role := s\<rparr>) (put_str v (pm_role p))
      else if equal_fold k ''content'' then map_option (\<lambda>c. p\<lparr>pm_content := c\<rparr>) (decode_value step_content v (pm_content p))
      else Some p)"

text \<open>A map of strings as JSON; the keys are the arguments the parent was given.\<close>

definition getPrompt ::
  "json_lib \<Rightarrow> (gval \<Rightarrow> string + string) \<Rightarrow> ('w \<Rightarrow> 'w server) \<Rightarrow> string \<Rightarrow> (string \<times> string) list \<Rightarrow> 'w
     \<Rightarrow> (string + prompt_message list) \<times> 'w" where
  "getPrompt js m d name args w =
     (case delegate_call js m d ''prompts/get''
             (Some (GMap [(''arguments'', GMap (map (\<lambda>(k, v). (k, GStr v)) args)), (''name'', GStr name)])) w of
        (Inl e, w') \<Rightarrow> (Inl e, w')
      | (Inr raw, w') \<Rightarrow>
          (case unmarshal (step_field ''messages'' (\<lambda>v _. put_list step_message \<lparr>pm_role = [], pm_content = empty_content []\<rparr> v)) [] raw of
             None \<Rightarrow> (Inl (''mount: decoding prompt messages: '' @ js_text js), w')
           | Some ms \<Rightarrow> (Inr ms, w')))"

section \<open>Composition\<close>

datatype prefix_style = PrefixPath | PrefixProtocol
datatype collision_policy = CollisionError | CollisionSkip | CollisionOverwrite

record mount_config =
  mc_Separator :: string
  mc_ResourceStyle :: prefix_style
  mc_IncludeTools :: bool
  mc_IncludeResources :: bool
  mc_IncludePrompts :: bool
  mc_OnCollision :: collision_policy

definition DefaultConfig :: mount_config where
  "DefaultConfig = \<lparr>mc_Separator = ''_'', mc_ResourceStyle = PrefixPath, mc_IncludeTools = True,
     mc_IncludeResources = True, mc_IncludePrompts = True, mc_OnCollision = CollisionError\<rparr>"

definition separator :: "mount_config \<Rightarrow> string" where
  "separator c = (if mc_Separator c = [] then ''_'' else mc_Separator c)"

record mounted =
  mo_Prefix :: string
  mo_Live :: bool
  mo_Tools :: "string list"
  mo_Resources :: "string list"
  mo_Templates :: "string list"
  mo_Prompts :: "string list"

record name_sets =
  ns_tools :: "string set"
  ns_resources :: "string set"
  ns_templates :: "string set"
  ns_prompts :: "string set"

definition existingNames ::
  "json_lib \<Rightarrow> (gval \<Rightarrow> string + string) \<Rightarrow> 'w server \<Rightarrow> 'w \<Rightarrow> (string + name_sets) \<times> 'w" where
  "existingNames js m parent w =
     (case listTools js m (\<lambda>_. parent) w of (Inl e, w) \<Rightarrow> (Inl e, w) | (Inr tools, w) \<Rightarrow>
     (case listResources js m (\<lambda>_. parent) w of (Inl e, w) \<Rightarrow> (Inl e, w) | (Inr resources, w) \<Rightarrow>
     (case listTemplates js m (\<lambda>_. parent) w of (Inl e, w) \<Rightarrow> (Inl e, w) | (Inr templates, w) \<Rightarrow>
     (case listPrompts js m (\<lambda>_. parent) w of (Inl e, w) \<Rightarrow> (Inl e, w) | (Inr prompts, w) \<Rightarrow>
       (Inr \<lparr>ns_tools = set (map ti_name tools), ns_resources = set (map ri_uri resources),
             ns_templates = set (map ri_uri templates), ns_prompts = set (map pi_name prompts)\<rparr>, w)))))"

definition resolve :: "(string \<Rightarrow> string) \<Rightarrow> string set \<Rightarrow> string \<Rightarrow> string \<Rightarrow> collision_policy \<Rightarrow> (string + bool) \<times> string set" where
  "resolve q taken name kind policy =
     (if name \<in> taken then
        (case policy of
           CollisionSkip \<Rightarrow> Inr False
         | CollisionOverwrite \<Rightarrow> Inr True
         | CollisionError \<Rightarrow> Inl (''mount: '' @ kind @ '' '' @ q name @ '' already registered on parent''), taken)
      else (Inr True, insert name taken))"

definition prefixName :: "string \<Rightarrow> string \<Rightarrow> string \<Rightarrow> string" where
  "prefixName pfx name sep = pfx @ sep @ name"

definition prefixURI :: "string \<Rightarrow> string \<Rightarrow> prefix_style \<Rightarrow> string" where
  "prefixURI uri pfx style =
     (case index_str uri ''://'' of
        None \<Rightarrow> pfx @ ''/'' @ uri
      | Some idx \<Rightarrow>
          let scheme = take idx uri; rest = drop (idx + 3) uri
          in if style = PrefixProtocol then pfx @ ''+'' @ scheme @ ''://'' @ rest
             else scheme @ ''://'' @ pfx @ ''/'' @ rest)"

text \<open>The loop that registers the components of one kind: the identifier a child's component
  gets, its registration on the parent, the set of taken identifiers, the identifiers
  registered so far. An error leaves what was registered before it.\<close>

fun compose_loop ::
  "(string \<Rightarrow> string) \<Rightarrow> string \<Rightarrow> collision_policy \<Rightarrow> ('c \<Rightarrow> string) \<Rightarrow> (string \<Rightarrow> 'c \<Rightarrow> 'w server \<Rightarrow> 'w server) \<Rightarrow> 'c list
     \<Rightarrow> string set \<Rightarrow> 'w server \<Rightarrow> string list \<Rightarrow> string option \<times> string set \<times> 'w server \<times> string list" where
  "compose_loop q kind policy ident reg [] taken parent names = (None, taken, parent, names)"
| "compose_loop q kind policy ident reg (c # cs) taken parent names =
     (case resolve q taken (ident c) kind policy of
        (Inl e, taken') \<Rightarrow> (Some e, taken', parent, names)
      | (Inr False, taken') \<Rightarrow> compose_loop q kind policy ident reg cs taken' parent names
      | (Inr True, taken') \<Rightarrow>
          compose_loop q kind policy ident reg cs taken' (reg (ident c) c parent) (names @ [ident c]))"

text \<open>The handlers that are registered. A tool takes its arguments as a map; \<open>null\<close> or none is
  the nil map, anything else than an object is an error.\<close>

definition map_args :: "json_lib \<Rightarrow> gval \<Rightarrow> string + gval" where
  "map_args js v = (case v of GMap m \<Rightarrow> Inr (GMap m) | GNil \<Rightarrow> Inr GNil | _ \<Rightarrow> Inl (js_text js))"

definition mounted_tool ::
  "json_lib \<Rightarrow> (gval \<Rightarrow> string + string) \<Rightarrow> ('w \<Rightarrow> 'w server) \<Rightarrow> string \<Rightarrow> gval option \<Rightarrow> 'w \<Rightarrow> (tool_value \<times> string option) \<times> 'w" where
  "mounted_tool js m d origin =
     tool_call (map_args js) GNil
       (\<lambda>args w. case callTool js m d origin args w of
                   (Inl e, w') \<Rightarrow> ([OVal (TVAny GNil), OErr (Some e)], w')
                 | (Inr cs, w') \<Rightarrow> ([OVal (TVContents cs), OErr None], w'))"

definition reg_tool where
  "reg_tool js m d name (t :: tool_info) parent =
     (case Tool name (ti_description t) (Func [SCtx, SMapArg] [STy TOther, SErr]) (mounted_tool js m d (ti_name t)) parent of
        Inr parent' \<Rightarrow> parent' | Inl e \<Rightarrow> parent)"

definition reg_resource where
  "reg_resource js m d uri (r :: res_info) parent =
     Resource uri (ri_name r) (ri_description r) (ri_mimeType r) (readResource js m d (ri_uri r)) parent"

definition reg_template where
  "reg_template js m d tmpl (t :: res_info) parent =
     ResourceTemplate tmpl (ri_name t) (ri_description t) (ri_mimeType t)
       (\<lambda>params. readResource js m d (expandTemplate (ri_uri t) params)) parent"

definition args_list :: "(string \<rightharpoonup> string) \<Rightarrow> (string \<times> string) list" where
  "args_list args = map (\<lambda>k. (k, the (args k))) (sorted_list_of_set (dom args))"

definition reg_prompt where
  "reg_prompt js m d name (p :: prompt_info) parent =
     Prompt name (pi_description p) (\<lambda>args. getPrompt js m d (pi_name p) (args_list args)) (pi_arguments p) parent"

text \<open>One category: list the child's components, then the loop.\<close>

definition compose_kind ::
  "(string \<Rightarrow> string) \<Rightarrow> (string + 'c list) \<times> 'w \<Rightarrow> string \<Rightarrow> collision_policy \<Rightarrow> ('c \<Rightarrow> string) \<Rightarrow> (string \<Rightarrow> 'c \<Rightarrow> 'w server \<Rightarrow> 'w server)
     \<Rightarrow> string set \<Rightarrow> 'w server \<Rightarrow> (string option \<times> 'w server \<times> string list) \<times> 'w" where
  "compose_kind q listed kind policy ident reg taken parent =
     (case listed of
        (Inl e, w') \<Rightarrow> ((Some e, parent, []), w')
      | (Inr cs, w') \<Rightarrow>
          (case compose_loop q kind policy ident reg cs taken parent [] of
             (err, taken', parent', names) \<Rightarrow> ((err, parent', names), w')))"

definition composeTools where
  "composeTools js m child pfx cfg ns parent w =
     compose_kind (js_quote js) (listTools js m child w) ''tool'' (mc_OnCollision cfg)
       (\<lambda>t. prefixName pfx (ti_name t) (separator cfg)) (reg_tool js m child) (ns_tools ns) parent"

definition composeResources where
  "composeResources js m child pfx cfg ns parent w =
     compose_kind (js_quote js) (listResources js m child w) ''resource'' (mc_OnCollision cfg)
       (\<lambda>r. prefixURI (ri_uri r) pfx (mc_ResourceStyle cfg)) (reg_resource js m child) (ns_resources ns) parent"

definition composeTemplates where
  "composeTemplates js m child pfx cfg ns parent w =
     compose_kind (js_quote js) (listTemplates js m child w) ''resource template'' (mc_OnCollision cfg)
       (\<lambda>t. prefixURI (ri_uri t) pfx (mc_ResourceStyle cfg)) (reg_template js m child) (ns_templates ns) parent"

definition composePrompts where
  "composePrompts js m child pfx cfg ns parent w =
     compose_kind (js_quote js) (listPrompts js m child w) ''prompt'' (mc_OnCollision cfg)
       (\<lambda>p. prefixName pfx (pi_name p) (separator cfg)) (reg_prompt js m child) (ns_prompts ns) parent"

text \<open>A category that is left out composes nothing.\<close>

definition if_included :: "bool \<Rightarrow> ('w server \<Rightarrow> 'w \<Rightarrow> (string option \<times> 'w server \<times> string list) \<times> 'w)
     \<Rightarrow> 'w server \<Rightarrow> 'w \<Rightarrow> (string option \<times> 'w server \<times> string list) \<times> 'w" where
  "if_included inc f parent w = (if inc then f parent w else ((None, parent, []), w))"

text \<open>\<open>compose\<close>: the record or an error, the parent as it is left, and the state. The servers are
  pointers: \<open>None\<close> is nil, \<open>same\<close> tells whether both are one server.\<close>

definition compose ::
  "json_lib \<Rightarrow> (gval \<Rightarrow> string + string) \<Rightarrow> 'w server option \<Rightarrow> ('w \<Rightarrow> 'w server) option \<Rightarrow> bool \<Rightarrow> string
     \<Rightarrow> mount_config \<Rightarrow> bool \<Rightarrow> 'w \<Rightarrow> ((string + mounted) \<times> 'w server option) \<times> 'w" where
  "compose js m parent child same pfx cfg live w =
     (case (parent, child) of
        (Some p, Some c) \<Rightarrow>
          (if pfx = [] then ((Inl ''mount: prefix must not be empty'', Some p), w)
           else if same then ((Inl ''mount: cannot compose a server onto itself'', Some p), w)
           else (case existingNames js m p w of
             (Inl e, w0) \<Rightarrow> ((Inl e, Some p), w0)
           | (Inr ns, w0) \<Rightarrow>
          (case if_included (mc_IncludeTools cfg) (composeTools js m c pfx cfg ns) p w0 of
             ((Some e, p1, _), w1) \<Rightarrow> ((Inl e, Some p1), w1)
           | ((None, p1, tools), w1) \<Rightarrow>
          (case if_included (mc_IncludeResources cfg) (composeResources js m c pfx cfg ns) p1 w1 of
             ((Some e, p2, _), w2) \<Rightarrow> ((Inl e, Some p2), w2)
           | ((None, p2, resources), w2) \<Rightarrow>
          (case if_included (mc_IncludeResources cfg) (composeTemplates js m c pfx cfg ns) p2 w2 of
             ((Some e, p3, _), w3) \<Rightarrow> ((Inl e, Some p3), w3)
           | ((None, p3, templates), w3) \<Rightarrow>
          (case if_included (mc_IncludePrompts cfg) (composePrompts js m c pfx cfg ns) p3 w3 of
             ((Some e, p4, _), w4) \<Rightarrow> ((Inl e, Some p4), w4)
           | ((None, p4, prompts), w4) \<Rightarrow>
               ((Inr \<lparr>mo_Prefix = pfx, mo_Live = live, mo_Tools = tools, mo_Resources = resources,
                      mo_Templates = templates, mo_Prompts = prompts\<rparr>, Some p4), w4)))))))
      | _ \<Rightarrow> ((Inl ''mount: parent and child servers must be non-nil'', parent), w))"

definition ImportWithConfig where
  "ImportWithConfig js m parent child same pfx cfg = compose js m parent child same pfx cfg False"

definition MountWithConfig where
  "MountWithConfig js m parent child same pfx cfg = compose js m parent child same pfx cfg True"

definition Import where
  "Import js m parent child same pfx w =
     (case ImportWithConfig js m parent child same pfx DefaultConfig w of
        ((Inl e, p), w') \<Rightarrow> ((Some e, p), w') | ((Inr r, p), w') \<Rightarrow> ((None, p), w'))"

definition Mount where
  "Mount js m parent child same pfx w =
     (case MountWithConfig js m parent child same pfx DefaultConfig w of
        ((Inl e, p), w') \<Rightarrow> ((Some e, p), w') | ((Inr r, p), w') \<Rightarrow> ((None, p), w'))"

section \<open>Content blocks survive the wire\<close>

lemma fold_keys:
  "to_lower ''type'' = ''type''" "to_lower ''text'' = ''text''" "to_lower ''data'' = ''data''"
  "to_lower ''mimeType'' = ''mimetype''" "to_lower ''uri'' = ''uri''" "to_lower ''name'' = ''name''"
  "to_lower ''resource'' = ''resource''" "to_lower ''annotations'' = ''annotations''" "to_lower ''blob'' = ''blob''"
  "to_lower ''audience'' = ''audience''" "to_lower ''priority'' = ''priority''" "to_lower ''content'' = ''content''"
  "to_lower ''isError'' = ''iserror''" "to_lower ''structuredContent'' = ''structuredcontent''"
  "to_lower ''result'' = ''result''" "to_lower ''error'' = ''error''" "to_lower ''id'' = ''id''"
  "to_lower ''jsonrpc'' = ''jsonrpc''" "to_lower ''method'' = ''method''" "to_lower ''params'' = ''params''"
  "to_lower ''arguments'' = ''arguments''" "to_lower ''code'' = ''code''" "to_lower ''message'' = ''message''"
  by code_simp+

lemma fold_eq: "equal_fold a b \<longleftrightarrow> to_lower a = to_lower b"
  by (simp add: equal_fold_def)

lemma decode_fields_Cons:
  "step k v s = Some s' \<Longrightarrow> decode_fields step ((k, v) # m) s = decode_fields step m s'"
  by simp

lemma decode_opt_str:
  "(s \<noteq> [] \<Longrightarrow> step k (GStr s) x = Some x') \<Longrightarrow> (s = [] \<Longrightarrow> x' = x) \<Longrightarrow>
     decode_fields step (map (\<lambda>(k, v). (k, jnorm v)) (opt_str k s) @ m) x = decode_fields step m x'"
  by (cases "s = []") (simp_all add: opt_str_def)

lemma those_map: "(\<And>x. x \<in> set xs \<Longrightarrow> f x = Some (g x)) \<Longrightarrow> those (map f xs) = Some (map g xs)"
  by (induction xs) auto

lemma annotations_back: "decode_value step_annotations (jnorm (annotations_json a)) \<lparr>an_audience = [], an_priority = 0\<rparr> = Some a"
proof -
  have s: "those (map (\<lambda>x. put_str x []) (map GStr xs)) = Some xs" for xs
    using those_map [of xs "\<lambda>x. put_str (GStr x) []" "\<lambda>x. x"] by (simp add: put_str_def comp_def)
  show ?thesis
    using s [of "an_audience a"]
    by (cases a) (auto simp: annotations_json_def decode_value_def step_annotations_def put_strs_def put_float_def
        fold_eq fold_keys comp_def)
qed

lemma resource_back: "decode_value step_res (jnorm (resource_contents_json r)) empty_res = Some r"
  by (cases r) (auto simp: resource_contents_json_def decode_value_def step_res_def put_str_def opt_str_def
      fold_eq fold_keys empty_res_def)

lemma resource_ptr: "put_ptr step_res empty_res (jnorm (resource_contents_json r)) None = Some (Some r)"
  using resource_back [of r] by (simp add: put_ptr_def resource_contents_json_def)

lemma annotations_ptr:
  "put_ptr step_annotations \<lparr>an_audience = [], an_priority = 0\<rparr> (jnorm (annotations_json a)) None = Some (Some a)"
  using annotations_back [of a] by (simp add: put_ptr_def annotations_json_def)

lemma content_back: "decode_value step_content (jnorm (content_json c)) (empty_content []) = Some c"
proof -
  obtain ty tx da mi ur na rs an where c: "c = \<lparr>ct_type = ty, ct_text = tx, ct_data = da, ct_mimeType = mi, ct_uri = ur,
      ct_name = na, ct_resource = rs, ct_annotations = an\<rparr>" by (cases c)
  let ?z = "empty_content []"
  let ?J = "map (\<lambda>(k, v). (k, jnorm v))"
  have "decode_fields step_content (?J ([(''type'', GStr ty)] @ opt_str ''text'' tx @ opt_str ''data'' da
      @ opt_str ''mimeType'' mi @ opt_str ''uri'' ur @ opt_str ''name'' na
      @ (case rs of None \<Rightarrow> [] | Some r \<Rightarrow> [(''resource'', resource_contents_json r)])
      @ (case an of None \<Rightarrow> [] | Some a \<Rightarrow> [(''annotations'', annotations_json a)]))) ?z = Some c"
    by (cases rs; cases an; cases "tx = []"; cases "da = []"; cases "mi = []"; cases "ur = []"; cases "na = []")
      (simp_all add: opt_str_def step_content_def fold_eq fold_keys put_str_def empty_content_def c resource_ptr annotations_ptr)
  then show ?thesis by (simp add: content_json_def decode_value_def c)
qed

section \<open>Facts about the delegate\<close>

lemma those_back: "(\<And>x. decode_value step (f x) z = Some x) \<Longrightarrow> those (map (\<lambda>y. decode_value step y z) (map f xs)) = Some xs"
  using those_map [of xs "\<lambda>x. decode_value step (f x) z" "\<lambda>x. x"] by (simp add: comp_def)

lemma contents_back: "put_list step_content (empty_content []) (jnorm (contents_json cs)) = Some cs"
  using those_back [of step_content "\<lambda>c. jnorm (content_json c)" "empty_content []" cs] content_back
  by (simp add: put_list_def contents_json_def comp_def)

lemma request_back:
  "unmarshal step_request empty_request (Some (jnorm (call_body meth params))) =
     Some \<lparr>rq_id = Some (GFloat 1), rq_method = meth, rq_params = map_option jnorm params\<rparr>"
  by (cases params) (simp_all add: call_body_def unmarshal_def decode_value_def step_request_def fold_eq fold_keys
      put_str_def empty_request_def)

lemma reply_back:
  "unmarshal step_reply \<lparr>ry_result = None, ry_error = None\<rparr> (Some (jnorm (response_json js resp))) =
     Some \<lparr>ry_result = map_option jnorm (rs_result resp),
           ry_error = map_option (\<lambda>e. \<lparr>rp_code = re_code e, rp_message = rpc_msg_text js (re_msg e)\<rparr>) (rs_error resp)\<rparr>"
proof -
  have d: "to_lower ''data'' = ''data''" by code_simp
  show ?thesis
    by (cases "rs_id resp"; cases "rs_result resp"; cases "rs_error resp"; cases "re_data (the (rs_error resp))")
      (simp_all add: response_json_def unmarshal_def decode_value_def step_reply_def step_rpcError_def fold_eq fold_keys d
        put_ptr_def put_int_def put_str_def)
qed

lemma is_object: "\<exists>m. call_body meth params = GMap m" "\<exists>m. response_json js r = GMap m"
  by (simp_all add: call_body_def response_json_def)

lemma json_text:
  assumes "json_ok js" "js_enc js v = Inr t" "\<exists>m. v = GMap m"
  shows "js_dec js t = Some (jnorm v)" "js_dec js (t @ [CHR 0x0A]) = Some (jnorm v)" "length t \<le> max_body \<Longrightarrow> post_trimmed t = t"
    "\<not> (t \<noteq> [] \<and> hd t = CHR ''['')"
  using assms by (auto simp: json_ok_def post_trimmed_def)

lemma delegate_call_reply:
  assumes "json_ok js" "js_enc js (call_body meth params) = Inr buf" "length buf \<le> max_body"
    and "Dispatch m (child w) \<lparr>rq_id = Some (GFloat 1), rq_method = meth, rq_params = map_option jnorm params\<rparr> None w
           = (Some resp, c, w')"
    and "js_enc js (response_json js resp) = Inr t"
  shows "delegate_call js m child meth params w =
     (case rs_error resp of
        Some e \<Rightarrow> Inl (''mount: child '' @ meth @ '' error '' @ itoa (re_code e) @ '': '' @ rpc_msg_text js (re_msg e))
      | None \<Rightarrow> Inr (map_option jnorm (rs_result resp)), w')"
proof -
  note q = json_text [OF assms(1,2) is_object(1)] and r = json_text [OF assms(1,5) is_object(2)]
  have "unmarshal step_request empty_request (js_dec js (post_trimmed buf)) =
      Some \<lparr>rq_id = Some (GFloat 1), rq_method = meth, rq_params = map_option jnorm params\<rparr>"
    unfolding q(3) [OF assms(3)] q(1) by (rule request_back)
  then have p: "handleHTTPPost m (js_dec js) (child w) (Inr buf) w = (writeJSONResponse (BResponse resp), w')"
    unfolding handleHTTPPost_def Let_def sum.case q(3) [OF assms(3)] using q(4) assms(4) by auto
  have b: "js_dec js (body_text js (hr_body (writeJSONResponse (BResponse resp)))) = Some (jnorm (response_json js resp))"
    using assms(5) r(2) by (simp add: body_text_def writeJSONResponse_def)
  show ?thesis
    unfolding delegate_call_def assms(2) sum.case p prod.case b reply_back option.case
    by (cases "rs_error resp") simp_all
qed

lemma tool_out_back:
  "unmarshal step_tool_out \<lparr>to_content = [], to_isError = False\<rparr> (Some (jnorm (tool_result m st (r, err)))) =
     Some (case err of None \<Rightarrow> \<lparr>to_content = toContent m r, to_isError = False\<rparr>
                     | Some e \<Rightarrow> \<lparr>to_content = [NewTextContent e], to_isError = True\<rparr>)"
  using contents_back
  by (cases err) (auto simp: tool_result_def unmarshal_def decode_value_def step_tool_out_def fold_eq fold_keys put_bool_def)

lemma callTool_child:
  assumes "json_ok js" and "sv_tools (child w) nm = Some tool"
    and "te_call tool (Some (jnorm args)) w = ((r, err), w')"
    and "js_enc js (call_body ''tools/call'' (Some (GMap [(''arguments'', args), (''name'', GStr nm)]))) = Inr buf" "length buf \<le> max_body"
    and "js_enc js (response_json js (resultResponse (Some (GFloat 1)) (Some (tool_result m (te_structured tool) (r, err))))) = Inr t"
  shows "callTool js m child nm args w =
     (case err of None \<Rightarrow> Inr (toContent m r) | Some e \<Rightarrow> Inl e, w')"
proof -
  let ?ps = "GMap [(''arguments'', args), (''name'', GStr nm)]"
  have "unmarshal step_call \<lparr>cp_name = [], cp_arguments = None\<rparr> (Some (jnorm ?ps))
      = Some \<lparr>cp_name = nm, cp_arguments = Some (jnorm args)\<rparr>"
    by (simp add: unmarshal_def decode_value_def step_call_def fold_eq fold_keys put_str_def)
  then have "Dispatch m (child w) \<lparr>rq_id = Some (GFloat 1), rq_method = ''tools/call'', rq_params = map_option jnorm (Some ?ps)\<rparr> None w
      = (Some (resultResponse (Some (GFloat 1)) (Some (tool_result m (te_structured tool) (r, err)))), None, w')"
    using assms(2,3) by (simp add: Dispatch_def route_def handleToolsCall_def IsNotification_def Let_def)
  from delegate_call_reply [where child = child and w = w, OF assms(1,4,5) this assms(6)] show ?thesis
    using tool_out_back [of m "te_structured tool" r err]
    by (cases err) (simp_all add: callTool_def resultResponse_def contentText_def NewTextContent_def empty_content_def)
qed

section \<open>Collision policies\<close>

text \<open>The components the loop registers.\<close>

fun kept :: "collision_policy \<Rightarrow> ('c \<Rightarrow> string) \<Rightarrow> string set \<Rightarrow> 'c list \<Rightarrow> 'c list" where
  "kept policy ident taken [] = []"
| "kept policy ident taken (c # cs) =
     (if ident c \<notin> taken then c # kept policy ident (insert (ident c) taken) cs
      else (case policy of CollisionError \<Rightarrow> [] | CollisionSkip \<Rightarrow> kept policy ident taken cs
            | CollisionOverwrite \<Rightarrow> c # kept policy ident taken cs))"

lemma compose_loop_kept:
  "compose_loop q kind policy ident reg cs taken parent names = (err, taken', parent', names')
   \<Longrightarrow> parent' = fold (\<lambda>c. reg (ident c) c) (kept policy ident taken cs) parent
     \<and> names' = names @ map ident (kept policy ident taken cs)
     \<and> (err = None \<longleftrightarrow> policy \<noteq> CollisionError \<or> distinct (map ident cs) \<and> taken \<inter> ident ` set cs = {})"
proof (induction cs arbitrary: taken parent names)
  case (Cons c cs)
  then show ?case
    by (cases "ident c \<in> taken"; cases policy) (fastforce simp: resolve_def)+
qed simp

lemma kept_overwrite: "kept CollisionOverwrite ident taken cs = cs"
  by (induction cs arbitrary: taken) auto

lemma kept_subset: "set (kept policy ident taken cs) \<subseteq> set cs"
  by (induction cs arbitrary: taken) (auto split: collision_policy.splits)

lemma kept_fresh:
  "policy \<noteq> CollisionOverwrite \<Longrightarrow> distinct (map ident (kept policy ident taken cs))
     \<and> taken \<inter> ident ` set (kept policy ident taken cs) = {}"
proof (induction cs arbitrary: taken)
  case (Cons c cs)
  note IH = Cons.IH [OF Cons.prems]
  show ?case
  proof (cases "ident c \<in> taken")
    case True then show ?thesis using IH [of taken] Cons.prems by (cases policy) simp_all
  next
    case False then show ?thesis using IH [of "insert (ident c) taken"] by auto
  qed
qed simp

lemma kept_skip: "ident ` set (kept CollisionSkip ident taken cs) = ident ` set cs - taken"
  by (induction cs arbitrary: taken) auto

lemma kept_clear:
  "distinct (map ident cs) \<Longrightarrow> taken \<inter> ident ` set cs = {} \<Longrightarrow> kept CollisionError ident taken cs = cs"
  by (induction cs arbitrary: taken) auto

lemma kept_error_take: "\<exists>n. kept CollisionError ident taken cs = take n cs"
proof (induction cs arbitrary: taken)
  case (Cons c cs)
  from Cons.IH [of "insert (ident c) taken"] obtain n where "kept CollisionError ident (insert (ident c) taken) cs = take n cs" ..
  then have "kept CollisionError ident taken (c # cs) = take (if ident c \<in> taken then 0 else Suc n) (c # cs)" by simp
  then show ?case ..
qed simp

definition mounted_entry where
  "mounted_entry js m d name (t :: tool_info) =
     \<lparr>te_name = name, te_description = ti_description t, te_inputSchema = [(''type'', GStr ''object'')], te_outputSchema = None,
      te_structured = False, te_call = mounted_tool js m d (ti_name t)\<rparr>"

lemma reg_tool_registers: "reg_tool js m d name t parent = registerTool name (mounted_entry js m d name t) parent"
  by (simp add: reg_tool_def Tool_def Tool_reg_def buildToolEntry_def validateOutputs_def build_rest_def mounted_entry_def)

lemma fold_reg_tools:
  fixes js m d and ident :: "tool_info \<Rightarrow> string"
  defines "step \<equiv> \<lambda>t. reg_tool js m d (ident t) t"
  shows "dom (sv_tools (fold step ts p)) = dom (sv_tools p) \<union> ident ` set ts"
    and "n \<notin> ident ` set ts \<Longrightarrow> sv_tools (fold step ts p) n = sv_tools p n"
    and "n \<in> ident ` set ts \<Longrightarrow> \<exists>t\<in>set ts. ident t = n \<and> sv_tools (fold step ts p) n = Some (mounted_entry js m d n t)"
    and "sv_resources (fold step ts p) = sv_resources p" "sv_templates (fold step ts p) = sv_templates p"
      "sv_prompts (fold step ts p) = sv_prompts p"
proof -
  show "dom (sv_tools (fold step ts p)) = dom (sv_tools p) \<union> ident ` set ts"
    by (induction ts arbitrary: p) (auto simp: step_def reg_tool_registers registerTool_def)
  show keep: "n \<notin> ident ` set ts \<Longrightarrow> sv_tools (fold step ts p) n = sv_tools p n" for n ts p
    by (induction ts arbitrary: p) (auto simp: step_def reg_tool_registers registerTool_def)
  show "n \<in> ident ` set ts \<Longrightarrow> \<exists>t\<in>set ts. ident t = n \<and> sv_tools (fold step ts p) n = Some (mounted_entry js m d n t)"
  proof (induction ts arbitrary: p)
    case (Cons t ts)
    show ?case
    proof (cases "n \<in> ident ` set ts")
      case True then show ?thesis using Cons.IH by force
    next
      case False
      with Cons.prems have n: "n = ident t" by simp
      have "sv_tools (fold step (t # ts) p) n = Some (mounted_entry js m d n t)"
        using keep [OF False, of "step t p"] by (simp add: n step_def reg_tool_registers registerTool_def)
      with n show ?thesis by auto
    qed
  qed simp
  show "sv_resources (fold step ts p) = sv_resources p" "sv_templates (fold step ts p) = sv_templates p"
      "sv_prompts (fold step ts p) = sv_prompts p"
    by (induction ts arbitrary: p) (auto simp: step_def reg_tool_registers registerTool_def)
qed

section \<open>Properties\<close>

text \<open>
  Content blocks survive the wire. Reading back what a content block, of any
  type, with an embedded resource and annotations or without, is written as gives exactly that
  block, so what a mounted server passes on is what its child returned.
\<close>

theorem content_json_roundtrip:
  "decode_value step_content (jnorm (content_json c)) (empty_content []) = Some c
   \<and> put_list step_content (empty_content []) (jnorm (contents_json cs)) = Some cs"
  using content_back contents_back by blast

text \<open>
  C18: a mounted tool is the child's tool. Calling it with an argument object runs the
  tool the child has at that moment, once, on the same state with the arguments as JSON gives
  them back, and returns the content of its result; a tool error keeps its text. Only the
  structured form of a result is lost on the way. The request must fit the limit on bodies.
\<close>

theorem mounted_tool_passthrough:
  assumes "json_ok js" and "sv_tools (child w) nm = Some tool"
    and "te_call tool (Some (jnorm (GMap a))) w = ((r, err), w')"
    and "js_enc js (call_body ''tools/call'' (Some (GMap [(''arguments'', GMap a), (''name'', GStr nm)]))) = Inr buf" "length buf \<le> max_body"
    and "js_enc js (response_json js (resultResponse (Some (GFloat 1)) (Some (tool_result m (te_structured tool) (r, err))))) = Inr t"
  shows "tool_result m False (fst (mounted_tool js m child nm (Some (GMap a)) w)) = tool_result m False (r, err)
    \<and> snd (mounted_tool js m child nm (Some (GMap a)) w) = w'"
proof -
  have c: "callTool js m child nm (GMap a) w = (case err of None \<Rightarrow> Inr (toContent m r) | Some e \<Rightarrow> Inl e, w')"
    by (rule callTool_child [where child = child and w = w and nm = nm and args = "GMap a" and m = m and tool = tool,
        OF assms])
  show ?thesis
    by (cases err) (simp_all add: mounted_tool_def tool_call_def map_args_def c splitOutputs_def tool_result_def)
qed

definition demo_q :: gval where
  "demo_q = call_body ''tools/call'' (Some (GMap [(''arguments'', GMap []), (''name'', GStr ''t'')]))"

definition demo_r :: gval where
  "demo_r = GMap [(''jsonrpc'', GStr ''2.0''), (''id'', GFloat 1),
     (''result'', GMap [(''content'', contents_json [NewTextContent ''ok''])])]"

definition demo_json :: json_lib where
  "demo_json =
     \<lparr>js_enc = (\<lambda>v. if v = demo_q then Inr ''q'' else if v = demo_r then Inr ''r'' else Inl ''unsupported''),
      js_dec = (\<lambda>s. if s = ''q'' \<or> s = ''q'' @ [CHR 0x0A] then Some (jnorm demo_q)
                  else if s = ''r'' \<or> s = ''r'' @ [CHR 0x0A] then Some (jnorm demo_r) else None),
      js_text = [], js_quote = (\<lambda>s. s)\<rparr>"

definition demo_child_tool :: "nat tool_entry" where
  "demo_child_tool = \<lparr>te_name = ''t'', te_description = [], te_inputSchema = [], te_outputSchema = None,
     te_structured = False, te_call = (\<lambda>a w. ((TVAny (GStr ''ok''), None), Suc w))\<rparr>"

lemma demo_json_ok: "json_ok demo_json"
proof -
  have "trim_space ''q'' = ''q''" "trim_space ''r'' = ''r''"
    by (simp_all add: trim_both_def trim_left_def trim_right_def is_space_def)
  then show ?thesis
    by (auto simp: json_ok_def demo_json_def simp del: jnorm.simps split: if_splits)
qed

theorem mounted_tool_passthrough_witness:
  "tool_result demo_marshal False (fst (mounted_tool demo_json demo_marshal (\<lambda>_. registerTool ''t'' demo_child_tool (New ''c'' [])) ''t'' (Some (GMap [])) 5))
     = tool_result demo_marshal False (TVAny (GStr ''ok''), None)
   \<and> snd (mounted_tool demo_json demo_marshal (\<lambda>_. registerTool ''t'' demo_child_tool (New ''c'' [])) ''t'' (Some (GMap [])) 5) = 6"
proof (rule mounted_tool_passthrough [where js = demo_json and tool = demo_child_tool and nm = "''t''" and a = "[]"
      and child = "\<lambda>_. registerTool ''t'' demo_child_tool (New ''c'' [])" and w = 5 and buf = "''q''" and t = "''r''"])
  show "json_ok demo_json" by (rule demo_json_ok)
  show "sv_tools (registerTool ''t'' demo_child_tool (New ''c'' [])) ''t'' = Some demo_child_tool"
    by (simp add: registerTool_def)
  show "te_call demo_child_tool (Some (jnorm (GMap []))) 5 = ((TVAny (GStr ''ok''), None), 6)"
    by (simp add: demo_child_tool_def)
  show "js_enc demo_json (call_body ''tools/call'' (Some (GMap [(''arguments'', GMap []), (''name'', GStr ''t'')]))) = Inr ''q''"
    by (simp add: demo_json_def demo_q_def)
  show "length ''q'' \<le> max_body" by (simp add: max_body_def)
  have "response_json demo_json (resultResponse (Some (GFloat 1)) (Some (tool_result demo_marshal (te_structured demo_child_tool) (TVAny (GStr ''ok''), None)))) = demo_r"
    by (simp add: response_json_def resultResponse_def tool_result_def demo_child_tool_def demo_r_def)
  moreover have "demo_r \<noteq> demo_q" by (simp add: demo_r_def demo_q_def call_body_def)
  ultimately show "js_enc demo_json (response_json demo_json (resultResponse (Some (GFloat 1))
      (Some (tool_result demo_marshal (te_structured demo_child_tool) (TVAny (GStr ''ok''), None))))) = Inr ''r''"
    by (simp add: demo_json_def)
qed

text \<open>
  What composing a child's tools does to the parent. The tools registered are the
  child's, in its order, under the prefixed names: all of them when collisions overwrite; those
  whose name is new when they are skipped; and when a collision is an error, all of them exactly
  when the names are distinct and new, else only some first ones, which stay registered. Each
  name registered answers with a tool of the child of that name, every other tool of the parent
  is unchanged, and so are its resources, templates and prompts; unless collisions overwrite, no
  tool the parent had is touched.
\<close>

theorem compose_tools_policy:
  assumes "listTools js m child w = (Inr ts, w1)" and "ns_tools ns = dom (sv_tools parent)"
    and "composeTools js m child pfx cfg ns parent w = ((err, parent', names), w')"
  defines "ident \<equiv> \<lambda>t. prefixName pfx (ti_name t) (separator cfg)"
  shows "w' = w1
    \<and> (mc_OnCollision cfg = CollisionOverwrite \<longrightarrow> err = None \<and> names = map ident ts)
    \<and> (mc_OnCollision cfg = CollisionSkip \<longrightarrow> err = None \<and> set names = ident ` set ts - dom (sv_tools parent))
    \<and> (mc_OnCollision cfg = CollisionError \<longrightarrow>
         (err = None \<longleftrightarrow> distinct (map ident ts) \<and> dom (sv_tools parent) \<inter> ident ` set ts = {})
         \<and> (err = None \<longrightarrow> names = map ident ts) \<and> (\<exists>n. names = take n (map ident ts)))
    \<and> (mc_OnCollision cfg \<noteq> CollisionOverwrite \<longrightarrow>
         distinct names \<and> (\<forall>n\<in>dom (sv_tools parent). sv_tools parent' n = sv_tools parent n))
    \<and> dom (sv_tools parent') = dom (sv_tools parent) \<union> set names
    \<and> (\<forall>n. n \<notin> set names \<longrightarrow> sv_tools parent' n = sv_tools parent n)
    \<and> (\<forall>n\<in>set names. \<exists>t\<in>set ts. ident t = n \<and>
         (\<exists>e. sv_tools parent' n = Some e \<and> te_name e = n \<and> te_call e = mounted_tool js m child (ti_name t)))
    \<and> sv_resources parent' = sv_resources parent \<and> sv_templates parent' = sv_templates parent
    \<and> sv_prompts parent' = sv_prompts parent"
proof -
  let ?p = "mc_OnCollision cfg" and ?D = "dom (sv_tools parent)"
  let ?ks = "kept ?p ident ?D ts"
  obtain tk where L: "compose_loop (js_quote js) ''tool'' ?p ident (reg_tool js m child) ts ?D parent [] = (err, tk, parent', names)"
    and w: "w' = w1"
    using assms(1-3) by (auto simp: composeTools_def compose_kind_def ident_def split: prod.splits)
  from compose_loop_kept [OF L] have p: "parent' = fold (\<lambda>c. reg_tool js m child (ident c) c) ?ks parent"
    and nm: "names = map ident ?ks"
    and e: "err = None \<longleftrightarrow> ?p \<noteq> CollisionError \<or> distinct (map ident ts) \<and> ?D \<inter> ident ` set ts = {}" by auto
  note F = fold_reg_tools [where js = js and m = m and d = child and ident = ident and ts = ?ks and p = parent, folded p]
  have names: "set names = ident ` set ?ks" by (simp add: nm)
  have fresh: "?p \<noteq> CollisionOverwrite \<Longrightarrow> distinct names \<and> ?D \<inter> set names = {}"
    using kept_fresh [of ?p ident ?D ts] by (simp add: nm)
  have err: "?p = CollisionError \<Longrightarrow> (err = None \<longrightarrow> names = map ident ts) \<and> (\<exists>n. names = take n (map ident ts))"
  proof -
    assume p: "?p = CollisionError"
    obtain n where "kept CollisionError ident ?D ts = take n ts" using kept_error_take [of ident ?D ts] ..
    then have "names = take n (map ident ts)" by (simp add: nm p take_map)
    moreover have "err = None \<longrightarrow> names = map ident ts" using kept_clear [of ident ts ?D] e p by (simp add: nm)
    ultimately show ?thesis by blast
  qed
  have served: "\<forall>n\<in>set names. \<exists>t\<in>set ts. ident t = n \<and>
      (\<exists>e. sv_tools parent' n = Some e \<and> te_name e = n \<and> te_call e = mounted_tool js m child (ti_name t))"
  proof
    fix n assume "n \<in> set names"
    with F(3) obtain t where "t \<in> set ?ks" "ident t = n" "sv_tools parent' n = Some (mounted_entry js m child n t)"
      unfolding names by blast
    with kept_subset [of ?p ident ?D ts] show "\<exists>t\<in>set ts. ident t = n \<and>
        (\<exists>e. sv_tools parent' n = Some e \<and> te_name e = n \<and> te_call e = mounted_tool js m child (ti_name t))"
      by (auto simp: mounted_entry_def)
  qed
  have keep: "n \<notin> set names \<Longrightarrow> sv_tools parent' n = sv_tools parent n" for n
    using F(2) unfolding names by blast
  have ow: "?p = CollisionOverwrite \<Longrightarrow> err = None \<and> names = map ident ts"
    using e by (simp add: nm kept_overwrite)
  have sk: "?p = CollisionSkip \<Longrightarrow> err = None \<and> set names = ident ` set ts - ?D"
    using e by (simp add: names kept_skip)
  have D: "dom (sv_tools parent') = ?D \<union> set names" using F(1) unfolding names .
  have old: "?p \<noteq> CollisionOverwrite \<Longrightarrow> distinct names \<and> (\<forall>n\<in>?D. sv_tools parent' n = sv_tools parent n)"
    using fresh keep by blast
  show ?thesis
    using w ow sk e err old D keep served F(4-6) by simp
qed

lemma tool_info_back:
  "decode_value step_tool_info (jnorm (tool_json e)) \<lparr>ti_name = [], ti_description = []\<rparr>
     = Some \<lparr>ti_name = te_name e, ti_description = te_description e\<rparr>"
proof -
  have "to_lower ''inputSchema'' = ''inputschema''" "to_lower ''outputSchema'' = ''outputschema''"
    "to_lower ''description'' = ''description''" by code_simp+
  then show ?thesis
    by (cases "te_outputSchema e")
      (simp_all add: tool_json_def decode_value_def step_tool_info_def fold_eq fold_keys put_str_def)
qed

lemma listTools_back:
  assumes "json_ok js" "js_enc js (call_body ''tools/list'' None) = Inr buf" "length buf \<le> max_body"
    and "js_enc js (response_json js (resultResponse (Some (GFloat 1)) (Some (handleToolsList (child w))))) = Inr t"
  shows "listTools js m child w =
    (Inr (map (\<lambda>n. let e = the (sv_tools (child w) n) in \<lparr>ti_name = te_name e, ti_description = te_description e\<rparr>)
           (sv_toolOrder (child w))), w)"
proof -
  have "Dispatch m (child w) \<lparr>rq_id = Some (GFloat 1), rq_method = ''tools/list'', rq_params = map_option jnorm None\<rparr> None w
      = (Some (resultResponse (Some (GFloat 1)) (Some (handleToolsList (child w)))), None, w)"
    by (simp add: Dispatch_def route_def IsNotification_def Let_def)
  from delegate_call_reply [where child = child and w = w, OF assms(1-3) this assms(4)]
  have d: "delegate_call js m child ''tools/list'' None w = (Inr (Some (jnorm (handleToolsList (child w)))), w)"
    by (simp add: resultResponse_def)
  have "those (map (\<lambda>n. decode_value step_tool_info (jnorm (tool_json (the (sv_tools (child w) n)))) \<lparr>ti_name = [], ti_description = []\<rparr>) ns)
    = Some (map (\<lambda>n. let e = the (sv_tools (child w) n) in \<lparr>ti_name = te_name e, ti_description = te_description e\<rparr>) ns)" for ns
    by (induction ns) (simp_all add: tool_info_back Let_def)
  then show ?thesis
    by (simp add: listTools_def delegate_list_def d handleToolsList_def unmarshal_def decode_value_def step_field_def
        fold_eq put_list_def comp_def)
qed

definition demo_lq :: gval where
  "demo_lq = call_body ''tools/list'' None"

definition demo_lr :: gval where
  "demo_lr = GMap [(''jsonrpc'', GStr ''2.0''), (''id'', GFloat 1),
     (''result'', handleToolsList (registerTool ''t'' demo_child_tool (New ''c'' [])))]"

definition demo_list_json :: json_lib where
  "demo_list_json =
     \<lparr>js_enc = (\<lambda>v. if v = demo_lq then Inr ''q'' else if v = demo_lr then Inr ''r'' else Inl ''unsupported''),
      js_dec = (\<lambda>s. if s = ''q'' \<or> s = ''q'' @ [CHR 0x0A] then Some (jnorm demo_lq)
                  else if s = ''r'' \<or> s = ''r'' @ [CHR 0x0A] then Some (jnorm demo_lr) else None),
      js_text = [], js_quote = (\<lambda>s. s)\<rparr>"

lemma demo_listed:
  "listTools demo_list_json demo_marshal (\<lambda>_. registerTool ''t'' demo_child_tool (New ''c'' [])) (0::nat)
     = (Inr [\<lparr>ti_name = ''t'', ti_description = []\<rparr>], 0)"
proof -
  let ?c = "registerTool ''t'' demo_child_tool (New ''c'' [])"
  have "trim_space ''q'' = ''q''" "trim_space ''r'' = ''r''"
    by (simp_all add: trim_both_def trim_left_def trim_right_def is_space_def)
  then have ok: "json_ok demo_list_json"
    by (auto simp: json_ok_def demo_list_json_def simp del: jnorm.simps split: if_splits)
  have q: "js_enc demo_list_json (call_body ''tools/list'' None) = Inr ''q''" "length ''q'' \<le> max_body"
    by (simp_all add: demo_list_json_def demo_lq_def max_body_def)
  have "response_json demo_list_json (resultResponse (Some (GFloat 1)) (Some (handleToolsList ?c))) = demo_lr"
    by (simp add: response_json_def resultResponse_def demo_lr_def)
  moreover have "demo_lr \<noteq> demo_lq" by (simp add: demo_lr_def demo_lq_def call_body_def)
  ultimately have r: "js_enc demo_list_json (response_json demo_list_json (resultResponse (Some (GFloat 1)) (Some (handleToolsList ?c)))) = Inr ''r''"
    by (simp add: demo_list_json_def)
  show ?thesis
    using listTools_back [where child = "\<lambda>_. ?c" and w = 0 and m = demo_marshal, OF ok q r]
    by (simp add: registerTool_def New_def demo_child_tool_def)
qed

theorem compose_tools_policy_witness:
  "\<exists>e. sv_tools (snd (fst (case composeTools demo_list_json demo_marshal (\<lambda>_. registerTool ''t'' demo_child_tool (New ''c'' []))
        ''p'' DefaultConfig \<lparr>ns_tools = {}, ns_resources = {}, ns_templates = {}, ns_prompts = {}\<rparr> (New ''p'' []) (0::nat) of
          ((err, p, names), w) \<Rightarrow> ((names, p), w)))) ''p_t'' = Some e \<and> te_name e = ''p_t''"
proof -
  let ?c = "\<lambda>_. registerTool ''t'' demo_child_tool (New ''c'' [])"
  obtain err p names w where r: "composeTools demo_list_json demo_marshal ?c ''p'' DefaultConfig
      \<lparr>ns_tools = {}, ns_resources = {}, ns_templates = {}, ns_prompts = {}\<rparr> (New ''p'' []) (0::nat) = ((err, p, names), w)"
    by (metis prod.collapse)
  have e: "ns_tools \<lparr>ns_tools = {}, ns_resources = {}, ns_templates = {}, ns_prompts = {}\<rparr> = dom (sv_tools (New ''p'' []))"
    by (simp add: New_def)
  note P = compose_tools_policy [OF demo_listed e r]
  have "names = [''p_t'']"
    using P [THEN conjunct2, THEN conjunct2, THEN conjunct2, THEN conjunct1]
    by (simp add: prefixName_def separator_def DefaultConfig_def New_def)
  moreover have "\<forall>n\<in>set names. \<exists>e. sv_tools p n = Some e \<and> te_name e = n"
    using P [THEN conjunct2, THEN conjunct2, THEN conjunct2, THEN conjunct2, THEN conjunct2, THEN conjunct2, THEN conjunct2,
        THEN conjunct1] by blast
  ultimately show ?thesis by (simp add: r)
qed

end
