(* ===== verification/JsonSchema.thy ===== *)
theory JsonSchema
  imports Prelude GoStd Runes Float64 Schema "HOL-Library.List_Lexorder"
begin

text \<open>
  The validator and the builder of \<open>jsonschema/validate.go\<close> and \<open>jsonschema/build.go\<close>. Schemas
  and values are trees of decoded JSON; a nil schema map is \<open>None\<close>. The order in which the
  entries of a Go map are visited is the order of the list. Numbers are those of \<open>float64\<close>, with its
  rounding (\<open>Float64\<close>). Formatting with \<open>%v\<close> and \<open>%q\<close>, compiling a pattern, and what a number beyond
  the range of \<open>int\<close> is converted to, are parameters (\<open>fmt_lib\<close>). A builder is its map: the
  sub-schemas given to it are taken as they are at that moment.
\<close>

record fmt_lib =
  f_v :: "gval \<Rightarrow> string"
  f_q :: "string \<Rightarrow> string"
  f_rx :: "string \<Rightarrow> string + (string \<Rightarrow> bool)"
  f_int :: "rat \<Rightarrow> int"

record verror =
  ve_path :: string
  ve_message :: string

definition ve_Error :: "verror \<Rightarrow> string" where
  "ve_Error e = (if ve_path e = [] then ''jsonschema: '' @ ve_message e
                 else ''jsonschema: '' @ ve_path e @ '': '' @ ve_message e)"

definition joinPath :: "string \<Rightarrow> string \<Rightarrow> string" where
  "joinPath base key = (if base = [] then ''/'' @ key else base @ ''/'' @ key)"

section \<open>Values\<close>

definition isNumber :: "gval \<Rightarrow> bool" where
  "isNumber v = (case v of GFloat _ \<Rightarrow> True | GInt _ \<Rightarrow> True | _ \<Rightarrow> False)"

definition trunc :: "rat \<Rightarrow> int" where
  "trunc q = (if q < 0 then ceiling q else floor q)"

definition isInteger :: "gval \<Rightarrow> bool" where
  "isInteger v = (case v of GInt _ \<Rightarrow> True | GFloat q \<Rightarrow> q = of_int (trunc q) | _ \<Rightarrow> False)"

definition asFloat :: "gval \<Rightarrow> rat option" where
  "asFloat v = (case v of GFloat q \<Rightarrow> Some q | GInt i \<Rightarrow> Some (float_of_int i) | _ \<Rightarrow> None)"

definition asInt :: "fmt_lib \<Rightarrow> gval \<Rightarrow> int option" where
  "asInt L v = map_option (\<lambda>f. let n = trunc f in if - (2 ^ 63) \<le> n \<and> n < 2 ^ 63 then n else f_int L f) (asFloat v)"

fun strings_in :: "gval list \<Rightarrow> string list" where
  "strings_in [] = []"
| "strings_in (GStr s # vs) = s # strings_in vs"
| "strings_in (_ # vs) = strings_in vs"

definition asStringList :: "gval \<Rightarrow> string list" where
  "asStringList v = (case v of GStrs ss \<Rightarrow> ss | GList vs \<Rightarrow> strings_in vs | _ \<Rightarrow> [])"

definition jsonType :: "gval \<Rightarrow> string" where
  "jsonType v =
     (case v of
        GNil \<Rightarrow> ''null'' | GBool _ \<Rightarrow> ''boolean'' | GStr _ \<Rightarrow> ''string'' | GMap _ \<Rightarrow> ''object'' | GList _ \<Rightarrow> ''array''
      | _ \<Rightarrow> if isInteger v then ''integer'' else if isNumber v then ''number'' else ''unknown'')"

text \<open>\<open>reflect.DeepEqual\<close>: values of different dynamic types differ, maps are compared by key.\<close>

fun deep_equal :: "gval \<Rightarrow> gval \<Rightarrow> bool"
  and deep_equals :: "gval list \<Rightarrow> gval list \<Rightarrow> bool"
  and deep_fields :: "(string \<times> gval) list \<Rightarrow> (string \<times> gval) list \<Rightarrow> bool" where
  "deep_equal (GList vs) (GList ws) = deep_equals vs ws"
| "deep_equal (GMap m) (GMap n) = (length m = length n \<and> deep_fields m n)"
| "deep_equal v w = (v = w)"
| "deep_equals [] ws = (ws = [])"
| "deep_equals (v # vs) ws = (case ws of [] \<Rightarrow> False | w # ws' \<Rightarrow> deep_equal v w \<and> deep_equals vs ws')"
| "deep_fields [] n = True"
| "deep_fields ((k, v) # m) n = (case map_of n k of None \<Rightarrow> False | Some w \<Rightarrow> deep_equal v w \<and> deep_fields m n)"

definition jsonEqual :: "gval \<Rightarrow> gval \<Rightarrow> bool" where
  "jsonEqual a b =
     (case (asFloat a, asFloat b) of
        (Some x, Some y) \<Rightarrow> x = y
      | (None, None) \<Rightarrow> deep_equal a b
      | _ \<Rightarrow> False)"

section \<open>The keywords without sub-schemas\<close>

definition matchesType :: "string \<Rightarrow> gval \<Rightarrow> bool" where
  "matchesType t v =
     (if t = ''object'' then (case v of GMap _ \<Rightarrow> True | _ \<Rightarrow> False)
      else if t = ''array'' then (case v of GList _ \<Rightarrow> True | _ \<Rightarrow> False)
      else if t = ''string'' then (case v of GStr _ \<Rightarrow> True | _ \<Rightarrow> False)
      else if t = ''boolean'' then (case v of GBool _ \<Rightarrow> True | _ \<Rightarrow> False)
      else if t = ''null'' then v = GNil
      else if t = ''number'' then isNumber v
      else if t = ''integer'' then isInteger v
      else True)"

definition reject :: "string \<Rightarrow> string \<Rightarrow> verror option" where
  "reject path msg = Some \<lparr>ve_path = path, ve_message = msg\<rparr>"

definition validateType :: "fmt_lib \<Rightarrow> string \<Rightarrow> gval \<Rightarrow> string \<Rightarrow> verror option" where
  "validateType L t v path =
     (if matchesType t v then None
      else reject path (''expected type '' @ f_q L t @ '', got '' @ jsonType v))"

definition validateTypeAny :: "fmt_lib \<Rightarrow> gval \<Rightarrow> gval \<Rightarrow> string \<Rightarrow> verror option" where
  "validateTypeAny L raw v path =
     (case raw of
        GStr t \<Rightarrow> validateType L t v path
      | GList ts \<Rightarrow>
          if list_ex (\<lambda>t. matchesType t v) (strings_in ts) then None
          else reject path (''expected one of the types '' @ f_v L raw @ '', got '' @ jsonType v)
      | _ \<Rightarrow> None)"

text \<open>The first error of a sequence of checks.\<close>

definition orelse :: "verror option \<Rightarrow> verror option \<Rightarrow> verror option" where
  "orelse a b = (case a of Some e \<Rightarrow> Some e | None \<Rightarrow> b)"

lemma orelse_cong [fundef_cong]: "a = a' \<Longrightarrow> (a' = None \<Longrightarrow> b = b') \<Longrightarrow> orelse a b = orelse a' b'"
  by (cases a') (simp_all add: orelse_def)

lemma orelse_None [simp]: "orelse a b = None \<longleftrightarrow> a = None \<and> b = None"
  by (cases a) (simp_all add: orelse_def)

lemma reject_None [simp]: "reject path msg \<noteq> None"
  by (simp add: reject_def)

definition int_bound :: "fmt_lib \<Rightarrow> (string \<times> gval) list \<Rightarrow> string \<Rightarrow> int option" where
  "int_bound L schema key = (case map_of schema key of None \<Rightarrow> None | Some raw \<Rightarrow> asInt L raw)"

definition float_bound :: "(string \<times> gval) list \<Rightarrow> string \<Rightarrow> rat option" where
  "float_bound schema key = (case map_of schema key of None \<Rightarrow> None | Some raw \<Rightarrow> asFloat raw)"

definition check_bound :: "'b option \<Rightarrow> ('b \<Rightarrow> bool) \<Rightarrow> string \<Rightarrow> ('b \<Rightarrow> string) \<Rightarrow> verror option" where
  "check_bound b bad path msg =
     (case b of Some n \<Rightarrow> if bad n then reject path (msg n) else None | None \<Rightarrow> None)"

definition validateString :: "fmt_lib \<Rightarrow> (string \<times> gval) list \<Rightarrow> gval \<Rightarrow> string \<Rightarrow> verror option" where
  "validateString L schema v path =
     (case v of
        GStr s \<Rightarrow>
          let runes = int (rune_count s) in
          orelse (check_bound (int_bound L schema ''minLength'') (\<lambda>n. runes < n) path
                    (\<lambda>n. ''string length '' @ itoa runes @ '' below minLength '' @ itoa n))
         (orelse (check_bound (int_bound L schema ''maxLength'') (\<lambda>n. runes > n) path
                    (\<lambda>n. ''string length '' @ itoa runes @ '' above maxLength '' @ itoa n))
            (case map_of schema ''pattern'' of
               Some (GStr p) \<Rightarrow>
                 if p = [] then None
                 else (case f_rx L p of
                         Inl e \<Rightarrow> reject path (''invalid pattern in schema: '' @ e)
                       | Inr re \<Rightarrow> if re s then None else reject path (''string does not match pattern '' @ f_q L p))
             | _ \<Rightarrow> None))
      | _ \<Rightarrow> None)"

text \<open>\<open>math.Round\<close> rounds half away from zero.\<close>

definition round_away :: "rat \<Rightarrow> int" where
  "round_away q = (if q < 0 then ceiling (q - 1 / 2) else floor (q + 1 / 2))"

text \<open>The constant \<open>1e-9\<close>; an infinite quotient less itself is no number, and no number is above it.\<close>

definition tolerance :: rat where
  "tolerance = (case round64 (1 / 10 ^ 9) of Some t \<Rightarrow> t | None \<Rightarrow> 0)"

definition not_multiple :: "rat \<Rightarrow> rat \<Rightarrow> bool" where
  "not_multiple f mo \<longleftrightarrow> mo \<noteq> 0 \<and>
     (case round64 (f / mo) of
        None \<Rightarrow> False
      | Some r \<Rightarrow> (case round64 (r - of_int (round_away r)) of None \<Rightarrow> False | Some d \<Rightarrow> \<bar>d\<bar> > tolerance))"

definition validateNumber :: "fmt_lib \<Rightarrow> (string \<times> gval) list \<Rightarrow> gval \<Rightarrow> string \<Rightarrow> verror option" where
  "validateNumber L schema v path =
     (case asFloat v of
        None \<Rightarrow> None
      | Some f \<Rightarrow>
          let msg = (\<lambda>what m. ''value '' @ f_v L (GFloat f) @ what @ f_v L (GFloat m)) in
          orelse (check_bound (float_bound schema ''minimum'') (\<lambda>m. f < m) path (msg '' below minimum ''))
         (orelse (check_bound (float_bound schema ''maximum'') (\<lambda>m. f > m) path (msg '' above maximum ''))
         (orelse (check_bound (float_bound schema ''exclusiveMinimum'') (\<lambda>m. f \<le> m) path (msg '' not above exclusiveMinimum ''))
         (orelse (check_bound (float_bound schema ''exclusiveMaximum'') (\<lambda>m. f \<ge> m) path (msg '' not below exclusiveMaximum ''))
                 (check_bound (float_bound schema ''multipleOf'') (not_multiple f) path (msg '' is not a multiple of ''))))))"

definition check_const :: "fmt_lib \<Rightarrow> (string \<times> gval) list \<Rightarrow> gval \<Rightarrow> string \<Rightarrow> verror option" where
  "check_const L schema v path =
     (case map_of schema ''const'' of
        None \<Rightarrow> None
      | Some c \<Rightarrow> if jsonEqual c v then None else reject path (''value must equal const '' @ f_v L c))"

definition check_enum :: "(string \<times> gval) list \<Rightarrow> gval \<Rightarrow> string \<Rightarrow> verror option" where
  "check_enum schema v path =
     (case map_of schema ''enum'' of
        Some (GList allowed) \<Rightarrow>
          if list_ex (\<lambda>a. jsonEqual a v) allowed then None
          else reject path ''value is not one of the permitted enum values''
      | _ \<Rightarrow> None)"

definition check_type :: "fmt_lib \<Rightarrow> (string \<times> gval) list \<Rightarrow> gval \<Rightarrow> string \<Rightarrow> verror option" where
  "check_type L schema v path =
     (case map_of schema ''type'' of None \<Rightarrow> None | Some raw \<Rightarrow> validateTypeAny L raw v path)"

fun check_required :: "fmt_lib \<Rightarrow> string list \<Rightarrow> (string \<times> gval) list \<Rightarrow> string \<Rightarrow> verror option" where
  "check_required L [] obj path = None"
| "check_required L (n # ns) obj path =
     (if map_of obj n = None then reject path (''missing required property '' @ f_q L n)
      else check_required L ns obj path)"

definition props_of :: "(string \<times> gval) list \<Rightarrow> (string \<times> gval) list" where
  "props_of schema = (case map_of schema ''properties'' of Some (GMap ps) \<Rightarrow> ps | _ \<Rightarrow> [])"

fun check_declared :: "(string \<times> gval) list \<Rightarrow> (string \<times> gval) list \<Rightarrow> string \<Rightarrow> verror option" where
  "check_declared props [] path = None"
| "check_declared props ((key, v) # obj) path =
     (if map_of props key = None then reject (joinPath path key) ''additional property not allowed''
      else check_declared props obj path)"

definition check_additional :: "(string \<times> gval) list \<Rightarrow> (string \<times> gval) list \<Rightarrow> string \<Rightarrow> verror option" where
  "check_additional schema obj path =
     (case map_of schema ''additionalProperties'' of
        Some (GBool False) \<Rightarrow> check_declared (props_of schema) obj path
      | _ \<Rightarrow> None)"

fun has_duplicate :: "gval list \<Rightarrow> bool" where
  "has_duplicate [] = False"
| "has_duplicate (v # vs) = (list_ex (jsonEqual v) vs \<or> has_duplicate vs)"

definition check_array :: "fmt_lib \<Rightarrow> (string \<times> gval) list \<Rightarrow> gval list \<Rightarrow> string \<Rightarrow> verror option" where
  "check_array L schema arr path =
     (let n = int (length arr) in
      orelse (check_bound (int_bound L schema ''minItems'') (\<lambda>k. n < k) path
                (\<lambda>k. ''array has '' @ itoa n @ '' items, want at least '' @ itoa k))
     (orelse (check_bound (int_bound L schema ''maxItems'') (\<lambda>k. n > k) path
                (\<lambda>k. ''array has '' @ itoa n @ '' items, want at most '' @ itoa k))
             (if map_of schema ''uniqueItems'' = Some (GBool True) \<and> has_duplicate arr
              then reject path ''array items must be unique'' else None)))"

section \<open>Validation\<close>

text \<open>The elements of a list of sub-schemas; elements that are no maps are skipped. \<open>None\<close>: the
  keyword is absent.\<close>

definition subs_of :: "(string \<times> gval) list \<Rightarrow> string \<Rightarrow> gval list option" where
  "subs_of schema key =
     (case map_of schema key of None \<Rightarrow> None | Some (GList ss) \<Rightarrow> Some ss | Some _ \<Rightarrow> Some [])"

definition items_of :: "(string \<times> gval) list \<Rightarrow> (string \<times> gval) list option" where
  "items_of schema = (case map_of schema ''items'' of Some (GMap its) \<Rightarrow> Some its | _ \<Rightarrow> None)"

lemma size_lookup: "map_of m k = Some v \<Longrightarrow> size v < size (GMap m)"
  by (induction m) (auto split: if_splits)

lemma size_subs: "subs_of m k = Some ss \<Longrightarrow> size (GList ss) \<le> size (GMap m)"
  by (auto simp: subs_of_def split: option.splits gval.splits dest: size_lookup)

lemma size_props: "size (GMap (props_of m)) \<le> size (GMap m)"
  by (auto simp: props_of_def split: option.splits gval.splits dest: size_lookup)

lemma size_items: "items_of m = Some its \<Longrightarrow> size (GMap its) < size (GMap m)"
  by (auto simp: items_of_def split: option.splits gval.splits dest: size_lookup)

text \<open>A value that is an object or an array is unpacked before its sub-values are visited.\<close>

definition obj_of :: "gval \<Rightarrow> (string \<times> gval) list option" where
  "obj_of v = (case v of GMap m \<Rightarrow> Some m | _ \<Rightarrow> None)"

definition arr_of :: "gval \<Rightarrow> gval list option" where
  "arr_of v = (case v of GList vs \<Rightarrow> Some vs | _ \<Rightarrow> None)"

definition none_matched :: string where
  "none_matched = ''value does not match any of the anyOf subschemas''"

definition count_text :: "nat \<Rightarrow> string" where
  "count_text n = ''value matched '' @ itoa (int n) @ '' oneOf subschemas, want exactly 1''"

text \<open>\<open>validate_all\<close> is the loop of \<open>allOf\<close>, \<open>count_valid\<close> the number of sub-schemas that accept
  the value, \<open>validate_props\<close> the loop over the declared properties and \<open>validate_items\<close> the one
  over the elements from an index on.\<close>

function validateValue :: "fmt_lib \<Rightarrow> (string \<times> gval) list option \<Rightarrow> gval \<Rightarrow> string \<Rightarrow> verror option"
  and validate_all :: "fmt_lib \<Rightarrow> gval list \<Rightarrow> gval \<Rightarrow> string \<Rightarrow> verror option"
  and count_valid :: "fmt_lib \<Rightarrow> gval list \<Rightarrow> gval \<Rightarrow> string \<Rightarrow> nat"
  and validate_props :: "fmt_lib \<Rightarrow> (string \<times> gval) list \<Rightarrow> (string \<times> gval) list \<Rightarrow> string \<Rightarrow> verror option"
  and validate_items :: "fmt_lib \<Rightarrow> (string \<times> gval) list \<Rightarrow> gval list \<Rightarrow> nat \<Rightarrow> string \<Rightarrow> verror option"
where
  "validateValue L None v path = None"
| "validateValue L (Some m) v path =
     orelse (case subs_of m ''allOf'' of None \<Rightarrow> None | Some ss \<Rightarrow> validate_all L ss v path)
    (orelse (case subs_of m ''anyOf'' of None \<Rightarrow> None
             | Some ss \<Rightarrow> if count_valid L ss v path = 0 then reject path none_matched else None)
    (orelse (case subs_of m ''oneOf'' of None \<Rightarrow> None
             | Some ss \<Rightarrow> if count_valid L ss v path \<noteq> 1 then reject path (count_text (count_valid L ss v path)) else None)
    (orelse (check_const L m v path)
    (orelse (check_enum m v path)
    (orelse (check_type L m v path)
    (orelse (case obj_of v of None \<Rightarrow> None
             | Some obj \<Rightarrow>
                 orelse (check_required L (asStringList (case map_of m ''required'' of None \<Rightarrow> GNil | Some r \<Rightarrow> r)) obj path)
                (orelse (validate_props L (props_of m) obj path)
                        (check_additional m obj path)))
    (orelse (case arr_of v of None \<Rightarrow> None
             | Some arr \<Rightarrow>
                 orelse (check_array L m arr path)
                        (case items_of m of None \<Rightarrow> None | Some its \<Rightarrow> validate_items L its arr 0 path))
    (orelse (validateString L m v path)
            (validateNumber L m v path)))))))))"
| "validate_all L [] v path = None"
| "validate_all L (s # ss) v path =
     (case s of GMap m \<Rightarrow> orelse (validateValue L (Some m) v path) (validate_all L ss v path)
      | _ \<Rightarrow> validate_all L ss v path)"
| "count_valid L [] v path = 0"
| "count_valid L (s # ss) v path =
     (case s of GMap m \<Rightarrow> (if validateValue L (Some m) v path = None then 1 else 0) + count_valid L ss v path
      | _ \<Rightarrow> count_valid L ss v path)"
| "validate_props L [] obj path = None"
| "validate_props L ((key, sub) # ps) obj path =
     (case map_of obj key of
        None \<Rightarrow> validate_props L ps obj path
      | Some val \<Rightarrow> orelse (case sub of GMap m \<Rightarrow> validateValue L (Some m) val (joinPath path key) | _ \<Rightarrow> None)
                        (validate_props L ps obj path))"
| "validate_items L its [] i path = None"
| "validate_items L its (e # es) i path =
     orelse (validateValue L (Some its) e (path @ ''/'' @ itoa (int i))) (validate_items L its es (Suc i) path)"
  by pat_completeness auto

termination
proof (relation "measures [
    case_sum (case_sum (\<lambda>(L, s, v, p). case s of None \<Rightarrow> 0 | Some m \<Rightarrow> size (GMap m)) (\<lambda>(L, ss, v, p). size (GList ss)))
      (case_sum (\<lambda>(L, ss, v, p). size (GList ss)) (case_sum (\<lambda>(L, ps, obj, p). size (GMap ps)) (\<lambda>(L, its, es, i, p). size (GMap its)))),
    case_sum (case_sum (\<lambda>_. 1) (\<lambda>_. 0))
      (case_sum (\<lambda>_. 0) (case_sum (\<lambda>_. 0) (\<lambda>(L, its, es, i, p). Suc (Suc (length es)))))]", goal_cases)
qed (auto dest: size_subs size_items intro: le_neq_implies_less size_props [simplified])

declare validateValue.simps(2) [simp del]

definition Schema_Validate :: "fmt_lib \<Rightarrow> (string \<times> gval) list option \<Rightarrow> gval \<Rightarrow> verror option" where
  "Schema_Validate L schema v = validateValue L schema v []"

text \<open>The parser's result or the text of its error is the argument.\<close>

definition Schema_ValidateJSON :: "fmt_lib \<Rightarrow> (string \<times> gval) list option \<Rightarrow> string + gval \<Rightarrow> verror option" where
  "Schema_ValidateJSON L schema parsed =
     (case parsed of Inl e \<Rightarrow> reject [] (''invalid JSON: '' @ e) | Inr v \<Rightarrow> validateValue L schema v [])"

section \<open>What a schema means\<close>

text \<open>The reading of JSON Schema: every keyword of a schema states a condition of its own, and a
  value is valid when all hold, whatever their order. Here \<open>sub\<close> says which values a sub-schema
  accepts.\<close>

definition is_map :: "gval \<Rightarrow> bool" where
  "is_map s = (case s of GMap _ \<Rightarrow> True | _ \<Rightarrow> False)"

definition pairwise_distinct :: "gval list \<Rightarrow> bool" where
  "pairwise_distinct vs \<longleftrightarrow> (\<forall>j<length vs. \<forall>i<j. \<not> jsonEqual (vs ! i) (vs ! j))"

text \<open>A multiple as far as \<open>float64\<close> tells: the quotient as a \<open>float64\<close> is an integer up to the
  tolerance, or beyond the range.\<close>

definition multiple_of :: "rat \<Rightarrow> rat \<Rightarrow> bool" where
  "multiple_of mo f \<longleftrightarrow> (\<forall>r. round64 (f / mo) = Some r \<longrightarrow> (\<exists>n::int. \<bar>r - of_int n\<bar> \<le> tolerance))"

definition on_object :: "gval \<Rightarrow> ((string \<times> gval) list \<Rightarrow> bool) \<Rightarrow> bool" where
  "on_object v P = (case v of GMap obj \<Rightarrow> P obj | _ \<Rightarrow> True)"

definition on_array :: "gval \<Rightarrow> (gval list \<Rightarrow> bool) \<Rightarrow> bool" where
  "on_array v P = (case v of GList vs \<Rightarrow> P vs | _ \<Rightarrow> True)"

definition on_string :: "gval \<Rightarrow> (string \<Rightarrow> bool) \<Rightarrow> bool" where
  "on_string v P = (case v of GStr s \<Rightarrow> P s | _ \<Rightarrow> True)"

definition on_number :: "gval \<Rightarrow> (rat \<Rightarrow> bool) \<Rightarrow> bool" where
  "on_number v P = (case asFloat v of Some q \<Rightarrow> P q | None \<Rightarrow> True)"

definition with_int :: "fmt_lib \<Rightarrow> gval \<Rightarrow> (int \<Rightarrow> bool) \<Rightarrow> bool" where
  "with_int L raw P = (case asInt L raw of Some n \<Rightarrow> P n | None \<Rightarrow> True)"

definition with_float :: "gval \<Rightarrow> (rat \<Rightarrow> bool) \<Rightarrow> bool" where
  "with_float raw P = (case asFloat raw of Some q \<Rightarrow> P q | None \<Rightarrow> True)"

definition subschemas :: "gval \<Rightarrow> gval list" where
  "subschemas raw = (case raw of GList ss \<Rightarrow> filter is_map ss | _ \<Rightarrow> [])"

definition plain_keyword :: "fmt_lib \<Rightarrow> (string \<times> gval) list \<Rightarrow> gval \<Rightarrow> string \<Rightarrow> gval \<Rightarrow> bool" where
  "plain_keyword L m v k raw =
     (if k = ''const'' then jsonEqual raw v
      else if k = ''enum'' then (case raw of GList vs \<Rightarrow> \<exists>a\<in>set vs. jsonEqual a v | _ \<Rightarrow> True)
      else if k = ''type'' then (case raw of GStr t \<Rightarrow> matchesType t v
                                 | GList ts \<Rightarrow> \<exists>t\<in>set (strings_in ts). matchesType t v | _ \<Rightarrow> True)
      else if k = ''required'' then on_object v (\<lambda>obj. set (asStringList raw) \<subseteq> fst ` set obj)
      else if k = ''additionalProperties'' then on_object v (\<lambda>obj. raw = GBool False \<longrightarrow> fst ` set obj \<subseteq> fst ` set (props_of m))
      else if k = ''minItems'' then on_array v (\<lambda>vs. with_int L raw (\<lambda>n. n \<le> int (length vs)))
      else if k = ''maxItems'' then on_array v (\<lambda>vs. with_int L raw (\<lambda>n. int (length vs) \<le> n))
      else if k = ''uniqueItems'' then on_array v (\<lambda>vs. raw = GBool True \<longrightarrow> pairwise_distinct vs)
      else if k = ''minLength'' then on_string v (\<lambda>s. with_int L raw (\<lambda>n. n \<le> int (rune_count s)))
      else if k = ''maxLength'' then on_string v (\<lambda>s. with_int L raw (\<lambda>n. int (rune_count s) \<le> n))
      else if k = ''pattern'' then on_string v (\<lambda>s. case raw of
          GStr p \<Rightarrow> p = [] \<or> (case f_rx L p of Inr re \<Rightarrow> re s | Inl _ \<Rightarrow> False) | _ \<Rightarrow> True)
      else if k = ''minimum'' then on_number v (\<lambda>q. with_float raw (\<lambda>b. b \<le> q))
      else if k = ''maximum'' then on_number v (\<lambda>q. with_float raw (\<lambda>b. q \<le> b))
      else if k = ''exclusiveMinimum'' then on_number v (\<lambda>q. with_float raw (\<lambda>b. b < q))
      else if k = ''exclusiveMaximum'' then on_number v (\<lambda>q. with_float raw (\<lambda>b. q < b))
      else if k = ''multipleOf'' then on_number v (\<lambda>q. with_float raw (\<lambda>b. b = 0 \<or> multiple_of b q))
      else True)"

definition props_hold :: "(gval \<Rightarrow> gval \<Rightarrow> bool) \<Rightarrow> gval \<Rightarrow> (string \<times> gval) list \<Rightarrow> bool" where
  "props_hold sub raw obj =
     (case raw of
        GMap ps \<Rightarrow> \<forall>(p, s)\<in>set ps. (case map_of obj p of Some x \<Rightarrow> is_map s \<longrightarrow> sub s x | None \<Rightarrow> True)
      | _ \<Rightarrow> True)"

definition keyword :: "fmt_lib \<Rightarrow> (gval \<Rightarrow> gval \<Rightarrow> bool) \<Rightarrow> (string \<times> gval) list \<Rightarrow> gval \<Rightarrow> string \<Rightarrow> gval \<Rightarrow> bool" where
  "keyword L sub m v k raw =
     (if k = ''allOf'' then \<forall>s\<in>set (subschemas raw). sub s v
      else if k = ''anyOf'' then \<exists>s\<in>set (subschemas raw). sub s v
      else if k = ''oneOf'' then length (filter (\<lambda>s. sub s v) (subschemas raw)) = 1
      else if k = ''properties'' then on_object v (props_hold sub raw)
      else if k = ''items'' then on_array v (\<lambda>vs. is_map raw \<longrightarrow> (\<forall>x\<in>set vs. sub raw x))
      else plain_keyword L m v k raw)"

lemma size_subschemas: "s \<in> set (subschemas raw) \<Longrightarrow> size s < size raw"
  by (cases raw) (auto simp: subschemas_def less_Suc_eq_le intro: size_list_estimation')

lemma is_map_subschemas: "s \<in> set (subschemas raw) \<Longrightarrow> is_map s"
  by (cases raw) (auto simp: subschemas_def)

lemma size_entry: "(k, raw) \<in> set m \<Longrightarrow> size raw < size (GMap m)"
  by (induction m) auto

lemma keyword_cong [fundef_cong]:
  assumes "L = L'" "m = m'" "v = v'" "k = k'" "raw = raw'"
    and sub: "\<And>s x. size s \<le> size raw' \<Longrightarrow> is_map s \<Longrightarrow> sub s x = sub' s x"
  shows "keyword L sub m v k raw = keyword L' sub' m' v' k' raw'"
proof -
  have ss: "\<And>s. s \<in> set (subschemas raw') \<Longrightarrow> sub s v' = sub' s v'"
    using is_map_subschemas size_subschemas by (intro sub) (auto intro: less_imp_le)
  have ps: "props_hold sub raw' = props_hold sub' raw'"
  proof (cases raw')
    case (GMap ps)
    have "sub s x = sub' s x" if "(p, s) \<in> set ps" "is_map s" for p s x
      using size_entry [OF that(1)] that(2) GMap by (intro sub) (auto intro: less_imp_le)
    then show ?thesis by (intro ext) (auto simp: props_hold_def GMap split: option.split)
  qed (simp_all add: props_hold_def fun_eq_iff)
  have its: "is_map raw' \<Longrightarrow> sub raw' x = sub' raw' x" for x
    by (rule sub) simp_all
  have flt: "filter (\<lambda>s. sub s v') (subschemas raw') = filter (\<lambda>s. sub' s v') (subschemas raw')"
    by (rule filter_cong) (simp_all add: ss)
  have its': "on_array v' (\<lambda>vs. is_map raw' \<longrightarrow> (\<forall>x\<in>set vs. sub raw' x)) = on_array v' (\<lambda>vs. is_map raw' \<longrightarrow> (\<forall>x\<in>set vs. sub' raw' x))"
    using its by (cases "is_map raw'") simp_all
  show ?thesis
    unfolding assms(1-5) keyword_def ps flt its' using ss by simp
qed

function valid :: "fmt_lib \<Rightarrow> gval \<Rightarrow> gval \<Rightarrow> bool" where
  "valid L s v = (case s of GMap m \<Rightarrow> (\<forall>(k, raw)\<in>set m. keyword L (valid L) m v k raw) | _ \<Rightarrow> True)"
  by pat_completeness auto

termination
  by (relation "measure (\<lambda>(L, s, v). size s)") (auto dest!: size_entry)

declare valid.simps [simp del]

text \<open>Trees as a Go program holds them: no key of a map occurs twice.\<close>

fun tree_wf :: "gval \<Rightarrow> bool" where
  "tree_wf (GList vs) = (\<forall>v\<in>set vs. tree_wf v)"
| "tree_wf (GMap m) = (distinct (map fst m) \<and> (\<forall>v\<in>snd ` set m. tree_wf v))"
| "tree_wf _ = True"

section \<open>The validator decides validity\<close>

definition at_key :: "(string \<times> gval) list \<Rightarrow> string \<Rightarrow> (gval \<Rightarrow> bool) \<Rightarrow> bool" where
  "at_key m k P = (case map_of m k of None \<Rightarrow> True | Some raw \<Rightarrow> P raw)"

definition known_keywords :: "string list" where
  "known_keywords = [''allOf'', ''anyOf'', ''oneOf'', ''const'', ''enum'', ''type'', ''required'', ''properties'',
     ''additionalProperties'', ''minItems'', ''maxItems'', ''uniqueItems'', ''items'', ''minLength'', ''maxLength'',
     ''pattern'', ''minimum'', ''maximum'', ''exclusiveMinimum'', ''exclusiveMaximum'', ''multipleOf'']"

lemma other_keyword: "k \<notin> set known_keywords \<Longrightarrow> keyword L sub m v k raw"
  by (simp add: known_keywords_def keyword_def plain_keyword_def)

lemma keywords_hold:
  assumes "distinct (map fst m)"
  shows "(\<forall>(k, raw)\<in>set m. keyword L sub m v k raw) \<longleftrightarrow> list_all (\<lambda>k. at_key m k (keyword L sub m v k)) known_keywords"
proof -
  have "(\<forall>(k, raw)\<in>set m. keyword L sub m v k raw) \<longleftrightarrow> (\<forall>k raw. map_of m k = Some raw \<longrightarrow> keyword L sub m v k raw)"
    using assms by (auto simp: map_of_eq_Some_iff)
  also have "\<dots> \<longleftrightarrow> (\<forall>k\<in>set known_keywords. at_key m k (keyword L sub m v k))"
    using other_keyword by (fastforce simp: at_key_def split: option.splits)
  finally show ?thesis by (simp add: list_all_iff)
qed

lemma check_bound_None: "check_bound b bad path msg = None \<longleftrightarrow> (case b of Some n \<Rightarrow> \<not> bad n | None \<Rightarrow> True)"
  by (simp add: check_bound_def split: option.split)

lemma int_bound_None: "(case int_bound L m k of Some n \<Rightarrow> P n | None \<Rightarrow> True) \<longleftrightarrow> at_key m k (\<lambda>raw. with_int L raw P)"
  by (simp add: int_bound_def at_key_def with_int_def split: option.split)

lemma float_bound_None: "(case float_bound m k of Some n \<Rightarrow> P n | None \<Rightarrow> True) \<longleftrightarrow> at_key m k (\<lambda>raw. with_float raw P)"
  by (simp add: float_bound_def at_key_def with_float_def split: option.split)

lemmas bound_None = check_bound_None int_bound_None float_bound_None not_less not_le

lemma on_value_None:
  "at_key m k (\<lambda>raw. on_object v (P raw)) \<longleftrightarrow> on_object v (\<lambda>obj. at_key m k (\<lambda>raw. P raw obj))"
  "at_key m k (\<lambda>raw. on_array v (Q raw)) \<longleftrightarrow> on_array v (\<lambda>vs. at_key m k (\<lambda>raw. Q raw vs))"
  "at_key m k (\<lambda>raw. on_string v (R raw)) \<longleftrightarrow> on_string v (\<lambda>s. at_key m k (\<lambda>raw. R raw s))"
  "at_key m k (\<lambda>raw. on_number v (S raw)) \<longleftrightarrow> on_number v (\<lambda>q. at_key m k (\<lambda>raw. S raw q))"
  by (auto simp: at_key_def on_object_def on_array_def on_string_def on_number_def split: option.split gval.split)

lemma round_away_nearest: "\<bar>q - of_int (round_away q)\<bar> \<le> \<bar>q - of_int n\<bar>"
proof -
  have "round_away q = round q \<or> round_away q = - round (- q)"
    by (simp add: round_away_def round_def ceiling_def algebra_simps)
  moreover have "\<bar>q - of_int (round q)\<bar> \<le> \<bar>q - of_int n\<bar>" for q :: rat and n
    using round_diff_minimal [of q n] by (simp add: abs_minus_commute)
  from this [of q n] this [of "- q" "- n"] have "\<bar>q - of_int (round q)\<bar> \<le> \<bar>q - of_int n\<bar>"
    "\<bar>q + of_int (round (- q))\<bar> \<le> \<bar>q - of_int n\<bar>" by (simp_all add: abs_if algebra_simps split: if_splits)
  ultimately show ?thesis by auto
qed

lemma round_away_half: "\<bar>r - of_int (round_away r)\<bar> \<le> 1 / 2" "\<bar>r - of_int (round_away r)\<bar> \<le> \<bar>r\<bar>"
proof -
  have "\<bar>r - of_int \<lceil>r - 1 / 2\<rceil>\<bar> \<le> 1 / 2" "\<bar>r - of_int \<lfloor>r + 1 / 2\<rfloor>\<bar> \<le> 1 / 2" by linarith+
  then show "\<bar>r - of_int (round_away r)\<bar> \<le> 1 / 2" unfolding round_away_def by simp
  show "\<bar>r - of_int (round_away r)\<bar> \<le> \<bar>r\<bar>" using round_away_nearest [of r 0] by simp
qed

lemma not_multiple_iff: "\<not> not_multiple f mo \<longleftrightarrow> mo = 0 \<or> multiple_of mo f"
proof (cases "round64 (f / mo)")
  case None
  then show ?thesis by (simp add: not_multiple_def multiple_of_def)
next
  case (Some r)
  have d: "round64 (r - of_int (round_away r)) = Some (r - of_int (round_away r))"
    using round_away_half by (intro round64_id is64_distance round64_is64 [OF Some])
  have "(\<exists>n::int. \<bar>r - of_int n\<bar> \<le> tolerance) \<longleftrightarrow> \<bar>r - of_int (round_away r)\<bar> \<le> tolerance"
    using round_away_nearest [of r] by (meson order_trans)
  then show ?thesis using Some d by (auto simp: not_multiple_def multiple_of_def)
qed

text \<open>What that accepts: every exact multiple whose factor fits in 53 bits, and every number that is
  \<open>2 ^ 52\<close> times the divisor or more, a multiple or not.\<close>

lemma tolerance_bounds: "0 \<le> tolerance \<and> tolerance < 1 / 2"
proof (cases "round64 (1 / 10 ^ 9)")
  case (Some t)
  have near: "0 \<le> t \<and> t < 1 / 2" if "\<bar>x - t\<bar> \<le> \<bar>x - 0\<bar>" "0 < x" "x < 1 / 4" for x :: rat using that by linarith
  have "0 \<le> t \<and> t < 1 / 2" by (rule near [OF round64_nearest [OF Some]]) simp_all
  with Some show ?thesis by (simp add: tolerance_def)
qed (simp add: tolerance_def)

lemmas tolerance_pos = tolerance_bounds [THEN conjunct1]

lemma multiple_exact:
  assumes "mo \<noteq> 0" "\<bar>n\<bar> < 2 ^ 53"
  shows "multiple_of mo (of_int n * mo)"
  using assms tolerance_pos by (auto simp: multiple_of_def round64_id [OF is64_int] intro!: exI [of _ n])

lemma multiple_large: "2 ^ 52 \<le> \<bar>f / mo\<bar> \<Longrightarrow> multiple_of mo f"
  unfolding multiple_of_def
proof (intro allI impI)
  fix r assume "2 ^ 52 \<le> \<bar>f / mo\<bar>" "round64 (f / mo) = Some r"
  from round64_large [OF this] obtain n where "r = of_int n" by blast
  then show "\<exists>n::int. \<bar>r - of_int n\<bar> \<le> tolerance" using tolerance_pos by (intro exI [of _ n]) simp
qed

lemma at_key_True [simp]: "at_key m k (\<lambda>_. True)"
  by (simp add: at_key_def split: option.split)

lemma pairwise_distinct_Cons:
  "pairwise_distinct (v # vs) \<longleftrightarrow> (\<forall>w\<in>set vs. \<not> jsonEqual v w) \<and> pairwise_distinct vs"
proof -
  have "pairwise_distinct ws \<longleftrightarrow> sorted_wrt (\<lambda>a b. \<not> jsonEqual a b) ws" for ws
    by (auto simp: pairwise_distinct_def sorted_wrt_iff_nth_less)
  then show ?thesis by simp
qed

lemma validateString_None:
  "validateString L m v path = None \<longleftrightarrow>
     at_key m ''minLength'' (plain_keyword L m v ''minLength'') \<and> at_key m ''maxLength'' (plain_keyword L m v ''maxLength'')
     \<and> at_key m ''pattern'' (plain_keyword L m v ''pattern'')"
proof -
  have pat: "(case map_of m ''pattern'' of
               Some (GStr p) \<Rightarrow> if p = [] then None
                 else (case f_rx L p of Inl e \<Rightarrow> reject path (''invalid pattern in schema: '' @ e)
                       | Inr re \<Rightarrow> if re s then None else reject path (''string does not match pattern '' @ f_q L p))
             | _ \<Rightarrow> None) = None
      \<longleftrightarrow> at_key m ''pattern'' (\<lambda>raw. case raw of
          GStr p \<Rightarrow> p = [] \<or> (case f_rx L p of Inr re \<Rightarrow> re s | Inl _ \<Rightarrow> False) | _ \<Rightarrow> True)" for s
    by (auto simp: at_key_def split: option.split gval.split sum.split)
  show ?thesis
    by (cases v) (simp_all add: validateString_def plain_keyword_def [abs_def] on_string_def Let_def
        bound_None pat split: option.split)
qed

lemma validateNumber_None:
  "validateNumber L m v path = None \<longleftrightarrow>
     at_key m ''minimum'' (plain_keyword L m v ''minimum'') \<and> at_key m ''maximum'' (plain_keyword L m v ''maximum'')
     \<and> at_key m ''exclusiveMinimum'' (plain_keyword L m v ''exclusiveMinimum'')
     \<and> at_key m ''exclusiveMaximum'' (plain_keyword L m v ''exclusiveMaximum'')
     \<and> at_key m ''multipleOf'' (plain_keyword L m v ''multipleOf'')"
  by (cases "asFloat v") (simp_all add: validateNumber_def plain_keyword_def [abs_def] on_number_def Let_def
      bound_None not_multiple_iff split: option.split)

lemma has_duplicate_iff: "has_duplicate vs \<longleftrightarrow> \<not> pairwise_distinct vs"
proof (induction vs)
  case (Cons v vs)
  have "pairwise_distinct (v # vs) \<longleftrightarrow> (\<forall>w\<in>set vs. \<not> jsonEqual v w) \<and> pairwise_distinct vs"
    by (rule pairwise_distinct_Cons)
  with Cons show ?case by (auto simp: list_ex_iff)
qed (simp add: pairwise_distinct_def)

lemma check_array_None:
  "check_array L m arr path = None \<longleftrightarrow>
     at_key m ''minItems'' (plain_keyword L m (GList arr) ''minItems'') \<and> at_key m ''maxItems'' (plain_keyword L m (GList arr) ''maxItems'')
     \<and> at_key m ''uniqueItems'' (plain_keyword L m (GList arr) ''uniqueItems'')"
proof -
  have u: "(if map_of m ''uniqueItems'' = Some (GBool True) \<and> has_duplicate arr
            then reject path ''array items must be unique'' else None) = None
      \<longleftrightarrow> at_key m ''uniqueItems'' (\<lambda>raw. raw = GBool True \<longrightarrow> pairwise_distinct arr)"
    by (auto simp: has_duplicate_iff at_key_def split: option.split)
  show ?thesis by (simp add: check_array_def plain_keyword_def [abs_def] on_array_def Let_def bound_None u)
qed

lemma check_required_None: "check_required L ns obj path = None \<longleftrightarrow> set ns \<subseteq> fst ` set obj"
  by (induction ns) (auto simp: map_of_eq_None_iff)

lemma check_declared_None: "check_declared props obj path = None \<longleftrightarrow> fst ` set obj \<subseteq> fst ` set props"
  by (induction props obj path rule: check_declared.induct) (auto simp: map_of_eq_None_iff)

lemma object_checks_None:
  "check_required L (asStringList (case map_of m ''required'' of None \<Rightarrow> GNil | Some r \<Rightarrow> r)) obj path = None
     \<longleftrightarrow> at_key m ''required'' (plain_keyword L m (GMap obj) ''required'')"
  "check_additional m obj path = None
     \<longleftrightarrow> at_key m ''additionalProperties'' (plain_keyword L m (GMap obj) ''additionalProperties'')"
  by (auto simp: check_required_None check_additional_def check_declared_None at_key_def plain_keyword_def [abs_def] on_object_def
      asStringList_def split: option.split gval.split bool.split)

lemma value_checks_None:
  "check_const L m v path = None \<longleftrightarrow> at_key m ''const'' (plain_keyword L m v ''const'')"
  "check_enum m v path = None \<longleftrightarrow> at_key m ''enum'' (plain_keyword L m v ''enum'')"
  "check_type L m v path = None \<longleftrightarrow> at_key m ''type'' (plain_keyword L m v ''type'')"
  by (auto simp: check_const_def check_enum_def check_type_def validateTypeAny_def validateType_def at_key_def plain_keyword_def [abs_def]
      list_ex_iff split: option.split gval.split)

text \<open>The loops over sub-schemas.\<close>

lemma valid_object: "valid L (GMap m) v \<longleftrightarrow> (\<forall>(k, raw)\<in>set m. keyword L (valid L) m v k raw)"
  by (simp add: valid.simps [of L "GMap m"])

lemma valid_keywords:
  assumes "tree_wf (GMap m)"
  shows "valid L (GMap m) v \<longleftrightarrow> list_all (\<lambda>k. at_key m k (keyword L (valid L) m v k)) known_keywords"
  using assms by (simp add: valid_object keywords_hold)

definition decides :: "fmt_lib \<Rightarrow> gval \<Rightarrow> bool" where
  "decides L s \<longleftrightarrow> (\<forall>m v path. s = GMap m \<longrightarrow> (validateValue L (Some m) v path = None \<longleftrightarrow> valid L s v))"

lemma decidesD: "decides L (GMap m) \<Longrightarrow> (validateValue L (Some m) v path = None \<longleftrightarrow> valid L (GMap m) v)"
  by (simp add: decides_def)

lemma validate_all_None:
  "\<forall>s\<in>set ss. decides L s \<Longrightarrow> (validate_all L ss v path = None \<longleftrightarrow> (\<forall>s\<in>set (filter is_map ss). valid L s v))"
proof (induction ss)
  case (Cons s ss)
  then show ?case by (cases s) (auto simp: is_map_def decidesD)
qed simp

lemma count_valid_length:
  "\<forall>s\<in>set ss. decides L s \<Longrightarrow> count_valid L ss v path = length (filter (\<lambda>s. valid L s v) (filter is_map ss))"
proof (induction ss)
  case (Cons s ss)
  then show ?case by (cases s) (auto simp: is_map_def decidesD)
qed simp

lemma validate_props_None:
  "\<forall>s\<in>snd ` set ps. decides L s \<Longrightarrow> (validate_props L ps obj path = None \<longleftrightarrow> props_hold (valid L) (GMap ps) obj)"
proof (induction ps)
  case (Cons p ps)
  obtain key sub where p: "p = (key, sub)" by (cases p)
  from Cons have "validate_props L ps obj path = None \<longleftrightarrow> props_hold (valid L) (GMap ps) obj" "decides L sub" by (simp_all add: p)
  then show ?case
    by (cases sub; cases "map_of obj key") (simp_all add: p props_hold_def is_map_def decidesD)
qed (simp add: props_hold_def)

lemma validate_items_None:
  "decides L (GMap its) \<Longrightarrow> (validate_items L its es i path = None \<longleftrightarrow> (\<forall>x\<in>set es. valid L (GMap its) x))"
  by (induction es arbitrary: i) (simp_all add: decidesD)

lemma at_subs:
  "at_key m k (\<lambda>raw. P (subschemas raw)) \<longleftrightarrow> (case subs_of m k of None \<Rightarrow> True | Some ss \<Rightarrow> P (filter is_map ss))"
  by (auto simp: at_key_def subs_of_def subschemas_def split: option.split gval.split)

definition below :: "fmt_lib \<Rightarrow> (string \<times> gval) list \<Rightarrow> bool" where
  "below L m \<longleftrightarrow> (\<forall>s. size s < size (GMap m) \<longrightarrow> tree_wf s \<longrightarrow> decides L s)"

lemma below_lookup:
  assumes "below L m" "tree_wf (GMap m)" "map_of m k = Some raw"
  shows "raw = GList ss \<Longrightarrow> \<forall>s\<in>set ss. decides L s"
    and "raw = GMap ps \<Longrightarrow> \<forall>s\<in>snd ` set ps. decides L s"
    and "decides L raw"
proof -
  have sz: "size raw < size (GMap m)" and wf: "tree_wf raw"
    using size_lookup [OF assms(3)] assms(2) map_of_SomeD [OF assms(3)] by (simp, force)
  show "decides L raw" using assms(1) sz wf by (simp add: below_def)
  show "\<forall>s\<in>set ss. decides L s" if r: "raw = GList ss"
  proof
    fix s assume s: "s \<in> set ss"
    then have "size s < size raw" by (simp add: r less_Suc_eq_le size_list_estimation')
    with s sz wf assms(1) show "decides L s" by (simp add: below_def r)
  qed
  show "\<forall>s\<in>snd ` set ps. decides L s" if r: "raw = GMap ps"
  proof
    fix s assume s: "s \<in> snd ` set ps"
    then have "size s < size raw" using size_entry [of _ s ps] by (auto simp: r)
    with sz have "size s < size (GMap m)" by simp
    moreover have "tree_wf s" using s wf by (auto simp: r)
    ultimately show "decides L s" using assms(1) by (simp add: below_def del: gval.size)
  qed
qed

lemma below_subs: "below L m \<Longrightarrow> tree_wf (GMap m) \<Longrightarrow> subs_of m k = Some ss \<Longrightarrow> \<forall>s\<in>set ss. decides L s"
  using below_lookup(1) [of L m k] by (auto simp: subs_of_def split: option.splits gval.splits)

lemma combinators_None:
  assumes "below L m" "tree_wf (GMap m)"
  shows "(case subs_of m ''allOf'' of None \<Rightarrow> None | Some ss \<Rightarrow> validate_all L ss v path) = None
      \<longleftrightarrow> at_key m ''allOf'' (keyword L (valid L) m v ''allOf'')"
    and "(case subs_of m ''anyOf'' of None \<Rightarrow> None
          | Some ss \<Rightarrow> if count_valid L ss v path = 0 then reject path none_matched else None) = None
      \<longleftrightarrow> at_key m ''anyOf'' (keyword L (valid L) m v ''anyOf'')"
    and "(case subs_of m ''oneOf'' of None \<Rightarrow> None
          | Some ss \<Rightarrow> if count_valid L ss v path \<noteq> 1 then reject path (count_text (count_valid L ss v path)) else None) = None
      \<longleftrightarrow> at_key m ''oneOf'' (keyword L (valid L) m v ''oneOf'')"
proof -
  note d = below_subs [OF assms]
  show "(case subs_of m ''allOf'' of None \<Rightarrow> None | Some ss \<Rightarrow> validate_all L ss v path) = None
      \<longleftrightarrow> at_key m ''allOf'' (keyword L (valid L) m v ''allOf'')"
    using validate_all_None [OF d]
    by (simp add: keyword_def [abs_def] at_subs [of m _ "\<lambda>ss. \<forall>s\<in>set ss. valid L s v"] split: option.split)
  have ex: "count_valid L ss v path = 0 \<longleftrightarrow> \<not> (\<exists>s\<in>set (filter is_map ss). valid L s v)" if "subs_of m k = Some ss" for ss k
    using count_valid_length [OF d [OF that]] by (simp add: filter_empty_conv) blast
  show "(case subs_of m ''anyOf'' of None \<Rightarrow> None
          | Some ss \<Rightarrow> if count_valid L ss v path = 0 then reject path none_matched else None) = None
      \<longleftrightarrow> at_key m ''anyOf'' (keyword L (valid L) m v ''anyOf'')"
    using ex by (auto simp: keyword_def [abs_def] at_subs [of m _ "\<lambda>ss. \<exists>s\<in>set ss. valid L s v"] split: option.split)
  show "(case subs_of m ''oneOf'' of None \<Rightarrow> None
          | Some ss \<Rightarrow> if count_valid L ss v path \<noteq> 1 then reject path (count_text (count_valid L ss v path)) else None) = None
      \<longleftrightarrow> at_key m ''oneOf'' (keyword L (valid L) m v ''oneOf'')"
    using count_valid_length [OF d]
    by (simp add: keyword_def [abs_def] at_subs [of m _ "\<lambda>ss. length (filter (\<lambda>s. valid L s v) ss) = Suc 0"] split: option.split)
qed

lemma structure_None:
  assumes "below L m" "tree_wf (GMap m)"
  shows "validate_props L (props_of m) obj path = None
      \<longleftrightarrow> at_key m ''properties'' (keyword L (valid L) m (GMap obj) ''properties'')"
    and "(case items_of m of None \<Rightarrow> None | Some its \<Rightarrow> validate_items L its arr 0 path) = None
      \<longleftrightarrow> at_key m ''items'' (keyword L (valid L) m (GList arr) ''items'')"
proof -
  note d = below_lookup [OF assms]
  have p: "validate_props L (props_of m) obj path = None \<longleftrightarrow> at_key m ''properties'' (\<lambda>raw. props_hold (valid L) raw obj)"
  proof (cases "map_of m ''properties''")
    case (Some raw)
    show ?thesis
    proof (cases "\<exists>ps. raw = GMap ps")
      case True
      then show ?thesis using validate_props_None [OF d(2) [OF Some]] by (auto simp: props_of_def at_key_def Some)
    next
      case False
      then show ?thesis by (cases raw) (auto simp: props_of_def at_key_def Some props_hold_def)
    qed
  qed (simp add: props_of_def at_key_def)
  then show "validate_props L (props_of m) obj path = None
      \<longleftrightarrow> at_key m ''properties'' (keyword L (valid L) m (GMap obj) ''properties'')"
    by (simp add: keyword_def [abs_def] on_object_def)
  have i: "(case items_of m of None \<Rightarrow> None | Some its \<Rightarrow> validate_items L its arr 0 path) = None
      \<longleftrightarrow> at_key m ''items'' (\<lambda>raw. is_map raw \<longrightarrow> (\<forall>x\<in>set arr. valid L raw x))"
  proof (cases "map_of m ''items''")
    case (Some raw)
    show ?thesis
    proof (cases "\<exists>its. raw = GMap its")
      case True
      then obtain its where r: "raw = GMap its" ..
      show ?thesis using validate_items_None d(3) [OF Some] by (auto simp: items_of_def at_key_def Some is_map_def r)
    next
      case False
      then show ?thesis by (cases raw) (auto simp: items_of_def at_key_def Some is_map_def)
    qed
  qed (simp add: items_of_def at_key_def)
  then show "(case items_of m of None \<Rightarrow> None | Some its \<Rightarrow> validate_items L its arr 0 path) = None
      \<longleftrightarrow> at_key m ''items'' (keyword L (valid L) m (GList arr) ''items'')"
    by (simp add: keyword_def [abs_def] on_array_def)
qed

text \<open>A keyword about objects or arrays says nothing of other values.\<close>

lemma keyword_other_object:
  assumes "obj_of v = None" "k \<in> {''required'', ''properties'', ''additionalProperties''}"
  shows "at_key m k (keyword L sub m v k)"
proof -
  have "on_object v P" for P using assms(1) by (cases v) (simp_all add: on_object_def obj_of_def)
  with assms(2) have "keyword L sub m v k raw" for raw
    by (elim insertE emptyE) (simp_all add: keyword_def plain_keyword_def)
  then show ?thesis by (simp add: at_key_def split: option.split)
qed

lemma keyword_other_array:
  assumes "arr_of v = None" "k \<in> {''minItems'', ''maxItems'', ''uniqueItems'', ''items''}"
  shows "at_key m k (keyword L sub m v k)"
proof -
  have "on_array v P" for P using assms(1) by (cases v) (simp_all add: on_array_def arr_of_def)
  with assms(2) have "keyword L sub m v k raw" for raw
    by (elim insertE emptyE) (simp_all add: keyword_def plain_keyword_def)
  then show ?thesis by (simp add: at_key_def split: option.split)
qed

lemma keyword_plain:
  "k \<notin> {''allOf'', ''anyOf'', ''oneOf'', ''properties'', ''items''} \<Longrightarrow> keyword L sub m v k = plain_keyword L m v k"
  by (simp add: keyword_def fun_eq_iff)

lemma object_part_None:
  assumes "below L m" "tree_wf (GMap m)"
  shows "(case obj_of v of None \<Rightarrow> None
     | Some obj \<Rightarrow>
         orelse (check_required L (asStringList (case map_of m ''required'' of None \<Rightarrow> GNil | Some r \<Rightarrow> r)) obj path)
        (orelse (validate_props L (props_of m) obj path) (check_additional m obj path))) = None
    \<longleftrightarrow> at_key m ''required'' (keyword L (valid L) m v ''required'') \<and> at_key m ''properties'' (keyword L (valid L) m v ''properties'')
      \<and> at_key m ''additionalProperties'' (keyword L (valid L) m v ''additionalProperties'')"
proof (cases "obj_of v")
  case None then show ?thesis by (simp add: keyword_other_object)
next
  case (Some obj)
  then have "v = GMap obj" by (cases v) (simp_all add: obj_of_def)
  then show ?thesis using structure_None(1) [OF assms] object_checks_None [where L = L and m = m] by (simp add: keyword_plain obj_of_def arr_of_def)
qed

lemma array_part_None:
  assumes "below L m" "tree_wf (GMap m)"
  shows "(case arr_of v of None \<Rightarrow> None
     | Some arr \<Rightarrow> orelse (check_array L m arr path)
         (case items_of m of None \<Rightarrow> None | Some its \<Rightarrow> validate_items L its arr 0 path)) = None
    \<longleftrightarrow> at_key m ''minItems'' (keyword L (valid L) m v ''minItems'') \<and> at_key m ''maxItems'' (keyword L (valid L) m v ''maxItems'')
      \<and> at_key m ''uniqueItems'' (keyword L (valid L) m v ''uniqueItems'') \<and> at_key m ''items'' (keyword L (valid L) m v ''items'')"
proof (cases "arr_of v")
  case None then show ?thesis by (simp add: keyword_other_array)
next
  case (Some arr)
  then have "v = GList arr" by (cases v) (simp_all add: arr_of_def)
  then show ?thesis using structure_None(2) [OF assms] check_array_None [where L = L] by (simp add: keyword_plain obj_of_def arr_of_def)
qed

lemma validateValue_step:
  assumes "below L m" "tree_wf (GMap m)"
  shows "validateValue L (Some m) v path = None \<longleftrightarrow> valid L (GMap m) v"
  unfolding validateValue.simps(2) orelse_None combinators_None [OF assms] object_part_None [OF assms] array_part_None [OF assms]
    value_checks_None [where L = L] validateString_None validateNumber_None valid_keywords [OF assms(2)]
  by (simp add: known_keywords_def keyword_plain)

lemma decides_all: "tree_wf s \<Longrightarrow> decides L s"
proof (induction "size s" arbitrary: s rule: less_induct)
  case less
  show ?case unfolding decides_def
  proof (intro allI impI)
    fix m v path assume s: "s = GMap m"
    have "below L m" using less(1) by (simp add: below_def s)
    with less(2) show "validateValue L (Some m) v path = None \<longleftrightarrow> valid L s v" by (simp add: s validateValue_step)
  qed
qed

section \<open>Where an error is\<close>

text \<open>The value reached from another by object keys and array indices.\<close>

inductive at_path :: "gval \<Rightarrow> string list \<Rightarrow> gval \<Rightarrow> bool" where
  here: "at_path v [] v"
| field: "map_of m k = Some x \<Longrightarrow> at_path x ks w \<Longrightarrow> at_path (GMap m) (k # ks) w"
| element: "i < length vs \<Longrightarrow> at_path (vs ! i) ks w \<Longrightarrow> at_path (GList vs) (itoa (int i) # ks) w"

inductive_cases at_path_leaf: "at_path (GStr s) ks w"
inductive_cases at_path_field: "at_path (GMap m) (k # ks) w"

definition pointer :: "string list \<Rightarrow> string" where
  "pointer ks = concat (map (\<lambda>k. ''/'' @ k) ks)"

lemma pointer_simps [simp]: "pointer [] = []" "pointer (k # ks) = ''/'' @ k @ pointer ks"
  by (simp_all add: pointer_def)

text \<open>An error raised while checking \<open>v\<close> at \<open>path\<close> names a place inside \<open>v\<close>.\<close>

definition located :: "gval \<Rightarrow> string \<Rightarrow> verror option \<Rightarrow> bool" where
  "located v path r \<longleftrightarrow>
     (case r of None \<Rightarrow> True
      | Some e \<Rightarrow> \<exists>ks w. ve_path e = path @ pointer ks \<and> at_path v ks w)"

lemma joinPath_append: "joinPath path key = path @ ''/'' @ key"
  by (simp add: joinPath_def)

lemma located_None [simp]: "located v path None"
  by (simp add: located_def)

lemma located_reject [simp]: "located v path (reject path msg)"
  using here by (auto simp: located_def reject_def intro!: exI [of _ "[]"])

lemma located_orelse: "located v path a \<Longrightarrow> (a = None \<Longrightarrow> located v path b) \<Longrightarrow> located v path (orelse a b)"
  by (cases a) (simp_all add: orelse_def)

lemma located_check_bound [simp]: "located v path (check_bound b bad path msg)"
  by (simp add: check_bound_def split: option.split)

lemma located_into:
  assumes "located x (path @ ''/'' @ k) r" and "\<And>ks w. at_path x ks w \<Longrightarrow> at_path v (k # ks) w"
  shows "located v path r"
proof (cases r)
  case (Some e)
  with assms(1) obtain ks w where "ve_path e = (path @ ''/'' @ k) @ pointer ks" "at_path x ks w"
    unfolding located_def by auto
  then show ?thesis using assms(2) Some by (auto simp: located_def intro!: exI [of _ "k # ks"])
qed simp

lemma located_field: "map_of m k = Some x \<Longrightarrow> located x (path @ CHR ''/'' # k) r \<Longrightarrow> located (GMap m) path r"
  by (rule located_into [of x path k]) (simp_all add: field)

lemma located_plain:
  "located v path (check_const L m v path)" "located v path (check_enum m v path)" "located v path (check_type L m v path)"
  "located v path (validateString L m v path)" "located v path (validateNumber L m v path)"
  "located v path (check_array L m arr path)" "located v path (check_required L ns obj path)"
proof -
  show "located v path (check_const L m v path)" by (simp add: check_const_def split: option.split)
  show "located v path (check_enum m v path)" by (simp add: check_enum_def split: option.split gval.split)
  show "located v path (check_type L m v path)"
    by (simp add: check_type_def validateTypeAny_def validateType_def split: option.split gval.split)
  show "located v path (validateString L m v path)"
    unfolding validateString_def by (cases v) (auto simp: Let_def intro!: located_orelse split: option.split gval.split sum.split)
  show "located v path (validateNumber L m v path)"
    unfolding validateNumber_def by (cases "asFloat v") (auto simp: Let_def intro!: located_orelse)
  show "located v path (check_array L m arr path)"
    unfolding check_array_def by (auto simp: Let_def intro!: located_orelse)
  show "located v path (check_required L ns obj path)" by (induction ns) simp_all
qed

lemma located_declared:
  "set obj' \<subseteq> set obj \<Longrightarrow> located (GMap obj) path (check_declared props obj' path)"
proof (induction props obj' path rule: check_declared.induct)
  case (2 props key v obj' path)
  obtain x where "map_of obj key = Some x" using weak_map_of_SomeI [of key v obj] 2(2) by auto
  then have "located (GMap obj) path (reject (path @ CHR ''/'' # key) msg)" for msg
    by (rule located_field) simp
  with 2 show ?case by (simp add: joinPath_append)
qed simp

lemma located_additional: "located (GMap obj) path (check_additional m obj path)"
  using located_declared [of obj obj] by (auto simp: check_additional_def split: option.split gval.split bool.split)

lemma obj_arr_of: "obj_of v = Some obj \<longleftrightarrow> v = GMap obj" "arr_of v = Some vs \<longleftrightarrow> v = GList vs"
  by (cases v; auto simp: obj_of_def arr_of_def)+

lemma validate_located:
  "located v path (validateValue L s v path)"
  "located v path (validate_all L ss v path)"
  "True"
  "located (GMap obj) path (validate_props L ps obj path)"
  "(\<And>pre. length pre = i \<Longrightarrow> located (GList (pre @ es)) path (validate_items L its es i path))"
proof (induction L s v path and L ss v path and L ss v path and L ps obj path and L its es i path
    rule: validateValue_validate_all_count_valid_validate_props_validate_items.induct)
  case (2 L m v path)
  have items: "located (GList vs) path (validate_items L its vs 0 path)"
    if "\<And>pre. length pre = 0 \<Longrightarrow> located (GList (pre @ vs)) path (validate_items L its vs 0 path)" for its vs
    using that [of "[]"] by simp
  show ?case
    unfolding validateValue.simps(2)
    by (intro located_orelse located_plain)
      (auto simp: obj_arr_of split: option.split intro!: located_orelse located_plain located_additional items intro: 2)
next
  case (4 L s ss v path)
  then show ?case by (cases s) (auto intro: located_orelse)
next
  case (8 L key sub ps obj path)
  then show ?case
    by (cases sub; cases "map_of obj key") (auto intro!: located_orelse intro: located_field simp: joinPath_append)
next
  case (10 L its e es i path)
  from 10(3) have "located ((pre @ e # es) ! i) (path @ ''/'' @ itoa (int i)) (validateValue L (Some its) e (path @ ''/'' @ itoa (int i)))"
    using 10(1) by (simp add: nth_append)
  then have "located (GList (pre @ e # es)) path (validateValue L (Some its) e (path @ ''/'' @ itoa (int i)))"
    using 10(3) by (intro located_into [OF _ element]) auto
  then show ?case using 10(2) [of "pre @ [e]"] 10(3) by (auto intro: located_orelse)
qed simp_all

section \<open>Schemas reflected from Go types\<close>

text \<open>The decoded values that have the shape of a type. A struct field is looked up under its JSON
  name; an optional one may be absent, but not null.\<close>

definition json_name :: "gfld \<Rightarrow> string" where
  "json_name f = fst (parseJSONTag f)"

definition optional_field :: "gfld \<Rightarrow> bool" where
  "optional_field f = isOptional f (snd (parseJSONTag f))"

lemma size_fl_type [termination_simp]: "f \<in> set fs \<Longrightarrow> size (fl_type f) < Suc (size_list size fs)"
  by (induction fs) (auto simp: gfld.size split: gfld.splits, case_tac f, simp)

fun fits :: "gtype \<Rightarrow> gval \<Rightarrow> bool" where
  "fits TBool v = (case v of GBool _ \<Rightarrow> True | _ \<Rightarrow> False)"
| "fits TInt v = isInteger v"
| "fits TFloat v = isNumber v"
| "fits TString v = (case v of GStr _ \<Rightarrow> True | _ \<Rightarrow> False)"
| "fits (TSlice t) v = (case v of GList vs \<Rightarrow> list_all (fits t) vs | _ \<Rightarrow> False)"
| "fits TMapType v = is_map v"
| "fits (TStruct fs) v =
     (case v of
        GMap obj \<Rightarrow> list_all (\<lambda>f. kept f \<longrightarrow> (case map_of obj (json_name f) of
            None \<Rightarrow> optional_field f | Some x \<Rightarrow> fits (fl_type f) x)) fs
      | _ \<Rightarrow> False)"
| "fits (TPtr t) v = fits t v"
| "fits TOther v = True"

text \<open>No two fields of a struct share their JSON name.\<close>

fun names_ok :: "gtype \<Rightarrow> bool" where
  "names_ok (TStruct fs) = (distinct (map json_name (filter kept fs)) \<and> list_all (\<lambda>f. kept f \<longrightarrow> names_ok (fl_type f)) fs)"
| "names_ok (TSlice t) = names_ok t"
| "names_ok (TPtr t) = names_ok t"
| "names_ok t = True"

definition tag_keys :: "string set" where
  "tag_keys = {''description'', ''title'', ''default'', ''enum'', ''minimum'', ''maximum''}"

text \<open>Entries that validation ignores: annotations, and bounds and enumerations in the form the tags
  give them.\<close>

definition idle :: "string \<Rightarrow> gval \<Rightarrow> bool" where
  "idle k raw \<longleftrightarrow> k \<in> tag_keys \<and> ((\<exists>s. raw = GStr s) \<and> k \<noteq> ''enum'' \<or> (\<exists>ss. raw = GStrs ss))"

lemma idle_keyword:
  assumes "idle k raw" shows "keyword L sub m v k raw"
proof -
  have f: "with_float raw P" if "\<not> (\<exists>q. asFloat raw = Some q)" for P using that by (simp add: with_float_def split: option.split)
  have "asFloat raw = None" using assms by (auto simp: idle_def asFloat_def)
  then have num: "on_number v (\<lambda>q. with_float raw (P q))" for P by (simp add: f on_number_def split: option.split)
  from assms have "k \<in> tag_keys" by (simp add: idle_def)
  then show ?thesis unfolding tag_keys_def
  proof (elim insertE emptyE)
    assume k: "k = ''enum''"
    then obtain ss where "raw = GStrs ss" using assms by (auto simp: idle_def)
    then show ?thesis by (simp add: k keyword_def plain_keyword_def)
  qed (simp_all add: keyword_def plain_keyword_def num)
qed

lemma set_update_subset: "set (AList.update k v m) \<subseteq> insert (k, v) (set m)"
  by (induction m) auto

definition all_idle :: "(string \<times> gval) list \<Rightarrow> bool" where
  "all_idle m \<longleftrightarrow> (\<forall>p\<in>set m. idle (fst p) (snd p))"

lemma all_idle_update: "all_idle m \<Longrightarrow> idle k v \<Longrightarrow> all_idle (AList.update k v m)"
  using set_update_subset [of k v m] by (auto simp: all_idle_def)

lemma idle_intros:
  "idle ''description'' (GStr s)" "idle ''title'' (GStr s)" "idle ''default'' (GStr s)" "idle ''enum'' (GStrs ss)"
  "idle ''minimum'' (GStr s)" "idle ''maximum'' (GStr s)"
  by (simp_all add: idle_def tag_keys_def)

lemma tag_entry_idle:
  assumes "all_idle out" shows "all_idle (tag_entry out part)"
proof -
  note u = all_idle_update [OF assms]
  have "all_idle (if key = ''description'' \<or> key = ''title'' \<or> key = ''default'' then AList.update key (GStr val) out
      else if key = ''enum'' then AList.update ''enum'' (GStrs (split_on (CHR ''|'') val)) out
      else if key = ''minimum'' \<or> key = ''maximum'' then AList.update key (GStr val) out else out)" for key val
    using u idle_intros assms by simp
  then show ?thesis using assms by (simp add: tag_entry_def Let_def split: list.split)
qed

lemma tag_idle: "all_idle (parseJSONSchemaTag tag)"
proof -
  have "all_idle out \<Longrightarrow> all_idle (foldl tag_entry out ps)" for out ps
    by (induction ps arbitrary: out) (simp_all add: tag_entry_idle)
  from this [of "[]"] show ?thesis by (simp add: parseJSONSchemaTag_def all_idle_def)
qed

text \<open>A schema with idle entries written over it, on keys it does not use, accepts the same values.\<close>

lemma set_all_idle:
  assumes "all_idle extra" "fst ` set m \<inter> tag_keys = {}" "distinct (map fst m)"
  shows "distinct (map fst (set_all m extra))" "k \<notin> tag_keys \<Longrightarrow> map_of (set_all m extra) k = map_of m k"
    "set m \<subseteq> set (set_all m extra)" "\<forall>p\<in>set (set_all m extra). p \<in> set m \<or> idle (fst p) (snd p)"
proof -
  define inv where "inv n \<longleftrightarrow> distinct (map fst n) \<and> set m \<subseteq> set n \<and> (\<forall>p\<in>set n. p \<in> set m \<or> idle (fst p) (snd p))" for n
  have step: "inv (AList.update k v n)" if "inv n" "idle k v" for n k v
  proof -
    have k: "k \<notin> fst ` set m" using assms(2) that(2) by (auto simp: idle_def)
    have "(a, b) \<in> set (AList.update k v n)" if "(a, b) \<in> set m" for a b
    proof -
      have "map_of n a = Some b" using that \<open>inv n\<close> by (auto simp: inv_def)
      moreover have "a \<noteq> k" using k that by force
      ultimately have "map_of (AList.update k v n) a = Some b" by (simp add: update_conv')
      then show ?thesis by (rule map_of_SomeD)
    qed
    then show ?thesis
      using that set_update_subset [of k v n] by (auto simp: inv_def distinct_update)
  qed
  have "inv n \<Longrightarrow> all_idle xs \<Longrightarrow> inv (foldl (\<lambda>m (k, v). AList.update k v m) n xs)" for n xs
    by (induction xs arbitrary: n) (auto simp: all_idle_def step)
  from this [of m extra] have i: "inv (set_all m extra)" using assms by (simp add: set_all_def inv_def)
  then show "distinct (map fst (set_all m extra))" "set m \<subseteq> set (set_all m extra)"
    "\<forall>p\<in>set (set_all m extra). p \<in> set m \<or> idle (fst p) (snd p)" by (simp_all add: inv_def)
  show "map_of (set_all m extra) k = map_of m k" if k: "k \<notin> tag_keys"
  proof -
    have "map_of (set_all m extra) k = Some b \<longleftrightarrow> map_of m k = Some b" for b
      using i assms(3) k by (auto simp: inv_def map_of_eq_Some_iff idle_def)
    then show ?thesis by (metis option.exhaust)
  qed
qed

lemma valid_set_all:
  assumes "all_idle extra" "fst ` set m \<inter> tag_keys = {}" "distinct (map fst m)"
  shows "valid L (GMap (set_all m extra)) v \<longleftrightarrow> valid L (GMap m) v"
proof -
  note S = set_all_idle [OF assms]
  have "props_of (set_all m extra) = props_of m"
    using S(2) [of "''properties''"] by (simp add: props_of_def tag_keys_def)
  then have "keyword L sub (set_all m extra) v k raw = keyword L sub m v k raw" for sub k raw
    by (simp add: keyword_def plain_keyword_def)
  then show ?thesis unfolding valid_object using S(3,4) idle_keyword by fastforce
qed

lemma typeSchema_keys:
  "fst ` set (typeSchema t) \<subseteq> {''type'', ''items'', ''properties'', ''required''} \<and> distinct (map fst (typeSchema t))"
  by (induction t rule: deref.induct) (auto simp: object_schema_def split: prod.splits)

lemma fieldSchema_valid: "valid L (GMap (fieldSchema f)) v \<longleftrightarrow> valid L (GMap (typeSchema (fl_type f))) v"
  unfolding fieldSchema_def
  using typeSchema_keys [of "fl_type f"] by (intro valid_set_all tag_idle) (auto simp: tag_keys_def)

lemma valid_object_schema:
  "valid L (GMap (object_schema props req)) v \<longleftrightarrow>
     (case v of GMap obj \<Rightarrow> props_hold (valid L) (GMap props) obj \<and> set req \<subseteq> fst ` set obj | _ \<Rightarrow> False)"
  by (cases v) (auto simp: object_schema_def valid_object keyword_def plain_keyword_def matchesType_def on_object_def asStringList_def)

lemma distinct_names_eq:
  "distinct (map json_name (filter kept fs)) \<Longrightarrow> f \<in> set fs \<Longrightarrow> kept f \<Longrightarrow> g \<in> set fs \<Longrightarrow> kept g
     \<Longrightarrow> json_name g = json_name f \<Longrightarrow> g = f"
  by (auto simp: distinct_map inj_on_def)

lemma props_hold_fields:
  assumes r: "reflect_fields fs [] [] = (props, req)" and d: "distinct (map json_name (filter kept fs))"
  shows "props_hold sub (GMap props) obj \<longleftrightarrow>
     list_all (\<lambda>f. kept f \<longrightarrow> (case map_of obj (json_name f) of None \<Rightarrow> True | Some x \<Rightarrow> sub (GMap (fieldSchema f)) x)) fs"
proof -
  note spec = reflect_fields_spec [OF r]
  have look: "map_of props (json_name f) = Some (GMap (fieldSchema f))" if "f \<in> set fs" "kept f" for f
    using spec distinct_names_eq [OF d that] that by (auto simp: json_name_def)
  have dp: "distinct (map fst props)" using spec by simp
  have keys: "fst ` set props = json_name ` {f \<in> set fs. kept f}" using spec by (simp add: json_name_def [abs_def])
  have "(p, s) \<in> set props \<longleftrightarrow> (\<exists>f\<in>set fs. kept f \<and> p = json_name f \<and> s = GMap (fieldSchema f))" for p s
  proof
    assume ps: "(p, s) \<in> set props"
    then have "p \<in> json_name ` {f \<in> set fs. kept f}" unfolding keys [symmetric] by (metis fst_conv imageI)
    then obtain f where f: "f \<in> set fs" "kept f" "p = json_name f" by blast
    moreover have "map_of props p = Some s" using ps dp by simp
    ultimately show "\<exists>f\<in>set fs. kept f \<and> p = json_name f \<and> s = GMap (fieldSchema f)" using look [OF f(1,2)] by auto
  qed (use look in \<open>auto dest: map_of_SomeD\<close>)
  then have sp: "set props = (\<lambda>f. (json_name f, GMap (fieldSchema f))) ` {f \<in> set fs. kept f}" by auto
  have "props_hold sub (GMap props) obj \<longleftrightarrow>
      (\<forall>f\<in>{f \<in> set fs. kept f}. case map_of obj (json_name f) of
          Some x \<Rightarrow> is_map (GMap (fieldSchema f)) \<longrightarrow> sub (GMap (fieldSchema f)) x | None \<Rightarrow> True)"
    by (simp add: props_hold_def sp)
  then show ?thesis by (simp add: list_all_iff is_map_def cong: option.case_cong) blast
qed

lemma required_fields:
  assumes r: "reflect_fields fs [] [] = (props, req)"
  shows "set req \<subseteq> fst ` set obj \<longleftrightarrow> list_all (\<lambda>f. kept f \<longrightarrow> optional_field f \<or> map_of obj (json_name f) \<noteq> None) fs"
  using reflect_fields_spec [OF r] by (auto simp: list_all_iff map_of_eq_None_iff json_name_def optional_field_def)

lemma valid_typeSchema: "names_ok t \<Longrightarrow> valid L (GMap (typeSchema t)) v \<longleftrightarrow> fits t v"
proof (induction t v rule: fits.induct)
  case (5 t v)
  then show ?case
    by (cases v) (auto simp: valid_object keyword_def plain_keyword_def matchesType_def on_array_def is_map_def list_all_iff)
next
  case (7 fs v)
  obtain props req where r: "reflect_fields fs [] [] = (props, req)" by fastforce
  show ?case
  proof (cases v)
    case (GMap obj)
    have ok: "distinct (map json_name (filter kept fs))" using 7(2) by simp
    have sub: "valid L (GMap (fieldSchema f)) x \<longleftrightarrow> fits (fl_type f) x"
      if "f \<in> set fs" "kept f" "map_of obj (json_name f) = Some x" for f x
      unfolding fieldSchema_valid using 7(1) [OF GMap that] 7(2) that by (simp add: list_all_iff)
    have "list_all (\<lambda>f. kept f \<longrightarrow> (case map_of obj (json_name f) of None \<Rightarrow> True | Some x \<Rightarrow> valid L (GMap (fieldSchema f)) x)) fs
        \<and> list_all (\<lambda>f. kept f \<longrightarrow> optional_field f \<or> map_of obj (json_name f) \<noteq> None) fs
      \<longleftrightarrow> list_all (\<lambda>f. kept f \<longrightarrow> (case map_of obj (json_name f) of
            None \<Rightarrow> optional_field f | Some x \<Rightarrow> fits (fl_type f) x)) fs"
      using sub unfolding list_all_iff by (fastforce split: option.splits)
    then show ?thesis
      by (simp add: r GMap valid_object_schema props_hold_fields [OF r ok] required_fields [OF r] del: typeSchema.simps)
        (simp add: r valid_object_schema props_hold_fields [OF r ok] required_fields [OF r])
  qed (simp_all add: r valid_object_schema)
qed (auto simp: valid_object keyword_def plain_keyword_def matchesType_def is_map_def split: gval.split)

section \<open>The builder\<close>

type_synonym schema = "(string \<times> gval) list"

definition put :: "string \<Rightarrow> gval \<Rightarrow> schema \<Rightarrow> schema" where
  "put key v s = AList.update key v s"

definition Schema_Object :: schema where "Schema_Object = put ''type'' (GStr ''object'') []"
definition Schema_String :: schema where "Schema_String = put ''type'' (GStr ''string'') []"
definition Schema_Integer :: schema where "Schema_Integer = put ''type'' (GStr ''integer'') []"
definition Schema_Number :: schema where "Schema_Number = put ''type'' (GStr ''number'') []"
definition Schema_Boolean :: schema where "Schema_Boolean = put ''type'' (GStr ''boolean'') []"
definition Schema_Null :: schema where "Schema_Null = put ''type'' (GStr ''null'') []"

definition Schema_Array :: "schema option \<Rightarrow> schema" where
  "Schema_Array items = (case items of None \<Rightarrow> put ''type'' (GStr ''array'') []
     | Some s \<Rightarrow> put ''items'' (GMap s) (put ''type'' (GStr ''array'') []))"

definition Schema_Enum :: "gval list \<Rightarrow> schema" where "Schema_Enum vs = put ''enum'' (GList vs) []"
definition Schema_Const :: "gval \<Rightarrow> schema" where "Schema_Const v = put ''const'' v []"
definition Schema_Ref :: "string \<Rightarrow> schema" where "Schema_Ref r = put ''$ref'' (GStr r) []"

definition combinator :: "string \<Rightarrow> schema list \<Rightarrow> schema" where
  "combinator key subs = put key (GList (map GMap subs)) []"

definition Schema_AnyOf :: "schema list \<Rightarrow> schema" where "Schema_AnyOf = combinator ''anyOf''"
definition Schema_OneOf :: "schema list \<Rightarrow> schema" where "Schema_OneOf = combinator ''oneOf''"
definition Schema_AllOf :: "schema list \<Rightarrow> schema" where "Schema_AllOf = combinator ''allOf''"

definition Schema_Prop :: "string \<Rightarrow> schema \<Rightarrow> schema \<Rightarrow> schema" where
  "Schema_Prop name sub s = put ''properties'' (GMap (put name (GMap sub) (props_of s))) s"

fun add_names :: "string list \<Rightarrow> string list \<Rightarrow> string list" where
  "add_names cur [] = cur"
| "add_names cur (n # ns) = add_names (if n \<in> set cur then cur else cur @ [n]) ns"

definition Schema_Required :: "string list \<Rightarrow> schema \<Rightarrow> schema" where
  "Schema_Required names s =
     put ''required'' (GStrs (add_names (case map_of s ''required'' of Some (GStrs cur) \<Rightarrow> cur | _ \<Rightarrow> []) names)) s"

definition Schema_Description :: "string \<Rightarrow> schema \<Rightarrow> schema" where "Schema_Description d = put ''description'' (GStr d)"
definition Schema_Title :: "string \<Rightarrow> schema \<Rightarrow> schema" where "Schema_Title t = put ''title'' (GStr t)"
definition Schema_Default :: "gval \<Rightarrow> schema \<Rightarrow> schema" where "Schema_Default v = put ''default'' v"
definition Schema_Min :: "rat \<Rightarrow> schema \<Rightarrow> schema" where "Schema_Min q = put ''minimum'' (GFloat q)"
definition Schema_Max :: "rat \<Rightarrow> schema \<Rightarrow> schema" where "Schema_Max q = put ''maximum'' (GFloat q)"
definition Schema_MinLength :: "int \<Rightarrow> schema \<Rightarrow> schema" where "Schema_MinLength n = put ''minLength'' (GInt n)"
definition Schema_MaxLength :: "int \<Rightarrow> schema \<Rightarrow> schema" where "Schema_MaxLength n = put ''maxLength'' (GInt n)"
definition Schema_Pattern :: "string \<Rightarrow> schema \<Rightarrow> schema" where "Schema_Pattern p = put ''pattern'' (GStr p)"
definition Schema_Format :: "string \<Rightarrow> schema \<Rightarrow> schema" where "Schema_Format f = put ''format'' (GStr f)"
definition Schema_MinItems :: "int \<Rightarrow> schema \<Rightarrow> schema" where "Schema_MinItems n = put ''minItems'' (GInt n)"
definition Schema_MaxItems :: "int \<Rightarrow> schema \<Rightarrow> schema" where "Schema_MaxItems n = put ''maxItems'' (GInt n)"
definition Schema_UniqueItems :: "bool \<Rightarrow> schema \<Rightarrow> schema" where "Schema_UniqueItems b = put ''uniqueItems'' (GBool b)"

definition Schema_AdditionalProperties :: "bool \<Rightarrow> schema \<Rightarrow> schema" where
  "Schema_AdditionalProperties b = put ''additionalProperties'' (GBool b)"

text \<open>The names in the byte order of Go strings.\<close>

definition Schema_PropertyNames :: "schema \<Rightarrow> string list" where
  "Schema_PropertyNames s =
     (let props = props_of s in if props = [] then [] else sort (map fst props))"

text \<open>A closed object: the properties added in order, the required names, nothing else allowed.\<close>

definition closed_object :: "(string \<times> schema) list \<Rightarrow> string list \<Rightarrow> schema" where
  "closed_object props req =
     Schema_AdditionalProperties False (Schema_Required req (foldl (\<lambda>s (n, sub). Schema_Prop n sub s) Schema_Object props))"

definition entries :: "(string \<times> schema) list \<Rightarrow> (string \<times> gval) list" where
  "entries props = foldl (\<lambda>q (n, sub). AList.update n (GMap sub) q) [] props"

lemma build_props:
  "foldl (\<lambda>s (n, sub). Schema_Prop n sub s) Schema_Object props =
     (''type'', GStr ''object'') # (if props = [] then [] else [(''properties'', GMap (entries props))])"
  by (induction props rule: rev_induct)
    (auto simp: Schema_Object_def Schema_Prop_def put_def props_of_def entries_def)

lemma set_add_names: "set (add_names cur ns) = set cur \<union> set ns"
  by (induction cur ns rule: add_names.induct) auto

lemma add_names_distinct: "distinct cur \<Longrightarrow> distinct (add_names cur ns)"
  by (induction cur ns rule: add_names.induct) auto

lemma closed_object_form:
  "closed_object props req =
     (''type'', GStr ''object'') # (if props = [] then [] else [(''properties'', GMap (entries props))])
       @ [(''required'', GStrs (add_names [] req)), (''additionalProperties'', GBool False)]"
  by (simp add: closed_object_def build_props Schema_Required_def Schema_AdditionalProperties_def put_def)

lemma entries_props:
  "map_of (entries props) n = map_option GMap (map_of (rev props) n) \<and> distinct (map fst (entries props))
    \<and> snd ` set (entries props) \<subseteq> GMap ` snd ` set props"
proof (induction props rule: rev_induct)
  case (snoc p props)
  obtain a b where p: "p = (a, b)" by (cases p)
  then show ?case using snoc set_update_subset [of a "GMap b" "entries props"]
    by (auto simp: entries_def update_conv' distinct_update map_add_def image_iff split: option.split) force+
qed (simp add: entries_def)

lemma closed_object_wf: "\<forall>p\<in>set props. tree_wf (GMap (snd p)) \<Longrightarrow> tree_wf (GMap (closed_object props req))"
proof -
  assume wf: "\<forall>p\<in>set props. tree_wf (GMap (snd p))"
  have d: "distinct (map fst (entries props))" and "snd ` set (entries props) \<subseteq> GMap ` snd ` set props"
    using entries_props [of props] by blast+
  with wf have "tree_wf x" if "x \<in> snd ` set (entries props)" for x using that by (auto dest!: subsetD)
  with d have "tree_wf (GMap (entries props))" by simp
  then show ?thesis by (simp add: closed_object_form)
qed

lemma valid_closed_object:
  "valid L (GMap (closed_object props req)) v \<longleftrightarrow>
     (case v of GMap obj \<Rightarrow> props_hold (valid L) (GMap (entries props)) obj \<and> set req \<subseteq> fst ` set obj
        \<and> fst ` set obj \<subseteq> fst ` set (entries props) | _ \<Rightarrow> False)"
proof -
  have p: "props_of (closed_object props req) = entries props"
    by (simp add: props_of_def closed_object_form) (simp add: entries_def)
  have e: "entries [] = []" "props_hold sub (GMap []) obj" for sub obj
    by (simp_all add: entries_def props_hold_def)
  show ?thesis
    unfolding valid_object keyword_def plain_keyword_def p
    by (cases v; cases "props = []") (auto simp: closed_object_form matchesType_def on_object_def asStringList_def set_add_names e)
qed

lemma both_maps:
  "((\<forall>n y x. f n = Some y \<and> g n = Some x \<longrightarrow> P y x) \<and> R \<and> (\<forall>n x. g n = Some x \<longrightarrow> (\<exists>y. f n = Some y)))
     \<longleftrightarrow> R \<and> (\<forall>n x. g n = Some x \<longrightarrow> (\<exists>y. f n = Some y \<and> P y x))"
  by (metis option.inject)

lemma update_wf: "tree_wf (GMap m) \<Longrightarrow> tree_wf v \<Longrightarrow> tree_wf (GMap (AList.update k v m))"
  using set_update_subset [of k v m] by (auto simp: distinct_update)

lemma set_all_wf: "tree_wf (GMap m) \<Longrightarrow> \<forall>v\<in>snd ` set extra. tree_wf v \<Longrightarrow> tree_wf (GMap (set_all m extra))"
  unfolding set_all_def
proof (induction extra arbitrary: m)
  case (Cons p extra)
  have "tree_wf (GMap (AList.update (fst p) (snd p) m))" using Cons.prems by (intro update_wf) simp_all
  with Cons show ?case by (simp add: split_beta del: tree_wf.simps)
qed simp

lemma tag_wf: "\<forall>v\<in>snd ` set (parseJSONSchemaTag tag). tree_wf v"
  using tag_idle [of tag] by (auto simp: all_idle_def idle_def)

lemma typeSchema_wf:
  "tree_wf (GMap (typeSchema t))"
  "tree_wf (GMap props) \<Longrightarrow> tree_wf (GMap (fst (reflect_fields fs props req)))"
proof (induction t and fs props req rule: typeSchema_reflect_fields.induct)
  case (8 fs)
  then show ?case by (auto simp: object_schema_def split: prod.splits)
next
  case (11 nm ex js sch t fs props req)
  show ?case
  proof (cases "ex \<and> fst (parseJSONTag (Fld nm ex js sch t)) \<noteq> ''-''")
    case False
    then show ?thesis using 11 by (auto simp del: tree_wf.simps split: prod.splits)
  next
    case True
    obtain name opts where p: "parseJSONTag (Fld nm ex js sch t) = (name, opts)" by fastforce
    have "tree_wf (GMap (AList.update name (GMap (set_all (typeSchema t) (parseJSONSchemaTag sch))) props))"
      using True p 11 by (intro update_wf set_all_wf tag_wf) auto
    then show ?thesis using True p 11 by (simp del: tree_wf.simps)
  qed
qed simp_all

section \<open>Properties\<close>

text \<open>
  C6: the validator decides JSON Schema validity. On a schema without duplicate
  keys it accepts a value exactly when every keyword's condition holds, sub-schemas included,
  whatever the order in which the maps are visited; a nil schema accepts everything. The condition
  of \<open>multipleOf\<close> is that of \<open>float64\<close>: the rounded quotient is an integer up to the tolerance, or
  infinite, so that a large enough number is a multiple of everything. Validating text adds one error, for text that does not parse.
\<close>

theorem validate_correct:
  assumes "tree_wf (GMap schema)"
  shows "(Schema_Validate L (Some schema) v = None \<longleftrightarrow> valid L (GMap schema) v)
    \<and> (Schema_Validate L (Some schema) v = None \<longleftrightarrow> (\<forall>(k, raw)\<in>set schema. keyword L (valid L) schema v k raw))
    \<and> Schema_Validate L None v = None
    \<and> (Schema_ValidateJSON L (Some schema) parsed = None \<longleftrightarrow> (\<exists>w. parsed = Inr w \<and> valid L (GMap schema) w))"
  using decides_all [OF assms]
  by (cases parsed) (simp_all add: Schema_Validate_def Schema_ValidateJSON_def decides_def valid_object)

definition demo_fmt :: fmt_lib where
  "demo_fmt = \<lparr>f_v = (\<lambda>_. ''v''), f_q = (\<lambda>s. s), f_rx = (\<lambda>_. Inl ''unsupported''), f_int = (\<lambda>_. 0)\<rparr>"

theorem validate_correct_witness:
  "Schema_Validate demo_fmt (Some [(''minimum'', GInt 2), (''type'', GStr ''integer'')]) (GFloat 3) = None
   \<and> Schema_Validate demo_fmt (Some [(''minimum'', GInt 2), (''type'', GStr ''integer'')]) (GFloat 1) \<noteq> None
   \<and> Schema_Validate demo_fmt (Some [(''multipleOf'', GInt 3)]) (GFloat (10 ^ 17)) = None
   \<and> Schema_Validate demo_fmt (Some [(''multipleOf'', GFloat (123456789 / 10 ^ 9))]) (GFloat (10 ^ 308)) = None
   \<and> Schema_Validate demo_fmt (Some [(''multipleOf'', GInt 2)]) (GInt 7) \<noteq> None"
proof -
  have d: "Schema_Validate L (Some schema) v = None \<longleftrightarrow> (\<forall>(k, raw)\<in>set schema. keyword L (valid L) schema v k raw)"
    if "tree_wf (GMap schema)" for L schema v
    using validate_correct [OF that] by blast
  have m: "multiple_of 3 (10 ^ 17)" "multiple_of (123456789 / 10 ^ 9) (10 ^ 308)" by (rule multiple_large, simp)+
  have fs: "float_of_int 2 = 2" "float_of_int 3 = 3" "float_of_int 7 = 7" by simp_all
  have n: "\<not> multiple_of 2 7"
  proof
    have "is64 (7 / 2)" unfolding is64_def by (intro exI [of _ 7] exI [of _ "- 1"]) (simp add: power_int_minus)
    then have "round64 (7 / 2) = Some (7 / 2)" by (rule round64_id)
    moreover assume "multiple_of 2 7"
    ultimately obtain n :: int where "\<bar>7 / 2 - of_int n\<bar> \<le> tolerance" unfolding multiple_of_def by blast
    with tolerance_bounds have "\<bar>of_int (7 - 2 * n)\<bar> < (1 :: rat)" by (simp, linarith)
    then have "\<bar>7 - 2 * n\<bar> < 1" by linarith
    then show False by presburger
  qed
  show ?thesis
    using m n fs
    by (simp add: d keyword_def plain_keyword_def on_number_def with_float_def asFloat_def matchesType_def isInteger_def trunc_def
        del: power_numeral)
qed

text \<open>
  C30: an error names its place. The path of the error reported for a value is the keys
  and indices that lead, from the root of the value, to a value inside it.
\<close>

theorem error_path_located:
  "case Schema_Validate L schema v of None \<Rightarrow> True | Some e \<Rightarrow> (\<exists>ks w. ve_path e = pointer ks \<and> at_path v ks w)"
  using validate_located(1) [of v "[]" L schema] by (simp add: located_def Schema_Validate_def cong: option.case_cong)

text \<open>
  C31: the schema reflected from a Go type accepts exactly the decoded values of the
  type's shape, when no two fields of a struct share a JSON name. In particular the bounds and
  the enumerations written in the \<open>jsonschema\<close> tags reject nothing: they are reflected as texts,
  which the validator does not read as bounds or lists of values.
\<close>

theorem reflected_schema_exact:
  assumes "names_ok t"
  shows "(Schema_Validate L (Some (typeSchema t)) v = None \<longleftrightarrow> fits t v)
    \<and> (Schema_Validate L (Some (set_all (typeSchema t) (parseJSONSchemaTag tag))) v = None \<longleftrightarrow> fits t v)"
proof -
  have "tree_wf (GMap (typeSchema t))" by (rule typeSchema_wf)
  moreover from this have "tree_wf (GMap (set_all (typeSchema t) (parseJSONSchemaTag tag)))" by (rule set_all_wf [OF _ tag_wf])
  moreover have "valid L (GMap (set_all (typeSchema t) (parseJSONSchemaTag tag))) v \<longleftrightarrow> valid L (GMap (typeSchema t)) v"
    using typeSchema_keys [of t] by (intro valid_set_all tag_idle) (auto simp: tag_keys_def)
  ultimately show ?thesis
    using valid_typeSchema [OF assms, of L v] by (simp add: Schema_Validate_def decidesD [OF decides_all])
qed

theorem reflected_schema_exact_witness:
  "Schema_Validate demo_fmt (Some (typeSchema schema_example)) (GMap [(''a'', GFloat (- 5))]) = None"
proof -
  have "names_ok schema_example" by code_simp
  moreover have "fits schema_example (GMap [(''a'', GFloat (- 5))])" by code_simp
  ultimately show ?thesis using reflected_schema_exact by blast
qed

text \<open>
  An object built from properties and required names, with nothing else allowed,
  accepts exactly the objects that have the required names and whose every entry is declared and
  accepted by the last schema declared for it.
\<close>

theorem closed_object_accepts:
  assumes "\<forall>p\<in>set props. tree_wf (GMap (snd p))"
  shows "Schema_Validate L (Some (closed_object props req)) v = None \<longleftrightarrow>
     (\<exists>obj. v = GMap obj \<and> set req \<subseteq> fst ` set obj
        \<and> (\<forall>n x. map_of obj n = Some x \<longrightarrow>
             (\<exists>sub. map_of (rev props) n = Some sub \<and> Schema_Validate L (Some sub) x = None)))"
proof -
  have V: "Schema_Validate L (Some s) x = None \<longleftrightarrow> valid L (GMap s) x" if "tree_wf (GMap s)" for s x
    by (simp add: Schema_Validate_def decidesD [OF decides_all [OF that]])
  have sub: "Schema_Validate L (Some s) x = None \<longleftrightarrow> valid L (GMap s) x" if "map_of (rev props) n = Some s" for n s x
    using assms map_of_SomeD [OF that] by (intro V) force
  have look: "map_of (entries props) n = map_option GMap (map_of (rev props) n)" "distinct (map fst (entries props))" for n
    using entries_props [of props n] by simp_all
  have keys: "fst ` set (entries props) = fst ` set props"
  proof -
    have "dom (map_of (entries props)) = dom (map_of (rev props))" using look(1) by (auto simp: dom_def)
    then show ?thesis by (simp add: dom_map_of_conv_image_fst)
  qed
  have ph: "props_hold (valid L) (GMap (entries props)) obj \<longleftrightarrow>
      (\<forall>n sub x. map_of (rev props) n = Some sub \<and> map_of obj n = Some x \<longrightarrow> valid L (GMap sub) x)" for obj
  proof -
    have "(p, s) \<in> set (entries props) \<longleftrightarrow> (\<exists>sub. map_of (rev props) p = Some sub \<and> s = GMap sub)" for p s
    proof -
      have "(p, s) \<in> set (entries props) \<longleftrightarrow> map_of (entries props) p = Some s" using look(2) by simp
      then show ?thesis unfolding look(1) by auto
    qed
    note e = this
    have "props_hold (valid L) (GMap (entries props)) obj \<longleftrightarrow>
        (\<forall>p s. (p, s) \<in> set (entries props) \<longrightarrow> (\<forall>x. map_of obj p = Some x \<longrightarrow> is_map s \<longrightarrow> valid L s x))"
      by (auto simp: props_hold_def split: option.split)
    then show ?thesis unfolding e by (auto simp: is_map_def)
  qed
  have declared: "n \<in> fst ` set props \<longleftrightarrow> (\<exists>sub. map_of (rev props) n = Some sub)" for n
    by (metis domD domI dom_map_of_conv_image_fst set_rev)
  show ?thesis
  proof (cases v)
    case (GMap obj)
    have k: "fst ` set obj \<subseteq> fst ` set (entries props) \<longleftrightarrow> (\<forall>n x. map_of obj n = Some x \<longrightarrow> (\<exists>sub. map_of (rev props) n = Some sub))"
    proof -
      have "n \<in> fst ` set obj \<longleftrightarrow> (\<exists>x. map_of obj n = Some x)" for n
        by (metis domD domI dom_map_of_conv_image_fst)
      then show ?thesis unfolding keys subset_iff declared by auto
    qed
    have "Schema_Validate L (Some (closed_object props req)) v = None \<longleftrightarrow>
       set req \<subseteq> fst ` set obj \<and> (\<forall>n x. map_of obj n = Some x \<longrightarrow>
             (\<exists>sub. map_of (rev props) n = Some sub \<and> valid L (GMap sub) x))"
      unfolding V [OF closed_object_wf [OF assms]] valid_closed_object GMap gval.case ph k
      by (rule both_maps)
    also have "\<dots> \<longleftrightarrow> set req \<subseteq> fst ` set obj \<and> (\<forall>n x. map_of obj n = Some x \<longrightarrow>
             (\<exists>sub. map_of (rev props) n = Some sub \<and> Schema_Validate L (Some sub) x = None))"
      using sub by (simp cong: conj_cong)
    finally show ?thesis by (simp add: GMap)
  qed (simp_all add: V [OF closed_object_wf [OF assms]] valid_closed_object)
qed

theorem closed_object_accepts_witness:
  "Schema_Validate demo_fmt (Some (closed_object [(''n'', Schema_Integer)] [''n''])) (GMap [(''n'', GFloat 1)]) = None"
proof -
  have i: "Schema_Validate demo_fmt (Some Schema_Integer) (GFloat 1) = None"
    using validate_correct [of Schema_Integer demo_fmt "GFloat 1" "Inl []"]
    by (simp add: Schema_Integer_def put_def keyword_def plain_keyword_def matchesType_def isInteger_def trunc_def)
  have "\<forall>p\<in>set [(''n'', Schema_Integer)]. tree_wf (GMap (snd p))" by (simp add: Schema_Integer_def put_def)
  from closed_object_accepts [OF this, of demo_fmt "[''n'']" "GMap [(''n'', GFloat 1)]"] i show ?thesis by simp
qed

end
