(* ===== verification/SchemaRefs.thy ===== *)
theory SchemaRefs
  imports Prelude GoStd Schema JsonSchema "HOL-Library.While_Combinator"
begin

text \<open>
  The schema transformations of \<open>jsonschema/transform.go\<close> and \<open>jsonschema/refs.go\<close>. They work
  on deep copies, so on trees: a copy is the tree itself, and a nil schema is the empty map its
  copy is. The one loop without a bound, the search for the reachable definitions, is a
  \<open>while_option\<close>, and the search for a cycle takes fuel; that both return is proved.
\<close>

section \<open>References\<close>

definition cloneSchema :: "gval \<Rightarrow> schema" where
  "cloneSchema v = (case v of GMap m \<Rightarrow> m | _ \<Rightarrow> [])"

definition isRemoteRef :: "string \<Rightarrow> bool" where
  "isRemoteRef ref \<longleftrightarrow> ref \<noteq> [] \<and> \<not> prefix ''#'' ref"

definition defName :: "string \<Rightarrow> string option" where
  "defName ref = (if prefix ''#/$defs/'' ref then Some (drop (length ''#/$defs/'') ref) else None)"

text \<open>The reference a node carries, when it is a text.\<close>

definition ref_of :: "schema \<Rightarrow> string option" where
  "ref_of m = (case map_of m ''$ref'' of Some (GStr r) \<Rightarrow> Some r | _ \<Rightarrow> None)"

definition def_ref :: "schema \<Rightarrow> string list" where
  "def_ref m = (case ref_of m of None \<Rightarrow> [] | Some r \<Rightarrow> (case defName r of None \<Rightarrow> [] | Some n \<Rightarrow> [n]))"

text \<open>The names of the definitions referred to anywhere in a tree, in the order of the walk.\<close>

fun def_refs :: "gval \<Rightarrow> string list"
  and def_refs_entries :: "(string \<times> gval) list \<Rightarrow> string list"
  and def_refs_list :: "gval list \<Rightarrow> string list" where
  "def_refs (GMap m) = def_ref m @ def_refs_entries m"
| "def_refs (GList vs) = def_refs_list vs"
| "def_refs v = []"
| "def_refs_entries [] = []"
| "def_refs_entries ((k, v) # m) = def_refs v @ def_refs_entries m"
| "def_refs_list [] = []"
| "def_refs_list (v # vs) = def_refs v @ def_refs_list vs"

text \<open>A set of names is a list without duplicates.\<close>

definition collectDefRefs :: "gval \<Rightarrow> string list \<Rightarrow> string list" where
  "collectDefRefs node used = add_names used (def_refs node)"

section \<open>Remote references\<close>

text \<open>The flag says that the reference of the node is remote and its entry goes.\<close>

fun stripRemote :: "gval \<Rightarrow> gval"
  and strip_entries :: "bool \<Rightarrow> (string \<times> gval) list \<Rightarrow> (string \<times> gval) list"
  and strip_list :: "gval list \<Rightarrow> gval list" where
  "stripRemote (GMap m) =
     GMap (strip_entries (case ref_of m of Some r \<Rightarrow> isRemoteRef r | None \<Rightarrow> False) m)"
| "stripRemote (GList vs) = GList (strip_list vs)"
| "stripRemote v = v"
| "strip_entries del [] = []"
| "strip_entries del ((k, v) # m) =
     (if del \<and> k = ''$ref'' then strip_entries del m else (k, stripRemote v) # strip_entries del m)"
| "strip_list [] = []"
| "strip_list (v # vs) = stripRemote v # strip_list vs"

definition StripRemoteRefs :: "schema \<Rightarrow> schema" where
  "StripRemoteRefs schema = cloneSchema (stripRemote (GMap schema))"

section \<open>The root reference\<close>

definition defs_of :: "schema \<Rightarrow> schema option" where
  "defs_of m = (case map_of m ''$defs'' of Some (GMap d) \<Rightarrow> Some d | _ \<Rightarrow> None)"

definition without :: "string \<Rightarrow> schema \<Rightarrow> schema" where
  "without k m = filter (\<lambda>p. fst p \<noteq> k) m"

definition object_def :: "schema \<Rightarrow> string \<Rightarrow> schema option" where
  "object_def defs name = (case map_of defs name of Some (GMap t) \<Rightarrow> Some t | _ \<Rightarrow> None)"

definition ResolveRootRef :: "schema \<Rightarrow> schema" where
  "ResolveRootRef schema =
     (if map_of schema ''type'' \<noteq> None then schema
      else case ref_of schema of None \<Rightarrow> schema | Some ref \<Rightarrow>
      (case defs_of schema of None \<Rightarrow> schema | Some defs \<Rightarrow>
      (case defName ref of None \<Rightarrow> schema | Some name \<Rightarrow>
      (case object_def defs name of None \<Rightarrow> schema | Some target \<Rightarrow>
         set_all (without ''$ref'' schema) target))))"

section \<open>Cycles\<close>

text \<open>\<open>defReaches\<close> with the set of visited names threaded through; \<open>None\<close> is out of fuel. The loop
  over the references of a definition is \<open>reaches_any\<close>.\<close>

definition refs_from :: "schema \<Rightarrow> string \<Rightarrow> string list" where
  "refs_from defs cur = (case map_of defs cur of Some d \<Rightarrow> collectDefRefs d [] | None \<Rightarrow> [])"

fun defReaches :: "nat \<Rightarrow> string \<Rightarrow> string \<Rightarrow> schema \<Rightarrow> string list \<Rightarrow> bool \<Rightarrow> (bool \<times> string list) option"
  and reaches_any :: "nat \<Rightarrow> string \<Rightarrow> string list \<Rightarrow> schema \<Rightarrow> string list \<Rightarrow> (bool \<times> string list) option" where
  "defReaches n start cur defs seen first =
     (if \<not> first \<and> cur = start then Some (True, seen)
      else if cur \<in> set seen then Some (False, seen)
      else (case n of 0 \<Rightarrow> None | Suc n' \<Rightarrow> reaches_any n' start (refs_from defs cur) defs (cur # seen)))"
| "reaches_any n start [] defs seen = Some (False, seen)"
| "reaches_any n start (r # rs) defs seen =
     (if r = start then Some (True, seen)
      else (case defReaches n start r defs seen False of
              None \<Rightarrow> None
            | Some (True, seen') \<Rightarrow> Some (True, seen')
            | Some (False, seen') \<Rightarrow> reaches_any n start rs defs seen'))"

text \<open>As much fuel as there are names.\<close>

definition names_in :: "schema \<Rightarrow> string list" where
  "names_in defs = remdups (map fst defs @ def_refs_entries defs)"

fun circular_from :: "schema \<Rightarrow> string list \<Rightarrow> bool option" where
  "circular_from defs [] = Some False"
| "circular_from defs (name # names) =
     (case defReaches (Suc (length (names_in defs))) name name defs [] True of
        None \<Rightarrow> None
      | Some (True, _) \<Rightarrow> Some True
      | Some (False, _) \<Rightarrow> circular_from defs names)"

definition hasCircularDefRef :: "schema \<Rightarrow> bool option" where
  "hasCircularDefRef defs = circular_from defs (map fst defs)"

section \<open>Inlining\<close>

text \<open>\<open>inlineDefs\<close>: the names being inlined are passed down; the entry of a name is false again when
  its inlining is done, as it was before. The reference whose definition is inlined is the
  \<open>target\<close> of a node.\<close>

definition inline_target :: "schema \<Rightarrow> string list \<Rightarrow> schema \<Rightarrow> (string \<times> schema) option" where
  "inline_target defs active m =
     (case ref_of m of None \<Rightarrow> None | Some ref \<Rightarrow>
     (case defName ref of None \<Rightarrow> None | Some name \<Rightarrow>
        if name \<in> set active then None
        else (case object_def defs name of None \<Rightarrow> None | Some t \<Rightarrow> Some (name, t))))"

definition put_over :: "gval \<Rightarrow> schema \<Rightarrow> gval" where
  "put_over resolved siblings = GMap (set_all (cloneSchema resolved) siblings)"

lemma inline_target_Some:
  "inline_target defs active m = Some (name, t) \<Longrightarrow> name \<notin> set active \<and> map_of defs name = Some (GMap t) \<and> def_ref m = [name]"
  by (auto simp: inline_target_def object_def_def def_ref_def split: option.splits gval.splits if_splits)

lemma size_without: "size (GMap (without k m)) \<le> size (GMap m)"
  by (induction m) (auto simp: without_def)

lemma inactive_less:
  assumes "map_of defs name = Some v" "name \<notin> set active"
  shows "card (fst ` set defs - set (name # active)) < card (fst ` set defs - set active)"
proof (rule psubset_card_mono)
  have "name \<in> fst ` set defs" using map_of_SomeD [OF assms(1)] by force
  then show "fst ` set defs - set (name # active) \<subset> fst ` set defs - set active" using assms(2) by auto
qed simp

function inlineDefs :: "schema \<Rightarrow> string list \<Rightarrow> gval \<Rightarrow> gval"
  and inline_entries :: "schema \<Rightarrow> string list \<Rightarrow> (string \<times> gval) list \<Rightarrow> (string \<times> gval) list"
  and inline_list :: "schema \<Rightarrow> string list \<Rightarrow> gval list \<Rightarrow> gval list" where
  "inlineDefs defs active node =
     (case node of
        GMap m \<Rightarrow>
          (case inline_target defs active m of
             Some (name, target) \<Rightarrow>
               put_over (inlineDefs defs (name # active) (GMap target)) (inline_entries defs active (without ''$ref'' m))
           | None \<Rightarrow> GMap (inline_entries defs active m))
      | GList vs \<Rightarrow> GList (inline_list defs active vs)
      | _ \<Rightarrow> node)"
| "inline_entries defs active [] = []"
| "inline_entries defs active (p # m) = (fst p, inlineDefs defs active (snd p)) # inline_entries defs active m"
| "inline_list defs active [] = []"
| "inline_list defs active (v # vs) = inlineDefs defs active v # inline_list defs active vs"
  by pat_completeness auto

termination
proof (relation "measures [
    case_sum (\<lambda>(d, a, x). card (fst ` set d - set a)) (case_sum (\<lambda>(d, a, x). card (fst ` set d - set a)) (\<lambda>(d, a, x). card (fst ` set d - set a))),
    case_sum (\<lambda>(d, a, x). size x) (case_sum (\<lambda>(d, a, m). size (GMap m)) (\<lambda>(d, a, vs). size (GList vs))),
    case_sum (\<lambda>_. 1) (\<lambda>_. 0)]", goal_cases)
qed (auto dest!: inline_target_Some dest: inactive_less [simplified] intro: le_neq_implies_less size_without [simplified])

declare inlineDefs.simps [simp del]

section \<open>Walking through sub-schemas\<close>

text \<open>The keywords that hold sub-schemas: a single one, a map of them, a list of them, or, for
  \<open>items\<close>, one or a list.\<close>

datatype key_kind = KSingle | KMap | KList | KItems | KOther

definition schemaKeywordSingle :: "string list" where
  "schemaKeywordSingle = [''not'', ''if'', ''then'', ''else'', ''additionalItems'', ''contentSchema'', ''propertyNames'',
     ''unevaluatedItems'', ''unevaluatedProperties'']"

definition schemaKeywordMap :: "string list" where
  "schemaKeywordMap = [''properties'', ''patternProperties'', ''$defs'', ''definitions'', ''dependentSchemas'']"

definition schemaKeywordList :: "string list" where
  "schemaKeywordList = [''allOf'', ''anyOf'', ''oneOf'', ''prefixItems'']"

definition key_kind :: "string \<Rightarrow> key_kind" where
  "key_kind key =
     (if key \<in> set schemaKeywordSingle \<or> key = ''additionalProperties'' then KSingle
      else if key \<in> set schemaKeywordMap \<or> key = ''dependencies'' then KMap
      else if key \<in> set schemaKeywordList then KList
      else if key = ''items'' then KItems
      else KOther)"

text \<open>\<open>on_sub f\<close> works on a value that is a map, \<open>on_subs\<close> on the sub-schemas of a keyword's value.\<close>

definition on_sub :: "(schema \<Rightarrow> schema) \<Rightarrow> gval \<Rightarrow> gval" where
  "on_sub f v = (case v of GMap m \<Rightarrow> GMap (f m) | _ \<Rightarrow> v)"

definition on_subs :: "key_kind \<Rightarrow> (schema \<Rightarrow> schema) \<Rightarrow> gval \<Rightarrow> gval" where
  "on_subs c f v =
     (case c of
        KSingle \<Rightarrow> on_sub f v
      | KMap \<Rightarrow> (case v of GMap m \<Rightarrow> GMap (map (\<lambda>(k, x). (k, on_sub f x)) m) | _ \<Rightarrow> v)
      | KList \<Rightarrow> (case v of GList vs \<Rightarrow> GList (map (on_sub f) vs) | _ \<Rightarrow> v)
      | KItems \<Rightarrow> (case v of GMap m \<Rightarrow> GMap (f m) | GList vs \<Rightarrow> GList (map (on_sub f) vs) | _ \<Rightarrow> v)
      | KOther \<Rightarrow> v)"

text \<open>How deep a tree is; a walk ends because it goes down.\<close>

fun depth :: "gval \<Rightarrow> nat" where
  "depth (GList vs) = Suc (fold (\<lambda>v n. max (depth v) n) vs 0)"
| "depth (GMap m) = Suc (fold (\<lambda>p n. max (depth (snd p)) n) m 0)"
| "depth v = 0"

lemma fold_max: "fold (\<lambda>x n. max (f x) n) xs (a :: nat) \<le> b \<longleftrightarrow> a \<le> b \<and> (\<forall>x\<in>set xs. f x \<le> b)"
  by (induction xs arbitrary: a) auto

lemma depth_le:
  "depth (GMap m) \<le> Suc n \<longleftrightarrow> (\<forall>p\<in>set m. depth (snd p) \<le> n)"
  "depth (GList vs) \<le> Suc n \<longleftrightarrow> (\<forall>v\<in>set vs. depth v \<le> n)"
  by (simp_all add: fold_max)

lemma depth_value: "(k, v) \<in> set m \<Longrightarrow> depth v < depth (GMap m)"
proof -
  assume kv: "(k, v) \<in> set m"
  have "\<forall>p\<in>set m. depth (snd p) \<le> fold (\<lambda>p n. max (depth (snd p)) n) m 0"
    using fold_max [of "\<lambda>p. depth (snd p)" m 0 "fold (\<lambda>p n. max (depth (snd p)) n) m 0"] by simp
  with kv show ?thesis by force
qed

lemma depth_element: "v \<in> set vs \<Longrightarrow> depth v < depth (GList vs)"
proof -
  assume v: "v \<in> set vs"
  have "\<forall>v\<in>set vs. depth v \<le> fold (\<lambda>v n. max (depth v) n) vs 0"
    using fold_max [of depth vs 0 "fold (\<lambda>v n. max (depth v) n) vs 0"] by simp
  with v show ?thesis by force
qed

lemma on_sub_cong: "(\<And>m. v = GMap m \<Longrightarrow> f m = g m) \<Longrightarrow> on_sub f v = on_sub g v"
  by (simp add: on_sub_def split: gval.split)

lemma on_subs_cong [fundef_cong]:
  assumes "c = c'" "v = v'" and fg: "\<And>m. depth (GMap m) \<le> depth v' \<Longrightarrow> f m = g m"
  shows "on_subs c f v = on_subs c' g v'"
proof -
  have s: "on_sub f x = on_sub g x" if "depth x \<le> depth v'" for x
    using that fg by (intro on_sub_cong) auto
  have m: "v' = GMap m \<Longrightarrow> (k, x) \<in> set m \<Longrightarrow> on_sub f x = on_sub g x" for m k x
    using depth_value [of k x m] by (intro s) simp
  have l: "v' = GList vs \<Longrightarrow> x \<in> set vs \<Longrightarrow> on_sub f x = on_sub g x" for vs x
    using depth_element [of x vs] by (intro s) simp
  have "v' = GMap m \<Longrightarrow> f m = g m" for m by (rule fg) simp
  with s m l show ?thesis
    unfolding assms(1,2) by (cases c'; cases v') (auto simp: on_subs_def)
qed

section \<open>Titles\<close>

function pruneTitles :: "schema \<Rightarrow> schema" where
  "pruneTitles node = map (\<lambda>(k, v). (k, on_subs (key_kind k) pruneTitles v)) (without ''title'' node)"
  by pat_completeness auto

termination
  by (relation "measure (\<lambda>m. depth (GMap m))")
    (auto simp: without_def intro: le_less_trans depth_value simp del: depth.simps)

declare pruneTitles.simps [simp del]

section \<open>Closed objects\<close>

definition ap_value :: "(schema \<Rightarrow> schema) \<Rightarrow> gval \<Rightarrow> gval" where
  "ap_value f v = (case v of GMap m \<Rightarrow> GMap (f m) | GList vs \<Rightarrow> GList (map (on_sub f) vs) | _ \<Rightarrow> v)"

lemma ap_value_items: "ap_value f v = on_subs KItems f v"
  by (simp add: ap_value_def on_subs_def)

lemma ap_value_cong [fundef_cong]:
  "v = v' \<Longrightarrow> (\<And>m. depth (GMap m) \<le> depth v' \<Longrightarrow> f m = g m) \<Longrightarrow> ap_value f v = ap_value g v'"
  unfolding ap_value_items by (rule on_subs_cong) simp_all

definition drop_closed :: "schema \<Rightarrow> schema" where
  "drop_closed node = (if map_of node ''additionalProperties'' = Some (GBool False)
     then without ''additionalProperties'' node else node)"

function pruneAdditionalProperties :: "schema \<Rightarrow> schema" where
  "pruneAdditionalProperties node = map (\<lambda>(k, v). (k, ap_value pruneAdditionalProperties v)) (drop_closed node)"
  by pat_completeness auto

termination
  by (relation "measure (\<lambda>m. depth (GMap m))")
    (auto simp: without_def drop_closed_def split: if_splits intro: le_less_trans depth_value simp del: depth.simps)

declare pruneAdditionalProperties.simps [simp del]

section \<open>Discriminators\<close>

definition addRequired :: "string \<Rightarrow> schema \<Rightarrow> schema" where
  "addRequired name schema =
     (let req = asStringList (case map_of schema ''required'' of None \<Rightarrow> GNil | Some r \<Rightarrow> r)
      in if name \<in> set req then schema else put ''required'' (GStrs (req @ [name])) schema)"

definition require_in :: "string \<Rightarrow> string \<Rightarrow> schema \<Rightarrow> schema" where
  "require_in name key node =
     (case map_of node key of
        Some (GList variants) \<Rightarrow> put key (GList (map (on_sub (addRequired name)) variants)) node
      | _ \<Rightarrow> node)"

text \<open>What is done at each node, before its sub-schemas.\<close>

definition resolve_discriminator :: "schema \<Rightarrow> schema" where
  "resolve_discriminator node =
     (case map_of node ''discriminator'' of
        Some (GMap disc) \<Rightarrow>
          without ''discriminator''
            (case map_of disc ''propertyName'' of
               Some (GStr name) \<Rightarrow>
                 if name = [] then node else fold (require_in name) [''anyOf'', ''oneOf'', ''allOf''] node
             | _ \<Rightarrow> node)
      | _ \<Rightarrow> node)"

lemma depth_update:
  "depth (GMap m) \<le> n \<Longrightarrow> depth v < n \<Longrightarrow> depth (GMap (AList.update k v m)) \<le> n"
  using set_update_subset [of k v m] by (cases n) (auto simp: depth_le simp del: depth.simps)

lemma depth_addRequired: "depth (GMap (addRequired name m)) \<le> depth (GMap m)"
  by (auto simp: addRequired_def Let_def put_def intro!: depth_update simp del: depth.simps) simp_all

lemma depth_on_sub: "(\<And>m. depth (GMap (f m)) \<le> depth (GMap m)) \<Longrightarrow> depth (on_sub f v) \<le> depth v"
  by (auto simp: on_sub_def split: gval.split simp del: depth.simps)

lemma depth_require_in: "depth (GMap (require_in name key m)) \<le> depth (GMap m)"
proof (cases "\<exists>vs. map_of m key = Some (GList vs)")
  case True
  then obtain vs where vs: "map_of m key = Some (GList vs)" ..
  have "depth (on_sub (addRequired name) v) < depth (GList vs)" if "v \<in> set vs" for v
    using depth_on_sub [of "addRequired name" v] depth_addRequired depth_element [OF that] by (auto intro: le_less_trans simp del: depth.simps)
  then have "depth (GList (map (on_sub (addRequired name)) vs)) \<le> depth (GList vs)"
    using depth_le(2) [of "map (on_sub (addRequired name)) vs" "depth (GList vs) - 1"] by (force simp del: depth.simps simp: depth.simps(1) [of vs])
  also have "depth (GList vs) < depth (GMap m)" using vs by (blast intro: depth_value dest: map_of_SomeD)
  finally show ?thesis using vs by (auto simp: require_in_def put_def intro!: depth_update simp del: depth.simps)
next
  case False
  then show ?thesis by (auto simp: require_in_def split: option.split gval.split)
qed

lemma depth_without: "depth (GMap (without k m)) \<le> depth (GMap m)"
proof -
  obtain n where n: "depth (GMap m) = Suc n" by simp
  then have "\<forall>p\<in>set m. depth (snd p) \<le> n" using depth_le(1) [of m n] by simp
  then show ?thesis unfolding n depth_le(1) by (simp add: without_def)
qed

lemma depth_resolve: "depth (GMap (resolve_discriminator m)) \<le> depth (GMap m)"
proof -
  have "depth (GMap (fold (require_in name) keys m)) \<le> depth (GMap m)" for name keys m
    by (induction keys arbitrary: m) (auto intro: order_trans depth_require_in simp del: depth.simps)
  then show ?thesis
    unfolding resolve_discriminator_def
    by (auto split: option.split gval.split simp del: depth.simps fold.simps intro: order_trans [OF depth_without])
qed

lemma resolve_less:
  "(k, v) \<in> set (resolve_discriminator node) \<Longrightarrow> depth (GMap m) \<le> depth v \<Longrightarrow> depth (GMap m) < depth (GMap node)"
  using depth_value [of k v "resolve_discriminator node"] depth_resolve [of node] by linarith

function applyDiscriminator :: "schema \<Rightarrow> schema" where
  "applyDiscriminator node = map (\<lambda>(k, v). (k, on_subs (key_kind k) applyDiscriminator v)) (resolve_discriminator node)"
  by pat_completeness auto

termination
  by (relation "measure (\<lambda>m. depth (GMap m))")
    (auto intro: resolve_less simp del: depth.simps)

declare applyDiscriminator.simps [simp del]

section \<open>The transformations\<close>

definition DereferenceRefs :: "schema \<Rightarrow> schema option" where
  "DereferenceRefs schema =
     (let safe = StripRemoteRefs schema;
          defs = (case defs_of safe of Some d \<Rightarrow> d | None \<Rightarrow> [])
      in map_option (\<lambda>circular.
           if circular then ResolveRootRef safe
           else applyDiscriminator (cloneSchema (inlineDefs defs [] (GMap (without ''$defs'' safe)))))
         (hasCircularDefRef defs))"

definition PruneParam :: "string \<Rightarrow> schema \<Rightarrow> schema" where
  "PruneParam name schema =
     (let out = (case map_of schema ''properties'' of
                   Some (GMap props) \<Rightarrow> put ''properties'' (GMap (without name props)) schema
                 | _ \<Rightarrow> schema)
      in case map_of out ''required'' of
           None \<Rightarrow> out
         | Some req \<Rightarrow>
             let kept = filter (\<lambda>r. r \<noteq> name) (asStringList req)
             in if kept = [] then without ''required'' out else put ''required'' (GStrs kept) out)"

text \<open>One pass over the reachable names: the definitions of the names there at its start are
  searched, and the flag tells whether that added one.\<close>

definition reach_pass :: "schema \<Rightarrow> string list \<Rightarrow> string list \<times> bool" where
  "reach_pass defs reachable =
     fold (\<lambda>name (R, added).
         case map_of defs name of
           None \<Rightarrow> (R, added)
         | Some def \<Rightarrow> (let R' = collectDefRefs def R in (R', added \<or> length R' \<noteq> length R)))
       reachable (reachable, False)"

definition reach_loop :: "schema \<Rightarrow> string list \<Rightarrow> string list option" where
  "reach_loop defs seed =
     map_option fst (while_option (\<lambda>(R, added). added) (\<lambda>(R, added). reach_pass defs R) (reach_pass defs seed))"

definition pruneUnusedDefs :: "schema \<Rightarrow> schema option" where
  "pruneUnusedDefs node =
     (case defs_of node of
        None \<Rightarrow> Some node
      | Some defs \<Rightarrow>
          if defs = [] then Some (without ''$defs'' node)
          else map_option (\<lambda>reachable.
                 let kept = filter (\<lambda>p. fst p \<in> set reachable) defs
                 in if kept = [] then without ''$defs'' node else put ''$defs'' (GMap kept) node)
               (reach_loop defs (fold (\<lambda>p. collectDefRefs (snd p)) (without ''$defs'' node) [])))"

record compress_options =
  co_PruneParams :: "string list"
  co_PruneTitles :: bool
  co_PruneAdditionalProperties :: bool
  co_Dereference :: bool

definition CompressSchema :: "compress_options \<Rightarrow> schema \<Rightarrow> schema option" where
  "CompressSchema opts schema =
     (case (if co_Dereference opts then DereferenceRefs schema else Some schema) of
        None \<Rightarrow> None
      | Some out \<Rightarrow>
          let out = fold PruneParam (co_PruneParams opts) out;
              out = (if co_PruneTitles opts then pruneTitles out else out);
              out = (if co_PruneAdditionalProperties opts then pruneAdditionalProperties out else out)
          in pruneUnusedDefs out)"

section \<open>The searches return\<close>

text \<open>The graph of the definitions.\<close>

definition ref_graph :: "schema \<Rightarrow> (string \<times> string) set" where
  "ref_graph defs = {(a, b). \<exists>d. map_of defs a = Some d \<and> b \<in> set (def_refs d)}"

lemma set_collect: "set (collectDefRefs node used) = set used \<union> set (def_refs node)"
  by (simp add: collectDefRefs_def set_add_names)

lemma set_refs_from: "set (refs_from defs cur) = ref_graph defs `` {cur}"
  by (cases "map_of defs cur") (auto simp: refs_from_def ref_graph_def set_collect)

lemma def_refs_entries_set: "set (def_refs_entries m) = (\<Union>p\<in>set m. set (def_refs (snd p)))"
  by (induction m) auto

lemma names_in_refs: "(a, b) \<in> ref_graph defs \<Longrightarrow> a \<in> set (names_in defs) \<and> b \<in> set (names_in defs)"
  by (force simp: ref_graph_def names_in_def def_refs_entries_set dest: map_of_SomeD)

text \<open>The search for a cycle. Enough fuel is the number of names not yet seen.\<close>

lemma reaches_fuel:
  "cur \<in> U \<Longrightarrow> finite U \<Longrightarrow> ref_graph defs `` U \<subseteq> U \<Longrightarrow> card (U - set seen) \<le> n
     \<Longrightarrow> (\<exists>b seen'. defReaches n start cur defs seen first = Some (b, seen') \<and> set seen \<subseteq> set seen')"
  "set rs \<subseteq> U \<Longrightarrow> finite U \<Longrightarrow> ref_graph defs `` U \<subseteq> U \<Longrightarrow> card (U - set seen) \<le> n
     \<Longrightarrow> (\<exists>b seen'. reaches_any n start rs defs seen = Some (b, seen') \<and> set seen \<subseteq> set seen')"
proof (induction n start cur defs seen first and n start rs defs seen rule: defReaches_reaches_any.induct)
  case (1 n start cur defs seen first)
  show ?case
  proof (cases "\<not> first \<and> cur = start \<or> cur \<in> set seen")
    case True then show ?thesis by auto
  next
    case False
    then have cur: "cur \<in> U - set seen" using 1(2) by simp
    then have less: "card (U - set (cur # seen)) < card (U - set seen)"
      using 1(3) by (intro psubset_card_mono) auto
    with 1(5) obtain n' where n: "n = Suc n'" by (cases n) auto
    have "\<exists>b seen'. reaches_any n' start (refs_from defs cur) defs (cur # seen) = Some (b, seen') \<and> set (cur # seen) \<subseteq> set seen'"
      using 1(2-5) False less n by (intro 1(1)) (auto simp: set_refs_from)
    then show ?thesis using False n by auto
  qed
next
  case (3 n start r rs defs seen)
  show ?case
  proof (cases "r = start")
    case False
    obtain b seen' where r: "defReaches n start r defs seen False = Some (b, seen')" "set seen \<subseteq> set seen'"
      using 3(1) [OF False] 3(3-6) by auto
    show ?thesis
    proof (cases b)
      case False': False
      have card: "card (U - set seen') \<le> n"
        using r(2) 3(4,6) by (meson Diff_mono card_mono finite_Diff order_refl order_trans)
      have "\<exists>b s. reaches_any n start rs defs seen' = Some (b, s) \<and> set seen' \<subseteq> set s"
        by (rule 3(2) [OF False r(1)]) (use False' card 3(3-5) in simp_all)
      then show ?thesis using False r False' by auto
    qed (use False r in auto)
  qed auto
qed auto

lemma reaches_true:
  "defReaches n start cur defs seen first = Some (True, s) \<Longrightarrow> \<not> first \<and> cur = start \<or> (cur, start) \<in> (ref_graph defs)\<^sup>+"
  "reaches_any n start rs defs seen = Some (True, s) \<Longrightarrow> \<exists>r\<in>set rs. (r, start) \<in> (ref_graph defs)\<^sup>*"
proof (induction n start cur defs seen first and n start rs defs seen arbitrary: s and s rule: defReaches_reaches_any.induct)
  case (1 n start cur defs seen first)
  show ?case
  proof (cases "\<not> first \<and> cur = start")
    case False
    with 1(2) have c: "cur \<notin> set seen" by (auto split: if_splits)
    with 1(2) False obtain n' where n: "n = Suc n'" "reaches_any n' start (refs_from defs cur) defs (cur # seen) = Some (True, s)"
      by (auto split: nat.splits if_splits)
    from 1(1) [OF False c n] obtain r where "(cur, r) \<in> ref_graph defs" "(r, start) \<in> (ref_graph defs)\<^sup>*"
      by (auto simp: set_refs_from)
    then show ?thesis by (auto intro: rtrancl_into_trancl2)
  qed simp
next
  case (3 n start r rs defs seen)
  show ?case
  proof (cases "r = start")
    case False
    then obtain b seen' where d: "defReaches n start r defs seen False = Some (b, seen')"
      using 3(3) by (auto split: option.splits)
    show ?thesis
    proof (cases b)
      case True
      with 3(1) [OF False] d have "(r, start) \<in> (ref_graph defs)\<^sup>*" using False by (auto intro: trancl_into_rtrancl)
      then show ?thesis by auto
    next
      case f: False
      have "\<exists>r\<in>set rs. (r, start) \<in> (ref_graph defs)\<^sup>*"
        by (rule 3(2) [OF False d]) (use f 3(3) False d in simp_all)
      then show ?thesis by auto
    qed
  qed auto
qed simp_all

lemma reaches_false:
  "defReaches n start cur defs seen first = Some (False, s) \<Longrightarrow>
     set seen \<subseteq> set s \<and> cur \<in> set s \<and> (first \<or> cur \<noteq> start)
     \<and> (\<forall>a\<in>set s - set seen. \<forall>b. (a, b) \<in> ref_graph defs \<longrightarrow> b \<noteq> start \<and> b \<in> set s)"
  "reaches_any n start rs defs seen = Some (False, s) \<Longrightarrow>
     set seen \<subseteq> set s \<and> set rs \<subseteq> set s \<and> start \<notin> set rs
     \<and> (\<forall>a\<in>set s - set seen. \<forall>b. (a, b) \<in> ref_graph defs \<longrightarrow> b \<noteq> start \<and> b \<in> set s)"
proof (induction n start cur defs seen first and n start rs defs seen arbitrary: s and s rule: defReaches_reaches_any.induct)
  case (1 n start cur defs seen first)
  from 1(2) have f: "\<not> (\<not> first \<and> cur = start)" by (auto split: if_splits)
  show ?case
  proof (cases "cur \<in> set seen")
    case True with 1(2) f show ?thesis by (auto split: if_splits)
  next
    case False
    with 1(2) f obtain n' where n: "n = Suc n'" "reaches_any n' start (refs_from defs cur) defs (cur # seen) = Some (False, s)"
      by (auto split: nat.splits if_splits)
    from 1(1) [OF f False n] show ?thesis using f by (auto simp: set_refs_from)
  qed
next
  case (3 n start r rs defs seen)
  from 3(3) have r: "r \<noteq> start" by (auto split: if_splits)
  with 3(3) obtain s1 where d: "defReaches n start r defs seen False = Some (False, s1)"
    and rest: "reaches_any n start rs defs s1 = Some (False, s)"
    by (auto split: option.splits bool.splits)
  note one = 3(1) [OF r d]
  have two: "set s1 \<subseteq> set s \<and> set rs \<subseteq> set s \<and> start \<notin> set rs
     \<and> (\<forall>a\<in>set s - set s1. \<forall>b. (a, b) \<in> ref_graph defs \<longrightarrow> b \<noteq> start \<and> b \<in> set s)"
    by (rule 3(2) [OF r d refl _ rest]) simp
  then have sub: "set s1 \<subseteq> set s" and rs: "set rs \<subseteq> set s" "start \<notin> set rs" by blast+
  have sub1: "set seen \<subseteq> set s1" "r \<in> set s1" using one by simp_all
  show ?case
  proof (intro conjI ballI allI impI)
    show "set seen \<subseteq> set s" using sub1(1) sub by (rule subset_trans)
    show "set (r # rs) \<subseteq> set s" using rs(1) sub1(2) sub by auto
    show "start \<notin> set (r # rs)" using rs(2) r by simp
    fix a b assume a: "a \<in> set s - set seen" and e: "(a, b) \<in> ref_graph defs"
    have "b \<noteq> start \<and> b \<in> set s"
    proof (cases "a \<in> set s1")
      case True
      with a e one have "b \<noteq> start" "b \<in> set s1" by auto
      with sub show ?thesis by blast
    next
      case False
      with a e two show ?thesis by auto
    qed
    then show "b \<noteq> start" "b \<in> set s" by blast+
  qed
qed simp_all

lemma cyclic_iff:
  assumes "defReaches n name name defs [] True = Some (b, s)"
  shows "b \<longleftrightarrow> (name, name) \<in> (ref_graph defs)\<^sup>+"
proof (cases b)
  case True
  with assms have "defReaches n name name defs [] True = Some (True, s)" by simp
  from reaches_true(1) [OF this] True show ?thesis by simp
next
  case False
  with assms have d: "defReaches n name name defs [] True = Some (False, s)" by simp
  note f = reaches_false(1) [OF d]
  have "(name, x) \<in> (ref_graph defs)\<^sup>+ \<Longrightarrow> x \<in> set s \<and> x \<noteq> name" for x
    by (induction rule: trancl_induct) (use f in auto)
  with False show ?thesis by auto
qed

lemma circular_iff:
  "hasCircularDefRef defs = Some (\<exists>name\<in>fst ` set defs. (name, name) \<in> (ref_graph defs)\<^sup>+)"
proof -
  have run: "\<exists>b s. defReaches (Suc (length (names_in defs))) name name defs [] True = Some (b, s)"
    if "name \<in> fst ` set defs" for name
  proof -
    have "card (set (names_in defs) - set []) \<le> Suc (length (names_in defs))"
      using card_length [of "names_in defs"] by simp
    moreover have "name \<in> set (names_in defs)" using that by (auto simp: names_in_def)
    moreover have "ref_graph defs `` set (names_in defs) \<subseteq> set (names_in defs)" using names_in_refs by auto
    ultimately show ?thesis
      using reaches_fuel(1) [of name "set (names_in defs)" defs "[]"] by fastforce
  qed
  have "set names \<subseteq> fst ` set defs \<Longrightarrow> circular_from defs names = Some (\<exists>name\<in>set names. (name, name) \<in> (ref_graph defs)\<^sup>+)" for names
  proof (induction names)
    case (Cons name names)
    then obtain b s where "defReaches (Suc (length (names_in defs))) name name defs [] True = Some (b, s)" using run by fastforce
    with cyclic_iff [OF this] Cons show ?case by (cases b) (simp_all del: defReaches.simps)
  qed simp
  then show ?thesis by (simp add: hasCircularDefRef_def)
qed

text \<open>The search for the reachable definitions.\<close>

lemma finite_reachable: "finite ((ref_graph defs)\<^sup>* `` set seed)"
proof -
  have "(ref_graph defs)\<^sup>* `` set seed \<subseteq> set seed \<union> set (names_in defs)"
  proof
    fix x assume "x \<in> (ref_graph defs)\<^sup>* `` set seed"
    then obtain s where "s \<in> set seed" "(s, x) \<in> (ref_graph defs)\<^sup>*" by auto
    from this(2,1) show "x \<in> set seed \<union> set (names_in defs)"
      by (cases rule: rtrancl.cases) (use names_in_refs in auto)
  qed
  then show ?thesis by (rule finite_subset) simp
qed

lemma length_add_names: "length cur \<le> length (add_names cur ns)"
  by (induction cur ns rule: add_names.induct) (auto intro: le_trans)

lemma pass_fold:
  fixes defs
  defines "step \<equiv> \<lambda>name (R, added). case map_of defs name of None \<Rightarrow> (R, added)
         | Some def \<Rightarrow> (let R' = collectDefRefs def R in (R', added \<or> length R' \<noteq> length R))"
  shows "fold step ns (R, a) = (R', a') \<Longrightarrow> distinct R \<Longrightarrow>
     distinct R' \<and> set R' = set R \<union> ref_graph defs `` set ns \<and> length R \<le> length R' \<and> (a' \<longleftrightarrow> a \<or> length R' \<noteq> length R)"
proof (induction ns arbitrary: R a)
  case (Cons n ns)
  show ?case
  proof (cases "map_of defs n")
    case None
    then have "ref_graph defs `` set (n # ns) = ref_graph defs `` set ns" by (auto simp: ref_graph_def)
    with None Cons show ?thesis by (simp add: step_def)
  next
    case (Some d)
    let ?R = "collectDefRefs d R"
    have "fold step ns (?R, a \<or> length ?R \<noteq> length R) = (R', a')" using Cons.prems(1) Some by (simp add: step_def Let_def)
    from Cons.IH [OF this] have IH: "distinct R' \<and> set R' = set ?R \<union> ref_graph defs `` set ns \<and> length ?R \<le> length R'
        \<and> (a' \<longleftrightarrow> (a \<or> length ?R \<noteq> length R) \<or> length R' \<noteq> length ?R)"
      using Cons.prems(2) by (simp add: collectDefRefs_def add_names_distinct)
    moreover have "ref_graph defs `` set (n # ns) = set (def_refs d) \<union> ref_graph defs `` set ns"
      using Some by (auto simp: ref_graph_def)
    moreover have "length R \<le> length ?R" by (simp add: collectDefRefs_def length_add_names)
    ultimately show ?thesis by (auto simp: set_collect)
  qed
qed simp

lemma reach_pass_spec:
  assumes "distinct R" "reach_pass defs R = (R', added)"
  shows "distinct R' \<and> set R' = set R \<union> ref_graph defs `` set R \<and> (added \<longleftrightarrow> set R \<noteq> set R')"
proof -
  from pass_fold [OF assms(2) [unfolded reach_pass_def] assms(1)]
  have p: "distinct R'" "set R' = set R \<union> ref_graph defs `` set R" "length R \<le> length R'" "added \<longleftrightarrow> length R' \<noteq> length R" by auto
  moreover have "length R' = length R \<longleftrightarrow> set R = set R'"
    using p(1,2) assms(1) by (metis card_subset_eq distinct_card finite_set sup_ge1)
  ultimately show ?thesis by simp
qed

lemma reach_loop_exact:
  assumes "distinct seed"
  shows "\<exists>R. reach_loop defs seed = Some R \<and> set R = (ref_graph defs)\<^sup>* `` set seed"
proof -
  let ?G = "ref_graph defs" and ?C = "(ref_graph defs)\<^sup>* `` set seed"
  define P where "P = (\<lambda>(R, added). distinct R \<and> set seed \<subseteq> set R \<and> set R \<subseteq> ?C \<and> (\<not> added \<longrightarrow> ?G `` set R \<subseteq> set R))"
  define f where "f = (\<lambda>(R :: string list, added). 2 * (card ?C - card (set R)) + (if added then 1 else (0::nat)))"
  have pass: "P (reach_pass defs R)" if R: "distinct R" "set seed \<subseteq> set R" "set R \<subseteq> ?C" for R
  proof -
    obtain R' added where r: "reach_pass defs R = (R', added)" by fastforce
    note s = reach_pass_spec [OF R(1) r]
    have "?G `` ?C \<subseteq> ?C" by (auto intro: rtrancl_into_rtrancl)
    then have "set R' \<subseteq> ?C" using s R(3) by blast
    moreover have "\<not> added \<longrightarrow> ?G `` set R' \<subseteq> set R'" using s by (metis sup_ge2)
    moreover have "set seed \<subseteq> set R'" using s R(2) by blast
    ultimately show ?thesis using s by (simp add: P_def r)
  qed
  have step: "P (reach_pass defs R) \<and> f (reach_pass defs R) < f (R, True)" if "P (R, True)" for R
  proof
    from that have R: "distinct R" "set seed \<subseteq> set R" "set R \<subseteq> ?C" by (auto simp: P_def)
    then show P: "P (reach_pass defs R)" by (rule pass)
    obtain R' added where r: "reach_pass defs R = (R', added)" by fastforce
    note s = reach_pass_spec [OF R(1) r]
    show "f (reach_pass defs R) < f (R, True)"
    proof (cases added)
      case True
      with s have "set R \<subset> set R'" by auto
      moreover have "set R' \<subseteq> ?C" using P by (simp add: P_def r)
      ultimately have "card (set R) < card (set R')" "card (set R') \<le> card ?C"
        using finite_reachable [of defs seed] by (auto intro: psubset_card_mono card_mono)
      then show ?thesis using True by (simp add: f_def r)
    next
      case False
      with conjunct2 [OF conjunct2 [OF s]] have "set R' = set R" by blast
      then show ?thesis using False by (simp add: f_def r)
    qed
  qed
  have init: "P (reach_pass defs seed)" by (rule pass) (use assms in auto)
  have cond: "P s \<Longrightarrow> (\<lambda>(R, added). added) s \<Longrightarrow>
      P ((\<lambda>(R, added). reach_pass defs R) s) \<and> f ((\<lambda>(R, added). reach_pass defs R) s) < f s" for s
    using step by (cases s) auto
  obtain t where t: "while_option (\<lambda>(R, added). added) (\<lambda>(R, added). reach_pass defs R) (reach_pass defs seed) = Some t"
    using measure_while_option_Some [of P "\<lambda>(R, added). added" "\<lambda>(R, added). reach_pass defs R" f, OF cond init] by blast
  obtain R added where t': "t = (R, added)" by (cases t)
  have "P t" using while_option_rule [where P = P and b = "\<lambda>(R, added). added" and c = "\<lambda>(R, added). reach_pass defs R", OF _ t init] cond by blast
  moreover have "\<not> added" using while_option_stop [OF t] by (simp add: t')
  ultimately have R: "set seed \<subseteq> set R" "set R \<subseteq> ?C" "?G `` set R \<subseteq> set R" by (auto simp: P_def t')
  then have "?G\<^sup>* `` set R \<subseteq> set R" by (metis Image_closed_trancl order_refl)
  then have "set R = ?C" using R by blast
  then show ?thesis by (auto simp: reach_loop_def t t')
qed

section \<open>The references of a tree\<close>

text \<open>\<open>all_refs Q\<close>: every node's reference, or its absence, satisfies \<open>Q\<close>.\<close>

fun all_refs :: "(string option \<Rightarrow> bool) \<Rightarrow> gval \<Rightarrow> bool" where
  "all_refs Q (GMap m) = (Q (ref_of m) \<and> (\<forall>p\<in>set m. all_refs Q (snd p)))"
| "all_refs Q (GList vs) = (\<forall>v\<in>set vs. all_refs Q v)"
| "all_refs Q v = True"

definition local_ref :: "string option \<Rightarrow> bool" where
  "local_ref r = (case r of None \<Rightarrow> True | Some s \<Rightarrow> \<not> isRemoteRef s)"

definition named_ref :: "(string \<Rightarrow> bool) \<Rightarrow> string option \<Rightarrow> bool" where
  "named_ref R r = (case r of None \<Rightarrow> True | Some s \<Rightarrow> (case defName s of None \<Rightarrow> True | Some n \<Rightarrow> R n))"

lemma def_refs_all:
  "(\<forall>n\<in>set (def_refs v). R n) \<longleftrightarrow> all_refs (named_ref R) v"
  "(\<forall>n\<in>set (def_refs_entries m). R n) \<longleftrightarrow> (\<forall>p\<in>set m. all_refs (named_ref R) (snd p))"
  "(\<forall>n\<in>set (def_refs_list vs). R n) \<longleftrightarrow> (\<forall>v\<in>set vs. all_refs (named_ref R) v)"
proof (induction v and m and vs rule: def_refs_def_refs_entries_def_refs_list.induct)
  case (1 m)
  have "(\<forall>n\<in>set (def_ref m). R n) \<longleftrightarrow> named_ref R (ref_of m)"
    by (simp add: def_ref_def named_ref_def split: option.split)
  with 1 show ?case by auto
qed auto

lemma ref_of_Some: "ref_of m = Some r \<longleftrightarrow> map_of m ''$ref'' = Some (GStr r)"
  by (auto simp: ref_of_def split: option.split gval.split)

lemma option_ext: "(\<And>r. a = Some r \<longleftrightarrow> b = Some r) \<Longrightarrow> a = b"
  by (cases a; cases b) auto

lemma ref_of_map:
  assumes "\<And>k v r. (k, v) \<in> set m \<Longrightarrow> f k v = GStr r \<longleftrightarrow> v = GStr r"
  shows "ref_of (map (\<lambda>(k, v). (k, f k v)) m) = ref_of m"
proof -
  have "map_of (map (\<lambda>(k, v). (k, f k v)) m) k = map_option (f k) (map_of m k)" for k
    by (induction m) auto
  then have "ref_of (map (\<lambda>(k, v). (k, f k v)) m) = Some r \<longleftrightarrow> ref_of m = Some r" for r
    unfolding ref_of_Some using assms by (cases "map_of m ''$ref''") (auto dest: map_of_SomeD)
  then show ?thesis by (rule option_ext)
qed

lemma ref_of_update: "k \<noteq> ''$ref'' \<Longrightarrow> ref_of (AList.update k v m) = ref_of m"
  by (simp add: ref_of_def update_conv')

lemma ref_of_without: "ref_of (without k m) = (if k = ''$ref'' then None else ref_of m)"
proof -
  have "map_of (without k m) j = (if j = k then None else map_of m j)" for j
    by (induction m) (auto simp: without_def)
  then show ?thesis by (simp add: ref_of_def)
qed

lemma all_refs_update:
  "all_refs Q (GMap m) \<Longrightarrow> all_refs Q v \<Longrightarrow> k \<noteq> ''$ref'' \<Longrightarrow> all_refs Q (GMap (AList.update k v m))"
  using set_update_subset [of k v m] by (auto simp: ref_of_update)

lemma all_refs_without: "all_refs Q (GMap m) \<Longrightarrow> Q None \<Longrightarrow> all_refs Q (GMap (without k m))"
  by (auto simp: ref_of_without) (auto simp: without_def)

lemma all_refs_set_all:
  "all_refs Q (GMap m) \<Longrightarrow> \<forall>p\<in>set n. all_refs Q (snd p) \<and> fst p \<noteq> ''$ref'' \<Longrightarrow> all_refs Q (GMap (set_all m n))"
  unfolding set_all_def
proof (induction n arbitrary: m)
  case (Cons p n)
  have "all_refs Q (GMap (AList.update (fst p) (snd p) m))" using Cons.prems by (intro all_refs_update) simp_all
  with Cons show ?case by (simp add: split_beta del: all_refs.simps)
qed simp

section \<open>Stripping\<close>

lemma stripRemote_str: "stripRemote v = GStr r \<longleftrightarrow> v = GStr r"
  by (cases v) auto

lemma strip_entries_map:
  "strip_entries del m = map (\<lambda>(k, v). (k, stripRemote v)) (if del then without ''$ref'' m else m)"
  by (induction m) (auto simp: without_def)

lemma strip_local:
  "all_refs local_ref (stripRemote v)"
  "\<forall>p\<in>set (strip_entries del m). all_refs local_ref (snd p)"
  "\<forall>v\<in>set (strip_list vs). all_refs local_ref v"
proof (induction v and del m and vs rule: stripRemote_strip_entries_strip_list.induct)
  case (1 m)
  let ?del = "case ref_of m of Some r \<Rightarrow> isRemoteRef r | None \<Rightarrow> False"
  have "ref_of (strip_entries ?del m) = (if ?del then None else ref_of m)"
    unfolding strip_entries_map by (subst ref_of_map) (auto simp: stripRemote_str ref_of_without)
  then have "local_ref (ref_of (strip_entries ?del m))"
    by (auto simp: local_ref_def split: option.splits)
  with 1 show ?case by simp
qed auto

lemma StripRemoteRefs_local: "all_refs local_ref (GMap (StripRemoteRefs schema))"
  using strip_local(1) [of "GMap schema"] by (simp add: StripRemoteRefs_def cloneSchema_def)

section \<open>Inlining\<close>

lemma inline_entries_map: "inline_entries defs active m = map (\<lambda>(k, v). (k, inlineDefs defs active v)) m"
  by (induction m) auto

lemma inline_list_map: "inline_list defs active vs = map (inlineDefs defs active) vs"
  by (induction vs) auto

lemma inline_simps:
  "inlineDefs defs active (GMap m) =
     (case inline_target defs active m of
        Some (name, target) \<Rightarrow>
          put_over (inlineDefs defs (name # active) (GMap target)) (inline_entries defs active (without ''$ref'' m))
      | None \<Rightarrow> GMap (inline_entries defs active m))"
  "inlineDefs defs active (GList vs) = GList (inline_list defs active vs)"
  "inlineDefs defs active (GStr r) = GStr r"
  by (simp_all add: inlineDefs.simps [of defs active "GMap m"] inlineDefs.simps [of defs active "GList vs"] inlineDefs.simps [of defs active "GStr r"])

lemma inline_leaf:
  "inlineDefs defs active GNil = GNil" "inlineDefs defs active (GBool b) = GBool b" "inlineDefs defs active (GInt i) = GInt i"
  "inlineDefs defs active (GFloat q) = GFloat q" "inlineDefs defs active (GStr r) = GStr r" "inlineDefs defs active (GStrs ss) = GStrs ss"
  by (subst inlineDefs.simps, simp)+

lemma inline_hit:
  "inline_target defs active m = Some (name, t) \<Longrightarrow> inlineDefs defs active (GMap m) =
     put_over (inlineDefs defs (name # active) (GMap t)) (inline_entries defs active (without ''$ref'' m))"
  by (subst inline_simps(1)) simp

lemma inline_map: "\<exists>rm. inlineDefs defs active (GMap m) = GMap rm"
  by (auto simp: inline_simps put_over_def split: option.split)

lemma inline_str: "inlineDefs defs active v = GStr r \<longleftrightarrow> v = GStr r"
proof (cases v)
  case (GMap m)
  obtain rm where "inlineDefs defs active (GMap m) = GMap rm" using inline_map by blast
  then show ?thesis by (simp add: GMap)
qed (simp_all add: inlineDefs.simps)

lemma inline_ref_of: "ref_of (inline_entries defs active m) = ref_of m"
  unfolding inline_entries_map by (rule ref_of_map) (simp add: inline_str)

lemma put_over_refs:
  assumes "all_refs Q r" "r = GMap rm" "\<forall>p\<in>set sibs. all_refs Q (snd p)" "\<forall>p\<in>set sibs. fst p \<noteq> ''$ref''"
  shows "all_refs Q (put_over r sibs)"
  unfolding put_over_def using assms by (intro all_refs_set_all) (simp_all add: cloneSchema_def)

lemma keys_without: "p \<in> set (inline_entries defs active (without k m)) \<Longrightarrow> fst p \<noteq> k"
  by (auto simp: inline_entries_map without_def)

lemma set_without: "set (without k m) \<subseteq> set m"
  by (auto simp: without_def)

text \<open>Inlining keeps a condition on references that the definitions satisfy too.\<close>

lemma inline_keeps:
  assumes defs: "\<forall>p\<in>set defs. all_refs Q (snd p)"
  shows "all_refs Q node \<Longrightarrow> all_refs Q (inlineDefs defs active node)"
    and "\<forall>p\<in>set m. all_refs Q (snd p) \<Longrightarrow> \<forall>p\<in>set (inline_entries defs active m). all_refs Q (snd p)"
    and "\<forall>v\<in>set vs. all_refs Q v \<Longrightarrow> \<forall>v\<in>set (inline_list defs active vs). all_refs Q v"
  using defs
proof (induction defs active node and defs active m and defs active vs rule: inlineDefs_inline_entries_inline_list.induct)
  case (1 defs active node)
  show ?case
  proof (cases node)
    case (GMap m)
    show ?thesis
    proof (cases "inline_target defs active m")
      case None
      have "\<forall>p\<in>set (inline_entries defs active m). all_refs Q (snd p)"
        by (intro 1(2) [OF GMap None]) (use 1(5,6) GMap in simp_all)
      moreover have "Q (ref_of m)" using 1(5) by (simp add: GMap)
      ultimately show ?thesis by (simp add: GMap inline_simps(1) None inline_ref_of)
    next
      case (Some nt)
      obtain name t where nt: "nt = (name, t)" by (cases nt)
      note tgt = inline_target_Some [OF Some [unfolded nt]]
      have "all_refs Q (GMap t)" using tgt 1(6) map_of_SomeD [of defs name] by force
      then have r: "all_refs Q (inlineDefs defs (name # active) (GMap t))"
        by (intro 1(3) [OF GMap Some nt [symmetric]]) (use 1(6) in simp_all)
      have s: "\<forall>p\<in>set (inline_entries defs active (without ''$ref'' m)). all_refs Q (snd p)"
        by (intro 1(4) [OF GMap Some nt [symmetric]]) (use 1(5,6) GMap set_without in \<open>auto simp: subset_iff\<close>)
      obtain rm where rm: "inlineDefs defs (name # active) (GMap t) = GMap rm" using inline_map by blast
      show ?thesis
        unfolding GMap inline_hit [OF Some [unfolded nt]]
        by (rule put_over_refs [OF r rm s]) (blast dest: keys_without)
    qed
  next
    case (GList vs)
    have "\<forall>v\<in>set (inline_list defs active vs). all_refs Q v"
      by (intro 1(1) [OF GList]) (use 1(5,6) GList in simp_all)
    then show ?thesis by (simp add: GList inline_simps(2))
  qed (simp_all add: inline_leaf)
next
  case (3 defs active p m)
  have "all_refs Q (inlineDefs defs active (snd p))" by (rule 3(1)) (use 3(3,4) in simp_all)
  moreover have "\<forall>p\<in>set (inline_entries defs active m). all_refs Q (snd p)" by (rule 3(2)) (use 3(3,4) in simp_all)
  ultimately show ?case by simp
next
  case (5 defs active v vs)
  have "all_refs Q (inlineDefs defs active v)" by (rule 5(1)) (use 5(3,4) in simp_all)
  moreover have "\<forall>v\<in>set (inline_list defs active vs). all_refs Q v" by (rule 5(2)) (use 5(3,4) in simp_all)
  ultimately show ?case by simp
qed simp_all

text \<open>Without a cycle no reference to an object definition is left. The names being inlined are
  never reached from the references still to do.\<close>

lemma inline_resolves:
  assumes acyclic: "\<forall>x. (x, x) \<notin> (ref_graph defs)\<^sup>+"
  defines "todo \<equiv> \<lambda>active. named_ref (\<lambda>n. \<forall>a\<in>set active. (n, a) \<notin> (ref_graph defs)\<^sup>*)"
    and "resolved \<equiv> named_ref (\<lambda>n. object_def defs n = None)"
  shows "all_refs (todo active) node \<Longrightarrow> all_refs resolved (inlineDefs defs active node)"
    and "\<forall>p\<in>set m. all_refs (todo active) (snd p) \<Longrightarrow> \<forall>p\<in>set (inline_entries defs active m). all_refs resolved (snd p)"
    and "\<forall>v\<in>set vs. all_refs (todo active) v \<Longrightarrow> \<forall>v\<in>set (inline_list defs active vs). all_refs resolved v"
  unfolding todo_def resolved_def using acyclic
proof (induction defs active node and defs active m and defs active vs rule: inlineDefs_inline_entries_inline_list.induct)
  case (1 defs active node)
  let ?G = "ref_graph defs"
  let ?todo = "\<lambda>active. named_ref (\<lambda>n. \<forall>a\<in>set active. (n, a) \<notin> ?G\<^sup>*)" and ?res = "named_ref (\<lambda>n. object_def defs n = None)"
  show ?case
  proof (cases node)
    case (GMap m)
    with 1(5) have root: "?todo active (ref_of m)" and sub: "\<forall>p\<in>set m. all_refs (?todo active) (snd p)" by simp_all
    show ?thesis
    proof (cases "inline_target defs active m")
      case None
      have "?res (ref_of m)"
        using None root by (auto simp: named_ref_def inline_target_def split: option.splits if_splits)
      moreover have "\<forall>p\<in>set (inline_entries defs active m). all_refs ?res (snd p)"
        by (intro 1(2) [OF GMap None]) (use sub 1(6) in simp_all)
      ultimately show ?thesis by (simp add: GMap inline_simps(1) None inline_ref_of)
    next
      case (Some nt)
      obtain name t where nt: "nt = (name, t)" by (cases nt)
      note tgt = inline_target_Some [OF Some [unfolded nt]]
      have name: "\<forall>a\<in>set active. (name, a) \<notin> ?G\<^sup>*"
        using root tgt by (auto simp: named_ref_def def_ref_def split: option.splits)
      have "\<forall>a\<in>set (name # active). (n, a) \<notin> ?G\<^sup>*" if "n \<in> set (def_refs (GMap t))" for n
      proof -
        have e: "(name, n) \<in> ?G" using tgt that by (auto simp: ref_graph_def)
        then have "(n, a) \<in> ?G\<^sup>* \<Longrightarrow> (name, a) \<in> ?G\<^sup>+" for a by (rule rtrancl_into_trancl2)
        with name 1(6) show ?thesis by (auto dest: trancl_into_rtrancl)
      qed
      then have "all_refs (?todo (name # active)) (GMap t)" unfolding def_refs_all(1) [symmetric] by blast
      then have r: "all_refs ?res (inlineDefs defs (name # active) (GMap t))"
        by (intro 1(3) [OF GMap Some nt [symmetric]]) (use 1(6) in simp_all)
      have s: "\<forall>p\<in>set (inline_entries defs active (without ''$ref'' m)). all_refs ?res (snd p)"
        by (intro 1(4) [OF GMap Some nt [symmetric]]) (use sub 1(6) set_without in \<open>auto simp: subset_iff\<close>)
      obtain rm where rm: "inlineDefs defs (name # active) (GMap t) = GMap rm" using inline_map by blast
      show ?thesis
        unfolding GMap inline_hit [OF Some [unfolded nt]]
        by (rule put_over_refs [OF r rm s]) (blast dest: keys_without)
    qed
  next
    case (GList vs)
    have "\<forall>v\<in>set (inline_list defs active vs). all_refs ?res v"
      by (intro 1(1) [OF GList]) (use 1(5,6) GList in simp_all)
    then show ?thesis by (simp add: GList inline_simps(2))
  qed (simp_all add: inline_leaf)
next
  case (3 defs active p m)
  have "all_refs (named_ref (\<lambda>n. object_def defs n = None)) (inlineDefs defs active (snd p))" by (rule 3(1)) (use 3(3,4) in simp_all)
  moreover have "\<forall>p\<in>set (inline_entries defs active m). all_refs (named_ref (\<lambda>n. object_def defs n = None)) (snd p)" by (rule 3(2)) (use 3(3,4) in simp_all)
  ultimately show ?case by simp
next
  case (5 defs active v vs)
  have "all_refs (named_ref (\<lambda>n. object_def defs n = None)) (inlineDefs defs active v)" by (rule 5(1)) (use 5(3,4) in simp_all)
  moreover have "\<forall>v\<in>set (inline_list defs active vs). all_refs (named_ref (\<lambda>n. object_def defs n = None)) v" by (rule 5(2)) (use 5(3,4) in simp_all)
  ultimately show ?case by simp
qed simp_all

text \<open>The discriminators only add names to \<open>required\<close>.\<close>

lemma put_refs: "all_refs Q (GMap m) \<Longrightarrow> all_refs Q v \<Longrightarrow> k \<noteq> ''$ref'' \<Longrightarrow> all_refs Q (GMap (put k v m))"
  unfolding put_def by (rule all_refs_update)

lemma on_sub_refs: "(\<And>m. all_refs Q (GMap m) \<Longrightarrow> all_refs Q (GMap (f m))) \<Longrightarrow> all_refs Q v \<Longrightarrow> all_refs Q (on_sub f v)"
  by (cases v) (simp_all add: on_sub_def)

lemma addRequired_refs: "all_refs Q (GMap m) \<Longrightarrow> all_refs Q (GMap (addRequired name m))"
  unfolding addRequired_def Let_def by (simp add: put_refs del: all_refs.simps(1))

lemma require_in_refs:
  assumes "all_refs Q (GMap m)" "key \<noteq> ''$ref''" shows "all_refs Q (GMap (require_in name key m))"
proof (cases "\<exists>vs. map_of m key = Some (GList vs)")
  case True
  then obtain vs where vs: "map_of m key = Some (GList vs)" ..
  have "all_refs Q (GList vs)" using assms(1) map_of_SomeD [OF vs] by force
  then have "all_refs Q (GList (map (on_sub (addRequired name)) vs))"
    by (auto intro: on_sub_refs addRequired_refs simp del: all_refs.simps(1))
  with assms show ?thesis by (simp add: require_in_def vs put_refs del: all_refs.simps)
next
  case False
  with assms show ?thesis by (auto simp: require_in_def split: option.split gval.split)
qed

lemma resolve_refs:
  assumes "all_refs Q (GMap m)" "Q None" shows "all_refs Q (GMap (resolve_discriminator m))"
proof -
  have "all_refs Q (GMap (fold (require_in name) [''anyOf'', ''oneOf'', ''allOf''] m))" for name
    using assms(1) by (simp add: require_in_refs del: all_refs.simps)
  then show ?thesis
    unfolding resolve_discriminator_def using assms
    by (simp add: all_refs_without del: all_refs.simps fold.simps split: option.split gval.split)
qed

lemma on_subs_refs:
  assumes "\<And>m. depth (GMap m) \<le> depth v \<Longrightarrow> all_refs Q (GMap m) \<Longrightarrow> all_refs Q (GMap (f m))" "all_refs Q v"
  shows "all_refs Q (on_subs c f v) \<and> (\<forall>r. on_subs c f v = GStr r \<longleftrightarrow> v = GStr r)"
proof -
  have sub: "all_refs Q (on_sub f x)" if "depth x \<le> depth v" "all_refs Q x" for x
    using that assms(1) by (cases x) (auto simp: on_sub_def simp del: all_refs.simps depth.simps)
  show ?thesis
  proof (cases v)
    case (GMap m)
    have "all_refs Q (GMap (map (\<lambda>(k, x). (k, on_sub f x)) m))"
    proof -
      have "ref_of (map (\<lambda>(k, x). (k, on_sub f x)) m) = ref_of m"
        by (rule ref_of_map) (auto simp: on_sub_def split: gval.split)
      moreover have "all_refs Q (on_sub f x)" if "(k, x) \<in> set m" for k x
        using depth_value [OF that] that assms(2) by (intro sub) (auto simp: GMap simp del: depth.simps)
      ultimately show ?thesis using assms(2) by (auto simp: GMap)
    qed
    moreover have "all_refs Q (GMap (f m))" using assms by (simp add: GMap del: all_refs.simps)
    ultimately show ?thesis using assms(2)
      by (cases c) (simp_all add: on_subs_def on_sub_def GMap del: all_refs.simps)
  next
    case (GList vs)
    have "all_refs Q (on_sub f x)" if "x \<in> set vs" for x
      using depth_element [OF that] that assms(2) by (intro sub) (auto simp: GList simp del: depth.simps)
    then show ?thesis using assms(2) by (cases c) (auto simp: on_subs_def on_sub_def GList)
  qed (cases c; simp add: on_subs_def on_sub_def)+
qed

lemma discriminator_refs: "all_refs Q (GMap m) \<Longrightarrow> Q None \<Longrightarrow> all_refs Q (GMap (applyDiscriminator m))"
proof (induction "depth (GMap m)" arbitrary: m rule: less_induct)
  case less
  let ?m = "resolve_discriminator m"
  have all: "all_refs Q (GMap ?m)" using less(2,3) by (rule resolve_refs)
  have sub: "all_refs Q (on_subs (key_kind k) applyDiscriminator v) \<and> (\<forall>r. on_subs (key_kind k) applyDiscriminator v = GStr r \<longleftrightarrow> v = GStr r)"
    if "(k, v) \<in> set ?m" for k v
  proof (rule on_subs_refs)
    fix m' assume "depth (GMap m') \<le> depth v" "all_refs Q (GMap m')"
    then show "all_refs Q (GMap (applyDiscriminator m'))"
      using less(1) [of m'] resolve_less [OF that, of m'] less(3) by blast
  qed (use all that in auto)
  then have "ref_of (map (\<lambda>(k, v). (k, on_subs (key_kind k) applyDiscriminator v)) ?m) = ref_of ?m"
    by (intro ref_of_map) blast
  with all sub show ?case by (subst applyDiscriminator.simps) auto
qed

section \<open>Well-formed trees stay well-formed\<close>

lemma without_wf: "tree_wf (GMap m) \<Longrightarrow> tree_wf (GMap (without k m))"
  by (auto simp: without_def distinct_map_filter)

lemma map_values_wf:
  assumes "tree_wf (GMap m)" "\<And>k v. (k, v) \<in> set m \<Longrightarrow> tree_wf v \<Longrightarrow> tree_wf (f k v)"
  shows "tree_wf (GMap (map (\<lambda>(k, v). (k, f k v)) m))"
proof -
  have "map fst (map (\<lambda>(k, v). (k, f k v)) m) = map fst m" by auto
  with assms show ?thesis by (force simp del: map_map)
qed

lemma strip_wf:
  "tree_wf v \<Longrightarrow> tree_wf (stripRemote v)"
  "tree_wf (GMap m) \<Longrightarrow> tree_wf (GMap (strip_entries del m))"
  "tree_wf (GList vs) \<Longrightarrow> tree_wf (GList (strip_list vs))"
proof (induction v and del m and vs rule: stripRemote_strip_entries_strip_list.induct)
  case (5 del k v m)
  have "fst ` set (strip_entries del m) \<subseteq> fst ` set m" unfolding strip_entries_map by (auto simp: without_def split: if_splits) force+
  with 5 show ?case by auto
qed auto

lemma StripRemoteRefs_wf: "tree_wf (GMap schema) \<Longrightarrow> tree_wf (GMap (StripRemoteRefs schema))"
  using strip_wf(1) [of "GMap schema"] by (simp add: StripRemoteRefs_def cloneSchema_def del: tree_wf.simps)

lemma on_subs_wf:
  assumes f: "\<And>m. depth (GMap m) \<le> depth v \<Longrightarrow> tree_wf (GMap m) \<Longrightarrow> tree_wf (GMap (f m))" and v: "tree_wf v"
  shows "tree_wf (on_subs c f v)"
proof -
  have sub: "tree_wf (on_sub f x)" if "depth x \<le> depth v" "tree_wf x" for x
    using that f by (cases x) (auto simp: on_sub_def simp del: tree_wf.simps(2) depth.simps)
  show ?thesis
  proof (cases v)
    case (GMap m)
    have "tree_wf (GMap (map (\<lambda>(k, x). (k, on_sub f x)) m))"
      using v depth_value [of _ _ m] by (intro map_values_wf) (auto simp: GMap intro!: sub less_imp_le simp del: depth.simps)
    moreover have "tree_wf (GMap (f m))" using f v by (simp add: GMap del: tree_wf.simps)
    ultimately show ?thesis using v
      by (cases c) (simp_all add: on_subs_def on_sub_def GMap del: tree_wf.simps)
  next
    case (GList vs)
    have "tree_wf (on_sub f x)" if "x \<in> set vs" for x
      using depth_element [OF that] that v by (intro sub) (auto simp: GList simp del: depth.simps)
    then show ?thesis using v by (cases c) (auto simp: on_subs_def on_sub_def GList)
  qed (cases c; simp add: on_subs_def on_sub_def)+
qed

lemma pruneTitles_wf: "tree_wf (GMap m) \<Longrightarrow> tree_wf (GMap (pruneTitles m))"
proof (induction "depth (GMap m)" arbitrary: m rule: less_induct)
  case less
  show ?case
    unfolding pruneTitles.simps [of m]
  proof (rule map_values_wf)
    show "tree_wf (GMap (without ''title'' m))" using less(2) by (rule without_wf)
    fix k v assume kv: "(k, v) \<in> set (without ''title'' m)" and "tree_wf v"
    then show "tree_wf (on_subs (key_kind k) pruneTitles v)"
      using depth_value [of k v m] set_without by (intro on_subs_wf less(1)) (auto simp: subset_iff simp del: depth.simps)
  qed
qed

section \<open>What the transformations leave valid\<close>

lemma map_of_map_key: "map_of (map (\<lambda>(k, v). (k, f k v)) m) k = map_option (f k) (map_of m k)"
  by (induction m) auto

lemma key_kind_simps:
  "key_kind ''allOf'' = KList" "key_kind ''anyOf'' = KList" "key_kind ''oneOf'' = KList" "key_kind ''properties'' = KMap"
  "key_kind ''items'' = KItems" "key_kind ''additionalProperties'' = KSingle"
  by (simp_all add: key_kind_def schemaKeywordSingle_def schemaKeywordMap_def schemaKeywordList_def)

lemma key_kind_other:
  "k \<in> {''const'', ''enum'', ''type'', ''required'', ''minItems'', ''maxItems'', ''uniqueItems'', ''minLength'', ''maxLength'',
     ''pattern'', ''minimum'', ''maximum'', ''exclusiveMinimum'', ''exclusiveMaximum'', ''multipleOf''} \<Longrightarrow> key_kind k = KOther"
  by (elim insertE emptyE)
    (simp_all add: key_kind_def schemaKeywordSingle_def schemaKeywordMap_def schemaKeywordList_def)

text \<open>A rewriting of the sub-schemas that keeps what each of them accepts keeps what the keyword
  accepts.\<close>


lemma keyword_on_subs:
  assumes f: "\<And>s x. depth (GMap s) \<le> depth raw \<Longrightarrow> valid L (GMap (f s)) x = valid L (GMap s) x"
    and props: "fst ` set (props_of m') = fst ` set (props_of m)"
  shows "keyword L (valid L) m' v k (on_subs (key_kind k) f raw) = keyword L (valid L) m v k raw"
proof -
  have sub: "valid L (on_sub f x) y = valid L x y" "is_map (on_sub f x) = is_map x" if "depth x \<le> depth raw" for x y
    using that f by (cases x; simp add: on_sub_def is_map_def del: depth.simps)+
  have list: "subschemas (on_subs KList f raw) = map (on_sub f) (subschemas raw)"
  proof (cases raw)
    case (GList vs)
    have "filter is_map (map (on_sub f) vs) = map (on_sub f) (filter is_map vs)"
      using depth_element [of _ vs] sub(2) unfolding filter_map GList
      by (intro arg_cong [where f = "map (on_sub f)"] filter_cong) (auto simp del: depth.simps intro: less_imp_le)
    then show ?thesis by (simp add: on_subs_def subschemas_def GList)
  qed (simp_all add: on_subs_def subschemas_def)
  have in_list: "valid L (on_sub f s) x = valid L s x" if s: "s \<in> set (subschemas raw)" for s x
  proof -
    obtain vs where "raw = GList vs" "s \<in> set vs" using s by (cases raw) (auto simp: subschemas_def)
    then have "depth s \<le> depth raw" using depth_element [of s vs] by (simp del: depth.simps)
    then show ?thesis by (rule sub)
  qed
  have props_hold: "props_hold (valid L) (on_subs KMap f raw) obj = props_hold (valid L) raw obj" for obj
  proof (cases raw)
    case (GMap ps)
    have "valid L (on_sub f s) x = valid L s x \<and> is_map (on_sub f s) = is_map s" if "(p, s) \<in> set ps" for p s x
      using depth_value [OF that] sub [of s] by (simp add: GMap del: depth.simps)
    then show ?thesis by (force simp: on_subs_def GMap props_hold_def split: option.split)
  qed (simp_all add: on_subs_def props_hold_def)
  have items: "is_map (on_subs KItems f raw) \<longleftrightarrow> is_map raw" "is_map raw \<Longrightarrow> valid L (on_subs KItems f raw) x = valid L raw x" for x
    using f by (cases raw; simp add: on_subs_def is_map_def del: depth.simps)+
  have filt: "filter (\<lambda>s. valid L s v) (map (on_sub f) (subschemas raw)) = map (on_sub f) (filter (\<lambda>s. valid L s v) (subschemas raw))"
    unfolding filter_map using in_list by (intro arg_cong [where f = "map (on_sub f)"] filter_cong) auto
  have bool: "on_subs KSingle f raw = GBool b \<longleftrightarrow> raw = GBool b" for b
    by (cases raw) (simp_all add: on_subs_def on_sub_def)
  consider "k \<in> {''allOf'', ''anyOf'', ''oneOf'', ''properties'', ''items'', ''additionalProperties''}"
    | "k \<in> {''const'', ''enum'', ''type'', ''required'', ''minItems'', ''maxItems'', ''uniqueItems'', ''minLength'', ''maxLength'',
         ''pattern'', ''minimum'', ''maximum'', ''exclusiveMinimum'', ''exclusiveMaximum'', ''multipleOf''}"
    | "k \<notin> set known_keywords"
    by (auto simp: known_keywords_def)
  then show ?thesis
  proof cases
    case 1
    then show ?thesis
      by (elim insertE emptyE) (simp_all add: keyword_def plain_keyword_def key_kind_simps list in_list filt props_hold [abs_def] items bool props
          cong: conj_cong imp_cong)
  next
    case 2
    then have "k \<notin> {''allOf'', ''anyOf'', ''oneOf'', ''properties'', ''items'', ''additionalProperties''}" by auto
    then have "keyword L (valid L) m' v k raw = keyword L (valid L) m v k raw"
      by (simp add: keyword_def plain_keyword_def)
    then show ?thesis using key_kind_other [OF 2] by (simp add: on_subs_def)
  next
    case 3
    then show ?thesis by (simp add: other_keyword)
  qed
qed

lemma valid_pruneTitles: "valid L (GMap (pruneTitles m)) v \<longleftrightarrow> valid L (GMap m) v"
proof (induction "depth (GMap m)" arbitrary: m v rule: less_induct)
  case less
  note eq = pruneTitles.simps [of m]
  have "map_of (without ''title'' m) ''properties'' = map_of m ''properties''"
    by (induction m) (auto simp: without_def)
  then have "map_of (pruneTitles m) ''properties'' = map_option (on_subs KMap pruneTitles) (map_of m ''properties'')"
    unfolding eq map_of_map_key by (simp add: key_kind_simps)
  then have props: "fst ` set (props_of (pruneTitles m)) = fst ` set (props_of m)"
  proof (cases "map_of m ''properties''")
    case (Some ps)
    with \<open>map_of (pruneTitles m) _ = _\<close> show ?thesis
      by (cases ps) (simp_all add: props_of_def on_subs_def image_image split_beta)
  qed (simp add: props_of_def)
  have key: "keyword L (valid L) (pruneTitles m) v k (on_subs (key_kind k) pruneTitles raw) = keyword L (valid L) m v k raw"
    if "(k, raw) \<in> set m" for k raw
    using depth_value [OF that] by (intro keyword_on_subs less props) simp
  have "valid L (GMap (pruneTitles m)) v
      \<longleftrightarrow> (\<forall>(k, raw)\<in>set (without ''title'' m). keyword L (valid L) (pruneTitles m) v k (on_subs (key_kind k) pruneTitles raw))"
    unfolding valid_object by (subst (1) eq) (simp add: split_beta)
  also have "\<dots> \<longleftrightarrow> (\<forall>(k, raw)\<in>set (without ''title'' m). keyword L (valid L) m v k raw)"
    using key set_without [of "''title''" m] by (auto simp: subset_iff)
  also have "\<dots> \<longleftrightarrow> (\<forall>(k, raw)\<in>set m. keyword L (valid L) m v k raw)"
    using other_keyword [of "''title''" L "valid L" m v] by (auto simp: without_def known_keywords_def)
  finally show ?case by (simp add: valid_object)
qed

text \<open>A schema whose entries are the same at every keyword accepts the same values.\<close>

lemma valid_known:
  assumes "\<And>k raw. k \<in> set known_keywords \<Longrightarrow> (k, raw) \<in> set m' \<longleftrightarrow> (k, raw) \<in> set m"
    and "map_of m' ''properties'' = map_of m ''properties''"
  shows "valid L (GMap m') v \<longleftrightarrow> valid L (GMap m) v"
proof -
  have "props_of m' = props_of m" using assms(2) by (simp add: props_of_def)
  then have kw: "keyword L (valid L) m' v k raw = keyword L (valid L) m v k raw" for k raw
    by (simp add: keyword_def plain_keyword_def)
  have "(\<forall>(k, raw)\<in>set m'. keyword L (valid L) m v k raw) \<longleftrightarrow> (\<forall>(k, raw)\<in>set m. keyword L (valid L) m v k raw)"
  proof -
    have "(\<forall>(k, raw)\<in>set n. keyword L (valid L) m v k raw)
        \<longleftrightarrow> (\<forall>k raw. k \<in> set known_keywords \<longrightarrow> (k, raw) \<in> set n \<longrightarrow> keyword L (valid L) m v k raw)" for n
      using other_keyword by blast
    then show ?thesis using assms(1) by simp
  qed
  then show ?thesis by (simp add: valid_object kw)
qed

text \<open>Where the entry \<open>$defs\<close> is not looked at.\<close>

definition same_but_defs :: "schema \<Rightarrow> schema \<Rightarrow> bool" where
  "same_but_defs m' m \<longleftrightarrow> without ''$defs'' m' = without ''$defs'' m"

lemma same_but_valid: "same_but_defs m' m \<Longrightarrow> valid L (GMap m') v \<longleftrightarrow> valid L (GMap m) v"
proof (rule valid_known)
  assume s: "same_but_defs m' m"
  have mem: "k \<noteq> ''$defs'' \<Longrightarrow> (k, raw) \<in> set n \<longleftrightarrow> (k, raw) \<in> set (without ''$defs'' n)" for k raw n
    by (simp add: without_def)
  show "(k, raw) \<in> set m' \<longleftrightarrow> (k, raw) \<in> set m" if "k \<in> set known_keywords" for k raw
  proof -
    have "k \<noteq> ''$defs''" using that by (auto simp: known_keywords_def)
    then have "(k, raw) \<in> set n \<longleftrightarrow> (k, raw) \<in> set (without ''$defs'' n)" for n by (rule mem)
    from this [of m'] this [of m] s show ?thesis by (simp add: same_but_defs_def)
  qed
  have "map_of n ''properties'' = map_of (without ''$defs'' n) ''properties''" for n
    by (induction n) (auto simp: without_def)
  from this [of m'] this [of m] s show "map_of m' ''properties'' = map_of m ''properties''"
    by (simp add: same_but_defs_def)
qed

lemma without_put: "without k (AList.update k v m) = without k m"
  by (induction m) (auto simp: without_def)

text \<open>What pruning is to do: keep the definitions reached from the other entries, and these.\<close>

definition prunes_unused :: "schema \<Rightarrow> schema \<Rightarrow> bool" where
  "prunes_unused node R \<longleftrightarrow> same_but_defs R node
     \<and> (case defs_of node of None \<Rightarrow> R = node
       | Some defs \<Rightarrow> (case defs_of R of None \<Rightarrow> [] | Some d \<Rightarrow> d)
           = filter (\<lambda>p. fst p \<in> (ref_graph defs)\<^sup>* `` set (def_refs_entries (without ''$defs'' node))) defs)"

lemma pruneUnusedDefs_exact:
  "\<exists>R. pruneUnusedDefs node = Some R \<and> prunes_unused node R \<and> (tree_wf (GMap node) \<longrightarrow> tree_wf (GMap R))"
proof (cases "defs_of node")
  case None
  then show ?thesis by (simp add: pruneUnusedDefs_def prunes_unused_def same_but_defs_def)
next
  case (Some defs)
  let ?refs = "def_refs_entries (without ''$defs'' node)"
  let ?seed = "fold (\<lambda>p. collectDefRefs (snd p)) (without ''$defs'' node) []"
  have fold: "distinct (fold (\<lambda>p. collectDefRefs (snd p)) m used) \<and>
      set (fold (\<lambda>p. collectDefRefs (snd p)) m used) = set used \<union> set (def_refs_entries m)"
    if "distinct used" for used m
    using that by (induction m arbitrary: used) (auto simp: set_collect def_refs_entries_set collectDefRefs_def add_names_distinct set_add_names)
  from fold [of "[]"] obtain R where R: "reach_loop defs ?seed = Some R" "set R = (ref_graph defs)\<^sup>* `` set ?refs"
    using reach_loop_exact [of ?seed defs] by auto
  have none: "defs_of (without ''$defs'' node) = None"
    by (auto simp: defs_of_def without_def split: option.split gval.split dest!: map_of_SomeD)
  let ?kept = "filter (\<lambda>p. fst p \<in> set R) defs"
  let ?out = "if defs = [] \<or> ?kept = [] then without ''$defs'' node else put ''$defs'' (GMap ?kept) node"
  show ?thesis
  proof (intro exI conjI impI)
    show "pruneUnusedDefs node = Some ?out" using Some R(1) by (simp add: pruneUnusedDefs_def Let_def)
    have "same_but_defs ?out node" by (auto simp: same_but_defs_def put_def without_put) (simp_all add: without_def)
    moreover have "(case defs_of ?out of None \<Rightarrow> [] | Some d \<Rightarrow> d)
        = filter (\<lambda>p. fst p \<in> (ref_graph defs)\<^sup>* `` set ?refs) defs"
      using R(2) none by (auto simp: defs_of_def put_def update_conv')
    ultimately show "prunes_unused node ?out" using Some by (simp add: prunes_unused_def)
    assume wf: "tree_wf (GMap node)"
    then show "tree_wf (GMap ?out)"
    proof -
      have "tree_wf (GMap defs)" using wf Some by (force simp: defs_of_def split: option.splits gval.splits dest: map_of_SomeD)
      then have "tree_wf (GMap ?kept)" by (auto simp: distinct_map_filter)
      with wf show ?thesis by (simp add: put_def update_wf without_wf del: tree_wf.simps)
    qed
  qed
qed

section \<open>Properties\<close>

lemma Dereference_cases:
  fixes schema
  defines "safe \<equiv> StripRemoteRefs schema"
  defines "defs \<equiv> case defs_of safe of Some d \<Rightarrow> d | None \<Rightarrow> []"
  shows "DereferenceRefs schema = Some (if \<exists>name\<in>fst ` set defs. (name, name) \<in> (ref_graph defs)\<^sup>+ then ResolveRootRef safe
     else applyDiscriminator (cloneSchema (inlineDefs defs [] (GMap (without ''$defs'' safe)))))"
  unfolding safe_def defs_def DereferenceRefs_def Let_def circular_iff by simp

lemma set_all_sub: "set (set_all n t) \<subseteq> set n \<union> set t"
  unfolding set_all_def
proof (induction t arbitrary: n)
  case (Cons p t)
  have "set (AList.update (fst p) (snd p) n) \<subseteq> insert p (set n)" using set_update_subset [of "fst p" "snd p" n] by simp
  with Cons [of "AList.update (fst p) (snd p) n"] show ?case by (auto simp: split_beta)
qed simp

lemma map_of_set_all:
  "distinct (map fst t) \<Longrightarrow> map_of (set_all n t) k = (case map_of t k of Some v \<Rightarrow> Some v | None \<Rightarrow> map_of n k)"
  unfolding set_all_def
proof (induction t arbitrary: n)
  case (Cons p t)
  have "map_of t (fst p) = None" using Cons.prems by (simp add: map_of_eq_None_iff)
  with Cons show ?case by (cases "k = fst p") (simp_all add: split_beta update_conv' split: option.split)
qed simp

lemma ResolveRootRef_refs:
  assumes "tree_wf (GMap m)" "all_refs Q (GMap m)" "Q None"
  shows "all_refs Q (GMap (ResolveRootRef m))"
proof -
  have "all_refs Q (GMap (set_all (without ''$ref'' m) t))"
    if d: "defs_of m = Some defs" and t: "object_def defs name = Some t" for defs name t
  proof -
    have dt: "(''$defs'', GMap defs) \<in> set m" "(name, GMap t) \<in> set defs"
      using d t by (auto simp: defs_of_def object_def_def split: option.splits gval.splits dest: map_of_SomeD)
    then have "tree_wf (GMap defs)" using assms(1) by force
    then have wf: "distinct (map fst t)" using dt by force
    have "all_refs Q (GMap defs)" using assms(2) dt by force
    then have at: "all_refs Q (GMap t)" using dt by force
    have all: "all_refs Q (GMap (without ''$ref'' m))" using assms by (intro all_refs_without)
    have "ref_of (without ''$ref'' m) = None" by (simp add: ref_of_without)
    then have "ref_of (set_all (without ''$ref'' m) t) = ref_of t \<or> ref_of (set_all (without ''$ref'' m) t) = None"
      unfolding ref_of_def map_of_set_all [OF wf] by (auto split: option.splits)
    then have "Q (ref_of (set_all (without ''$ref'' m) t))" using at assms(3) by auto
    moreover have "all_refs Q (snd p)" if "p \<in> set (set_all (without ''$ref'' m) t)" for p
    proof -
      have "p \<in> set (without ''$ref'' m) \<or> p \<in> set t" using that set_all_sub by blast
      with at all show ?thesis by auto
    qed
    ultimately show ?thesis by simp
  qed
  with assms(2) show ?thesis by (simp add: ResolveRootRef_def del: all_refs.simps split: option.split)
qed

text \<open>
  C32: dereferencing returns, whatever the schema, and leaves no reference to another
  document. Without a cycle among the definitions, no reference to an object definition is left in
  it either; with one, it is the stripped schema with its root reference resolved.
\<close>

theorem dereference_safe:
  assumes "tree_wf (GMap schema)"
  defines "safe \<equiv> StripRemoteRefs schema"
  defines "defs \<equiv> case defs_of safe of Some d \<Rightarrow> d | None \<Rightarrow> []"
  shows "\<exists>out. DereferenceRefs schema = Some out \<and> all_refs local_ref (GMap out)
    \<and> (if \<exists>name\<in>fst ` set defs. (name, name) \<in> (ref_graph defs)\<^sup>+ then out = ResolveRootRef safe
       else all_refs (named_ref (\<lambda>n. object_def defs n = None)) (GMap out))"
proof (cases "\<exists>name\<in>fst ` set defs. (name, name) \<in> (ref_graph defs)\<^sup>+")
  case True
  have "all_refs local_ref (GMap (ResolveRootRef safe))"
    unfolding safe_def by (intro ResolveRootRef_refs StripRemoteRefs_wf StripRemoteRefs_local assms(1)) (simp add: local_ref_def)
  with True show ?thesis
    unfolding Dereference_cases [of schema, folded safe_def, folded defs_def] by simp
next
  case False
  have acyclic: "\<forall>x. (x, x) \<notin> (ref_graph defs)\<^sup>+"
  proof (intro allI notI)
    fix x assume x: "(x, x) \<in> (ref_graph defs)\<^sup>+"
    then obtain y where "(x, y) \<in> ref_graph defs" by (auto dest: tranclD)
    then have "x \<in> fst ` set defs" by (force simp: ref_graph_def dest: map_of_SomeD)
    with x False show False by blast
  qed
  let ?in = "GMap (without ''$defs'' safe)"
  have loc: "all_refs local_ref (GMap safe)" unfolding safe_def by (rule StripRemoteRefs_local)
  then have "all_refs local_ref ?in" by (intro all_refs_without) (simp_all add: local_ref_def)
  moreover have "\<forall>p\<in>set defs. all_refs local_ref (snd p)"
    using loc by (force simp: defs_def defs_of_def split: option.splits gval.splits dest!: map_of_SomeD)
  ultimately have l: "all_refs local_ref (inlineDefs defs [] ?in)" by (intro inline_keeps(1))
  have "all_refs (named_ref (\<lambda>n. \<forall>a\<in>set []. (n, a) \<notin> (ref_graph defs)\<^sup>*)) ?in" unfolding def_refs_all(1) [symmetric] by simp
  then have r: "all_refs (named_ref (\<lambda>n. object_def defs n = None)) (inlineDefs defs [] ?in)"
    by (rule inline_resolves(1) [OF acyclic])
  obtain rm where rm: "inlineDefs defs [] ?in = GMap rm" using inline_map by blast
  from False have "DereferenceRefs schema = Some (applyDiscriminator rm)"
    unfolding Dereference_cases [of schema, folded safe_def, folded defs_def] by (simp add: cloneSchema_def rm)
  with l r False rm show ?thesis by (auto simp del: all_refs.simps intro!: discriminator_refs) (simp_all add: local_ref_def named_ref_def)
qed

definition demo_defs :: schema where
  "demo_defs = [(''$ref'', GStr ''#/$defs/A''), (''$defs'', GMap [(''A'', GMap [(''type'', GStr ''string'')])])]"

theorem dereference_safe_witness:
  "\<exists>out. DereferenceRefs demo_defs = Some out \<and> all_refs local_ref (GMap out)"
proof -
  have "tree_wf (GMap demo_defs)" by (simp add: demo_defs_def)
  from dereference_safe [OF this] show ?thesis by blast
qed

text \<open>The graph of the definitions that stay.\<close>

lemma kept_reachable:
  fixes defs seed
  defines "left \<equiv> filter (\<lambda>p. fst p \<in> (ref_graph defs)\<^sup>* `` seed) defs"
  assumes "(s, x) \<in> (ref_graph defs)\<^sup>*" "s \<in> seed"
  shows "(s, x) \<in> (ref_graph left)\<^sup>*"
  using assms(2)
proof (induction rule: rtrancl_induct)
  case (step y z)
  have y: "y \<in> (ref_graph defs)\<^sup>* `` seed" using step(1) assms(3) by blast
  have same: "P y \<Longrightarrow> map_of (filter (\<lambda>p. P (fst p)) m) y = map_of m y" for P and m :: schema
    by (induction m) auto
  have "map_of left y = map_of defs y"
    unfolding left_def by (rule same [where P = "\<lambda>n. n \<in> (ref_graph defs)\<^sup>* `` seed"]) (rule y)
  then have "(y, z) \<in> ref_graph left" using step(2) by (simp add: ref_graph_def)
  with step(3) show ?case by (rule rtrancl_into_rtrancl)
qed simp

text \<open>
  C33: compressing returns, whatever the schema and the options: the search for the
  reachable definitions ends. Every definition that is left is reached, through the definitions
  that are left, from the entries beside \<open>$defs\<close>.
\<close>

theorem compress_returns:
  "\<exists>out. CompressSchema opts schema = Some out
     \<and> fst ` set (case defs_of out of Some d \<Rightarrow> d | None \<Rightarrow> [])
       \<subseteq> (ref_graph (case defs_of out of Some d \<Rightarrow> d | None \<Rightarrow> []))\<^sup>* `` set (def_refs_entries (without ''$defs'' out))"
proof -
  obtain node where node: "CompressSchema opts schema = pruneUnusedDefs node"
  proof (cases "co_Dereference opts")
    case True
    then show ?thesis using that by (simp add: CompressSchema_def Dereference_cases Let_def)
  next
    case False
    then show ?thesis using that by (simp add: CompressSchema_def Let_def)
  qed
  obtain out where out: "pruneUnusedDefs node = Some out" "prunes_unused node out" using pruneUnusedDefs_exact by blast
  have rest: "without ''$defs'' out = without ''$defs'' node" using out(2) by (simp add: prunes_unused_def same_but_defs_def)
  show ?thesis
  proof (intro exI conjI subsetI)
    show "CompressSchema opts schema = Some out" using node out(1) by simp
    fix x assume x: "x \<in> fst ` set (case defs_of out of Some d \<Rightarrow> d | None \<Rightarrow> [])"
    show "x \<in> (ref_graph (case defs_of out of Some d \<Rightarrow> d | None \<Rightarrow> []))\<^sup>* `` set (def_refs_entries (without ''$defs'' out))"
    proof (cases "defs_of node")
      case None
      with x out(2) show ?thesis by (simp add: prunes_unused_def)
    next
      case (Some defs)
      let ?seed = "set (def_refs_entries (without ''$defs'' node))"
      have left: "(case defs_of out of Some d \<Rightarrow> d | None \<Rightarrow> []) = filter (\<lambda>p. fst p \<in> (ref_graph defs)\<^sup>* `` ?seed) defs"
        using out(2) Some by (simp add: prunes_unused_def)
      from x obtain s where s: "s \<in> ?seed" "(s, x) \<in> (ref_graph defs)\<^sup>*" unfolding left by auto
      from kept_reachable [OF s(2,1)] s(1) show ?thesis unfolding left rest by blast
    qed
  qed
qed

text \<open>
  C34: compressing without pruning parameters or closed objects and without
  dereferencing changes no verdict of the validator: the result accepts the values the schema
  accepts, titles stripped or not.
\<close>

theorem compress_same_values:
  assumes "tree_wf (GMap schema)"
  shows "\<exists>out. CompressSchema \<lparr>co_PruneParams = [], co_PruneTitles = titles, co_PruneAdditionalProperties = False, co_Dereference = False\<rparr> schema = Some out
    \<and> (\<forall>L v. Schema_Validate L (Some out) v = None \<longleftrightarrow> Schema_Validate L (Some schema) v = None)"
proof -
  define node where "node = (if titles then pruneTitles schema else schema)"
  have wf: "tree_wf (GMap node)" using assms pruneTitles_wf by (simp add: node_def del: tree_wf.simps)
  obtain out where out: "pruneUnusedDefs node = Some out" "same_but_defs out node" "tree_wf (GMap node) \<Longrightarrow> tree_wf (GMap out)"
    using pruneUnusedDefs_exact unfolding prunes_unused_def by blast
  have "valid L (GMap out) v \<longleftrightarrow> valid L (GMap schema) v" for L v
    using same_but_valid [OF out(2)] valid_pruneTitles [of L schema v] by (simp add: node_def)
  then have "Schema_Validate L (Some out) v = None \<longleftrightarrow> Schema_Validate L (Some schema) v = None" for L v
    using decides_all [OF assms] decides_all [OF out(3) [OF wf]] by (simp add: Schema_Validate_def decides_def)
  moreover have "CompressSchema \<lparr>co_PruneParams = [], co_PruneTitles = titles, co_PruneAdditionalProperties = False, co_Dereference = False\<rparr> schema = Some out"
    using out(1) by (simp add: CompressSchema_def Let_def node_def)
  ultimately show ?thesis by blast
qed

theorem compress_same_values_witness:
  "\<exists>out. CompressSchema \<lparr>co_PruneParams = [], co_PruneTitles = True, co_PruneAdditionalProperties = False, co_Dereference = False\<rparr>
      [(''title'', GStr ''N''), (''type'', GStr ''string'')] = Some out \<and> Schema_Validate demo_fmt (Some out) (GInt 1) \<noteq> None"
proof -
  have wf: "tree_wf (GMap [(''title'', GStr ''N''), (''type'', GStr ''string'')])" by simp
  have "Schema_Validate demo_fmt (Some [(''title'', GStr ''N''), (''type'', GStr ''string'')]) (GInt 1) \<noteq> None"
    using decides_all [OF wf] by (auto simp: Schema_Validate_def decides_def valid_object keyword_def plain_keyword_def matchesType_def)
  with compress_same_values [OF wf, of True] show ?thesis by (metis (no_types, lifting))
qed

text \<open>The reference of the root itself does not count as a use of its definition.\<close>

lemma compress_root_ref:
  "CompressSchema \<lparr>co_PruneParams = [], co_PruneTitles = False, co_PruneAdditionalProperties = False, co_Dereference = False\<rparr>
     demo_defs = Some [(''$ref'', GStr ''#/$defs/A'')]"
proof -
  have "reach_loop defs [] = Some []" for defs
    by (simp add: reach_loop_def reach_pass_def while_option_unfold)
  then show ?thesis
    by (simp add: CompressSchema_def demo_defs_def Let_def pruneUnusedDefs_def defs_of_def without_def collectDefRefs_def)
qed

end
