(* ===== verification/Client.thy ===== *)
theory Client
  imports Prelude GoStd Json Content Registry Dispatch Session Transport Mount
begin

text \<open>
  The client, \<open>src/client/\<close>. \<open>client.go\<close>: the calls, each of them one round trip of a transport,
  and the answers to the server's requests. \<open>transport.go\<close>: the HTTP transport, and the stdio
  transport with its read loop, as a step relation. The Go interface \<open>transport\<close> is a pair of
  functions on the state \<open>'w\<close> of the world beyond it; a spawned process and the closing of
  streams are left out. \<open>js_enc\<close> and \<open>js_dec\<close> stand for \<open>json.Marshal\<close> and the text-to-tree half
  of \<open>json.Unmarshal\<close>.
\<close>

section \<open>Messages\<close>

record client_message =
  cm_id :: "gval option"
  cm_method :: string
  cm_params :: "gval option"
  cm_result :: "gval option"
  cm_error :: "wire_error option"

definition empty_message :: client_message where
  "empty_message = \<lparr>cm_id = None, cm_method = [], cm_params = None, cm_result = None, cm_error = None\<rparr>"

definition opt_raw :: "string \<Rightarrow> gval option \<Rightarrow> (string \<times> gval) list" where
  "opt_raw k v = (case v of None \<Rightarrow> [] | Some x \<Rightarrow> [(k, x)])"

definition wire_error_json :: "wire_error \<Rightarrow> gval" where
  "wire_error_json e = GMap ([(''code'', GInt (we_code e)), (''message'', GStr (we_message e))]
     @ (if we_data e = GNil then [] else [(''data'', we_data e)]))"

definition wire_message_json :: "client_message \<Rightarrow> gval" where
  "wire_message_json m = GMap
     ([(''jsonrpc'', GStr ''2.0'')] @ opt_raw ''id'' (cm_id m) @ opt_str ''method'' (cm_method m)
      @ opt_raw ''params'' (cm_params m) @ opt_raw ''result'' (cm_result m)
      @ opt_raw ''error'' (map_option wire_error_json (cm_error m)))"

definition step_message_in :: "string \<Rightarrow> gval \<Rightarrow> client_message \<Rightarrow> client_message option" where
  "step_message_in k v m =
     (if equal_fold k ''jsonrpc'' then map_option (\<lambda>_. m) (put_str v [])
      else if equal_fold k ''id'' then Some (m\<lparr>cm_id := Some v\<rparr>)
      else if equal_fold k ''method'' then map_option (\<lambda>s. m\<lparr>cm_method := s\<rparr>) (put_str v (cm_method m))
      else if equal_fold k ''params'' then Some (m\<lparr>cm_params := Some v\<rparr>)
      else if equal_fold k ''result'' then Some (m\<lparr>cm_result := Some v\<rparr>)
      else if equal_fold k ''error'' then map_option (\<lambda>e. m\<lparr>cm_error := e\<rparr>) (put_error v (cm_error m))
      else Some m)"

section \<open>The client\<close>

definition DefaultVersion :: string where "DefaultVersion = ''0.2.0''"

text \<open>An error is the text of a transport or coding error, or the error object of a response.\<close>

datatype client_error = CText string | CRpc wire_error

text \<open>\<open>Error()\<close> of either.\<close>

definition cerr_text :: "client_error \<Rightarrow> string" where
  "cerr_text e = (case e of CText s \<Rightarrow> s | CRpc we \<Rightarrow> we_message we)"

record 'w transport =
  tr_roundTrip :: "client_message \<Rightarrow> 'w \<Rightarrow> (client_error + client_message) \<times> 'w"
  tr_notify :: "client_message \<Rightarrow> 'w \<Rightarrow> client_error option \<times> 'w"

record server_info =
  si_name :: string
  si_version :: string

record 'w client =
  cl_name :: string
  cl_version :: string
  cl_sampling :: "(gval option \<Rightarrow> 'w \<Rightarrow> (string + gval) \<times> 'w) option"
  cl_rootsHandler :: "('w \<Rightarrow> (string + root_entry list option) \<times> 'w) option"
  cl_roots :: "root_entry list option"
  cl_notifyHandler :: "(string \<Rightarrow> gval option \<Rightarrow> 'w \<Rightarrow> 'w) option"
  cl_idCtr :: nat
  cl_serverInfo :: server_info
  cl_serverCapabilities :: "gval option"
  cl_protocolVersion :: string

definition WithClientInfo :: "string \<Rightarrow> string \<Rightarrow> 'w client \<Rightarrow> 'w client" where
  "WithClientInfo name ver c = c\<lparr>cl_name := name, cl_version := ver\<rparr>"

definition WithSamplingHandler :: "(gval option \<Rightarrow> 'w \<Rightarrow> (string + gval) \<times> 'w) option \<Rightarrow> 'w client \<Rightarrow> 'w client" where
  "WithSamplingHandler h c = c\<lparr>cl_sampling := h\<rparr>"

definition WithRoots :: "root_entry list option \<Rightarrow> 'w client \<Rightarrow> 'w client" where
  "WithRoots roots c = c\<lparr>cl_roots := roots\<rparr>"

definition WithRootsHandler :: "('w \<Rightarrow> (string + root_entry list option) \<times> 'w) option \<Rightarrow> 'w client \<Rightarrow> 'w client" where
  "WithRootsHandler h c = c\<lparr>cl_rootsHandler := h\<rparr>"

definition WithNotificationHandler :: "(string \<Rightarrow> gval option \<Rightarrow> 'w \<Rightarrow> 'w) option \<Rightarrow> 'w client \<Rightarrow> 'w client" where
  "WithNotificationHandler h c = c\<lparr>cl_notifyHandler := h\<rparr>"

definition newClient :: "('w client \<Rightarrow> 'w client) list \<Rightarrow> 'w client" where
  "newClient opts = fold (\<lambda>opt. opt) opts
     \<lparr>cl_name = ''fastmcp-client'', cl_version = DefaultVersion, cl_sampling = None, cl_rootsHandler = None,
      cl_roots = None, cl_notifyHandler = None, cl_idCtr = 0, cl_serverInfo = \<lparr>si_name = [], si_version = []\<rparr>,
      cl_serverCapabilities = None, cl_protocolVersion = []\<rparr>"

definition nextID :: "'w client \<Rightarrow> nat \<times> 'w client" where
  "nextID c = (cl_idCtr c + 1, c\<lparr>cl_idCtr := cl_idCtr c + 1\<rparr>)"

text \<open>\<open>call\<close>: the parameters are marshalled on their own before the message is.\<close>

definition client_call ::
  "json_lib \<Rightarrow> 'w transport \<Rightarrow> string \<Rightarrow> gval option \<Rightarrow> 'w client \<Rightarrow> 'w \<Rightarrow> ((client_error + gval option) \<times> 'w client) \<times> 'w" where
  "client_call js tr meth params c w =
     (case nextID c of (i, c') \<Rightarrow>
        (case (case params of None \<Rightarrow> None | Some p \<Rightarrow> (case js_enc js p of Inl e \<Rightarrow> Some e | Inr _ \<Rightarrow> None)) of
           Some e \<Rightarrow> ((Inl (CText e), c'), w)
         | None \<Rightarrow>
             (case tr_roundTrip tr (empty_message\<lparr>cm_id := Some (GInt (int i)), cm_method := meth, cm_params := params\<rparr>) w of
                (Inl e, w') \<Rightarrow> ((Inl e, c'), w')
              | (Inr resp, w') \<Rightarrow>
                  ((case cm_error resp of Some e \<Rightarrow> Inl (CRpc e) | None \<Rightarrow> Inr (cm_result resp), c'), w'))))"

definition client_notify ::
  "json_lib \<Rightarrow> 'w transport \<Rightarrow> string \<Rightarrow> gval option \<Rightarrow> 'w \<Rightarrow> client_error option \<times> 'w" where
  "client_notify js tr meth params w =
     (case (case params of None \<Rightarrow> None | Some p \<Rightarrow> (case js_enc js p of Inl e \<Rightarrow> Some e | Inr _ \<Rightarrow> None)) of
        Some e \<Rightarrow> (Some (CText e), w)
      | None \<Rightarrow> tr_notify tr (empty_message\<lparr>cm_method := meth, cm_params := params\<rparr>) w)"

definition handleNotification :: "'w client \<Rightarrow> string \<Rightarrow> gval option \<Rightarrow> 'w \<Rightarrow> 'w" where
  "handleNotification c meth params w = (case cl_notifyHandler c of None \<Rightarrow> w | Some h \<Rightarrow> h meth params w)"

definition root_json :: "root_entry \<Rightarrow> gval" where
  "root_json r = GMap ([(''uri'', GStr (rt_uri r))] @ opt_str ''name'' (rt_name r))"

definition wire_err :: "int \<Rightarrow> string \<Rightarrow> wire_error" where
  "wire_err code msg = \<lparr>we_code = code, we_message = msg, we_data = GNil\<rparr>"

definition marshal_result :: "json_lib \<Rightarrow> gval \<Rightarrow> wire_error + gval" where
  "marshal_result js v = (case js_enc js v of Inl e \<Rightarrow> Inl (wire_err ErrInternal e) | Inr _ \<Rightarrow> Inr v)"

definition handleServerRequest ::
  "json_lib \<Rightarrow> 'w client \<Rightarrow> string \<Rightarrow> gval option \<Rightarrow> 'w \<Rightarrow> (wire_error + gval) \<times> 'w" where
  "handleServerRequest js c meth params w =
     (if meth = ''ping'' then (Inr (GMap []), w)
      else if meth = ''sampling/createMessage'' then
        (case cl_sampling c of
           None \<Rightarrow> (Inl (wire_err ErrMethodNotFound ''client has no sampling handler''), w)
         | Some h \<Rightarrow>
             (case h params w of
                (Inl e, w') \<Rightarrow> (Inl (wire_err ErrInternal e), w')
              | (Inr v, w') \<Rightarrow> (marshal_result js v, w')))
      else if meth = ''roots/list'' then
        (case (case cl_rootsHandler c of None \<Rightarrow> (Inr (cl_roots c), w) | Some h \<Rightarrow> h w) of
           (Inl e, w') \<Rightarrow> (Inl (wire_err ErrInternal e), w')
         | (Inr rs, w') \<Rightarrow>
             (marshal_result js (GMap [(''roots'', GList (map root_json (case rs of None \<Rightarrow> [] | Some r \<Rightarrow> r)))]), w'))
      else (Inl (wire_err ErrMethodNotFound (''method not found: '' @ meth)), w))"

section \<open>The calls\<close>

text \<open>A result decoded into a zero target.\<close>

definition decode_result ::
  "json_lib \<Rightarrow> (string \<Rightarrow> gval \<Rightarrow> 's \<Rightarrow> 's option) \<Rightarrow> 's \<Rightarrow> ((client_error + gval option) \<times> 'w client) \<times> 'w
     \<Rightarrow> ((client_error + 's) \<times> 'w client) \<times> 'w" where
  "decode_result js step zero r =
     (case r of
        ((Inl e, c), w) \<Rightarrow> ((Inl e, c), w)
      | ((Inr raw, c), w) \<Rightarrow>
          ((case unmarshal step zero raw of None \<Rightarrow> Inl (CText (js_text js)) | Some x \<Rightarrow> Inr x, c), w))"

record init_result =
  ir_protocolVersion :: string
  ir_capabilities :: "gval option"
  ir_serverInfo :: server_info
  ir_instructions :: string

definition step_server_info :: "string \<Rightarrow> gval \<Rightarrow> server_info \<Rightarrow> server_info option" where
  "step_server_info k v s =
     (if equal_fold k ''name'' then map_option (\<lambda>x. s\<lparr>si_name := x\<rparr>) (put_str v (si_name s))
      else if equal_fold k ''version'' then map_option (\<lambda>x. s\<lparr>si_version := x\<rparr>) (put_str v (si_version s))
      else Some s)"

definition step_init :: "string \<Rightarrow> gval \<Rightarrow> init_result \<Rightarrow> init_result option" where
  "step_init k v r =
     (if equal_fold k ''protocolVersion''
      then map_option (\<lambda>x. r\<lparr>ir_protocolVersion := x\<rparr>) (put_str v (ir_protocolVersion r))
      else if equal_fold k ''capabilities'' then Some (r\<lparr>ir_capabilities := Some v\<rparr>)
      else if equal_fold k ''serverInfo''
      then map_option (\<lambda>x. r\<lparr>ir_serverInfo := x\<rparr>) (decode_value step_server_info v (ir_serverInfo r))
      else if equal_fold k ''instructions''
      then map_option (\<lambda>x. r\<lparr>ir_instructions := x\<rparr>) (put_str v (ir_instructions r))
      else Some r)"

definition empty_init :: init_result where
  "empty_init = \<lparr>ir_protocolVersion = [], ir_capabilities = None, ir_serverInfo = \<lparr>si_name = [], si_version = []\<rparr>, ir_instructions = []\<rparr>"

definition init_params :: "'w client \<Rightarrow> gval" where
  "init_params c = GMap
     [(''capabilities'', GMap
        ((if cl_roots c \<noteq> None \<or> cl_rootsHandler c \<noteq> None then [(''roots'', GMap [(''listChanged'', GBool False)])] else [])
         @ (if cl_sampling c \<noteq> None then [(''sampling'', GMap [])] else []))),
      (''clientInfo'', GMap [(''name'', GStr (cl_name c)), (''version'', GStr (cl_version c))]),
      (''protocolVersion'', GStr ProtocolVersion)]"

definition Initialize ::
  "json_lib \<Rightarrow> 'w transport \<Rightarrow> 'w client \<Rightarrow> 'w \<Rightarrow> ((client_error + init_result) \<times> 'w client) \<times> 'w" where
  "Initialize js tr c w =
     (case decode_result js step_init empty_init (client_call js tr ''initialize'' (Some (init_params c)) c w) of
        ((Inl e, c'), w') \<Rightarrow> ((Inl e, c'), w')
      | ((Inr res, c'), w') \<Rightarrow>
          let c'' = c'\<lparr>cl_serverInfo := ir_serverInfo res, cl_serverCapabilities := ir_capabilities res,
                       cl_protocolVersion := ir_protocolVersion res\<rparr>
          in (case client_notify js tr ''notifications/initialized'' None w' of
                (Some e, w'') \<Rightarrow> ((Inl e, c''), w'')
              | (None, w'') \<Rightarrow> ((Inr res, c''), w'')))"

text \<open>A call whose result is not read.\<close>

definition drop_result :: "((client_error + gval option) \<times> 'w client) \<times> 'w \<Rightarrow> (client_error option \<times> 'w client) \<times> 'w" where
  "drop_result r = (case r of ((Inl e, c), w) \<Rightarrow> ((Some e, c), w) | ((Inr _, c), w) \<Rightarrow> ((None, c), w))"

definition Ping where
  "Ping js tr c w = drop_result (client_call js tr ''ping'' None c w)"

record tool_desc =
  td_name :: string
  td_description :: string
  td_inputSchema :: "gval option"
  td_outputSchema :: "gval option"

definition step_tool_desc :: "string \<Rightarrow> gval \<Rightarrow> tool_desc \<Rightarrow> tool_desc option" where
  "step_tool_desc k v t =
     (if equal_fold k ''name'' then map_option (\<lambda>s. t\<lparr>td_name := s\<rparr>) (put_str v (td_name t))
      else if equal_fold k ''description'' then map_option (\<lambda>s. t\<lparr>td_description := s\<rparr>) (put_str v (td_description t))
      else if equal_fold k ''inputSchema'' then Some (t\<lparr>td_inputSchema := Some v\<rparr>)
      else if equal_fold k ''outputSchema'' then Some (t\<lparr>td_outputSchema := Some v\<rparr>)
      else Some t)"

definition cl_ListTools where
  "cl_ListTools js tr c w =
     decode_result js (step_field ''tools'' (\<lambda>v _. put_list step_tool_desc
         \<lparr>td_name = [], td_description = [], td_inputSchema = None, td_outputSchema = None\<rparr> v)) []
       (client_call js tr ''tools/list'' None c w)"

record tool_call_result =
  tc_content :: "content list"
  tc_structured :: "gval option"
  tc_isError :: bool

definition step_tool_call :: "string \<Rightarrow> gval \<Rightarrow> tool_call_result \<Rightarrow> tool_call_result option" where
  "step_tool_call k v r =
     (if equal_fold k ''content''
      then map_option (\<lambda>cs. r\<lparr>tc_content := cs\<rparr>) (put_list step_content (empty_content []) v)
      else if equal_fold k ''structuredContent'' then Some (r\<lparr>tc_structured := Some v\<rparr>)
      else if equal_fold k ''isError'' then map_option (\<lambda>b. r\<lparr>tc_isError := b\<rparr>) (put_bool v (tc_isError r))
      else Some r)"

definition empty_tool_call :: tool_call_result where
  "empty_tool_call = \<lparr>tc_content = [], tc_structured = None, tc_isError = False\<rparr>"

text \<open>The progress token takes an identifier of its own, before the request's.\<close>

definition call_tool_params :: "string \<Rightarrow> gval option \<Rightarrow> nat \<Rightarrow> gval" where
  "call_tool_params name args token = GMap
     ([(''_meta'', GMap [(''progressToken'', GInt (int token))])] @ opt_raw ''arguments'' args @ [(''name'', GStr name)])"

definition cl_CallTool ::
  "json_lib \<Rightarrow> 'w transport \<Rightarrow> string \<Rightarrow> gval option \<Rightarrow> 'w client \<Rightarrow> 'w \<Rightarrow> ((client_error + tool_call_result) \<times> 'w client) \<times> 'w" where
  "cl_CallTool js tr name args c w =
     (case nextID c of (token, c') \<Rightarrow>
        decode_result js step_tool_call empty_tool_call
          (client_call js tr ''tools/call'' (Some (call_tool_params name args token)) c' w))"

definition cl_ListResources where
  "cl_ListResources js tr c w =
     decode_result js (step_field ''resources'' (\<lambda>v _. put_list (step_res_info ''uri'') empty_res_info v)) []
       (client_call js tr ''resources/list'' None c w)"

definition uri_params :: "string \<Rightarrow> gval" where
  "uri_params uri = GMap [(''uri'', GStr uri)]"

definition cl_ReadResource where
  "cl_ReadResource js tr uri c w =
     decode_result js (step_field ''contents'' (\<lambda>v _. put_list step_res empty_res v)) []
       (client_call js tr ''resources/read'' (Some (uri_params uri)) c w)"

definition cl_Subscribe where
  "cl_Subscribe js tr uri c w = drop_result (client_call js tr ''resources/subscribe'' (Some (uri_params uri)) c w)"

definition cl_Unsubscribe where
  "cl_Unsubscribe js tr uri c w = drop_result (client_call js tr ''resources/unsubscribe'' (Some (uri_params uri)) c w)"

definition cl_ListPrompts where
  "cl_ListPrompts js tr c w =
     decode_result js (step_field ''prompts'' (\<lambda>v _. put_list step_prompt_info
         \<lparr>pi_name = [], pi_description = [], pi_arguments = []\<rparr> v)) []
       (client_call js tr ''prompts/list'' None c w)"

record prompt_result =
  pr_description :: string
  pr_messages :: "prompt_message list"

definition step_prompt_result :: "string \<Rightarrow> gval \<Rightarrow> prompt_result \<Rightarrow> prompt_result option" where
  "step_prompt_result k v r =
     (if equal_fold k ''description'' then map_option (\<lambda>s. r\<lparr>pr_description := s\<rparr>) (put_str v (pr_description r))
      else if equal_fold k ''messages''
      then map_option (\<lambda>ms. r\<lparr>pr_messages := ms\<rparr>)
             (put_list step_message \<lparr>pm_role = [], pm_content = empty_content []\<rparr> v)
      else Some r)"

text \<open>A nil map of arguments is not sent.\<close>

definition cl_GetPrompt where
  "cl_GetPrompt js tr name (args :: (string \<times> string) list option) c w =
     decode_result js step_prompt_result \<lparr>pr_description = [], pr_messages = []\<rparr>
       (client_call js tr ''prompts/get''
          (Some (GMap (opt_raw ''arguments'' (map_option (\<lambda>a. GMap (map (\<lambda>(k, v). (k, GStr v)) a)) args)
             @ [(''name'', GStr name)]))) c w)"

record completion_result =
  cr_values :: "string list"
  cr_total :: int
  cr_hasMore :: bool

definition step_completion :: "string \<Rightarrow> gval \<Rightarrow> completion_result \<Rightarrow> completion_result option" where
  "step_completion k v r =
     (if equal_fold k ''values'' then map_option (\<lambda>s. r\<lparr>cr_values := s\<rparr>) (put_strs v)
      else if equal_fold k ''total'' then map_option (\<lambda>i. r\<lparr>cr_total := i\<rparr>) (put_int v (cr_total r))
      else if equal_fold k ''hasMore'' then map_option (\<lambda>b. r\<lparr>cr_hasMore := b\<rparr>) (put_bool v (cr_hasMore r))
      else Some r)"

definition empty_completion :: completion_result where
  "empty_completion = \<lparr>cr_values = [], cr_total = 0, cr_hasMore = False\<rparr>"

definition cl_complete where
  "cl_complete js tr ref argument val c w =
     decode_result js (step_field ''completion'' (\<lambda>v s. decode_value step_completion v s)) empty_completion
       (client_call js tr ''completion/complete''
          (Some (GMap [(''argument'', GMap [(''name'', GStr argument), (''value'', GStr val)]), (''ref'', ref)])) c w)"

definition cl_CompletePrompt where
  "cl_CompletePrompt js tr promptName = cl_complete js tr (GMap [(''name'', GStr promptName), (''type'', GStr ''ref/prompt'')])"

definition cl_CompleteResource where
  "cl_CompleteResource js tr uriTemplate =
     cl_complete js tr (GMap [(''type'', GStr ''ref/resource''), (''uri'', GStr uriTemplate)])"

section \<open>The HTTP transport\<close>

text \<open>\<open>post\<close> is the HTTP exchange of a body: an error, or the body that came back.\<close>

definition max_response :: nat where "max_response = 16 * 1024 * 1024"

definition http_roundTrip ::
  "json_lib \<Rightarrow> (string \<Rightarrow> 'w \<Rightarrow> (string + string) \<times> 'w) \<Rightarrow> client_message \<Rightarrow> 'w \<Rightarrow> (client_error + client_message) \<times> 'w" where
  "http_roundTrip js post req w =
     (case js_enc js (wire_message_json req) of
        Inl e \<Rightarrow> (Inl (CText e), w)
      | Inr body \<Rightarrow>
          (case post body w of
             (Inl e, w') \<Rightarrow> (Inl (CText e), w')
           | (Inr resp, w') \<Rightarrow>
               let data = take max_response resp
               in (if trim_space data = [] then Inr empty_message
                   else (case unmarshal step_message_in empty_message (js_dec js data) of
                           None \<Rightarrow> Inl (CText (js_text js))
                         | Some m \<Rightarrow> Inr m), w')))"

definition http_notify ::
  "json_lib \<Rightarrow> (string \<Rightarrow> 'w \<Rightarrow> (string + string) \<times> 'w) \<Rightarrow> client_message \<Rightarrow> 'w \<Rightarrow> client_error option \<times> 'w" where
  "http_notify js post note w =
     (case js_enc js (wire_message_json note) of
        Inl e \<Rightarrow> (Some (CText e), w)
      | Inr body \<Rightarrow> (case post body w of (Inl e, w') \<Rightarrow> (Some (CText e), w') | (Inr _, w') \<Rightarrow> (None, w')))"

definition httpTransport :: "json_lib \<Rightarrow> (string \<Rightarrow> 'w \<Rightarrow> (string + string) \<times> 'w) \<Rightarrow> 'w transport" where
  "httpTransport js post = \<lparr>tr_roundTrip = http_roundTrip js post, tr_notify = http_notify js post\<rparr>"

section \<open>The stdio transport\<close>

text \<open>A waiter's channel has one place. The channels are named by the text of the identifier
  they were made for; \<open>st_hand\<close> is the answer the read loop took the channel of out of the table
  for and has not sent yet. \<open>st_fault\<close> is set when it would block on a full channel, or panic on
  a closed one; \<open>st_writing\<close> are the calls between their registration and the write, \<open>st_waiting\<close>
  those in the select.\<close>

datatype chan = ChEmpty | ChFull client_message | ChClosed

datatype call_end = Got client_message | CtxDone | ConnClosed | WriteFailed

record 'w stdio_client =
  st_pending :: "string set"
  st_chans :: "string \<rightharpoonup> chan"
  st_writing :: "string \<rightharpoonup> client_message"
  st_waiting :: "string set"
  st_hand :: "(string \<times> client_message) option"
  st_fault :: bool
  st_done :: bool
  st_eof :: bool
  st_jobs :: "client_message list"
  st_notes :: "client_message list"
  st_out :: "client_message list"
  st_results :: "(string \<times> call_end) list"
  st_client :: "'w client"
  st_world :: 'w

definition NewStdio :: "('w client \<Rightarrow> 'w client) list \<Rightarrow> 'w \<Rightarrow> 'w stdio_client" where
  "NewStdio opts w = \<lparr>st_pending = {}, st_chans = Map.empty, st_writing = Map.empty, st_waiting = {}, st_hand = None,
     st_fault = False, st_done = False, st_eof = False, st_jobs = [], st_notes = [], st_out = [], st_results = [],
     st_client = newClient opts, st_world = w\<rparr>"

definition id_text :: "nat \<Rightarrow> string" where
  "id_text i = nat_dec i"

text \<open>\<open>roundTrip\<close> up to the write.\<close>

definition st_start :: "string \<Rightarrow> gval option \<Rightarrow> 'w stdio_client \<Rightarrow> 'w stdio_client" where
  "st_start meth params s =
     (case nextID (st_client s) of (i, c) \<Rightarrow>
        s\<lparr>st_client := c, st_pending := insert (id_text i) (st_pending s), st_chans := (st_chans s)(id_text i \<mapsto> ChEmpty),
          st_writing := (st_writing s)(id_text i \<mapsto>
             empty_message\<lparr>cm_id := Some (GInt (int i)), cm_method := meth, cm_params := params\<rparr>)\<rparr>)"

text \<open>The write, that may fail.\<close>

definition st_write :: "string \<Rightarrow> bool \<Rightarrow> 'w stdio_client \<Rightarrow> 'w stdio_client option" where
  "st_write key success s =
     (case st_writing s key of
        None \<Rightarrow> None
      | Some m \<Rightarrow>
          Some (if success
            then s\<lparr>st_writing := (st_writing s)(key := None), st_out := st_out s @ [m], st_waiting := insert key (st_waiting s)\<rparr>
            else s\<lparr>st_writing := (st_writing s)(key := None), st_pending := st_pending s - {key},
                   st_results := st_results s @ [(key, WriteFailed)]\<rparr>))"

text \<open>The cases of the select.\<close>

datatype select_case = SelCtx | SelDone | SelChan

definition st_finish :: "string \<Rightarrow> call_end \<Rightarrow> 'w stdio_client \<Rightarrow> 'w stdio_client" where
  "st_finish key r s = s\<lparr>st_waiting := st_waiting s - {key}, st_results := st_results s @ [(key, r)]\<rparr>"

definition st_select :: "string \<Rightarrow> select_case \<Rightarrow> 'w stdio_client \<Rightarrow> 'w stdio_client option" where
  "st_select key sel s =
     (if key \<notin> st_waiting s then None
      else (case sel of
              SelCtx \<Rightarrow> Some (st_finish key CtxDone s)
            | SelDone \<Rightarrow> if st_done s then Some (st_finish key ConnClosed s) else None
            | SelChan \<Rightarrow>
                (case st_chans s key of
                   Some (ChFull m) \<Rightarrow> Some (st_finish key (Got m) (s\<lparr>st_chans := (st_chans s)(key \<mapsto> ChEmpty)\<rparr>))
                 | Some ChClosed \<Rightarrow> Some (st_finish key ConnClosed s)
                 | _ \<Rightarrow> None)))"

text \<open>One turn of the read loop on a line that is not blank: what it decodes to, and the text of
  its id, empty when it has none.\<close>

definition st_line :: "gval option \<Rightarrow> string \<Rightarrow> 'w stdio_client \<Rightarrow> 'w stdio_client" where
  "st_line line raw s =
     (case unmarshal step_message_in empty_message line of
        None \<Rightarrow> s
      | Some m \<Rightarrow>
          if cm_method m = [] then
            (if raw \<in> st_pending s then s\<lparr>st_pending := st_pending s - {raw}, st_hand := Some (raw, m)\<rparr> else s)
          else if raw = [] then s\<lparr>st_notes := st_notes s @ [m]\<rparr>
          else s\<lparr>st_jobs := st_jobs s @ [m]\<rparr>)"

text \<open>The send on the channel taken out.\<close>

definition st_send :: "'w stdio_client \<Rightarrow> 'w stdio_client option" where
  "st_send s =
     (case st_hand s of
        None \<Rightarrow> None
      | Some (key, m) \<Rightarrow>
          Some (case st_chans s key of
                  Some ChEmpty \<Rightarrow> s\<lparr>st_hand := None, st_chans := (st_chans s)(key \<mapsto> ChFull m)\<rparr>
                | _ \<Rightarrow> s\<lparr>st_fault := True\<rparr>))"

text \<open>\<open>serveRequest\<close> and a notification, each on its goroutine.\<close>

definition remove_nth :: "nat \<Rightarrow> 'a list \<Rightarrow> 'a list" where
  "remove_nth i xs = take i xs @ drop (Suc i) xs"

definition client_reply :: "client_message \<Rightarrow> wire_error + gval \<Rightarrow> client_message" where
  "client_reply m r = (case r of
       Inl e \<Rightarrow> empty_message\<lparr>cm_id := cm_id m, cm_error := Some e\<rparr>
     | Inr v \<Rightarrow> empty_message\<lparr>cm_id := cm_id m, cm_result := Some v\<rparr>)"

definition serveRequest :: "json_lib \<Rightarrow> nat \<Rightarrow> 'w stdio_client \<Rightarrow> 'w stdio_client option" where
  "serveRequest js i s =
     (if i < length (st_jobs s) then
        (case handleServerRequest js (st_client s) (cm_method (st_jobs s ! i)) (cm_params (st_jobs s ! i)) (st_world s) of
           (r, w) \<Rightarrow> Some (s\<lparr>st_jobs := remove_nth i (st_jobs s), st_world := w,
                             st_out := st_out s @ [client_reply (st_jobs s ! i) r]\<rparr>))
      else None)"

definition runNotification :: "nat \<Rightarrow> 'w stdio_client \<Rightarrow> 'w stdio_client option" where
  "runNotification i s =
     (if i < length (st_notes s) then
        Some (s\<lparr>st_notes := remove_nth i (st_notes s),
                st_world := handleNotification (st_client s) (cm_method (st_notes s ! i)) (cm_params (st_notes s ! i)) (st_world s)\<rparr>)
      else None)"

text \<open>\<open>shutdown\<close>: closing a closed channel panics.\<close>

definition st_shutdown :: "'w stdio_client \<Rightarrow> 'w stdio_client" where
  "st_shutdown s =
     s\<lparr>st_done := True, st_pending := {},
       st_fault := (st_fault s \<or> (\<exists>key\<in>st_pending s. st_chans s key = Some ChClosed)),
       st_chans := (\<lambda>key. if key \<in> st_pending s then Some ChClosed else st_chans s key)\<rparr>"

text \<open>\<open>notify\<close>, when the write succeeds.\<close>

definition st_notify :: "string \<Rightarrow> gval option \<Rightarrow> 'w stdio_client \<Rightarrow> 'w stdio_client" where
  "st_notify meth params s = s\<lparr>st_out := st_out s @ [empty_message\<lparr>cm_method := meth, cm_params := params\<rparr>]\<rparr>"

datatype client_label =
    CStart string "gval option"
  | CToken
  | CNotify string "gval option"
  | CWrite string bool
  | CSelect string select_case
  | CLine "gval option" string
  | CSend
  | CServe nat
  | CNote nat
  | CClose
  | CEOF

inductive client_step :: "json_lib \<Rightarrow> 'w stdio_client \<Rightarrow> client_label \<Rightarrow> 'w stdio_client \<Rightarrow> bool" for js :: json_lib where
  c_start: "client_step js s (CStart meth params) (st_start meth params s)"
| c_token: "client_step js s CToken (s\<lparr>st_client := snd (nextID (st_client s))\<rparr>)"
| c_notify: "client_step js s (CNotify meth params) (st_notify meth params s)"
| c_write: "st_write key success s = Some s' \<Longrightarrow> client_step js s (CWrite key success) s'"
| c_select: "st_select key sel s = Some s' \<Longrightarrow> client_step js s (CSelect key sel) s'"
| c_line: "st_hand s = None \<Longrightarrow> \<not> st_eof s \<Longrightarrow> client_step js s (CLine line raw) (st_line line raw s)"
| c_send: "st_send s = Some s' \<Longrightarrow> client_step js s CSend s'"
| c_serve: "serveRequest js i s = Some s' \<Longrightarrow> client_step js s (CServe i) s'"
| c_note: "runNotification i s = Some s' \<Longrightarrow> client_step js s (CNote i) s'"
| c_close: "client_step js s CClose (st_shutdown s)"
| c_eof: "st_hand s = None \<Longrightarrow> client_step js s CEOF (st_shutdown (s\<lparr>st_eof := True\<rparr>))"

inductive_cases client_stepE: "client_step js s l s'"

inductive client_run :: "json_lib \<Rightarrow> 'w stdio_client \<Rightarrow> client_label list \<Rightarrow> 'w stdio_client \<Rightarrow> bool" for js :: json_lib where
  run_none: "client_run js s [] s"
| run_more: "client_run js s ls s' \<Longrightarrow> client_step js s' l s'' \<Longrightarrow> client_run js s (ls @ [l]) s''"

section \<open>Facts about the stdio transport\<close>

lemma id_text_inj: "id_text a = id_text b \<longleftrightarrow> a = b"
  by (simp add: id_text_def nat_dec_inj)

text \<open>An answer that was read.\<close>

definition answer_read :: "client_label list \<Rightarrow> string \<Rightarrow> client_message \<Rightarrow> bool" where
  "answer_read ls key m \<longleftrightarrow>
     (\<exists>line. CLine line key \<in> set ls \<and> unmarshal step_message_in empty_message line = Some m \<and> cm_method m = [])"

text \<open>The identifiers of the calls that were issued: a progress token takes one too.\<close>

definition issue :: "client_label \<Rightarrow> string list \<times> nat \<Rightarrow> string list \<times> nat" where
  "issue l st = (case (l, st) of
       (CStart _ _, (ks, n)) \<Rightarrow> (ks @ [id_text (n + 1)], n + 1)
     | (CToken, (ks, n)) \<Rightarrow> (ks, n + 1)
     | (_, (ks, n)) \<Rightarrow> (ks, n))"

definition issued_ids :: "client_label list \<Rightarrow> string list" where
  "issued_ids ls = fst (fold issue ls ([], 0))"

definition open_calls :: "'w stdio_client \<Rightarrow> string set" where
  "open_calls s = dom (st_writing s) \<union> st_waiting s"

text \<open>The channels: those of the table and the one in hand are empty, what they carry was read. The
  calls: each channel belongs to one call, which is running or has ended, once.\<close>

definition chan_inv :: "client_label list \<Rightarrow> 'w stdio_client \<Rightarrow> bool" where
  "chan_inv ls s \<longleftrightarrow>
     \<not> st_fault s
     \<and> (\<forall>key\<in>st_pending s. st_chans s key = Some ChEmpty)
     \<and> (\<forall>key m. st_hand s = Some (key, m) \<longrightarrow> key \<notin> st_pending s \<and> st_chans s key = Some ChEmpty \<and> answer_read ls key m)
     \<and> (\<forall>key m. st_chans s key = Some (ChFull m) \<longrightarrow> answer_read ls key m)
     \<and> (\<forall>key m. (key, Got m) \<in> set (st_results s) \<longrightarrow> answer_read ls key m)"

definition calls_ok :: "nat \<Rightarrow> string set \<Rightarrow> string set \<Rightarrow> string set \<Rightarrow> (string \<times> call_end) list \<Rightarrow> bool" where
  "calls_ok n used writing waiting ended \<longleftrightarrow>
     used \<subseteq> id_text ` {1..n} \<and> writing \<union> waiting \<union> fst ` set ended = used
     \<and> writing \<inter> waiting = {} \<and> (writing \<union> waiting) \<inter> fst ` set ended = {} \<and> distinct (map fst ended)"

definition call_inv :: "'w stdio_client \<Rightarrow> bool" where
  "call_inv s \<longleftrightarrow> calls_ok (cl_idCtr (st_client s)) (dom (st_chans s)) (dom (st_writing s)) (st_waiting s) (st_results s)"

lemma calls_mono: "calls_ok n D W X rs \<Longrightarrow> n \<le> n' \<Longrightarrow> calls_ok n' D W X rs"
proof -
  assume c: "calls_ok n D W X rs" and n: "n \<le> n'"
  then have "{1..n} \<subseteq> {1..n'}" by auto
  then have "id_text ` {1..n} \<subseteq> id_text ` {1..n'}" by (rule image_mono)
  with c show ?thesis unfolding calls_ok_def by blast
qed

lemma calls_fresh: "calls_ok n D W X rs \<Longrightarrow> id_text (Suc n) \<notin> D"
  by (auto simp: calls_ok_def id_text_inj)

lemma calls_start:
  "calls_ok n D W X rs \<Longrightarrow> calls_ok (Suc n) (insert (id_text (Suc n)) D) (insert (id_text (Suc n)) W) X rs"
proof -
  assume c: "calls_ok n D W X rs"
  then have "id_text (Suc n) \<notin> D" by (rule calls_fresh)
  moreover have "D \<subseteq> id_text ` {1..Suc n}" using calls_mono [OF c, of "Suc n"] by (simp add: calls_ok_def)
  ultimately show ?thesis using c unfolding calls_ok_def by auto
qed

lemma calls_moves:
  assumes "calls_ok n D W X rs"
  shows "k \<in> W \<Longrightarrow> calls_ok n D (W - {k}) (insert k X) rs"
    and "k \<in> W \<Longrightarrow> calls_ok n D (W - {k}) X (rs @ [(k, r)])"
    and "k \<in> X \<Longrightarrow> calls_ok n D W (X - {k}) (rs @ [(k, r)])"
  using assms unfolding calls_ok_def by auto

lemma answer_read_mono: "answer_read ls key m \<Longrightarrow> answer_read (ls @ [l]) key m"
  by (auto simp: answer_read_def)

text \<open>What the steps that only touch the other parts of the state leave.\<close>

lemma serve_frames:
  "serveRequest js i s = Some s' \<Longrightarrow> st_chans s' = st_chans s \<and> st_pending s' = st_pending s \<and> st_hand s' = st_hand s
     \<and> st_fault s' = st_fault s \<and> st_results s' = st_results s \<and> st_waiting s' = st_waiting s \<and> st_writing s' = st_writing s
     \<and> st_client s' = st_client s"
  by (auto simp: serveRequest_def split: if_splits prod.splits)

lemma note_frames:
  "runNotification i s = Some s' \<Longrightarrow> st_chans s' = st_chans s \<and> st_pending s' = st_pending s \<and> st_hand s' = st_hand s
     \<and> st_fault s' = st_fault s \<and> st_results s' = st_results s \<and> st_waiting s' = st_waiting s \<and> st_writing s' = st_writing s
     \<and> st_client s' = st_client s"
  by (auto simp: runNotification_def split: if_splits)

lemma line_frames:
  "st_chans (st_line line raw s) = st_chans s" "st_fault (st_line line raw s) = st_fault s"
  "st_results (st_line line raw s) = st_results s" "st_waiting (st_line line raw s) = st_waiting s"
  "st_writing (st_line line raw s) = st_writing s" "st_client (st_line line raw s) = st_client s"
  "st_pending (st_line line raw s) \<subseteq> st_pending s"
  by (auto simp: st_line_def split: option.split)

lemma dom_remove: "dom (m(k := None)) = dom m - {k}"
  by auto

lemma shutdown_dom: "chan_inv ls s \<Longrightarrow> dom (st_chans (st_shutdown s)) = dom (st_chans s)"
  by (auto simp: st_shutdown_def chan_inv_def split: if_splits)

lemma shutdown_frames:
  "st_results (st_shutdown s) = st_results s" "st_waiting (st_shutdown s) = st_waiting s"
  "st_writing (st_shutdown s) = st_writing s" "st_client (st_shutdown s) = st_client s"
  by (simp_all add: st_shutdown_def)

lemma step_call_inv: "client_step js s l s' \<Longrightarrow> call_inv s \<Longrightarrow> chan_inv ls s \<Longrightarrow> call_inv s'"
proof (induction rule: client_step.induct)
  case (c_start s meth params)
  then show ?case
    using calls_start by (simp add: call_inv_def st_start_def nextID_def)
next
  case (c_token s)
  then show ?case by (auto simp: call_inv_def nextID_def intro: calls_mono)
next
  case (c_notify s meth params)
  then show ?case by (simp add: call_inv_def st_notify_def)
next
  case (c_write key success s s')
  then obtain m where m: "st_writing s key = Some m" by (auto simp: st_write_def split: option.splits)
  then have d: "key \<in> dom (st_writing s)" by blast
  note moves = calls_moves(1,2) [OF c_write(2) [unfolded call_inv_def] d]
  from c_write(1) m moves show ?case
    by (cases success) (auto simp: st_write_def call_inv_def dom_remove simp del: dom_fun_upd)
next
  case (c_select key sel s s')
  then have "key \<in> st_waiting s" by (simp add: st_select_def split: if_splits)
  moreover have "dom (st_chans s') = dom (st_chans s) \<and> st_waiting s' = st_waiting s - {key} \<and> st_writing s' = st_writing s
      \<and> st_client s' = st_client s \<and> (\<exists>r. st_results s' = st_results s @ [(key, r)])"
    using c_select(1) by (auto simp: st_select_def st_finish_def split: select_case.splits option.splits chan.splits if_splits)
  ultimately show ?case using c_select(2) by (auto simp: call_inv_def intro: calls_moves(3))
next
  case (c_line s line raw)
  then show ?case by (simp add: call_inv_def line_frames)
next
  case (c_send s s')
  have "dom (st_chans s') = dom (st_chans s)"
    using c_send(1) by (auto simp: st_send_def split: option.splits chan.splits if_splits)
  moreover have "st_results s' = st_results s" "st_waiting s' = st_waiting s" "st_writing s' = st_writing s" "st_client s' = st_client s"
    using c_send(1) by (auto simp: st_send_def split: option.splits chan.splits)
  ultimately show ?case using c_send(2) by (simp add: call_inv_def)
next
  case (c_serve i s s')
  then show ?case using serve_frames [OF c_serve(1)] by (simp add: call_inv_def)
next
  case (c_note i s s')
  then show ?case using note_frames [OF c_note(1)] by (simp add: call_inv_def)
next
  case (c_close s)
  then show ?case by (simp add: call_inv_def shutdown_frames shutdown_dom)
next
  case (c_eof s)
  then have "chan_inv ls (s\<lparr>st_eof := True\<rparr>)" by (simp add: chan_inv_def)
  with c_eof show ?case by (simp add: call_inv_def shutdown_frames shutdown_dom)
qed

lemma shutdown_chan_inv: "chan_inv ls s \<Longrightarrow> chan_inv ls (st_shutdown s)"
  by (auto simp: chan_inv_def st_shutdown_def)

lemma chan_inv_cong:
  assumes "chan_inv ls s" "st_chans s' = st_chans s" "st_pending s' \<subseteq> st_pending s" "st_hand s' = st_hand s"
    "st_fault s' = st_fault s" "st_results s' = st_results s"
  shows "chan_inv (ls @ [l]) s'"
  using assms answer_read_mono unfolding chan_inv_def by (simp add: subset_iff) blast

lemma step_chan_inv: "client_step js s l s' \<Longrightarrow> chan_inv ls s \<Longrightarrow> call_inv s \<Longrightarrow> chan_inv (ls @ [l]) s'"
proof (induction rule: client_step.induct)
  case (c_start s meth params)
  let ?k = "id_text (Suc (cl_idCtr (st_client s)))"
  have f: "st_chans s ?k = None" using calls_fresh [OF c_start(2) [unfolded call_inv_def]] by auto
  have "st_hand s = Some (key, m) \<Longrightarrow> key \<noteq> ?k" for key m using f c_start(1) by (auto simp: chan_inv_def)
  then show ?case
    using c_start(1) answer_read_mono unfolding chan_inv_def by (simp add: st_start_def nextID_def)
next
  case (c_token s)
  show ?case by (rule chan_inv_cong [OF c_token(1)]) simp_all
next
  case (c_notify s meth params)
  show ?case by (rule chan_inv_cong [OF c_notify(1)]) (simp_all add: st_notify_def)
next
  case (c_write key success s s')
  have mono: "chan_inv (ls @ [l]) s" for l by (rule chan_inv_cong [OF c_write(2)]) simp_all
  obtain m where "st_writing s key = Some m" using c_write(1) by (auto simp: st_write_def split: option.splits)
  then show ?case
    using mono [of "CWrite key success"] c_write(1) by (cases success) (auto simp: st_write_def chan_inv_def)
next
  case (c_select key sel s s')
  have mono: "chan_inv (ls @ [l]) s" for l by (rule chan_inv_cong [OF c_select(2)]) simp_all
  show ?case
    using mono [of "CSelect key sel"] c_select(1)
    by (auto simp: chan_inv_def st_select_def st_finish_def split: select_case.splits option.splits chan.splits if_splits)
next
  case (c_line s line raw)
  have mono: "chan_inv (ls @ [l]) s" for l by (rule chan_inv_cong [OF c_line(3)]) simp_all
  show ?case
    using mono [of "CLine line raw"] c_line(1)
    by (auto simp: chan_inv_def st_line_def answer_read_def split: option.split)
next
  case (c_send s s')
  have mono: "chan_inv (ls @ [l]) s" for l by (rule chan_inv_cong [OF c_send(2)]) simp_all
  obtain key m where "st_hand s = Some (key, m)" using c_send(1) by (auto simp: st_send_def split: option.splits)
  then show ?case
    using mono [of CSend] c_send(1) by (auto simp: chan_inv_def st_send_def split: if_splits)
next
  case (c_serve i s s')
  show ?case by (rule chan_inv_cong [OF c_serve(2)]) (use serve_frames [OF c_serve(1)] in simp_all)
next
  case (c_note i s s')
  show ?case by (rule chan_inv_cong [OF c_note(2)]) (use note_frames [OF c_note(1)] in simp_all)
next
  case (c_close s)
  have "chan_inv (ls @ [CClose]) s" by (rule chan_inv_cong [OF c_close(1)]) simp_all
  then show ?case by (rule shutdown_chan_inv)
next
  case (c_eof s)
  have "chan_inv (ls @ [CEOF]) (s\<lparr>st_eof := True\<rparr>)" by (rule chan_inv_cong [OF c_eof(2)]) simp_all
  then show ?case by (rule shutdown_chan_inv)
qed

lemma send_dom: "st_send s = Some s' \<Longrightarrow> dom (st_chans s') = dom (st_chans s) \<and> st_client s' = st_client s"
  by (auto simp: st_send_def split: option.splits chan.splits if_splits)

lemma write_dom: "st_write key success s = Some s' \<Longrightarrow> dom (st_chans s') = dom (st_chans s) \<and> st_client s' = st_client s"
  by (auto simp: st_write_def split: option.splits if_splits)

lemma select_dom: "st_select key sel s = Some s' \<Longrightarrow> dom (st_chans s') = dom (st_chans s) \<and> st_client s' = st_client s"
  by (auto simp: st_select_def st_finish_def split: select_case.splits option.splits chan.splits if_splits)

lemma step_issued:
  "client_step js s l s' \<Longrightarrow> chan_inv ls s \<Longrightarrow> set ks = dom (st_chans s)
     \<Longrightarrow> \<exists>ks'. issue l (ks, cl_idCtr (st_client s)) = (ks', cl_idCtr (st_client s')) \<and> set ks' = dom (st_chans s')"
proof (induction rule: client_step.induct)
  case (c_eof s)
  then have "chan_inv ls (s\<lparr>st_eof := True\<rparr>)" by (simp add: chan_inv_def)
  from shutdown_dom [OF this] c_eof(3) show ?case by (simp add: issue_def shutdown_frames)
next
  case (c_write key success s s')
  then show ?case using write_dom [OF c_write(1)] by (simp add: issue_def)
next
  case (c_select key sel s s')
  then show ?case using select_dom [OF c_select(1)] by (simp add: issue_def)
next
  case (c_send s s')
  then show ?case using send_dom [OF c_send(1)] by (simp add: issue_def)
qed (auto simp: issue_def st_start_def st_notify_def nextID_def line_frames shutdown_frames shutdown_dom
    dest: serve_frames note_frames)

lemma run_inv:
  "client_run js (NewStdio opts w) ls s \<Longrightarrow> cl_idCtr (newClient opts) = 0 \<Longrightarrow>
     chan_inv ls s \<and> call_inv s \<and> (\<exists>ks. fold issue ls ([], 0) = (ks, cl_idCtr (st_client s)) \<and> set ks = dom (st_chans s))"
proof (induction "NewStdio opts w" ls s rule: client_run.induct)
  case run_none
  then show ?case by (simp add: chan_inv_def call_inv_def calls_ok_def NewStdio_def)
next
  case (run_more ls s' l s'')
  then have inv: "chan_inv ls s'" "call_inv s'" by simp_all
  from run_more obtain ks where ks: "fold issue ls ([], 0) = (ks, cl_idCtr (st_client s'))" "set ks = dom (st_chans s')" by auto
  from step_issued [OF run_more(3) inv(1) ks(2)] ks(1)
  show ?case using step_chan_inv [OF run_more(3) inv] step_call_inv [OF run_more(3) inv(2,1)] by auto
qed


text \<open>None of the options touches the counter.\<close>

definition client_options :: "('w client \<Rightarrow> 'w client) list \<Rightarrow> bool" where
  "client_options opts \<longleftrightarrow> (\<forall>opt\<in>set opts. \<forall>c. cl_idCtr (opt c) = cl_idCtr c)"

lemma client_options: "client_options opts \<Longrightarrow> cl_idCtr (newClient opts) = 0"
proof -
  have "client_options opts \<Longrightarrow> cl_idCtr (fold (\<lambda>opt. opt) opts c) = cl_idCtr c" for c
    by (induction opts arbitrary: c) (simp_all add: client_options_def)
  then show "client_options opts \<Longrightarrow> cl_idCtr (newClient opts) = 0" by (simp add: newClient_def)
qed

text \<open>
  C8: the client's read loop is never stuck and never panics. Whatever the order in
  which the server answers, calls are made, written, abandoned, and the connection is shut down:
  the loop never waits on a full channel, never sends on a closed one, and no channel is closed
  twice. Every call that was issued is still running or has ended, and ends once; the answer a
  call gets is a message read with its identifier.
\<close>

theorem client_transport_safe:
  assumes "client_options opts" and "client_run js (NewStdio opts w) ls s"
  shows "\<not> st_fault s \<and> set (issued_ids ls) = open_calls s \<union> fst ` set (st_results s)
    \<and> open_calls s \<inter> fst ` set (st_results s) = {} \<and> distinct (map fst (st_results s))
    \<and> ((key, Got m) \<in> set (st_results s) \<longrightarrow> answer_read ls key m)"
proof -
  from run_inv [OF assms(2) client_options [OF assms(1)]] obtain ks where inv: "chan_inv ls s" "call_inv s"
    and ks: "fold issue ls ([], 0) = (ks, cl_idCtr (st_client s))" "set ks = dom (st_chans s)" by blast
  from inv(2) have "open_calls s \<union> fst ` set (st_results s) = dom (st_chans s)" "open_calls s \<inter> fst ` set (st_results s) = {}"
    "distinct (map fst (st_results s))"
    unfolding call_inv_def calls_ok_def open_calls_def by blast+
  with ks have "set (issued_ids ls) = open_calls s \<union> fst ` set (st_results s)" by (simp add: issued_ids_def)
  moreover from inv(1) have "\<not> st_fault s" "(key, Got m) \<in> set (st_results s) \<longrightarrow> answer_read ls key m"
    unfolding chan_inv_def by blast+
  ultimately show ?thesis using \<open>open_calls s \<inter> _ = {}\<close> \<open>distinct _\<close> by blast
qed

definition demo_pong :: "gval option" where
  "demo_pong = Some (GMap [(''id'', GFloat 1), (''result'', GMap [])])"

text \<open>A ping that is answered, and one that is abandoned: its entry stays in the table.\<close>

definition demo_ls :: "client_label list" where
  "demo_ls = [CStart ''ping'' None, CWrite ''1'' True, CLine demo_pong ''1'', CSend, CSelect ''1'' SelChan]"

lemma id_text_1: "id_text 1 = ''1''" "id_text (Suc 0) = ''1''"
  by code_simp+

lemma demo_pong_in: "unmarshal step_message_in empty_message demo_pong
    = Some (empty_message\<lparr>cm_id := Some (GFloat 1), cm_result := Some (GMap [])\<rparr>)"
  by (simp add: demo_pong_def unmarshal_def decode_value_def step_message_in_def fold_eq fold_keys)

lemma demo_client_run:
  "\<exists>s. client_run js (NewStdio [] (0::nat)) demo_ls s
     \<and> st_results s = [(''1'', Got (empty_message\<lparr>cm_id := Some (GFloat 1), cm_result := Some (GMap [])\<rparr>))]"
proof -
  let ?s0 = "NewStdio [] (0::nat)"
  let ?s1 = "st_start ''ping'' None ?s0"
  have p1: "st_writing ?s1 ''1'' = Some (empty_message\<lparr>cm_id := Some (GInt 1), cm_method := ''ping'', cm_params := None\<rparr>)"
    by (simp add: st_start_def nextID_def NewStdio_def newClient_def id_text_1)
  define s2 where "s2 = the (st_write ''1'' True ?s1)"
  have w: "st_write ''1'' True ?s1 = Some s2" by (simp add: s2_def st_write_def p1)
  have s2: "st_hand s2 = None" "\<not> st_eof s2" "''1'' \<in> st_pending s2" "st_chans s2 ''1'' = Some ChEmpty" "''1'' \<in> st_waiting s2" "st_results s2 = []"
    using w by (auto simp: st_write_def p1) (auto simp: st_start_def nextID_def NewStdio_def newClient_def id_text_1)
  let ?m = "empty_message\<lparr>cm_id := Some (GFloat 1), cm_result := Some (GMap [])\<rparr>"
  let ?s3 = "st_line demo_pong ''1'' s2"
  have s3: "?s3 = s2\<lparr>st_pending := st_pending s2 - {''1''}, st_hand := Some (''1'', ?m)\<rparr>"
    using s2 by (simp add: st_line_def demo_pong_in) (simp add: empty_message_def)
  define s4 where "s4 = ?s3\<lparr>st_hand := None, st_chans := (st_chans ?s3)(''1'' \<mapsto> ChFull ?m)\<rparr>"
  have s4: "st_send ?s3 = Some s4" using s2 by (simp add: st_send_def s3 s4_def)
  define s5 where "s5 = st_finish ''1'' (Got ?m) (s4\<lparr>st_chans := (st_chans s4)(''1'' \<mapsto> ChEmpty)\<rparr>)"
  have s5: "st_select ''1'' SelChan s4 = Some s5"
    using s2 by (simp add: st_select_def s5_def s4_def s3)
  have "client_run js ?s0 [CStart ''ping'' None] ?s1"
    using run_more [OF run_none c_start] by fastforce
  then have "client_run js ?s0 (((([CStart ''ping'' None] @ [CWrite ''1'' True]) @ [CLine demo_pong ''1'']) @ [CSend]) @ [CSelect ''1'' SelChan]) s5"
    using w s2(1,2) s4 s5 by (intro run_more) (auto intro: client_step.intros)
  moreover have "st_results s5 = [(''1'', Got ?m)]" using s2 by (simp add: s5_def st_finish_def s4_def s3)
  ultimately show ?thesis by (auto simp: demo_ls_def)
qed

theorem client_transport_safe_witness:
  "\<exists>s. client_run demo_json (NewStdio [] (0::nat)) demo_ls s \<and> \<not> st_fault s \<and> set (issued_ids demo_ls) = {''1''}
     \<and> answer_read demo_ls ''1'' (empty_message\<lparr>cm_id := Some (GFloat 1), cm_result := Some (GMap [])\<rparr>)"
proof -
  let ?m = "empty_message\<lparr>cm_id := Some (GFloat 1), cm_result := Some (GMap [])\<rparr>"
  obtain s where run: "client_run demo_json (NewStdio [] (0::nat)) demo_ls s" and got: "st_results s = [(''1'', Got ?m)]"
    using demo_client_run by blast
  have "client_options ([] :: (nat client \<Rightarrow> nat client) list)" by (simp add: client_options_def)
  from client_transport_safe [OF this run, of "''1''" ?m] got run
  show ?thesis by (auto simp: demo_ls_def issued_ids_def issue_def id_text_1)
qed

text \<open>An abandoned call leaves its entry behind.\<close>

lemma abandoned_call_stays:
  assumes "st_select key SelCtx s = Some s'" shows "st_pending s' = st_pending s"
  using assms by (auto simp: st_select_def st_finish_def split: if_splits)


section \<open>A client of the modelled server\<close>

text \<open>The HTTP exchange with the server of this development: its handler answers the body.\<close>

definition server_post ::
  "json_lib \<Rightarrow> (gval \<Rightarrow> string + string) \<Rightarrow> ('w \<Rightarrow> 'w server) \<Rightarrow> string \<Rightarrow> 'w \<Rightarrow> (string + string) \<times> 'w" where
  "server_post js m srv body w =
     (case handleHTTPPost m (js_dec js) (srv w) (Inr body) w of (r, w') \<Rightarrow> (Inr (body_text js (hr_body r)), w'))"

lemma keys_lower:
  "to_lower ''_meta'' = ''_meta''" "to_lower ''data'' = ''data''" "to_lower ''value'' = ''value''"
  by code_simp+

lemma message_back:
  "unmarshal step_request empty_request
       (Some (jnorm (wire_message_json (empty_message\<lparr>cm_id := Some (GInt i), cm_method := meth, cm_params := params\<rparr>))))
     = Some \<lparr>rq_id = Some (GFloat (of_int i)), rq_method = meth, rq_params = map_option jnorm params\<rparr>"
  by (cases params; cases "meth = []")
    (simp_all add: wire_message_json_def empty_message_def opt_raw_def opt_str_def unmarshal_def decode_value_def step_request_def
      fold_eq fold_keys put_str_def empty_request_def)

text \<open>The error object a client reads of the one the server wrote.\<close>

definition wire_of :: "json_lib \<Rightarrow> rpc_error \<Rightarrow> wire_error" where
  "wire_of js e = \<lparr>we_code = re_code e, we_message = rpc_msg_text js (re_msg e),
     we_data = (case re_data e of None \<Rightarrow> GNil | Some d \<Rightarrow> GStr (rpc_msg_text js d))\<rparr>"

lemma answer_back:
  "unmarshal step_message_in empty_message (Some (jnorm (response_json js resp))) =
     Some (empty_message\<lparr>cm_id := map_option jnorm (rs_id resp), cm_result := map_option jnorm (rs_result resp),
       cm_error := map_option (wire_of js) (rs_error resp)\<rparr>)"
  by (cases "rs_id resp"; cases "rs_result resp"; cases "rs_error resp"; cases "re_data (the (rs_error resp))")
    (simp_all add: response_json_def unmarshal_def decode_value_def step_message_in_def step_error_def fold_eq fold_keys keys_lower
      put_error_def put_int_def put_str_def empty_message_def wire_of_def)

lemma trim_space_Nil: "trim_space s = [] \<longleftrightarrow> (\<forall>c\<in>set s. is_space c)"
proof -
  have "dropWhile is_space s = [] \<longleftrightarrow> (\<forall>c\<in>set (dropWhile is_space s). is_space c)"
    using hd_dropWhile [of is_space s] by (cases "dropWhile is_space s") (auto dest: set_dropWhileD)
  then have "trim_space s = [] \<longleftrightarrow> dropWhile is_space s = []"
    by (simp add: trim_both_def trim_left_def trim_right_def)
  then show ?thesis by simp
qed

text \<open>A call over HTTP is a dispatch on the server.\<close>

lemma http_call:
  fixes srv :: "'w \<Rightarrow> 'w server"
  defines "tr js m \<equiv> httpTransport js (server_post js m srv)"
  assumes "json_ok js" and "case params of None \<Rightarrow> True | Some p \<Rightarrow> \<exists>t. js_enc js p = Inr t"
    and "js_enc js (wire_message_json (empty_message\<lparr>cm_id := Some (GInt (int (cl_idCtr c + 1))), cm_method := meth, cm_params := params\<rparr>)) = Inr buf"
      "length buf \<le> max_body"
    and "Dispatch m (srv w) \<lparr>rq_id = Some (GFloat (of_nat (cl_idCtr c + 1))), rq_method = meth, rq_params = map_option jnorm params\<rparr> None w
           = (Some resp, cn, w')"
    and "js_enc js (response_json js resp) = Inr t" "length t < max_response"
  shows "client_call js (tr js m) meth params c w =
     ((case rs_error resp of Some e \<Rightarrow> Inl (CRpc (wire_of js e)) | None \<Rightarrow> Inr (map_option jnorm (rs_result resp)),
       c\<lparr>cl_idCtr := cl_idCtr c + 1\<rparr>), w')"
proof -
  let ?req = "empty_message\<lparr>cm_id := Some (GInt (int (cl_idCtr c + 1))), cm_method := meth, cm_params := params\<rparr>"
  have o: "\<exists>m. wire_message_json ?req = GMap m" by (simp add: wire_message_json_def)
  note q = json_text [OF assms(2,4) o] and r = json_text [OF assms(2,7) is_object(2)]
  have "unmarshal step_request empty_request (js_dec js (post_trimmed buf)) =
      Some \<lparr>rq_id = Some (GFloat (of_nat (cl_idCtr c + 1))), rq_method = meth, rq_params = map_option jnorm params\<rparr>"
    unfolding q(3) [OF assms(5)] q(1) message_back by simp
  then have p: "handleHTTPPost m (js_dec js) (srv w) (Inr buf) w = (writeJSONResponse (BResponse resp), w')"
    unfolding handleHTTPPost_def Let_def sum.case q(3) [OF assms(5)] using q(4) assms(6) by auto
  have data: "take max_response (t @ [CHR 0x0A]) = t @ [CHR 0x0A]" using assms(8) by simp
  have "t \<noteq> []" "trim_space t = t" using assms(2,7) is_object(2) [of js resp] unfolding json_ok_def by metis+
  then have nb: "trim_space (t @ [CHR 0x0A]) \<noteq> []" unfolding trim_space_Nil by (metis Un_iff set_append trim_space_Nil)
  have "server_post js m srv buf w = (Inr (t @ [CHR 0x0A]), w')"
    using p assms(7) by (simp add: server_post_def writeJSONResponse_def body_text_def)
  then have "http_roundTrip js (server_post js m srv) ?req w =
      (Inr (empty_message\<lparr>cm_id := map_option jnorm (rs_id resp), cm_result := map_option jnorm (rs_result resp),
         cm_error := map_option (wire_of js) (rs_error resp)\<rparr>), w')"
    unfolding http_roundTrip_def assms(4) sum.case
    by (simp only: prod.case sum.case Let_def data nb r(2) answer_back option.case if_False)
  then show ?thesis
    using assms(3) by (cases params; cases "rs_error resp")
      (auto simp: client_call_def nextID_def tr_def httpTransport_def empty_message_def)
qed


lemma tool_call_back:
  "unmarshal step_tool_call empty_tool_call (Some (jnorm (tool_result m st (v, err)))) =
     Some (case err of
         None \<Rightarrow> \<lparr>tc_content = toContent m v,
                  tc_structured = (if st \<and> v \<noteq> TVAny GNil then Some (jnorm (tv_json v)) else None), tc_isError = False\<rparr>
       | Some e \<Rightarrow> \<lparr>tc_content = [NewTextContent e], tc_structured = None, tc_isError = True\<rparr>)"
  using contents_back
  by (cases err) (auto simp: tool_result_def unmarshal_def decode_value_def step_tool_call_def empty_tool_call_def
      fold_eq fold_keys put_bool_def)

lemma call_params_back:
  "unmarshal step_call \<lparr>cp_name = [], cp_arguments = None\<rparr> (Some (jnorm (call_tool_params nm args token)))
     = Some \<lparr>cp_name = nm, cp_arguments = map_option jnorm args\<rparr>"
  by (cases args) (simp_all add: call_tool_params_def opt_raw_def unmarshal_def decode_value_def step_call_def fold_eq fold_keys
      keys_lower put_str_def)

text \<open>The message \<open>CallTool\<close> sends, and what comes back.\<close>

definition tool_request :: "'w client \<Rightarrow> string \<Rightarrow> gval option \<Rightarrow> client_message" where
  "tool_request c nm args = empty_message\<lparr>cm_id := Some (GInt (int (cl_idCtr c + 2))), cm_method := ''tools/call'',
     cm_params := Some (call_tool_params nm args (cl_idCtr c + 1))\<rparr>"

definition tool_response :: "'w client \<Rightarrow> (gval \<Rightarrow> string + string) \<Rightarrow> bool \<Rightarrow> tool_value \<times> string option \<Rightarrow> response" where
  "tool_response c m st re = resultResponse (Some (GFloat (of_nat (cl_idCtr c + 2)))) (Some (tool_result m st re))"

lemma cl_CallTool_http:
  assumes "json_ok js" and "sv_tools (srv w) nm = Some tool"
    and "te_call tool (map_option jnorm args) w = ((v, err), w')"
    and "js_enc js (call_tool_params nm args (cl_idCtr c + 1)) = Inr p"
    and "js_enc js (wire_message_json (tool_request c nm args)) = Inr buf" "length buf \<le> max_body"
    and "js_enc js (response_json js (tool_response c m (te_structured tool) (v, err))) = Inr t" "length t < max_response"
  shows "cl_CallTool js (httpTransport js (server_post js m srv)) nm args c w =
     ((Inr (case err of
         None \<Rightarrow> \<lparr>tc_content = toContent m v,
                  tc_structured = (if te_structured tool \<and> v \<noteq> TVAny GNil then Some (jnorm (tv_json v)) else None), tc_isError = False\<rparr>
       | Some e \<Rightarrow> \<lparr>tc_content = [NewTextContent e], tc_structured = None, tc_isError = True\<rparr>),
       c\<lparr>cl_idCtr := cl_idCtr c + 2\<rparr>), w')"
proof -
  let ?c = "c\<lparr>cl_idCtr := cl_idCtr c + 1\<rparr>" and ?ps = "call_tool_params nm args (cl_idCtr c + 1)"
  have ctr: "cl_idCtr ?c + 1 = cl_idCtr c + 2" by simp
  have d: "Dispatch m (srv w) \<lparr>rq_id = Some (GFloat (of_nat (cl_idCtr ?c + 1))), rq_method = ''tools/call'',
      rq_params = map_option jnorm (Some ?ps)\<rparr> None w
      = (Some (tool_response c m (te_structured tool) (v, err)), None, w')"
    using assms(2,3) call_params_back [of nm args "cl_idCtr c + 1"]
    by (simp add: Dispatch_def route_def handleToolsCall_def IsNotification_def Let_def tool_response_def)
  have "client_call js (httpTransport js (server_post js m srv)) ''tools/call'' (Some ?ps) ?c w =
     ((case rs_error (tool_response c m (te_structured tool) (v, err)) of Some e \<Rightarrow> Inl (CRpc (wire_of js e))
       | None \<Rightarrow> Inr (map_option jnorm (rs_result (tool_response c m (te_structured tool) (v, err)))),
       ?c\<lparr>cl_idCtr := cl_idCtr ?c + 1\<rparr>), w')"
  proof (rule http_call [where srv = srv and c = ?c and w = w, OF assms(1) _ _ assms(6) d assms(7,8)])
    show "case Some ?ps of None \<Rightarrow> True | Some p \<Rightarrow> \<exists>t. js_enc js p = Inr t" using assms(4) by simp
    show "js_enc js (wire_message_json (empty_message\<lparr>cm_id := Some (GInt (int (cl_idCtr ?c + 1))), cm_method := ''tools/call'', cm_params := Some ?ps\<rparr>)) = Inr buf"
      using assms(5) by (simp add: tool_request_def)
  qed
  then show ?thesis
    using tool_call_back [of m "te_structured tool" v err]
    by (simp add: cl_CallTool_def nextID_def decode_result_def tool_response_def resultResponse_def)
qed

text \<open>
  C15: a client's tool call is the server's tool. Over HTTP, \<open>CallTool\<close> on the server of this
  development runs the tool registered under the name, once, on the arguments as JSON gives them
  back, and returns the content of its result, its structured form when the tool declares one,
  and the error flag; a name the server does not know is an error of the protocol. The messages
  must be such that they marshal and fit the limits on bodies.
\<close>

theorem client_calls_server:
  assumes "json_ok js" and "sv_tools (srv w) nm = Some tool"
    and "te_call tool (map_option jnorm args) w = ((v, err), w')"
    and "js_enc js (call_tool_params nm args (cl_idCtr c + 1)) = Inr p"
    and "js_enc js (wire_message_json (tool_request c nm args)) = Inr buf" "length buf \<le> max_body"
    and "js_enc js (response_json js (tool_response c m (te_structured tool) (v, err))) = Inr t" "length t < max_response"
  shows "cl_CallTool js (httpTransport js (server_post js m srv)) nm args c w =
     ((Inr (case err of
         None \<Rightarrow> \<lparr>tc_content = toContent m v,
                  tc_structured = (if te_structured tool \<and> v \<noteq> TVAny GNil then Some (jnorm (tv_json v)) else None), tc_isError = False\<rparr>
       | Some e \<Rightarrow> \<lparr>tc_content = [NewTextContent e], tc_structured = None, tc_isError = True\<rparr>),
       c\<lparr>cl_idCtr := cl_idCtr c + 2\<rparr>), w')"
  using assms by (rule cl_CallTool_http)

definition demo_client :: "nat client" where "demo_client = newClient []"

definition demo_cq :: gval where "demo_cq = wire_message_json (tool_request demo_client ''t'' (Some (GMap [])))"

definition demo_cp :: gval where "demo_cp = call_tool_params ''t'' (Some (GMap [])) 1"

definition demo_cr :: gval where
  "demo_cr = response_json demo_json (tool_response demo_client demo_marshal False (TVAny (GStr ''ok''), None))"

definition demo_wire :: json_lib where
  "demo_wire = \<lparr>js_enc = (\<lambda>v. if v = demo_cq then Inr ''q'' else if v = demo_cp then Inr ''p'' else if v = demo_cr then Inr ''r'' else Inl []),
      js_dec = (\<lambda>s. if s = ''q'' \<or> s = ''q'' @ [CHR 0x0A] then Some (jnorm demo_cq)
                  else if s = ''p'' \<or> s = ''p'' @ [CHR 0x0A] then Some (jnorm demo_cp)
                  else if s = ''r'' \<or> s = ''r'' @ [CHR 0x0A] then Some (jnorm demo_cr) else None),
      js_text = [], js_quote = (\<lambda>s. s)\<rparr>"

lemma demo_wire_ok: "json_ok demo_wire"
proof -
  have "trim_space ''q'' = ''q''" "trim_space ''r'' = ''r''" "trim_space ''p'' = ''p''"
    by (simp_all add: trim_both_def trim_left_def trim_right_def is_space_def)
  then show ?thesis
    by (auto simp: json_ok_def demo_wire_def simp del: jnorm.simps split: if_splits)
qed

lemma demo_messages: "demo_cp \<noteq> demo_cq" "demo_cr \<noteq> demo_cq" "demo_cr \<noteq> demo_cp"
  by (simp_all add: demo_cq_def demo_cp_def demo_cr_def wire_message_json_def tool_request_def call_tool_params_def response_json_def
      tool_response_def resultResponse_def opt_raw_def opt_str_def empty_message_def)

theorem client_calls_server_witness:
  "fst (fst (cl_CallTool demo_wire (httpTransport demo_wire (server_post demo_wire demo_marshal (\<lambda>_. registerTool ''t'' demo_child_tool (New ''c'' []))))
     ''t'' (Some (GMap [])) demo_client 5)) = Inr \<lparr>tc_content = [NewTextContent ''ok''], tc_structured = None, tc_isError = False\<rparr>"
proof -
  have c: "cl_idCtr demo_client = 0" by (simp add: demo_client_def newClient_def)
  have s: "te_structured demo_child_tool = False" by (simp add: demo_child_tool_def)
  have t: "toContent demo_marshal (TVAny (GStr ''ok'')) = [NewTextContent ''ok'']" by simp
  have "cl_CallTool demo_wire (httpTransport demo_wire (server_post demo_wire demo_marshal (\<lambda>_. registerTool ''t'' demo_child_tool (New ''c'' []))))
     ''t'' (Some (GMap [])) demo_client 5 = ((Inr (case (None :: string option) of
         None \<Rightarrow> \<lparr>tc_content = toContent demo_marshal (TVAny (GStr ''ok'')),
                  tc_structured = (if te_structured demo_child_tool \<and> TVAny (GStr ''ok'') \<noteq> TVAny GNil then Some (jnorm (tv_json (TVAny (GStr ''ok'')))) else None),
                  tc_isError = False\<rparr>
       | Some e \<Rightarrow> \<lparr>tc_content = [NewTextContent e], tc_structured = None, tc_isError = True\<rparr>),
       demo_client\<lparr>cl_idCtr := cl_idCtr demo_client + 2\<rparr>), 6)"
  proof (rule client_calls_server [where js = demo_wire and srv = "\<lambda>_. registerTool ''t'' demo_child_tool (New ''c'' [])" and w = 5
        and nm = "''t''" and tool = demo_child_tool and args = "Some (GMap [])" and c = demo_client and m = demo_marshal
        and v = "TVAny (GStr ''ok'')" and err = None and p = "''p''" and buf = "''q''" and t = "''r''" and w' = 6, OF demo_wire_ok])
    show "sv_tools (registerTool ''t'' demo_child_tool (New ''c'' [])) ''t'' = Some demo_child_tool" by (simp add: registerTool_def)
    show "te_call demo_child_tool (map_option jnorm (Some (GMap []))) 5 = ((TVAny (GStr ''ok''), None), 6)"
      by (simp add: demo_child_tool_def)
    show "js_enc demo_wire (call_tool_params ''t'' (Some (GMap [])) (cl_idCtr demo_client + 1)) = Inr ''p''"
      using demo_messages unfolding c by (simp add: demo_wire_def demo_cp_def)
    show "js_enc demo_wire (wire_message_json (tool_request demo_client ''t'' (Some (GMap [])))) = Inr ''q''"
      by (simp add: demo_wire_def demo_cq_def)
    have "response_json demo_wire r = response_json demo_json r" if "rs_error r = None" for r
      using that by (simp add: response_json_def)
    then have "response_json demo_wire (tool_response demo_client demo_marshal (te_structured demo_child_tool) (TVAny (GStr ''ok''), None)) = demo_cr"
      by (simp add: s demo_cr_def tool_response_def resultResponse_def)
    then show "js_enc demo_wire (response_json demo_wire (tool_response demo_client demo_marshal (te_structured demo_child_tool) (TVAny (GStr ''ok''), None))) = Inr ''r''"
      using demo_messages by (simp add: demo_wire_def)
  qed (simp_all add: max_body_def max_response_def)
  then show ?thesis by (simp add: s t)
qed

end
