(* ===== verification/Proxy.thy ===== *)
theory Proxy
  imports Prelude GoStd Json Content Schema Registry Dispatch Session Transport Mount Client
begin

text \<open>
  The proxy, \<open>src/proxy/proxy.go\<close>: a server built from what a backend lists, each of its handlers
  forwarding to the backend through one client. The client is a pointer, so the proxy's handlers
  act on it and on the world beyond its transport together. The order in which a Go map is
  visited is the parameter \<open>vis\<close>.
\<close>

section \<open>Configuration\<close>

record template_spec =
  ts_URITemplate :: string
  ts_Name :: string
  ts_Description :: string
  ts_MIMEType :: string

record proxy_config =
  px_serverName :: string
  px_version :: string
  px_instructions :: string
  px_prefix :: string
  px_initialize :: bool
  px_toolFilter :: "(string \<Rightarrow> bool) option"
  px_resFilter :: "(string \<Rightarrow> bool) option"
  px_promptFilter :: "(string \<Rightarrow> bool) option"
  px_templates :: "template_spec list"

definition proxy_default :: proxy_config where
  "proxy_default = \<lparr>px_serverName = [], px_version = [], px_instructions = [], px_prefix = [], px_initialize = True,
     px_toolFilter = None, px_resFilter = None, px_promptFilter = None, px_templates = []\<rparr>"

definition WithServerName :: "string \<Rightarrow> proxy_config \<Rightarrow> proxy_config" where
  "WithServerName n c = c\<lparr>px_serverName := n\<rparr>"

definition px_WithVersion :: "string \<Rightarrow> proxy_config \<Rightarrow> proxy_config" where
  "px_WithVersion v c = c\<lparr>px_version := v\<rparr>"

definition px_WithInstructions :: "string \<Rightarrow> proxy_config \<Rightarrow> proxy_config" where
  "px_WithInstructions i c = c\<lparr>px_instructions := i\<rparr>"

definition WithNamePrefix :: "string \<Rightarrow> proxy_config \<Rightarrow> proxy_config" where
  "WithNamePrefix p c = c\<lparr>px_prefix := p\<rparr>"

definition WithoutInitialize :: "proxy_config \<Rightarrow> proxy_config" where
  "WithoutInitialize c = c\<lparr>px_initialize := False\<rparr>"

definition WithToolFilter :: "(string \<Rightarrow> bool) option \<Rightarrow> proxy_config \<Rightarrow> proxy_config" where
  "WithToolFilter keep c = c\<lparr>px_toolFilter := keep\<rparr>"

definition WithAllowedTools :: "string list \<Rightarrow> proxy_config \<Rightarrow> proxy_config" where
  "WithAllowedTools names = WithToolFilter (Some (\<lambda>n. n \<in> set names))"

definition WithResourceFilter :: "(string \<Rightarrow> bool) option \<Rightarrow> proxy_config \<Rightarrow> proxy_config" where
  "WithResourceFilter keep c = c\<lparr>px_resFilter := keep\<rparr>"

definition WithPromptFilter :: "(string \<Rightarrow> bool) option \<Rightarrow> proxy_config \<Rightarrow> proxy_config" where
  "WithPromptFilter keep c = c\<lparr>px_promptFilter := keep\<rparr>"

definition WithResourceTemplates :: "template_spec list \<Rightarrow> proxy_config \<Rightarrow> proxy_config" where
  "WithResourceTemplates specs c = c\<lparr>px_templates := px_templates c @ specs\<rparr>"

section \<open>Forwarding\<close>

text \<open>A call of the client as an action on the client and the world.\<close>

definition on_backend :: "('w client \<Rightarrow> 'w \<Rightarrow> ('a \<times> 'w client) \<times> 'w) \<Rightarrow> 'w client \<times> 'w \<Rightarrow> 'a \<times> ('w client \<times> 'w)" where
  "on_backend f s = (case s of (c, w) \<Rightarrow> (case f c w of ((r, c'), w') \<Rightarrow> (r, (c', w'))))"

definition joinTextContent :: "content list \<Rightarrow> string" where
  "joinTextContent cs =
     (let parts = filter (\<lambda>t. t \<noteq> []) (map ct_text cs)
      in if parts = [] then ''tool error'' else join_with [CHR 0x0A] parts)"

definition joinResourceContents :: "resource_contents list \<Rightarrow> string" where
  "joinResourceContents cs = concat (map (\<lambda>c. if rc_text c \<noteq> [] then rc_text c else rc_blob c) cs)"

definition px_expandTemplate :: "string \<Rightarrow> (string \<times> string) list \<Rightarrow> string" where
  "px_expandTemplate tmpl params = fold (\<lambda>(name, val) out. replace_all out (CHR 0x7B # name @ [CHR 0x7D]) val) params tmpl"

text \<open>The text of a \<open>json.RawMessage\<close> is what its value was written as.\<close>

definition raw_text :: "json_lib \<Rightarrow> gval \<Rightarrow> string" where
  "raw_text js v = (case js_enc js v of Inr t \<Rightarrow> t | Inl _ \<Rightarrow> [])"

text \<open>What a tool handler returns, as the values its function has.\<close>

definition forward_result :: "json_lib \<Rightarrow> client_error + tool_call_result \<Rightarrow> go_out list" where
  "forward_result js r =
     (case r of
        Inl e \<Rightarrow> [OVal (TVAny GNil), OErr (Some (cerr_text e))]
      | Inr res \<Rightarrow>
          if tc_isError res then [OVal (TVAny GNil), OErr (Some (joinTextContent (tc_content res)))]
          else if tc_content res = [] \<and> tc_structured res \<noteq> None
          then [OVal (TVContents [NewTextContent (raw_text js (the (tc_structured res)))]), OErr None]
          else [OVal (TVContents (tc_content res)), OErr None])"

definition forwardTool ::
  "json_lib \<Rightarrow> 'w transport \<Rightarrow> string \<Rightarrow> gval option \<Rightarrow> 'w client \<times> 'w \<Rightarrow> (tool_value \<times> string option) \<times> ('w client \<times> 'w)" where
  "forwardTool js tr name =
     tool_call (map_args js) GNil
       (\<lambda>args s. case on_backend (cl_CallTool js tr name (Some args)) s of (r, s') \<Rightarrow> (forward_result js r, s'))"

definition read_backend ::
  "json_lib \<Rightarrow> 'w transport \<Rightarrow> string \<Rightarrow> 'w client \<times> 'w \<Rightarrow> (string + string) \<times> ('w client \<times> 'w)" where
  "read_backend js tr uri s =
     (case on_backend (cl_ReadResource js tr uri) s of
        (Inl e, s') \<Rightarrow> (Inl (cerr_text e), s')
      | (Inr cs, s') \<Rightarrow> (Inr (joinResourceContents cs), s'))"

definition forwardResource where
  "forwardResource js tr uri = read_backend js tr uri"

definition forwardTemplate where
  "forwardTemplate js tr vis uriTemplate params s = read_backend js tr (px_expandTemplate uriTemplate (vis params)) s"

definition forwardPrompt ::
  "json_lib \<Rightarrow> 'w transport \<Rightarrow> string \<Rightarrow> (string \<rightharpoonup> string) \<Rightarrow> 'w client \<times> 'w
     \<Rightarrow> (string + prompt_message list) \<times> ('w client \<times> 'w)" where
  "forwardPrompt js tr name args s =
     (case on_backend (cl_GetPrompt js tr name (Some (args_list args))) s of
        (Inl e, s') \<Rightarrow> (Inl (cerr_text e), s')
      | (Inr res, s') \<Rightarrow> (Inr (pr_messages res), s'))"

definition forward_completion :: "(client_error + completion_result) \<times> 's \<Rightarrow> string list \<times> 's" where
  "forward_completion r = (case r of (Inl e, s) \<Rightarrow> ([], s) | (Inr res, s) \<Rightarrow> (cr_values res, s))"

definition forwardPromptCompletion where
  "forwardPromptCompletion js tr name argument val s =
     forward_completion (on_backend (cl_CompletePrompt js tr name argument val) s)"

definition forwardResourceCompletion where
  "forwardResourceCompletion js tr uriTemplate argument val s =
     forward_completion (on_backend (cl_CompleteResource js tr uriTemplate argument val) s)"

section \<open>Building the proxy\<close>

definition kept_by :: "(string \<Rightarrow> bool) option \<Rightarrow> string \<Rightarrow> bool" where
  "kept_by f n = (case f of None \<Rightarrow> True | Some keep \<Rightarrow> keep n)"

definition px_tool where
  "px_tool js tr cfg (t :: tool_desc) srv =
     (case Tool (px_prefix cfg @ td_name t) (td_description t) (Func [SCtx, SMapArg] [STy TOther, SErr])
             (forwardTool js tr (td_name t)) srv of
        Inr srv' \<Rightarrow> srv' | Inl e \<Rightarrow> srv)"

definition px_registerTools ::
  "json_lib \<Rightarrow> 'w transport \<Rightarrow> proxy_config \<Rightarrow> ('w client \<times> 'w) server \<Rightarrow> 'w client \<times> 'w
     \<Rightarrow> (client_error + ('w client \<times> 'w) server) \<times> ('w client \<times> 'w)" where
  "px_registerTools js tr cfg srv s =
     (case on_backend (cl_ListTools js tr) s of
        (Inl e, s') \<Rightarrow> (Inl e, s')
      | (Inr tools, s') \<Rightarrow>
          (Inr (fold (px_tool js tr cfg) (filter (\<lambda>t. kept_by (px_toolFilter cfg) (td_name t)) tools) srv), s'))"

definition px_resource where
  "px_resource js tr (r :: res_info) srv =
     Resource (ri_uri r) (ri_name r) (ri_description r) (ri_mimeType r) (forwardResource js tr (ri_uri r)) srv"

definition px_registerResources ::
  "json_lib \<Rightarrow> 'w transport \<Rightarrow> proxy_config \<Rightarrow> ('w client \<times> 'w) server \<Rightarrow> 'w client \<times> 'w
     \<Rightarrow> (client_error + ('w client \<times> 'w) server) \<times> ('w client \<times> 'w)" where
  "px_registerResources js tr cfg srv s =
     (case on_backend (cl_ListResources js tr) s of
        (Inl e, s') \<Rightarrow> (Inl e, s')
      | (Inr rs, s') \<Rightarrow>
          (Inr (fold (px_resource js tr) (filter (\<lambda>r. kept_by (px_resFilter cfg) (ri_uri r)) rs) srv), s'))"

definition px_template where
  "px_template js tr vis spec srv =
     CompleteResourceTemplate (ts_URITemplate spec) (Some (forwardResourceCompletion js tr (ts_URITemplate spec)))
       (ResourceTemplate (ts_URITemplate spec) (ts_Name spec) (ts_Description spec) (ts_MIMEType spec)
          (forwardTemplate js tr vis (ts_URITemplate spec)) srv)"

definition px_registerTemplates where
  "px_registerTemplates js tr vis cfg srv = fold (px_template js tr vis) (px_templates cfg) srv"

definition px_prompt where
  "px_prompt js tr cfg (p :: prompt_info) srv =
     CompletePrompt (px_prefix cfg @ pi_name p) (Some (forwardPromptCompletion js tr (pi_name p)))
       (Prompt (px_prefix cfg @ pi_name p) (pi_description p) (forwardPrompt js tr (pi_name p)) (pi_arguments p) srv)"

definition px_registerPrompts ::
  "json_lib \<Rightarrow> 'w transport \<Rightarrow> proxy_config \<Rightarrow> ('w client \<times> 'w) server \<Rightarrow> 'w client \<times> 'w
     \<Rightarrow> (client_error + ('w client \<times> 'w) server) \<times> ('w client \<times> 'w)" where
  "px_registerPrompts js tr cfg srv s =
     (case on_backend (cl_ListPrompts js tr) s of
        (Inl e, s') \<Rightarrow> (Inl e, s')
      | (Inr ps, s') \<Rightarrow>
          (Inr (fold (px_prompt js tr cfg) (filter (\<lambda>p. kept_by (px_promptFilter cfg) (pi_name p)) ps) srv), s'))"

text \<open>What the handshake fills in.\<close>

definition or_else :: "string \<Rightarrow> string \<Rightarrow> string" where
  "or_else a b = (if a = [] then b else a)"

definition inherit :: "proxy_config \<Rightarrow> init_result \<Rightarrow> proxy_config" where
  "inherit cfg info = cfg\<lparr>px_serverName := or_else (px_serverName cfg) (si_name (ir_serverInfo info)),
     px_version := or_else (px_version cfg) (si_version (ir_serverInfo info)),
     px_instructions := or_else (px_instructions cfg) (ir_instructions info)\<rparr>"

definition proxy_server :: "proxy_config \<Rightarrow> 'w server" where
  "proxy_server cfg =
     New (or_else (px_serverName cfg) ''fastmcp-proxy'')
       ((if px_version cfg \<noteq> [] then [WithVersion (px_version cfg)] else [])
        @ (if px_instructions cfg \<noteq> [] then [WithInstructions (px_instructions cfg)] else []))"

definition handshake ::
  "json_lib \<Rightarrow> 'w transport \<Rightarrow> proxy_config \<Rightarrow> 'w client \<times> 'w \<Rightarrow> (client_error + proxy_config) \<times> ('w client \<times> 'w)" where
  "handshake js tr cfg s =
     (if px_initialize cfg
      then (case on_backend (Initialize js tr) s of (Inl e, s') \<Rightarrow> (Inl e, s') | (Inr info, s') \<Rightarrow> (Inr (inherit cfg info), s'))
      else (Inr cfg, s))"

definition register_all_parts ::
  "json_lib \<Rightarrow> 'w transport \<Rightarrow> ((string \<rightharpoonup> string) \<Rightarrow> (string \<times> string) list) \<Rightarrow> proxy_config \<Rightarrow> 'w client \<times> 'w
     \<Rightarrow> (client_error + ('w client \<times> 'w) server) \<times> ('w client \<times> 'w)" where
  "register_all_parts js tr vis cfg s =
     (case px_registerTools js tr cfg (proxy_server cfg) s of
        (Inl e, s1) \<Rightarrow> (Inl e, s1)
      | (Inr srv, s1) \<Rightarrow>
          (case px_registerResources js tr cfg srv s1 of
             (Inl e, s2) \<Rightarrow> (Inl e, s2)
           | (Inr srv', s2) \<Rightarrow> px_registerPrompts js tr cfg (px_registerTemplates js tr vis cfg srv') s2))"

text \<open>\<open>New\<close>; the nil backend is \<open>None\<close>.\<close>

definition proxy_New ::
  "json_lib \<Rightarrow> 'w transport \<Rightarrow> ((string \<rightharpoonup> string) \<Rightarrow> (string \<times> string) list) \<Rightarrow> (proxy_config \<Rightarrow> proxy_config) list
     \<Rightarrow> 'w client option \<Rightarrow> 'w \<Rightarrow> (client_error + ('w client \<times> 'w) server) \<times> ('w client option \<times> 'w)" where
  "proxy_New js tr vis opts backend w =
     (case backend of
        None \<Rightarrow> (Inl (CText ''fastmcp/proxy: backend client is nil''), (None, w))
      | Some c \<Rightarrow>
          (case (case handshake js tr (fold (\<lambda>opt. opt) opts proxy_default) (c, w) of
                   (Inl e, s) \<Rightarrow> (Inl e, s)
                 | (Inr cfg, s) \<Rightarrow> register_all_parts js tr vis cfg s) of
             (r, (c', w')) \<Rightarrow> (r, (Some c', w'))))"

section \<open>Facts\<close>

definition px_entry where
  "px_entry js tr cfg (t :: tool_desc) =
     \<lparr>te_name = px_prefix cfg @ td_name t, te_description = td_description t, te_inputSchema = [(''type'', GStr ''object'')],
      te_outputSchema = None, te_structured = False, te_call = forwardTool js tr (td_name t)\<rparr>"

lemma px_tool_registers: "px_tool js tr cfg t srv = registerTool (px_prefix cfg @ td_name t) (px_entry js tr cfg t) srv"
  by (simp add: px_tool_def Tool_def Tool_reg_def buildToolEntry_def validateOutputs_def build_rest_def px_entry_def)

lemma fold_px_tools:
  "sv_tools (fold (px_tool js tr cfg) ts srv) n =
     (case find (\<lambda>t. px_prefix cfg @ td_name t = n) (rev ts) of Some t \<Rightarrow> Some (px_entry js tr cfg t) | None \<Rightarrow> sv_tools srv n)"
proof (induction ts rule: rev_induct)
  case (snoc t ts)
  then show ?case by (simp add: px_tool_registers registerTool_def)
qed simp

lemma other_registrations:
  "sv_tools (fold (px_resource js tr) rs srv) = sv_tools srv" "sv_tools (fold (px_template js tr vis) specs srv) = sv_tools srv"
  "sv_tools (fold (px_prompt js tr cfg) ps srv) = sv_tools srv"
proof -
  show "sv_tools (fold (px_resource js tr) rs srv) = sv_tools srv"
    by (induction rs arbitrary: srv) (simp_all add: px_resource_def Resource_def put_resource_def)
  show "sv_tools (fold (px_template js tr vis) specs srv) = sv_tools srv"
    by (induction specs arbitrary: srv) (simp_all add: px_template_def ResourceTemplate_def add_template_def CompleteResourceTemplate_def)
  have "sv_tools (px_prompt js tr cfg p srv) = sv_tools srv" for p srv
    by (simp add: px_prompt_def Prompt_def put_prompt_def CompletePrompt_def)
  then show "sv_tools (fold (px_prompt js tr cfg) ps srv) = sv_tools srv"
    by (induction ps arbitrary: srv) simp_all
qed

lemma proxy_server_tools: "sv_tools (proxy_server cfg) = Map.empty"
  unfolding proxy_server_def by (subst New_fields [THEN conjunct2, THEN conjunct1]) auto

lemma find_in: "find P xs = Some x \<Longrightarrow> x \<in> set xs \<and> P x"
  by (induction xs) (auto split: if_splits)

lemma registerTools_entry:
  assumes "px_registerTools js tr cfg (proxy_server cfg) s = (Inr srv, s')" "sv_tools srv n = Some e"
  shows "\<exists>t. n = px_prefix cfg @ td_name t \<and> e = px_entry js tr cfg t \<and> kept_by (px_toolFilter cfg) (td_name t)"
proof -
  obtain tools where srv: "srv = fold (px_tool js tr cfg) (filter (\<lambda>t. kept_by (px_toolFilter cfg) (td_name t)) tools) (proxy_server cfg)"
    using assms(1) by (auto simp: px_registerTools_def split: prod.splits sum.splits)
  let ?ts = "filter (\<lambda>t. kept_by (px_toolFilter cfg) (td_name t)) tools"
  from assms(2) obtain t where t: "find (\<lambda>t. px_prefix cfg @ td_name t = n) (rev ?ts) = Some t" "e = px_entry js tr cfg t"
    unfolding srv fold_px_tools proxy_server_tools by (auto split: option.splits)
  from find_in [OF t(1)] have "t \<in> set ?ts" "px_prefix cfg @ td_name t = n" by simp_all
  with t(2) show ?thesis by auto
qed

lemma registerResources_tools: "px_registerResources js tr cfg srv s = (Inr srv', s') \<Longrightarrow> sv_tools srv' = sv_tools srv"
  by (auto simp: px_registerResources_def other_registrations split: prod.splits sum.splits)

lemma registerPrompts_tools: "px_registerPrompts js tr cfg srv s = (Inr srv', s') \<Longrightarrow> sv_tools srv' = sv_tools srv"
  by (auto simp: px_registerPrompts_def other_registrations split: prod.splits sum.splits)

lemma register_all_tools:
  "register_all_parts js tr vis cfg s = (Inr p, s') \<Longrightarrow>
     \<exists>srv s1. px_registerTools js tr cfg (proxy_server cfg) s = (Inr srv, s1) \<and> sv_tools p = sv_tools srv"
  by (auto simp: register_all_parts_def px_registerTemplates_def other_registrations split: prod.splits sum.splits
      dest!: registerResources_tools registerPrompts_tools)

lemma handshake_keeps:
  "handshake js tr cfg s = (Inr cfg', s') \<Longrightarrow> px_prefix cfg' = px_prefix cfg \<and> px_toolFilter cfg' = px_toolFilter cfg"
  by (auto simp: handshake_def inherit_def split: if_splits prod.splits sum.splits)

text \<open>A tool of the proxy forwards to the tool of the backend whose name, prefixed, it has.\<close>

lemma proxy_New_tool:
  assumes "proxy_New js tr vis opts (Some c) w = (Inr p, s')" "sv_tools p n = Some e"
  shows "\<exists>nm. n = px_prefix (fold (\<lambda>opt. opt) opts proxy_default) @ nm \<and> te_call e = forwardTool js tr nm
    \<and> kept_by (px_toolFilter (fold (\<lambda>opt. opt) opts proxy_default)) nm"
proof -
  obtain cfg s s2 where h: "handshake js tr (fold (\<lambda>opt. opt) opts proxy_default) (c, w) = (Inr cfg, s)"
    and r: "register_all_parts js tr vis cfg s = (Inr p, s2)"
    using assms(1) by (auto simp: proxy_New_def split: prod.splits sum.splits)
  from register_all_tools [OF r] obtain srv s1
    where t: "px_registerTools js tr cfg (proxy_server cfg) s = (Inr srv, s1)" "sv_tools p = sv_tools srv" by blast
  from registerTools_entry [OF t(1)] assms(2) t(2) obtain d
    where "n = px_prefix cfg @ td_name d" "e = px_entry js tr cfg d" "kept_by (px_toolFilter cfg) (td_name d)" by auto
  with handshake_keeps [OF h] show ?thesis by (auto simp: px_entry_def)
qed

section \<open>Properties\<close>

text \<open>
  C17: a tool of the proxy is the backend's tool. On a proxy built over an HTTP client of the
  server of this development, calling the tool registered under the prefixed name with an
  argument object runs the backend's tool once, on the arguments as JSON gives them back, and
  returns the content of its result, or the text of its structured form when there is no
  content; a tool error keeps its text, an empty one becomes a generic one. The filter kept the
  tool. The messages must marshal and fit the limits on bodies.
\<close>

theorem proxy_tool_passthrough:
  assumes "json_ok js"
    and "proxy_New js (httpTransport js (server_post js m srv)) vis opts (Some c0) w0 = (Inr p, s0)"
    and "sv_tools p (px_prefix (fold (\<lambda>opt. opt) opts proxy_default) @ nm) = Some e"
    and "sv_tools (srv w) nm = Some tool" and "te_call tool (Some (jnorm (GMap a))) w = ((v, err), w')"
    and "js_enc js (call_tool_params nm (Some (GMap a)) (cl_idCtr c + 1)) = Inr pt"
    and "js_enc js (wire_message_json (tool_request c nm (Some (GMap a)))) = Inr buf" "length buf \<le> max_body"
    and "js_enc js (response_json js (tool_response c m (te_structured tool) (v, err))) = Inr t" "length t < max_response"
  shows "te_call e (Some (GMap a)) (c, w) =
     (case err of
        Some x \<Rightarrow> (TVAny GNil, Some (if x = [] then ''tool error'' else x))
      | None \<Rightarrow> (TVContents (if toContent m v = [] \<and> te_structured tool \<and> v \<noteq> TVAny GNil
                   then [NewTextContent (raw_text js (jnorm (tv_json v)))] else toContent m v), None),
      (c\<lparr>cl_idCtr := cl_idCtr c + 2\<rparr>, w'))
    \<and> kept_by (px_toolFilter (fold (\<lambda>opt. opt) opts proxy_default)) nm"
proof -
  from proxy_New_tool [OF assms(2,3)] have e: "te_call e = forwardTool js (httpTransport js (server_post js m srv)) nm"
    and k: "kept_by (px_toolFilter (fold (\<lambda>opt. opt) opts proxy_default)) nm" by auto
  have args: "te_call tool (map_option jnorm (Some (GMap a))) w = ((v, err), w')" using assms(5) by simp
  note call = cl_CallTool_http [where srv = srv and w = w and c = c, OF assms(1,4) args assms(6-10)]
  have "te_call e (Some (GMap a)) (c, w) =
     (case err of
        Some x \<Rightarrow> (TVAny GNil, Some (if x = [] then ''tool error'' else x))
      | None \<Rightarrow> (TVContents (if toContent m v = [] \<and> te_structured tool \<and> v \<noteq> TVAny GNil
                   then [NewTextContent (raw_text js (jnorm (tv_json v)))] else toContent m v), None),
      (c\<lparr>cl_idCtr := cl_idCtr c + 2\<rparr>, w'))"
    unfolding e
    by (cases err) (simp_all add: forwardTool_def tool_call_def map_args_def on_backend_def call forward_result_def
        splitOutputs_def joinTextContent_def NewTextContent_def empty_content_def Let_def)
  with k show ?thesis by blast
qed

text \<open>A JSON library that knows a table of values, each by one letter.\<close>

definition table_json :: "(string \<times> gval) list \<Rightarrow> json_lib" where
  "table_json tbl =
     \<lparr>js_enc = (\<lambda>v. case find (\<lambda>p. snd p = v) tbl of Some p \<Rightarrow> Inr (fst p) | None \<Rightarrow> Inl ''unsupported''),
      js_dec = (\<lambda>s. map_option jnorm (map_of tbl (if s \<noteq> [] \<and> last s = CHR 0x0A then butlast s else s))),
      js_text = [], js_quote = (\<lambda>s. s)\<rparr>"

definition table_ok :: "(string \<times> gval) list \<Rightarrow> bool" where
  "table_ok tbl \<longleftrightarrow> distinct (map fst tbl) \<and> (\<forall>t\<in>fst ` set tbl. \<exists>ch\<in>set ''abcdefghi''. t = [ch])"

lemma table_json_ok:
  assumes "table_ok tbl" shows "json_ok (table_json tbl)"
proof -
  have one: "trim_space [ch] = [ch] \<and> ch \<noteq> CHR 0x0A \<and> ch \<noteq> CHR ''[''" if "ch \<in> set ''abcdefghi''" for ch
    using that by (auto simp: trim_both_def trim_left_def trim_right_def is_space_def)
  have "js_dec (table_json tbl) t = Some (jnorm v) \<and> js_dec (table_json tbl) (t @ [CHR 0x0A]) = Some (jnorm v)
      \<and> trim_space t = t \<and> t \<noteq> [] \<and> hd t \<noteq> CHR ''[''" if "js_enc (table_json tbl) v = Inr t" for v t
  proof -
    from that obtain p where p: "find (\<lambda>p. snd p = v) tbl = Some p" "fst p = t" by (auto simp: table_json_def split: option.splits)
    from find_in [OF p(1)] p(2) have "(t, v) \<in> set tbl" by (cases p) auto
    then have "map_of tbl t = Some v" "t \<in> fst ` set tbl" using assms by (force simp: table_ok_def)+
    moreover from this(2) obtain ch where "ch \<in> set ''abcdefghi''" "t = [ch]" using assms by (auto simp: table_ok_def)
    ultimately show ?thesis using one [of ch] by (simp add: table_json_def)
  qed
  then show ?thesis by (simp add: json_ok_def)
qed

lemma table_enc:
  assumes "table_ok tbl" "v \<in> snd ` set tbl"
  obtains t where "js_enc (table_json tbl) v = Inr t" "length t = 1"
proof -
  from assms(2) obtain p where p: "find (\<lambda>p. snd p = v) tbl = Some p"
    by (cases "find (\<lambda>p. snd p = v) tbl") (auto simp: find_None_iff)
  from find_in [OF p] assms(1) obtain ch where "fst p = [ch]" by (auto simp: table_ok_def)
  then show thesis using p that [of "fst p"] by (simp add: table_json_def)
qed

lemma table_call:
  fixes c :: "'w client"
  assumes "table_ok tbl"
    and "wire_message_json (empty_message\<lparr>cm_id := Some (GInt (int (cl_idCtr c + 1))), cm_method := meth, cm_params := None\<rparr>) \<in> snd ` set tbl"
    and "Dispatch m (srv w) \<lparr>rq_id = Some (GFloat (of_nat (cl_idCtr c + 1))), rq_method = meth, rq_params = map_option jnorm None\<rparr> None w
           = (Some (resultResponse i (Some r)), cn, w')"
    and "response_json (table_json tbl) (resultResponse i (Some r)) \<in> snd ` set tbl"
  shows "client_call (table_json tbl) (httpTransport (table_json tbl) (server_post (table_json tbl) m srv)) meth None c w
     = ((Inr (Some (jnorm r)), c\<lparr>cl_idCtr := cl_idCtr c + 1\<rparr>), w')"
proof -
  obtain buf where buf: "js_enc (table_json tbl) (wire_message_json (empty_message\<lparr>cm_id := Some (GInt (int (cl_idCtr c + 1))),
      cm_method := meth, cm_params := None\<rparr>)) = Inr buf" "length buf = 1" by (rule table_enc [OF assms(1,2)])
  obtain t where t: "js_enc (table_json tbl) (response_json (table_json tbl) (resultResponse i (Some r))) = Inr t" "length t = 1"
    by (rule table_enc [OF assms(1,4)])
  from http_call [where srv = srv and w = w and c = c and params = None, OF table_json_ok [OF assms(1)] _ buf(1) _ assms(3) t(1)]
  show ?thesis using buf(2) t(2) by (simp add: max_body_def max_response_def resultResponse_def)
qed

definition demo_backend :: "nat server" where
  "demo_backend = registerTool ''t'' demo_child_tool (New ''c'' [])"

definition demo_ask :: "nat \<Rightarrow> string \<Rightarrow> gval" where
  "demo_ask i meth = wire_message_json (empty_message\<lparr>cm_id := Some (GInt (int i)), cm_method := meth, cm_params := None\<rparr>)"

definition demo_tell :: "nat \<Rightarrow> gval \<Rightarrow> gval" where
  "demo_tell i r = response_json demo_json (resultResponse (Some (GFloat (of_nat i))) (Some r))"

definition demo_tbl :: "(string \<times> gval) list" where
  "demo_tbl = [(''a'', demo_ask 1 ''tools/list''), (''b'', demo_tell 1 (handleToolsList demo_backend)),
     (''c'', demo_ask 2 ''resources/list''), (''d'', demo_tell 2 (handleResourcesList demo_backend)),
     (''e'', demo_ask 3 ''prompts/list''), (''f'', demo_tell 3 (handlePromptsList demo_backend)),
     (''g'', demo_cp), (''h'', demo_cq), (''i'', demo_cr)]"

lemma demo_tbl_ok: "table_ok demo_tbl"
  by (simp add: table_ok_def demo_tbl_def)

lemma tell_any: "demo_tell i r = response_json js (resultResponse (Some (GFloat (of_nat i))) (Some r))"
  by (simp add: demo_tell_def response_json_def resultResponse_def)

abbreviation demo_tr :: "nat transport" where
  "demo_tr \<equiv> httpTransport (table_json demo_tbl) (server_post (table_json demo_tbl) demo_marshal (\<lambda>_. demo_backend))"

lemma demo_list:
  assumes "demo_ask (cl_idCtr c + 1) meth \<in> snd ` set demo_tbl" "demo_tell (cl_idCtr c + 1) r \<in> snd ` set demo_tbl"
    and "\<And>i. Dispatch demo_marshal demo_backend \<lparr>rq_id = Some i, rq_method = meth, rq_params = None\<rparr> None w = (Some (resultResponse (Some i) (Some r)), None, w)"
  shows "client_call (table_json demo_tbl) demo_tr meth None c w = ((Inr (Some (jnorm r)), c\<lparr>cl_idCtr := cl_idCtr c + 1\<rparr>), w)"
proof (rule table_call [OF demo_tbl_ok])
  show "wire_message_json (empty_message\<lparr>cm_id := Some (GInt (int (cl_idCtr c + 1))), cm_method := meth, cm_params := None\<rparr>) \<in> snd ` set demo_tbl"
    using assms(1) by (simp only: demo_ask_def)
  show "response_json (table_json demo_tbl) (resultResponse (Some (GFloat (of_nat (cl_idCtr c + 1)))) (Some r)) \<in> snd ` set demo_tbl"
    using assms(2) unfolding tell_any [where js = "table_json demo_tbl"] .
qed (simp add: assms(3))

lemma demo_dispatch:
  "Dispatch demo_marshal demo_backend \<lparr>rq_id = Some i, rq_method = ''tools/list'', rq_params = None\<rparr> None w
     = (Some (resultResponse (Some i) (Some (handleToolsList demo_backend))), None, w)"
  "Dispatch demo_marshal demo_backend \<lparr>rq_id = Some i, rq_method = ''resources/list'', rq_params = None\<rparr> None w
     = (Some (resultResponse (Some i) (Some (handleResourcesList demo_backend))), None, w)"
  "Dispatch demo_marshal demo_backend \<lparr>rq_id = Some i, rq_method = ''prompts/list'', rq_params = None\<rparr> None w
     = (Some (resultResponse (Some i) (Some (handlePromptsList demo_backend))), None, w)"
  by (simp_all add: Dispatch_def route_def IsNotification_def)

lemma demo_proxy:
  "\<exists>p s0. proxy_New (table_json demo_tbl) demo_tr vis [WithoutInitialize] (Some demo_client) 5 = (Inr p, s0)
     \<and> sv_tools p ''t'' = Some (px_entry (table_json demo_tbl) demo_tr (WithoutInitialize proxy_default)
          \<lparr>td_name = ''t'', td_description = [], td_inputSchema = Some (GMap []), td_outputSchema = None\<rparr>)"
proof -
  let ?js = "table_json demo_tbl" and ?cfg = "WithoutInitialize proxy_default"
  let ?t = "\<lparr>td_name = ''t'', td_description = [], td_inputSchema = Some (GMap []), td_outputSchema = None\<rparr>"
  have c: "cl_idCtr demo_client = 0" by (simp add: demo_client_def newClient_def)
  have low: "to_lower ''tools'' = ''tools''" "to_lower ''resources'' = ''resources''" "to_lower ''prompts'' = ''prompts''"
    "to_lower ''description'' = ''description''" "to_lower ''inputSchema'' = ''inputschema''"
    by code_simp+
  let ?c1 = "demo_client\<lparr>cl_idCtr := Suc 0\<rparr>" and ?c2 = "demo_client\<lparr>cl_idCtr := Suc (Suc 0)\<rparr>"
  let ?c3 = "demo_client\<lparr>cl_idCtr := Suc (Suc (Suc 0))\<rparr>"
  have t: "client_call ?js demo_tr ''tools/list'' None demo_client 5 = ((Inr (Some (jnorm (handleToolsList demo_backend))), ?c1), 5)"
    using demo_list [where c = demo_client and meth = "''tools/list''" and w = 5, OF _ _ demo_dispatch(1)] by (simp add: demo_tbl_def c)
  have r: "client_call ?js demo_tr ''resources/list'' None ?c1 5 = ((Inr (Some (jnorm (handleResourcesList demo_backend))), ?c2), 5)"
    using demo_list [where c = ?c1 and meth = "''resources/list''" and w = 5, OF _ _ demo_dispatch(2)] by (simp add: demo_tbl_def numeral_2_eq_2)
  have q: "client_call ?js demo_tr ''prompts/list'' None ?c2 5 = ((Inr (Some (jnorm (handlePromptsList demo_backend))), ?c3), 5)"
    using demo_list [where c = ?c2 and meth = "''prompts/list''" and w = 5, OF _ _ demo_dispatch(3)] by (simp add: demo_tbl_def numeral_3_eq_3)
  have lt: "cl_ListTools ?js demo_tr demo_client 5 = ((Inr [?t], ?c1), 5)"
    unfolding cl_ListTools_def t
    by (simp add: decode_result_def handleToolsList_def demo_backend_def registerTool_def New_def tool_json_def demo_child_tool_def
        unmarshal_def decode_value_def step_field_def put_list_def step_tool_desc_def put_str_def fold_eq fold_keys low)
  have lr: "cl_ListResources ?js demo_tr ?c1 5 = ((Inr [], ?c2), 5)"
    unfolding cl_ListResources_def r
    by (simp add: decode_result_def handleResourcesList_def demo_backend_def registerTool_def New_def
        unmarshal_def decode_value_def step_field_def put_list_def fold_eq fold_keys low)
  have lp: "cl_ListPrompts ?js demo_tr ?c2 5 = ((Inr [], ?c3), 5)"
    unfolding cl_ListPrompts_def q
    by (simp add: decode_result_def handlePromptsList_def demo_backend_def registerTool_def New_def
        unmarshal_def decode_value_def step_field_def put_list_def fold_eq fold_keys low)
  let ?p = "px_tool ?js demo_tr ?cfg ?t (proxy_server ?cfg)"
  have "register_all_parts ?js demo_tr vis ?cfg (demo_client, 5) = (Inr ?p, (?c3, 5))"
    by (simp add: register_all_parts_def px_registerTools_def px_registerResources_def px_registerPrompts_def on_backend_def lt lr lp
        px_registerTemplates_def kept_by_def WithoutInitialize_def proxy_default_def)
  moreover have "sv_tools ?p ''t'' = Some (px_entry ?js demo_tr ?cfg ?t)"
    by (simp add: px_tool_registers registerTool_def WithoutInitialize_def proxy_default_def)
  ultimately show ?thesis
    by (simp add: proxy_New_def handshake_def) (simp add: WithoutInitialize_def)
qed

theorem proxy_tool_passthrough_witness:
  "\<exists>p s0 e. proxy_New (table_json demo_tbl) demo_tr (\<lambda>_. []) [WithoutInitialize] (Some demo_client) 5 = (Inr p, s0)
     \<and> sv_tools p ''t'' = Some e
     \<and> te_call e (Some (GMap [])) (demo_client, 5) = ((TVContents [NewTextContent ''ok''], None), (demo_client\<lparr>cl_idCtr := 2\<rparr>, 6))"
proof -
  let ?js = "table_json demo_tbl"
  obtain p s0 e where new: "proxy_New ?js demo_tr (\<lambda>_. []) [WithoutInitialize] (Some demo_client) 5 = (Inr p, s0)"
    and e: "sv_tools p ''t'' = Some e" using demo_proxy [of "\<lambda>_. []"] by blast
  have c: "cl_idCtr demo_client = 0" by (simp add: demo_client_def newClient_def)
  have s: "te_structured demo_child_tool = False" by (simp add: demo_child_tool_def)
  obtain pt where pt: "js_enc ?js demo_cp = Inr pt"
    by (rule table_enc [OF demo_tbl_ok, of demo_cp]) (simp_all add: demo_tbl_def)
  obtain buf where buf: "js_enc ?js demo_cq = Inr buf" "length buf = 1"
    by (rule table_enc [OF demo_tbl_ok, of demo_cq]) (simp_all add: demo_tbl_def)
  obtain t where t: "js_enc ?js demo_cr = Inr t" "length t = 1"
    by (rule table_enc [OF demo_tbl_ok, of demo_cr]) (simp_all add: demo_tbl_def)
  have "te_call e (Some (GMap [])) (demo_client, 5) =
     (case (None :: string option) of
        Some x \<Rightarrow> (TVAny GNil, Some (if x = [] then ''tool error'' else x))
      | None \<Rightarrow> (TVContents (if toContent demo_marshal (TVAny (GStr ''ok'')) = [] \<and> te_structured demo_child_tool \<and> TVAny (GStr ''ok'') \<noteq> TVAny GNil
                   then [NewTextContent (raw_text ?js (jnorm (tv_json (TVAny (GStr ''ok'')))))] else toContent demo_marshal (TVAny (GStr ''ok''))), None),
      (demo_client\<lparr>cl_idCtr := cl_idCtr demo_client + 2\<rparr>, 6))
    \<and> kept_by (px_toolFilter (fold (\<lambda>opt. opt) [WithoutInitialize] proxy_default)) ''t''"
  proof (rule proxy_tool_passthrough [where js = ?js and srv = "\<lambda>_. demo_backend" and tool = demo_child_tool and m = demo_marshal
        and vis = "\<lambda>_. []" and opts = "[WithoutInitialize]" and p = p and buf = buf and t = t, OF table_json_ok [OF demo_tbl_ok] new])
    show "sv_tools p (px_prefix (fold (\<lambda>opt. opt) [WithoutInitialize] proxy_default) @ ''t'') = Some e"
      using e by (simp add: WithoutInitialize_def proxy_default_def)
    show "sv_tools demo_backend ''t'' = Some demo_child_tool" by (simp add: demo_backend_def registerTool_def)
    show "te_call demo_child_tool (Some (jnorm (GMap []))) 5 = ((TVAny (GStr ''ok''), None), 6)" by (simp add: demo_child_tool_def)
    show "js_enc ?js (call_tool_params ''t'' (Some (GMap [])) (cl_idCtr demo_client + 1)) = Inr pt" using pt by (simp add: c demo_cp_def)
    show "js_enc ?js (wire_message_json (tool_request demo_client ''t'' (Some (GMap [])))) = Inr buf" using buf by (simp add: demo_cq_def)
    have "response_json ?js r = response_json demo_json r" if "rs_error r = None" for r using that by (simp add: response_json_def)
    then show "js_enc ?js (response_json ?js (tool_response demo_client demo_marshal (te_structured demo_child_tool) (TVAny (GStr ''ok''), None))) = Inr t"
      using t by (simp add: s demo_cr_def tool_response_def resultResponse_def)
  qed (use buf t in \<open>simp_all add: max_body_def max_response_def\<close>)
  then show ?thesis using new e by (auto simp: c)
qed


text \<open>A value that contains a placeholder makes the expansion depend on the order in which the
  variables are visited.\<close>

lemma expand_order_matters:
  "px_expandTemplate ''{a}{b}'' [(''a'', ''{b}''), (''b'', ''x'')] = ''xx''"
  "px_expandTemplate ''{a}{b}'' [(''b'', ''x''), (''a'', ''{b}'')] = ''{b}x''"
  by code_simp+

end
