(* ===== verification/OpenApi.thy ===== *)
theory OpenApi
  imports Prelude GoStd Json Content Schema Registry Dispatch Mount
begin

text \<open>
  Servers generated from OpenAPI documents, \<open>src/openapi/\<close>: the document and its references
  (\<open>spec.go\<close>), the rules that classify operations (\<open>routemap.go\<close>), and the plan of one
  operation, its arguments and its name (\<open>openapi.go\<close>). The document is taken as it is decoded;
  of its decoding only the type sets are modelled. A nil schema is \<open>None\<close>; the order of a list
  that stands for a Go map is the order in which it is visited.
\<close>

section \<open>The document\<close>

datatype oschema = OSchema
  (os_ref: string) (os_type: "string list") (os_format: string) (os_description: string)
  (os_properties: "(string \<times> oschema option) list") (os_items: "oschema option") (os_required: "string list")
  (os_enum: "gval list") (os_default: gval) (os_nullable: bool)

record oparam =
  op_ref :: string
  op_name :: string
  op_in :: string
  op_description :: string
  op_required :: bool
  op_schema :: "oschema option"

text \<open>A media type without a schema, or a nil one, is \<open>None\<close>.\<close>

record obody =
  ob_ref :: string
  ob_description :: string
  ob_required :: bool
  ob_content :: "(string \<times> oschema option) list"

record operation =
  oo_operationId :: string
  oo_summary :: string
  oo_description :: string
  oo_tags :: "string list"
  oo_parameters :: "oparam option list"
  oo_requestBody :: "obody option"

record path_item =
  pt_get :: "operation option"
  pt_put :: "operation option"
  pt_post :: "operation option"
  pt_delete :: "operation option"
  pt_patch :: "operation option"
  pt_head :: "operation option"
  pt_options :: "operation option"
  pt_trace :: "operation option"
  pt_parameters :: "oparam option list"

text \<open>No components are empty components, a nil entry is none.\<close>

record components =
  cp_schemas :: "(string \<times> oschema) list"
  cp_parameters :: "(string \<times> oparam) list"
  cp_requestBodies :: "(string \<times> obody) list"

record spec =
  sp_title :: string
  sp_version :: string
  sp_servers :: "string list"
  sp_paths :: "(string \<times> path_item option) list"
  sp_components :: components

definition operations :: "path_item \<Rightarrow> (string \<times> operation) list" where
  "operations p = List.map_filter (\<lambda>(m, o'). map_option (Pair m) o')
     [(''GET'', pt_get p), (''PUT'', pt_put p), (''POST'', pt_post p), (''DELETE'', pt_delete p),
      (''PATCH'', pt_patch p), (''HEAD'', pt_head p), (''OPTIONS'', pt_options p), (''TRACE'', pt_trace p)]"

definition isRequired :: "oschema \<Rightarrow> string \<Rightarrow> bool" where
  "isRequired s name \<longleftrightarrow> name \<in> set (os_required s)"

text \<open>\<open>TypeSet\<close>: one type or several.\<close>

definition TypeSet_UnmarshalJSON :: "gval \<Rightarrow> string list option" where
  "TypeSet_UnmarshalJSON v =
     (case v of
        GNil \<Rightarrow> Some []
      | GList vs \<Rightarrow> put_strs (GList vs)
      | _ \<Rightarrow> map_option (\<lambda>s. [s]) (put_str v []))"

fun Primary :: "string list \<Rightarrow> string" where
  "Primary [] = []"
| "Primary (s # ss) = (if s \<noteq> ''null'' \<and> s \<noteq> [] then s else Primary ss)"

section \<open>References\<close>

definition refName :: "string \<Rightarrow> string" where
  "refName ref =
     (if \<not> prefix ''#/'' ref then [] else rev (takeWhile (\<lambda>c. c \<noteq> CHR ''/'') (rev ref)))"

text \<open>The loop of \<open>resolveSchema\<close>, \<open>resolveParameter\<close> and \<open>resolveRequestBody\<close>.\<close>

lemma fewer_left:
  assumes "map_of comps name = Some y" "name \<notin> set seen"
  shows "card (fst ` set comps - set (name # seen)) < card (fst ` set comps - set seen)"
proof (rule psubset_card_mono)
  have "name \<in> fst ` set comps" using map_of_SomeD [OF assms(1)] by force
  then show "fst ` set comps - set (name # seen) \<subset> fst ` set comps - set seen" using assms(2) by auto
qed simp

function resolve_ref :: "('a \<Rightarrow> string) \<Rightarrow> (string \<times> 'a) list \<Rightarrow> string list \<Rightarrow> 'a \<Rightarrow> 'a" where
  "resolve_ref ref comps seen x =
     (if ref x = [] then x
      else if refName (ref x) = [] \<or> refName (ref x) \<in> set seen then x
      else (case map_of comps (refName (ref x)) of
              None \<Rightarrow> x
            | Some y \<Rightarrow> resolve_ref ref comps (refName (ref x) # seen) y))"
  by pat_completeness auto
termination
  by (relation "measure (\<lambda>(ref, comps, seen, x). card (fst ` set comps - set seen))")
    (auto dest: fewer_left)

declare resolve_ref.simps [simp del]

definition resolveSchema :: "spec \<Rightarrow> oschema option \<Rightarrow> oschema option" where
  "resolveSchema s sc = map_option (resolve_ref os_ref (cp_schemas (sp_components s)) []) sc"

definition resolveParameter :: "spec \<Rightarrow> oparam option \<Rightarrow> oparam option" where
  "resolveParameter s p = map_option (resolve_ref op_ref (cp_parameters (sp_components s)) []) p"

definition resolveRequestBody :: "spec \<Rightarrow> obody \<Rightarrow> obody" where
  "resolveRequestBody s rb = resolve_ref ob_ref (cp_requestBodies (sp_components s)) [] rb"

definition first_schema :: "(string \<times> oschema option) list \<Rightarrow> oschema option" where
  "first_schema content = (case List.map_filter snd content of [] \<Rightarrow> None | sc # _ \<Rightarrow> Some sc)"

definition jsonBody :: "spec \<Rightarrow> obody option \<Rightarrow> oschema option" where
  "jsonBody s rb =
     (case rb of
        None \<Rightarrow> None
      | Some b \<Rightarrow>
          let content = ob_content (resolveRequestBody s b)
          in (case map_of content ''application/json'' of
                Some (Some sc) \<Rightarrow> resolveSchema s (Some sc)
              | _ \<Rightarrow> resolveSchema s (first_schema content)))"

section \<open>Route maps\<close>

datatype route_type = RouteTool | RouteResource | RouteResourceTemplate | RouteExclude

definition RouteType_String :: "route_type \<Rightarrow> string" where
  "RouteType_String t = (case t of RouteTool \<Rightarrow> ''Tool'' | RouteResource \<Rightarrow> ''Resource''
     | RouteResourceTemplate \<Rightarrow> ''ResourceTemplate'' | RouteExclude \<Rightarrow> ''Exclude'')"

record route_map =
  rm_Methods :: "string list"
  rm_Pattern :: string
  rm_Tags :: "string list"
  rm_Type :: route_type

definition methodMatches :: "string list \<Rightarrow> string \<Rightarrow> bool" where
  "methodMatches methods meth \<longleftrightarrow> methods = [] \<or> (\<exists>m\<in>set methods. m = ''*'' \<or> equal_fold m meth)"

definition containsFold :: "string list \<Rightarrow> string \<Rightarrow> bool" where
  "containsFold xs want \<longleftrightarrow> (\<exists>s\<in>set xs. equal_fold s want)"

text \<open>\<open>rx\<close> compiles a regular expression, \<open>None\<close> when it is invalid.\<close>

definition route_matches :: "(string \<Rightarrow> (string \<Rightarrow> bool) option) \<Rightarrow> route_map \<Rightarrow> string \<Rightarrow> string \<Rightarrow> string list \<Rightarrow> bool" where
  "route_matches rx r meth path tags \<longleftrightarrow>
     methodMatches (rm_Methods r) meth
     \<and> (rm_Pattern r = [] \<or> (case rx (rm_Pattern r) of None \<Rightarrow> False | Some re \<Rightarrow> re path))
     \<and> (\<forall>want\<in>set (rm_Tags r). containsFold tags want)"

fun classify :: "(string \<Rightarrow> (string \<Rightarrow> bool) option) \<Rightarrow> route_map list \<Rightarrow> string \<Rightarrow> string \<Rightarrow> string list \<Rightarrow> route_type" where
  "classify rx [] meth path tags = RouteTool"
| "classify rx (r # rs) meth path tags =
     (if route_matches rx r meth path tags then rm_Type r else classify rx rs meth path tags)"

section \<open>Routes\<close>

record ofield =
  of_jsonName :: string
  of_in :: string
  of_schema :: "oschema option"
  of_required :: bool
  of_explode :: bool

record route_plan =
  ro_name :: string
  ro_description :: string
  ro_method :: string
  ro_path :: string
  ro_fields :: "ofield list"
  ro_wholeBody :: bool

definition orDefault :: "string \<Rightarrow> string \<Rightarrow> string" where
  "orDefault v def = (if v = [] then def else v)"

definition sortedKeys :: "(string \<times> 'a) list \<Rightarrow> string list" where
  "sortedKeys m = sort (map fst m)"

definition jsonKey :: "oparam \<Rightarrow> string" where
  "jsonKey p = op_in p @ '':'' @ op_name p"

definition bodyKey :: "string \<Rightarrow> string" where
  "bodyKey name = ''body:'' @ name"

fun withDescription :: "oschema \<Rightarrow> string \<Rightarrow> oschema" where
  "withDescription (OSchema r t f d ps its rq en df nu) desc = OSchema r t f desc ps its rq en df nu"

definition is_slug :: "char \<Rightarrow> bool" where
  "is_slug c \<longleftrightarrow> (CHR ''a'' \<le> c \<and> c \<le> CHR ''z'') \<or> (CHR ''A'' \<le> c \<and> c \<le> CHR ''Z'') \<or> (CHR ''0'' \<le> c \<and> c \<le> CHR ''9'')"

text \<open>A rune beyond ASCII is several characters here, none of them in the slug, so it gives the
  one underscore it gives there.\<close>

fun slug :: "bool \<Rightarrow> string \<Rightarrow> string" where
  "slug prev [] = []"
| "slug prev (c # cs) =
     (if is_slug c then c # slug False cs else if prev then slug True cs else CHR ''_'' # slug True cs)"

definition sanitizeName :: "string \<Rightarrow> string" where
  "sanitizeName s = trim_both (\<lambda>c. c = CHR ''_'') (slug False s)"

definition toolName :: "operation \<Rightarrow> string \<Rightarrow> string \<Rightarrow> string" where
  "toolName op meth path =
     (if oo_operationId op \<noteq> [] then sanitizeName (oo_operationId op)
      else sanitizeName (to_lower meth @ ''_'' @ path))"

text \<open>The fields so far and the keys used.\<close>

definition string_schema :: oschema where
  "string_schema = OSchema [] [''string''] [] [] [] None [] [] GNil False"

definition described :: "string \<Rightarrow> oschema \<Rightarrow> oschema" where
  "described desc sc = (if desc \<noteq> [] \<and> os_description sc = [] then withDescription sc desc else sc)"

definition add_param :: "spec \<Rightarrow> ofield list \<times> string list \<Rightarrow> oparam option \<Rightarrow> ofield list \<times> string list" where
  "add_param doc st p0 =
     (case (st, resolveParameter doc p0) of
        ((fs, used), None) \<Rightarrow> (fs, used)
      | ((fs, used), Some p) \<Rightarrow>
          if op_name p = [] \<or> op_in p = ''cookie'' \<or> jsonKey p \<in> set used then (fs, used)
          else (fs @ [\<lparr>of_jsonName = op_name p, of_in = op_in p,
                  of_schema = map_option (described (op_description p))
                     (resolveSchema doc (Some (case op_schema p of None \<Rightarrow> string_schema | Some sc \<Rightarrow> sc))),
                  of_required = op_required p \<or> op_in p = ''path'', of_explode = True\<rparr>],
                jsonKey p # used))"

definition add_prop :: "spec \<Rightarrow> oschema \<Rightarrow> ofield list \<times> string list \<Rightarrow> string \<Rightarrow> ofield list \<times> string list" where
  "add_prop doc body st name =
     (case st of (fs, used) \<Rightarrow>
        if bodyKey name \<in> set used then (fs, used)
        else (fs @ [\<lparr>of_jsonName = name, of_in = ''body'',
                of_schema = resolveSchema doc (case map_of (os_properties body) name of Some x \<Rightarrow> x | None \<Rightarrow> None),
                of_required = isRequired body name, of_explode = False\<rparr>],
              bodyKey name # used))"

definition buildRoute :: "spec \<Rightarrow> string \<Rightarrow> string \<Rightarrow> operation \<Rightarrow> oparam option list \<Rightarrow> route_plan" where
  "buildRoute doc path meth op shared =
     (let (fs, used) = foldl (add_param doc) (foldl (add_param doc) ([], []) shared) (oo_parameters op);
          r = \<lparr>ro_name = toolName op meth path, ro_description = orDefault (oo_description op) (oo_summary op),
               ro_method = meth, ro_path = path, ro_fields = fs, ro_wholeBody = False\<rparr>
      in case oo_requestBody op of
           None \<Rightarrow> r
         | Some rb \<Rightarrow>
             (case jsonBody doc (Some rb) of
                None \<Rightarrow> r
              | Some body \<Rightarrow>
                  if Primary (os_type body) = ''object'' \<or> os_properties body \<noteq> []
                  then r\<lparr>ro_fields := fst (foldl (add_prop doc body) (fs, used) (sortedKeys (os_properties body)))\<rparr>
                  else r\<lparr>ro_wholeBody := True,
                         ro_fields := fs @ [\<lparr>of_jsonName = ''body'', of_in = ''body'', of_schema = Some body,
                           of_required = ob_required (resolveRequestBody doc rb), of_explode = False\<rparr>]\<rparr>))"

section \<open>What resolving a reference gives\<close>

definition ref_step :: "('a \<Rightarrow> string) \<Rightarrow> (string \<times> 'a) list \<Rightarrow> ('a \<times> 'a) set" where
  "ref_step ref comps = {(x, y). ref x \<noteq> [] \<and> refName (ref x) \<noteq> [] \<and> map_of comps (refName (ref x)) = Some y}"

lemma ref_step_iff [simp]:
  "(x, y) \<in> ref_step ref comps \<longleftrightarrow> ref x \<noteq> [] \<and> refName (ref x) \<noteq> [] \<and> map_of comps (refName (ref x)) = Some y"
  by (simp add: ref_step_def)

lemma resolve_ref_path:
  assumes "\<forall>n\<in>set seen. \<exists>y. map_of comps n = Some y \<and> (y, x) \<in> (ref_step ref comps)\<^sup>*"
  shows "(x, resolve_ref ref comps seen x) \<in> (ref_step ref comps)\<^sup>*
     \<and> (resolve_ref ref comps seen x \<notin> Domain (ref_step ref comps)
        \<or> (resolve_ref ref comps seen x, resolve_ref ref comps seen x) \<in> (ref_step ref comps)\<^sup>+)"
  using assms
proof (induction ref comps seen x rule: resolve_ref.induct)
  case (1 ref comps seen x)
  let ?S = "ref_step ref comps" and ?n = "refName (ref x)"
  show ?case
  proof (cases "ref x = [] \<or> ?n = [] \<or> map_of comps ?n = None")
    case True
    then have "resolve_ref ref comps seen x = x" by (subst resolve_ref.simps) auto
    with True show ?thesis by auto
  next
    case False
    then obtain y where y: "ref x \<noteq> []" "?n \<noteq> []" "map_of comps ?n = Some y" by auto
    then have xy: "(x, y) \<in> ?S" by simp
    show ?thesis
    proof (cases "?n \<in> set seen")
      case True
      then have "(y, x) \<in> ?S\<^sup>*" using "1.prems" y(3) by auto
      with xy have "(x, x) \<in> ?S\<^sup>+" by (rule rtrancl_into_trancl2)
      moreover have "resolve_ref ref comps seen x = x" using True by (subst resolve_ref.simps) auto
      ultimately show ?thesis by simp
    next
      case False
      then have eq: "resolve_ref ref comps seen x = resolve_ref ref comps (?n # seen) y"
        using y by (subst resolve_ref.simps) simp
      have "\<forall>m\<in>set (?n # seen). \<exists>z. map_of comps m = Some z \<and> (z, y) \<in> ?S\<^sup>*"
      proof
        fix m assume "m \<in> set (?n # seen)"
        then consider "m = ?n" | "m \<in> set seen" by auto
        then show "\<exists>z. map_of comps m = Some z \<and> (z, y) \<in> ?S\<^sup>*"
        proof cases
          case 1 then show ?thesis using y(3) by simp
        next
          case 2
          with "1.prems" obtain z where z: "map_of comps m = Some z" "(z, x) \<in> ?S\<^sup>*" by blast
          from z(2) xy have "(z, y) \<in> ?S\<^sup>*" by (rule rtrancl_into_rtrancl)
          with z(1) show ?thesis by blast
        qed
      qed
      moreover have "\<not> (?n = [] \<or> ?n \<in> set seen)" using False y(2) by simp
      ultimately have "(y, resolve_ref ref comps seen x) \<in> ?S\<^sup>*
          \<and> (resolve_ref ref comps seen x \<notin> Domain ?S
             \<or> (resolve_ref ref comps seen x, resolve_ref ref comps seen x) \<in> ?S\<^sup>+)"
        unfolding eq by (intro "1.IH" [OF y(1) _ y(3)])
      then show ?thesis using converse_rtrancl_into_rtrancl [OF xy] by (elim conjE) (intro conjI)
    qed
  qed
qed

text \<open>
  C35: Following \<open>$ref\<close>s always returns. What it returns is reached from the start
  along the references, and has no reference, an unusable one or one to nothing, unless the
  references run in a circle through it.
\<close>

theorem resolve_ends:
  "(x, resolve_ref ref comps [] x) \<in> (ref_step ref comps)\<^sup>*
   \<and> (ref (resolve_ref ref comps [] x) = []
      \<or> refName (ref (resolve_ref ref comps [] x)) = []
      \<or> map_of comps (refName (ref (resolve_ref ref comps [] x))) = None
      \<or> (resolve_ref ref comps [] x, resolve_ref ref comps [] x) \<in> (ref_step ref comps)\<^sup>+)"
proof -
  have "(x, resolve_ref ref comps [] x) \<in> (ref_step ref comps)\<^sup>*
     \<and> (resolve_ref ref comps [] x \<notin> Domain (ref_step ref comps) \<or> (resolve_ref ref comps [] x, resolve_ref ref comps [] x) \<in> (ref_step ref comps)\<^sup>+)"
    by (rule resolve_ref_path) simp
  moreover have "ref y = [] \<or> refName (ref y) = [] \<or> map_of comps (refName (ref y)) = None"
    if "y \<notin> Domain (ref_step ref comps)" for y using that by (auto simp: Domain_iff)
  ultimately show ?thesis by blast
qed

end
