(* ===== verification/OpenApiServe.thy ===== *)
theory OpenApiServe
  imports Prelude GoStd UriFastmcp Json Content Schema Registry Dispatch Mount OpenApi
begin

text \<open>
  What an OpenAPI operation becomes, \<open>src/openapi/register.go\<close>, \<open>resource.go\<close> and the builder of
  \<open>openapi.go\<close>: the Go type of a tool's arguments, the HTTP request made of them, and the
  registration of tools, resources and templates. \<open>net/url\<close>'s parser, the canonical form of
  header names, the exchange itself, the streaming JSON decoder and \<open>fmt.Sprint\<close> are the
  parameters of \<open>net_lib\<close>.
\<close>

section \<open>The type of the arguments\<close>

text \<open>Free text in a tag.\<close>

definition clean :: "string \<Rightarrow> string" where
  "clean s = trim_space (map (\<lambda>c. if c = CHR '','' then CHR '';'' else if c = CHR ''|'' then CHR ''/''
     else if c = CHR 0x0A \<or> c = CHR 0x0D then CHR '' '' else if c = CHR 0x22 then CHR 0x27 else c) s)"

definition schemaMeta :: "(gval \<Rightarrow> string) \<Rightarrow> oschema option \<Rightarrow> string" where
  "schemaMeta sprint sc =
     (case sc of
        None \<Rightarrow> []
      | Some s \<Rightarrow> join_with '',''
          ((if clean (os_description s) \<noteq> [] then [''description='' @ clean (os_description s)] else [])
           @ (if os_enum s \<noteq> [] then [''enum='' @ join_with ''|'' (map (\<lambda>e. clean (sprint e)) (os_enum s))] else [])))"

definition synthetic :: "nat \<Rightarrow> string" where
  "synthetic i = CHR ''F'' # nat_dec i"

text \<open>The tags are taken as \<open>reflect.StructTag\<close> gives them back.\<close>

definition go_field :: "(gval \<Rightarrow> string) \<Rightarrow> nat \<Rightarrow> string \<Rightarrow> oschema option \<Rightarrow> bool \<Rightarrow> gtype \<Rightarrow> gfld" where
  "go_field sprint i name sc required t =
     Fld (synthetic i) True name (schemaMeta sprint sc) (if required then t else TPtr t)"

text \<open>\<open>objectType\<close>, over the types of the properties.\<close>

definition object_type :: "(gval \<Rightarrow> string) \<Rightarrow> (string \<times> oschema option) list \<Rightarrow> string list \<Rightarrow> (string \<times> gtype) list \<Rightarrow> gtype" where
  "object_type sprint ps required types =
     (if ps = [] then TMapType
      else TStruct (map (\<lambda>(i, name). go_field sprint i name (the (map_of ps name)) (name \<in> set required) (the (map_of types name)))
             (enumerate 0 (sortedKeys ps))))"

lemma size_property: "(n, Some s) \<in> set ps \<Longrightarrow> size s < size (OSchema r t f d ps its rq en df nu)"
proof -
  assume "(n, Some s) \<in> set ps"
  then have "size_prod (\<lambda>_. 0) (size_option size) (n, Some s) \<le> size_list (size_prod (\<lambda>_. 0) (size_option size)) ps"
    by (rule size_list_estimation') simp
  then show ?thesis by simp
qed

function goType :: "(gval \<Rightarrow> string) \<Rightarrow> oschema \<Rightarrow> gtype" where
  "goType sprint (OSchema r t f d ps its rq en df nu) =
     (let obj = object_type sprint ps rq (map (\<lambda>(n, p). (n, case p of None \<Rightarrow> TOther | Some s \<Rightarrow> goType sprint s)) ps)
      in if Primary t = ''string'' then TString
         else if Primary t = ''integer'' then TInt
         else if Primary t = ''number'' then TFloat
         else if Primary t = ''boolean'' then TBool
         else if Primary t = ''array'' then TSlice (case its of None \<Rightarrow> TOther | Some s \<Rightarrow> goType sprint s)
         else if Primary t = ''object'' \<or> ps \<noteq> [] then obj
         else TOther)"
  by pat_completeness auto
termination
  by (relation "measure (\<lambda>(sprint, s). size s)") (auto dest: size_property)

declare goType.simps [simp del]

definition go_type :: "(gval \<Rightarrow> string) \<Rightarrow> oschema option \<Rightarrow> gtype" where
  "go_type sprint sc = (case sc of None \<Rightarrow> TOther | Some s \<Rightarrow> goType sprint s)"

definition structType :: "(gval \<Rightarrow> string) \<Rightarrow> ofield list \<Rightarrow> gtype" where
  "structType sprint fs =
     TStruct (map (\<lambda>(i, f). go_field sprint i (of_jsonName f) (of_schema f) (of_required f) (go_type sprint (of_schema f)))
       (enumerate 0 fs))"

section \<open>The arguments as a map\<close>

text \<open>How \<open>encoding/json\<close> names a field: the tag's name when it is a valid one. Of several fields
  of one name a single tagged one counts, several tagged ones drop out. (The options a comma in
  a name would make are not modelled.)\<close>

definition valid_tag :: "string \<Rightarrow> bool" where
  "valid_tag s \<longleftrightarrow> s \<noteq> [] \<and> list_all (\<lambda>c. is_slug c \<or> c \<in> set ''!#$%&()*+-./:;<=>?@[]^_{|}~ '' \<or> CHR 0x7F < c) s"

definition tag_name :: "gfld \<Rightarrow> string" where
  "tag_name f = hd (split_on (CHR '','') (fl_json f))"

definition tagged :: "gfld \<Rightarrow> bool" where
  "tagged f \<longleftrightarrow> valid_tag (tag_name f)"

definition wire_name :: "gfld \<Rightarrow> string" where
  "wire_name f = (if tagged f then tag_name f else fl_name f)"

definition json_visible :: "gfld list \<Rightarrow> gfld \<Rightarrow> bool" where
  "json_visible fs f \<longleftrightarrow> fl_json f \<noteq> ''-''
     \<and> (let same = filter (\<lambda>g. fl_json g \<noteq> ''-'' \<and> wire_name g = wire_name f) fs
        in if tagged f then length (filter tagged same) = 1 else length same = 1)"

text \<open>The last entry of an object that goes into a field: its name, or, when no field has that
  very name, the name up to case.\<close>

definition json_target :: "gfld list \<Rightarrow> string \<Rightarrow> string option" where
  "json_target fs k =
     (let names = map wire_name (filter (json_visible fs) fs)
      in if k \<in> set names then Some k else find (\<lambda>n. equal_fold n k) names)"

definition field_entry :: "gfld list \<Rightarrow> (string \<times> gval) list \<Rightarrow> gfld \<Rightarrow> gval option" where
  "field_entry fs m f = map_option snd (find (\<lambda>(k, v). json_target fs k = Some (wire_name f)) (rev m))"

text \<open>A zero value, and a value decoded into a Go type, both as they marshal again.\<close>

lemma size_struct_field [termination_simp]: "f \<in> set fs \<Longrightarrow> size (fl_type f) < Suc (size_list size fs)"
  by (induction fs) (auto simp: gfld.size split: gfld.splits, case_tac f, simp)

fun go_zero :: "gtype \<Rightarrow> gval" where
  "go_zero TBool = GBool False"
| "go_zero TInt = GInt 0"
| "go_zero TFloat = GFloat 0"
| "go_zero TString = GStr []"
| "go_zero (TStruct fs) = GMap (map (\<lambda>f. (wire_name f, go_zero (fl_type f))) (filter (json_visible fs) fs))"
| "go_zero _ = GNil"

fun go_back :: "gtype \<Rightarrow> gval \<Rightarrow> gval option" where
  "go_back TBool v = (case v of GBool b \<Rightarrow> Some v | GNil \<Rightarrow> Some (GBool False) | _ \<Rightarrow> None)"
| "go_back TInt v = map_option GInt (case put_int v 0 of Some i \<Rightarrow> if - (2 ^ 63) \<le> i \<and> i < 2 ^ 63 then Some i else None | None \<Rightarrow> None)"
| "go_back TFloat v = map_option GFloat (put_float v 0)"
| "go_back TString v = map_option GStr (put_str v [])"
| "go_back (TSlice t) v = (case v of GNil \<Rightarrow> Some GNil | GList vs \<Rightarrow> map_option GList (those (map (go_back t) vs)) | _ \<Rightarrow> None)"
| "go_back TMapType v = (case v of GNil \<Rightarrow> Some GNil | GMap m \<Rightarrow> Some v | _ \<Rightarrow> None)"
| "go_back (TStruct fs) v =
     (case v of
        GNil \<Rightarrow> Some (go_zero (TStruct fs))
      | GMap m \<Rightarrow> map_option GMap (those (map (\<lambda>f.
            case field_entry fs m f of
              None \<Rightarrow> Some (wire_name f, go_zero (fl_type f))
            | Some x \<Rightarrow> map_option (Pair (wire_name f)) (go_back (fl_type f) x)) (filter (json_visible fs) fs)))
      | _ \<Rightarrow> None)"
| "go_back (TPtr t) v = (if v = GNil then Some GNil else go_back t v)"
| "go_back TOther v = Some v"

definition structToMap :: "gval \<Rightarrow> (string \<times> gval) list" where
  "structToMap v = (case v of GMap m \<Rightarrow> filter (\<lambda>p. snd p \<noteq> GNil) m | _ \<Rightarrow> [])"

section \<open>The request\<close>

record api_request =
  hq_method :: string
  hq_url :: string
  hq_headers :: "(string \<times> string) list"
  hq_body :: "string option"

datatype http_outcome = DoFailed string | ReadFailed string | Received nat string

record 'w net_lib =
  nl_url :: "string \<Rightarrow> string option \<Rightarrow> string + string"
  nl_newRequest :: "string \<Rightarrow> string option"
  nl_header :: "string \<Rightarrow> string"
  nl_do :: "api_request \<Rightarrow> 'w \<Rightarrow> http_outcome \<times> 'w"
  nl_decode :: "string \<Rightarrow> gval option"
  nl_sprint :: "gval \<Rightarrow> string"

record openapi_config =
  oc_serverName :: string
  oc_routeMaps :: "route_map list"
  oc_headers :: "(string \<times> string) list"

definition openapi_default :: openapi_config where
  "openapi_default = \<lparr>oc_serverName = [], oc_routeMaps = [], oc_headers = []\<rparr>"

definition oa_WithServerName :: "string \<Rightarrow> openapi_config \<Rightarrow> openapi_config" where
  "oa_WithServerName n c = c\<lparr>oc_serverName := n\<rparr>"

definition WithRouteMaps :: "route_map list \<Rightarrow> openapi_config \<Rightarrow> openapi_config" where
  "WithRouteMaps maps c = c\<lparr>oc_routeMaps := oc_routeMaps c @ maps\<rparr>"

definition WithHeader :: "string \<Rightarrow> string \<Rightarrow> openapi_config \<Rightarrow> openapi_config" where
  "WithHeader n v c = c\<lparr>oc_headers := AList.update n v (oc_headers c)\<rparr>"

text \<open>\<open>url.PathEscape\<close> and \<open>url.QueryEscape\<close>.\<close>

definition path_char :: "char \<Rightarrow> bool" where
  "path_char c \<longleftrightarrow> utUnreserved c \<or> c \<in> set ''$&+=:@''"

definition PathEscape :: "string \<Rightarrow> string" where
  "PathEscape s = concat (map (\<lambda>c. if path_char c then [c] else pct c) s)"

definition QueryEscape :: "string \<Rightarrow> string" where
  "QueryEscape s = concat (map (\<lambda>c. if utUnreserved c then [c] else if c = CHR '' '' then ''+'' else pct c) s)"

definition scalarString :: "(gval \<Rightarrow> string) \<Rightarrow> gval \<Rightarrow> string" where
  "scalarString sprint v =
     (case v of GStr s \<Rightarrow> s | GInt i \<Rightarrow> itoa i | GBool b \<Rightarrow> if b then ''true'' else ''false'' | _ \<Rightarrow> sprint v)"

definition toStrings :: "(gval \<Rightarrow> string) \<Rightarrow> gval \<Rightarrow> string list" where
  "toStrings sprint v = (case v of GList vs \<Rightarrow> map (scalarString sprint) vs | _ \<Rightarrow> [scalarString sprint v])"

definition ensureLeadingSlash :: "string \<Rightarrow> string" where
  "ensureLeadingSlash p = (if prefix ''/'' p then p else CHR ''/'' # p)"

definition placeholder :: "string \<Rightarrow> string" where
  "placeholder name = CHR 0x7B # name @ [CHR 0x7D]"

text \<open>What the loop over the fields collects.\<close>

record request_parts =
  rp_path :: string
  rp_query :: "(string \<times> string) list"
  rp_header :: "(string \<times> string) list"
  rp_body :: "(string \<times> gval) list"
  rp_whole :: "gval option"

definition place_field :: "(gval \<Rightarrow> string) \<Rightarrow> (string \<Rightarrow> string) \<Rightarrow> bool \<Rightarrow> (string \<times> gval) list \<Rightarrow> request_parts \<Rightarrow> ofield \<Rightarrow> request_parts" where
  "place_field sprint canon whole vals rp f =
     (case map_of vals (of_jsonName f) of
        None \<Rightarrow> rp
      | Some val \<Rightarrow>
          if of_in f = ''path''
          then rp\<lparr>rp_path := replace_all (rp_path rp) (placeholder (of_jsonName f)) (PathEscape (scalarString sprint val))\<rparr>
          else if of_in f = ''query'' then rp\<lparr>rp_query := rp_query rp @ map (Pair (of_jsonName f)) (toStrings sprint val)\<rparr>
          else if of_in f = ''header''
          then rp\<lparr>rp_header := AList.update (canon (of_jsonName f)) (scalarString sprint val) (rp_header rp)\<rparr>
          else if of_in f = ''body''
          then (if whole then rp\<lparr>rp_whole := Some val\<rparr> else rp\<lparr>rp_body := AList.update (of_jsonName f) val (rp_body rp)\<rparr>)
          else rp)"

definition place_fields :: "(gval \<Rightarrow> string) \<Rightarrow> (string \<Rightarrow> string) \<Rightarrow> route_plan \<Rightarrow> (string \<times> gval) list \<Rightarrow> request_parts" where
  "place_fields sprint canon r vals =
     foldl (place_field sprint canon (ro_wholeBody r) vals)
       \<lparr>rp_path = ro_path r, rp_query = [], rp_header = [], rp_body = [], rp_whole = None\<rparr> (ro_fields r)"

definition query_Encode :: "(string \<times> string) list \<Rightarrow> string" where
  "query_Encode q = join_with ''&'' (map (\<lambda>(k, v). QueryEscape k @ ''='' @ QueryEscape v) (sort_key fst q))"

definition request_headers :: "(string \<Rightarrow> string) \<Rightarrow> openapi_config \<Rightarrow> bool \<Rightarrow> (string \<times> string) list \<Rightarrow> (string \<times> string) list" where
  "request_headers canon cfg has_body hs =
     foldl (\<lambda>acc (k, v). AList.update (canon k) v acc) []
       ((if has_body then [(''Content-Type'', ''application/json'')] else []) @ [(''Accept'', ''application/json'')]
        @ oc_headers cfg @ hs)"

definition decodeResponse :: "(string \<Rightarrow> gval option) \<Rightarrow> string \<Rightarrow> gval" where
  "decodeResponse dec data =
     (let trimmed = trim_space data
      in if trimmed = [] then GStr [] else (case dec trimmed of None \<Rightarrow> GStr trimmed | Some v \<Rightarrow> v))"

text \<open>The body: what is marshalled, if anything is sent.\<close>

definition payload :: "route_plan \<Rightarrow> request_parts \<Rightarrow> gval option" where
  "payload r rp =
     (if rp_whole rp = None \<and> rp_body rp = [] then None
      else Some (if ro_wholeBody r then (case rp_whole rp of Some v \<Rightarrow> v | None \<Rightarrow> GNil) else GMap (rp_body rp)))"

definition doRequest ::
  "json_lib \<Rightarrow> 'w net_lib \<Rightarrow> openapi_config \<Rightarrow> string \<Rightarrow> route_plan \<Rightarrow> (string \<times> gval) list \<Rightarrow> 'w \<Rightarrow> (string + gval) \<times> 'w" where
  "doRequest js nl cfg baseURL r vals w =
     (let rp = place_fields (nl_sprint nl) (nl_header nl) r vals
      in case nl_url nl (baseURL @ ensureLeadingSlash (rp_path rp)) (if rp_query rp = [] then None else Some (query_Encode (rp_query rp))) of
           Inl e \<Rightarrow> (Inl (''openapi: build URL: '' @ e), w)
         | Inr url \<Rightarrow>
        (case (case payload r rp of None \<Rightarrow> Inr None
               | Some v \<Rightarrow> (case js_enc js v of Inl e \<Rightarrow> Inl e | Inr b \<Rightarrow> Inr (Some b))) of
           Inl e \<Rightarrow> (Inl (''openapi: encode body: '' @ e), w)
         | Inr body \<Rightarrow>
        (case nl_newRequest nl url of
           Some e \<Rightarrow> (Inl (''openapi: new request: '' @ e), w)
         | None \<Rightarrow>
        (case nl_do nl \<lparr>hq_method = ro_method r, hq_url = url,
                hq_headers = request_headers (nl_header nl) cfg (body \<noteq> None) (rp_header rp), hq_body = body\<rparr> w of
           (DoFailed e, w') \<Rightarrow> (Inl (''openapi: request '' @ ro_method r @ '' '' @ url @ '': '' @ e), w')
         | (ReadFailed e, w') \<Rightarrow> (Inl (''openapi: read response: '' @ e), w')
         | (Received status data, w') \<Rightarrow>
             (if status \<ge> 400
              then Inl (''openapi: '' @ ro_method r @ '' '' @ url @ '': HTTP '' @ nat_dec status @ '': '' @ trim_space data)
              else Inr (decodeResponse (nl_decode nl) data), w')))))"

section \<open>Registration\<close>

text \<open>A tool that cannot be registered is left out, the panic being recovered.\<close>

definition oa_tool_call ::
  "json_lib \<Rightarrow> 'w net_lib \<Rightarrow> openapi_config \<Rightarrow> string \<Rightarrow> route_plan \<Rightarrow> gval option \<Rightarrow> 'w \<Rightarrow> (tool_value \<times> string option) \<times> 'w" where
  "oa_tool_call js nl cfg baseURL r =
     (let t = structType (nl_sprint nl) (ro_fields r)
      in tool_call (\<lambda>v. case go_back t v of None \<Rightarrow> Inl (js_text js) | Some x \<Rightarrow> Inr (structToMap x)) (structToMap (go_zero t))
           (\<lambda>vals w. case doRequest js nl cfg baseURL r vals w of
              (Inl e, w') \<Rightarrow> ([OVal (TVAny GNil), OErr (Some e)], w')
            | (Inr v, w') \<Rightarrow> ([OVal (TVAny v), OErr None], w')))"

definition oa_registerTool where
  "oa_registerTool js nl cfg baseURL r srv =
     (case Tool (ro_name r) (ro_description r) (Func [SCtx, STy (structType (nl_sprint nl) (ro_fields r))] [STy TOther, SErr])
             (oa_tool_call js nl cfg baseURL r) srv of
        Inr srv' \<Rightarrow> srv' | Inl e \<Rightarrow> srv)"

definition resourceURI :: "string \<Rightarrow> string" where
  "resourceURI path = ''openapi://'' @ dropWhile (\<lambda>c. c = CHR ''/'') path"

definition stringify :: "json_lib \<Rightarrow> (gval \<Rightarrow> string) \<Rightarrow> gval \<Rightarrow> string" where
  "stringify js sprint v = (case v of GStr s \<Rightarrow> s | _ \<Rightarrow> (case js_enc js v of Inr b \<Rightarrow> b | Inl _ \<Rightarrow> sprint v))"

definition read_operation where
  "read_operation js nl cfg baseURL r vals w =
     (case doRequest js nl cfg baseURL r vals w of
        (Inl e, w') \<Rightarrow> (Inl e, w') | (Inr v, w') \<Rightarrow> (Inr (stringify js (nl_sprint nl) v), w'))"

definition oa_registerResource where
  "oa_registerResource js nl cfg baseURL r srv =
     Resource (resourceURI (ro_path r)) (ro_name r) (ro_description r) ''application/json''
       (read_operation js nl cfg baseURL r []) srv"

definition path_values :: "route_plan \<Rightarrow> (string \<rightharpoonup> string) \<Rightarrow> (string \<times> gval) list" where
  "path_values r params =
     List.map_filter (\<lambda>f. if of_in f = ''path'' then map_option (\<lambda>v. (of_jsonName f, GStr v)) (params (of_jsonName f)) else None)
       (ro_fields r)"

definition oa_registerResourceTemplate where
  "oa_registerResourceTemplate js nl cfg baseURL r srv =
     ResourceTemplate (resourceURI (ro_path r)) (ro_name r) (ro_description r) ''application/json''
       (\<lambda>params. read_operation js nl cfg baseURL r (path_values r params)) srv"

definition oa_register where
  "oa_register js nl rx cfg baseURL doc path item srv mo =
     (case mo of (meth, op) \<Rightarrow>
        let r = buildRoute doc path meth op (pt_parameters item)
        in (case classify rx (oc_routeMaps cfg) meth path (oo_tags op) of
              RouteExclude \<Rightarrow> srv
            | RouteResource \<Rightarrow> oa_registerResource js nl cfg baseURL r srv
            | RouteResourceTemplate \<Rightarrow> oa_registerResourceTemplate js nl cfg baseURL r srv
            | RouteTool \<Rightarrow> oa_registerTool js nl cfg baseURL r srv))"

definition FromOpenAPIDoc ::
  "json_lib \<Rightarrow> 'w net_lib \<Rightarrow> (string \<Rightarrow> (string \<Rightarrow> bool) option) \<Rightarrow> spec option \<Rightarrow> string
     \<Rightarrow> (openapi_config \<Rightarrow> openapi_config) list \<Rightarrow> string + 'w server" where
  "FromOpenAPIDoc js nl rx doc baseURL0 opts =
     (case doc of
        None \<Rightarrow> Inl ''openapi: nil spec''
      | Some d \<Rightarrow>
          let cfg = fold (\<lambda>opt. opt) opts openapi_default;
              base = (if baseURL0 = [] then (case sp_servers d of [] \<Rightarrow> [] | u # _ \<Rightarrow> u) else baseURL0)
          in if base = [] then Inl ''openapi: no base URL: pass one or set servers[0].url in the spec''
             else
               let baseURL = trim_right (\<lambda>c. c = CHR ''/'') base;
                   name = orDefault (orDefault (oc_serverName cfg) (sp_title d)) ''openapi'';
                   srv = New name [WithVersion (orDefault (sp_version d) ''0.2.0'')]
               in Inr (foldl (\<lambda>srv path.
                     case map_of (sp_paths d) path of
                       Some (Some item) \<Rightarrow> foldl (oa_register js nl rx cfg baseURL d path item) srv (operations item)
                     | _ \<Rightarrow> srv) srv (sortedKeys (sp_paths d))))"

text \<open>\<open>parse\<close> decodes the document.\<close>

definition FromOpenAPI where
  "FromOpenAPI js nl rx parse text baseURL opts =
     (case parse text of
        Inl e \<Rightarrow> Inl (''openapi: parse spec: '' @ e)
      | Inr doc \<Rightarrow> FromOpenAPIDoc js nl rx (Some doc) baseURL opts)"

section \<open>Values in the path\<close>

lemma concat_chars: "concat (map f (x # xs)) = f x @ concat (map f xs)"
  by simp

lemma url_PathUnescape_PathEscape: "url_PathUnescape (PathEscape s) = Some s"
proof (induction s)
  case Nil
  then show ?case by (simp add: PathEscape_def)
next
  case (Cons c s)
  obtain a b where p: "pct c = [CHR ''%'', a, b]" "is_hex a" "is_hex b" "unpct a b = c"
    using pct_props [of c] by blast
  have "c \<noteq> CHR ''%''" if "path_char c"
    using that by (auto simp: path_char_def utUnreserved_def)
  with Cons p show ?case by (simp add: PathEscape_def)
qed

interpretation oa_path_codec: codec PathEscape url_PathUnescape "\<lambda>_. True"
  by unfold_locales (rule url_PathUnescape_PathEscape)

lemma hex_not_delimiter: "is_hex c \<Longrightarrow> c \<notin> set ''/?#{}''"
  by (auto simp: is_hex_def)

lemma PathEscape_chars: "set (PathEscape s) \<inter> set ''/?#{}'' = {}"
proof -
  have "set (if path_char c then [c] else pct c) \<inter> set ''/?#{}'' = {}" for c
  proof (cases "path_char c")
    case True
    then show ?thesis by (auto simp: path_char_def utUnreserved_def)
  next
    case False
    obtain a b where "pct c = [CHR ''%'', a, b]" "is_hex a" "is_hex b" using pct_props [of c] by blast
    with False hex_not_delimiter [of a] hex_not_delimiter [of b] show ?thesis by auto
  qed
  then show ?thesis unfolding PathEscape_def set_concat by (simp only: set_map) blast
qed

text \<open>A path as its pieces: text without a brace, and placeholders.\<close>

datatype path_part = Plain string | Slot string

definition no_braces :: "string \<Rightarrow> bool" where
  "no_braces s \<longleftrightarrow> CHR 0x7B \<notin> set s \<and> CHR 0x7D \<notin> set s"

fun part_ok :: "path_part \<Rightarrow> bool" where
  "part_ok (Plain s) = no_braces s"
| "part_ok (Slot n) = no_braces n"

fun part_text :: "path_part \<Rightarrow> string" where
  "part_text (Plain s) = s"
| "part_text (Slot n) = placeholder n"

fun put_part :: "(string \<Rightarrow> string option) \<Rightarrow> path_part \<Rightarrow> path_part" where
  "put_part m (Plain s) = Plain s"
| "put_part m (Slot n) = (case m n of None \<Rightarrow> Slot n | Some t \<Rightarrow> Plain t)"

definition path_text :: "path_part list \<Rightarrow> string" where
  "path_text ps = concat (map part_text ps)"

lemma replace_plain:
  "CHR 0x7B \<notin> set s \<Longrightarrow> replace_all (s @ t) (placeholder n) v = s @ replace_all t (placeholder n) v"
  by (induction s) (auto simp: replace_all.simps [of "_ # _"] placeholder_def)

lemma replace_same: "replace_all (placeholder n @ t) (placeholder n) v = v @ replace_all t (placeholder n) v"
proof -
  have "placeholder n \<noteq> []" by (simp add: placeholder_def)
  then show ?thesis by (subst replace_all.simps) simp
qed

lemma no_prefix_of_other:
  "no_braces n \<Longrightarrow> no_braces m \<Longrightarrow> n @ CHR 0x7D # r = m @ CHR 0x7D # t \<Longrightarrow> n = m"
proof (induction n arbitrary: m)
  case Nil
  then show ?case by (cases m) (auto simp: no_braces_def)
next
  case (Cons a n)
  then show ?case by (cases m) (auto simp: no_braces_def)
qed

lemma replace_other:
  assumes "no_braces n" "no_braces m" "m \<noteq> n"
  shows "replace_all (placeholder m @ t) (placeholder n) v = placeholder m @ replace_all t (placeholder n) v"
proof -
  let ?p = "placeholder n"
  have "\<not> has_prefix (placeholder m @ t) ?p"
    using no_prefix_of_other [OF assms(2,1)] assms(3) by (auto simp: has_prefix_iff placeholder_def)
  then have "replace_all (placeholder m @ t) ?p v = CHR 0x7B # replace_all ((m @ [CHR 0x7D]) @ t) ?p v"
    by (subst replace_all.simps) (simp add: placeholder_def)
  also have "replace_all ((m @ [CHR 0x7D]) @ t) ?p v = (m @ [CHR 0x7D]) @ replace_all t ?p v"
    using assms(2) by (intro replace_plain) (auto simp: no_braces_def)
  finally show ?thesis by (simp add: placeholder_def)
qed

lemma replace_slot:
  assumes "list_all part_ok ps" "no_braces n"
  shows "replace_all (path_text ps) (placeholder n) v = path_text (map (put_part [n \<mapsto> v]) ps)"
  using assms
proof (induction ps)
  case Nil
  then show ?case by (simp add: path_text_def)
next
  case (Cons p ps)
  then have IH: "replace_all (path_text ps) (placeholder n) v = path_text (map (put_part [n \<mapsto> v]) ps)"
    by (simp del: fun_upd_apply)
  have cons: "path_text (p # ps) = part_text p @ path_text ps" for p ps by (simp add: path_text_def)
  show ?case
  proof (cases p)
    case (Plain s)
    with Cons.prems have "CHR 0x7B \<notin> set s" by (simp add: no_braces_def)
    with Plain IH show ?thesis by (simp add: cons replace_plain del: fun_upd_apply)
  next
    case (Slot m)
    with Cons.prems IH show ?thesis
      by (cases "m = n") (simp_all add: cons replace_same replace_other del: fun_upd_apply, simp_all)
  qed
qed

text \<open>The text that takes the place of a parameter.\<close>

definition path_argument :: "(gval \<Rightarrow> string) \<Rightarrow> ofield list \<Rightarrow> (string \<times> gval) list \<Rightarrow> string \<Rightarrow> string option" where
  "path_argument sprint fs vals n =
     (if \<exists>f\<in>set fs. of_in f = ''path'' \<and> of_jsonName f = n
      then map_option (\<lambda>v. PathEscape (scalarString sprint v)) (map_of vals n) else None)"

lemma path_argument_Nil [simp]: "path_argument sprint [] vals n = None"
  by (simp add: path_argument_def)

lemma PathEscape_no_braces: "no_braces (PathEscape s)"
  using PathEscape_chars [of s] by (auto simp: no_braces_def)

lemma put_part_ok: "part_ok p \<Longrightarrow> part_ok (put_part (path_argument sprint fs vals) p)"
  by (cases p) (auto simp: path_argument_def PathEscape_no_braces split: option.splits)

lemma put_part_ok_all: "list_all part_ok ps \<Longrightarrow> list_all part_ok (map (put_part (path_argument sprint fs vals)) ps)"
  by (auto simp: list_all_iff put_part_ok)

lemma put_part_again:
  assumes "map_of vals n = Some v"
  shows "put_part [n \<mapsto> PathEscape (scalarString sprint v)] (put_part (path_argument sprint fs vals) p)
     = put_part (\<lambda>k. if k = n then Some (PathEscape (scalarString sprint v)) else path_argument sprint fs vals k) p"
  using assms by (cases p) (auto simp: path_argument_def split: option.splits)

lemma path_argument_snoc:
  "path_argument sprint (fs @ [f]) vals =
     (if of_in f = ''path'' \<and> map_of vals (of_jsonName f) \<noteq> None
      then (\<lambda>k. if k = of_jsonName f then map_option (\<lambda>v. PathEscape (scalarString sprint v)) (map_of vals k)
           else path_argument sprint fs vals k)
      else path_argument sprint fs vals)"
  by (rule ext) (auto simp: path_argument_def)

lemma place_field_path:
  "rp_path (place_field sprint canon whole vals rp f) =
     (if of_in f = ''path'' then (case map_of vals (of_jsonName f) of
         None \<Rightarrow> rp_path rp
       | Some v \<Rightarrow> replace_all (rp_path rp) (placeholder (of_jsonName f)) (PathEscape (scalarString sprint v)))
      else rp_path rp)"
  by (simp add: place_field_def split: option.splits)

lemma place_fields_path:
  assumes "list_all part_ok ps" "\<forall>f\<in>set fs. of_in f = ''path'' \<longrightarrow> no_braces (of_jsonName f)" "rp_path rp = path_text ps"
  shows "rp_path (foldl (place_field sprint canon whole vals) rp fs)
     = path_text (map (put_part (path_argument sprint fs vals)) ps)"
  using assms(2)
proof (induction fs rule: rev_induct)
  case Nil
  have "map (put_part (path_argument sprint [] vals)) ps = ps"
    by (intro map_idI) (case_tac x, auto)
  then show ?case by (simp only: foldl.simps assms(3))
next
  case (snoc f fs)
  let ?rp = "foldl (place_field sprint canon whole vals) rp fs" and ?n = "of_jsonName f"
  have IH: "rp_path ?rp = path_text (map (put_part (path_argument sprint fs vals)) ps)" using snoc by simp
  show ?case
  proof (cases "of_in f = ''path'' \<and> map_of vals ?n \<noteq> None")
    case False
    then have "rp_path (place_field sprint canon whole vals ?rp f) = rp_path ?rp"
      by (auto simp: place_field_path)
    moreover have "path_argument sprint (fs @ [f]) vals = path_argument sprint fs vals"
      using False by (auto simp: path_argument_snoc)
    ultimately show ?thesis using IH by simp
  next
    case True
    then obtain v where v: "map_of vals ?n = Some v" by blast
    let ?t = "PathEscape (scalarString sprint v)"
    have m: "path_argument sprint (fs @ [f]) vals = (\<lambda>k. if k = ?n then Some ?t else path_argument sprint fs vals k)"
      using True v by (auto simp: path_argument_snoc)
    have "rp_path (place_field sprint canon whole vals ?rp f) = replace_all (rp_path ?rp) (placeholder ?n) ?t"
      using True v by (simp add: place_field_path)
    also have "\<dots> = path_text (map (put_part [?n \<mapsto> ?t]) (map (put_part (path_argument sprint fs vals)) ps))"
      unfolding IH using True snoc.prems by (intro replace_slot put_part_ok_all assms(1)) simp
    also have "\<dots> = path_text (map (put_part (path_argument sprint (fs @ [f]) vals)) ps)"
      unfolding m by (simp add: put_part_again [OF v] comp_def del: fun_upd_apply)
    finally show ?thesis by simp
  qed
qed

text \<open>
  C36: The path of a request is the path of the operation with every placeholder
  of a path parameter that has a value replaced by the escaped value, all at once: no value is
  searched for placeholders again, whatever the order of the parameters. An escaped value holds no
  slash, question mark, hash or brace, so it stays in its segment, and unescaping it gives the
  value.
\<close>

theorem openapi_path_safe:
  assumes "ro_path r = path_text ps" "list_all part_ok ps"
    and "\<forall>f\<in>set (ro_fields r). of_in f = ''path'' \<longrightarrow> no_braces (of_jsonName f)"
  shows "rp_path (place_fields sprint canon r vals)
       = path_text (map (put_part (path_argument sprint (ro_fields r) vals)) ps)
     \<and> (\<forall>n t. path_argument sprint (ro_fields r) vals n = Some t \<longrightarrow>
          set t \<inter> set ''/?#{}'' = {}
          \<and> url_PathUnescape t = map_option (scalarString sprint) (map_of vals n))"
proof
  show "rp_path (place_fields sprint canon r vals)
       = path_text (map (put_part (path_argument sprint (ro_fields r) vals)) ps)"
    unfolding place_fields_def using assms by (intro place_fields_path) simp_all
  show "\<forall>n t. path_argument sprint (ro_fields r) vals n = Some t \<longrightarrow>
          set t \<inter> set ''/?#{}'' = {}
          \<and> url_PathUnescape t = map_option (scalarString sprint) (map_of vals n)"
  proof (intro allI impI)
    fix n t assume "path_argument sprint (ro_fields r) vals n = Some t"
    then obtain v where v: "map_of vals n = Some v" "t = PathEscape (scalarString sprint v)"
      by (auto simp: path_argument_def split: if_splits)
    show "set t \<inter> set ''/?#{}'' = {} \<and> url_PathUnescape t = map_option (scalarString sprint) (map_of vals n)"
      unfolding v by (simp only: PathEscape_chars url_PathUnescape_PathEscape option.map simp_thms)
  qed
qed

definition example_field :: "string \<Rightarrow> string \<Rightarrow> string \<Rightarrow> bool \<Rightarrow> ofield" where
  "example_field n loc t required =
     \<lparr>of_jsonName = n, of_in = loc, of_schema = Some (OSchema [] [t] [] [] [] None [] [] GNil False),
      of_required = required, of_explode = False\<rparr>"

definition example_put :: route_plan where
  "example_put = \<lparr>ro_name = ''put_item'', ro_description = [], ro_method = ''PUT'', ro_path = ''/items/{id}/rev'',
     ro_fields = [example_field ''id'' ''path'' ''string'' True, example_field ''limit'' ''query'' ''integer'' False,
       example_field ''name'' ''body'' ''string'' False],
     ro_wholeBody = False\<rparr>"

lemma openapi_path_safe_witness:
  "rp_path (place_fields (\<lambda>_. []) (\<lambda>h. h) example_put [(''id'', GStr ''a/{limit}?'')])
     = ''/items/a%2F%7Blimit%7D%3F/rev''"
proof -
  let ?ps = "[Plain ''/items/'', Slot ''id'', Plain ''/rev'']"
  have a: "ro_path example_put = path_text ?ps" "list_all part_ok ?ps" by code_simp+
  have b: "\<forall>f\<in>set (ro_fields example_put). of_in f = ''path'' \<longrightarrow> no_braces (of_jsonName f)" by code_simp
  have c: "path_text (map (put_part (path_argument (\<lambda>_. []) (ro_fields example_put) [(''id'', GStr ''a/{limit}?'')])) ?ps)
     = ''/items/a%2F%7Blimit%7D%3F/rev''" by code_simp
  from openapi_path_safe [OF a b, of "\<lambda>_. []" "\<lambda>h. h" "[(''id'', GStr ''a/{limit}?'')]", THEN conjunct1]
  show ?thesis unfolding c .
qed

section \<open>Arguments through the generated type\<close>

definition fields_ok :: "ofield list \<Rightarrow> bool" where
  "fields_ok fs \<longleftrightarrow> distinct (map of_jsonName fs)
     \<and> list_all (\<lambda>f. valid_tag (of_jsonName f) \<and> of_jsonName f \<noteq> ''-'') fs"

text \<open>What it means for a value to be one of a schema, read off the schema: its type, an integer within
  64 bits, the items of a list, and of an object every required property, no unknown one, and no null.\<close>

definition number_of :: "gval \<Rightarrow> rat option" where
  "number_of v = (case v of GInt i \<Rightarrow> Some (of_int i) | GFloat q \<Rightarrow> Some q | _ \<Rightarrow> None)"

definition int64_of :: "gval \<Rightarrow> int option" where
  "int64_of v = (case number_of v of
     Some q \<Rightarrow> if q = of_int \<lfloor>q\<rfloor> \<and> - (2 ^ 63) \<le> \<lfloor>q\<rfloor> \<and> \<lfloor>q\<rfloor> < 2 ^ 63 then Some \<lfloor>q\<rfloor> else None | None \<Rightarrow> None)"

text \<open>A value that decoding into an \<open>any\<close> keeps: what JSON gives, its integers exact as \<open>float64\<close>, and
  the keys of its objects in the order a map is marshalled in.\<close>

fun any_exact :: "gval \<Rightarrow> bool" where
  "any_exact (GInt i) \<longleftrightarrow> \<bar>i\<bar> \<le> 2 ^ 53"
| "any_exact (GFloat q) \<longleftrightarrow> (q = of_int \<lfloor>q\<rfloor> \<longrightarrow> \<bar>q\<bar> \<le> 2 ^ 53)"
| "any_exact (GList vs) \<longleftrightarrow> list_all any_exact vs"
| "any_exact (GMap m) \<longleftrightarrow> sorted_wrt (<) (map fst m) \<and> list_all (\<lambda>(k, v). any_exact v) m"
| "any_exact (GStrs _) \<longleftrightarrow> False"
| "any_exact _ \<longleftrightarrow> True"

function conforms :: "oschema \<Rightarrow> gval \<Rightarrow> bool" where
  "conforms (OSchema r t f d ps its rq en df nu) v =
     (if Primary t = ''string'' then (case v of GStr _ \<Rightarrow> True | _ \<Rightarrow> False)
      else if Primary t = ''integer'' then int64_of v \<noteq> None
      else if Primary t = ''number'' then number_of v \<noteq> None \<and> any_exact v
      else if Primary t = ''boolean'' then (case v of GBool _ \<Rightarrow> True | _ \<Rightarrow> False)
      else if Primary t = ''array''
      then (case v of GList vs \<Rightarrow> list_all (\<lambda>x. case its of None \<Rightarrow> any_exact x | Some s \<Rightarrow> conforms s x) vs | _ \<Rightarrow> False)
      else if Primary t = ''object'' \<or> ps \<noteq> []
      then (case v of
              GMap m \<Rightarrow> if ps = [] then any_exact v else distinct (map fst m) \<and> list_all (\<lambda>k. k \<in> set (map fst ps)) (map fst m)
                \<and> list_all (\<lambda>(n, p). case map_of m n of
                     None \<Rightarrow> n \<notin> set rq
                   | Some x \<Rightarrow> x \<noteq> GNil \<and> (case p of None \<Rightarrow> any_exact x | Some s \<Rightarrow> conforms s x)) ps
            | _ \<Rightarrow> False)
      else any_exact v)"
  by pat_completeness auto
termination
  by (relation "measure (\<lambda>(s, v). size s)") (auto dest: size_property)

text \<open>What a value of a schema is sent as: numbers in the form of the type, the properties of an object
  in the order of their names, those that are absent as null.\<close>

function sent_value :: "oschema \<Rightarrow> gval \<Rightarrow> gval" where
  "sent_value (OSchema r t f d ps its rq en df nu) v =
     (if Primary t = ''string'' \<or> Primary t = ''boolean'' then v
      else if Primary t = ''integer'' then (case int64_of v of Some i \<Rightarrow> GInt i | None \<Rightarrow> v)
      else if Primary t = ''number'' then (case number_of v of Some q \<Rightarrow> GFloat q | None \<Rightarrow> v)
      else if Primary t = ''array''
      then (case v of GList vs \<Rightarrow> GList (map (\<lambda>x. case its of None \<Rightarrow> x | Some s \<Rightarrow> sent_value s x) vs) | _ \<Rightarrow> v)
      else if ps \<noteq> []
      then (case v of
              GMap m \<Rightarrow> GMap (map (\<lambda>(n, p). (n, case map_of m n of
                  None \<Rightarrow> GNil
                | Some x \<Rightarrow> (case p of None \<Rightarrow> x | Some s \<Rightarrow> sent_value s x))) (sort_key fst ps))
            | _ \<Rightarrow> v)
      else v)"
  by pat_completeness auto
termination
  by (relation "measure (\<lambda>(s, v). size s)") (auto dest: size_property)

text \<open>Property names that a tag can carry.\<close>

function wire_names_ok :: "oschema \<Rightarrow> bool" where
  "wire_names_ok (OSchema r t f d ps its rq en df nu) \<longleftrightarrow>
     distinct (map fst ps) \<and> (case its of None \<Rightarrow> True | Some s \<Rightarrow> wire_names_ok s)
     \<and> list_all (\<lambda>(n, p). valid_tag n \<and> n \<noteq> ''-'' \<and> (case p of None \<Rightarrow> True | Some s \<Rightarrow> wire_names_ok s)) ps"
  by pat_completeness auto
termination
  by (relation "measure size") (auto dest: size_property)

declare conforms.simps [simp del] sent_value.simps [simp del] wire_names_ok.simps [simp del]

text \<open>Every argument is a field's, conforms to its schema and is not null; those required are there.\<close>

definition arguments_conform :: "ofield list \<Rightarrow> (string \<times> gval) list \<Rightarrow> bool" where
  "arguments_conform fs args \<longleftrightarrow> distinct (map fst args)
     \<and> list_all (\<lambda>k. k \<in> set (map of_jsonName fs)) (map fst args)
     \<and> list_all (\<lambda>f. case map_of args (of_jsonName f) of
           None \<Rightarrow> \<not> of_required f
         | Some v \<Rightarrow> v \<noteq> GNil \<and> (case of_schema f of None \<Rightarrow> any_exact v | Some s \<Rightarrow> conforms s v)) fs"

definition sent_field :: "ofield \<Rightarrow> gval \<Rightarrow> gval" where
  "sent_field f v = (case of_schema f of None \<Rightarrow> v | Some s \<Rightarrow> sent_value s v)"

definition sent_arguments :: "ofield list \<Rightarrow> (string \<times> gval) list \<Rightarrow> (string \<times> gval) list" where
  "sent_arguments fs args =
     List.map_filter (\<lambda>f. map_option (\<lambda>v. (of_jsonName f, sent_field f v)) (map_of args (of_jsonName f))) fs"

abbreviation field_of :: "(gval \<Rightarrow> string) \<Rightarrow> nat \<Rightarrow> ofield \<Rightarrow> gfld" where
  "field_of sprint i f \<equiv>
     go_field sprint i (of_jsonName f) (of_schema f) (of_required f) (go_type sprint (of_schema f))"

lemma valid_tag_no_comma: "valid_tag s \<Longrightarrow> CHR '','' \<notin> set s"
proof
  assume v: "valid_tag s" and c: "CHR '','' \<in> set s"
  have "\<not> (is_slug CHR '','' \<or> CHR '','' \<in> set ''!#$%&()*+-./:;<=>?@[]^_{|}~ '' \<or> CHR 0x7F < CHR '','')"
    by code_simp
  with v c show False by (auto simp only: valid_tag_def list_all_iff)
qed

lemma tag_name_field [simp]: "valid_tag (of_jsonName f) \<Longrightarrow> tag_name (field_of sprint i f) = of_jsonName f"
  by (drule valid_tag_no_comma) (simp add: tag_name_def go_field_def split_on_no_sep)

lemma tagged_field [simp]: "valid_tag (of_jsonName f) \<Longrightarrow> tagged (field_of sprint i f)"
  by (simp add: tagged_def)

lemma wire_name_field [simp]: "valid_tag (of_jsonName f) \<Longrightarrow> wire_name (field_of sprint i f) = of_jsonName f"
  by (simp add: wire_name_def)

lemma fl_json_field [simp]: "fl_json (field_of sprint i f) = of_jsonName f"
  by (simp add: go_field_def)

lemma all_visible:
  assumes "distinct (map wire_name gs)" "\<forall>g\<in>set gs. tagged g \<and> fl_json g \<noteq> ''-''"
  shows "filter (json_visible gs) gs = gs"
proof -
  have "json_visible gs g" if g: "g \<in> set gs" for g
  proof -
    have "filter (\<lambda>h. fl_json h \<noteq> ''-'' \<and> wire_name h = wire_name g) gs = filter (\<lambda>h. wire_name h = wire_name g) gs"
      using assms(2) by (intro filter_cong) auto
    then have "filter (\<lambda>h. fl_json h \<noteq> ''-'' \<and> wire_name h = wire_name g) gs = [g]"
      using filter_key_unique [OF assms(1) g] by simp
    with assms(2) g show ?thesis by (simp only: json_visible_def Let_def) simp
  qed
  then show ?thesis by (simp add: filter_id_conv)
qed

definition struct_fields :: "(gval \<Rightarrow> string) \<Rightarrow> ofield list \<Rightarrow> gfld list" where
  "struct_fields sprint fs = map (\<lambda>(i, f). field_of sprint i f) (enumerate 0 fs)"

lemma structType_fields: "structType sprint fs = TStruct (struct_fields sprint fs)"
  by (simp add: structType_def struct_fields_def)

lemma map_struct_fields:
  assumes "\<And>i f. f \<in> set fs \<Longrightarrow> h (field_of sprint i f) = h' f"
  shows "map h (struct_fields sprint fs) = map h' fs"
proof -
  have "map (\<lambda>(i, f). h (field_of sprint i f)) (enumerate n fs) = map h' fs" for n
    using assms by (induction fs arbitrary: n) auto
  then show ?thesis by (simp add: struct_fields_def case_prod_unfold comp_def)
qed

lemma set_struct_fields: "g \<in> set (struct_fields sprint fs) \<Longrightarrow> \<exists>i. \<exists>f\<in>set fs. g = field_of sprint i f"
  by (auto simp: struct_fields_def in_set_enumerate_eq) (metis nth_mem)

lemma fields_okD:
  assumes "fields_ok fs" "f \<in> set fs"
  shows "valid_tag (of_jsonName f)" "of_jsonName f \<noteq> ''-''"
  using assms by (auto simp: fields_ok_def list_all_iff)

lemma wire_names: "fields_ok fs \<Longrightarrow> map wire_name (struct_fields sprint fs) = map of_jsonName fs"
  by (rule map_struct_fields) (simp add: fields_okD)

lemma struct_visible:
  assumes "fields_ok fs"
  shows "filter (json_visible (struct_fields sprint fs)) (struct_fields sprint fs) = struct_fields sprint fs"
proof (rule all_visible)
  show "distinct (map wire_name (struct_fields sprint fs))"
    using assms by (simp add: wire_names [OF assms] fields_ok_def)
  show "\<forall>g\<in>set (struct_fields sprint fs). tagged g \<and> fl_json g \<noteq> ''-''"
    using fields_okD [OF assms] by (auto dest!: set_struct_fields)
qed

lemma map_of_rev_distinct:
  assumes "distinct (map fst m)"
  shows "map_of (rev m) n = map_of m n"
proof (cases "map_of m n")
  case None
  then have "map_of (rev m) n = None" by (simp add: map_of_eq_None_iff)
  with None show ?thesis by simp
next
  case (Some v)
  then have "(n, v) \<in> set (rev m)" by (simp add: map_of_SomeD)
  with assms Some show ?thesis by (simp add: map_of_is_SomeI rev_map [symmetric])
qed

lemma find_exact:
  assumes "distinct (map fst m)" "n \<in> set ns" "set (map fst m) \<subseteq> set ns"
    "\<And>k. k \<in> set ns \<Longrightarrow> tgt k = Some k"
  shows "map_option snd (find (\<lambda>(k, v). tgt k = Some n) (rev m)) = map_of m n"
proof -
  have "map_option snd (find (\<lambda>(k, v). tgt k = Some n) m') = map_of m' n" if "set (map fst m') \<subseteq> set ns" for m' :: "('a \<times> 'b) list"
    using that assms(4) by (induction m') auto
  from this [of "rev m"] assms(1,3) show ?thesis by (simp add: map_of_rev_distinct)
qed

definition known_keys :: "ofield list \<Rightarrow> (string \<times> gval) list \<Rightarrow> bool" where
  "known_keys fs args \<longleftrightarrow> distinct (map fst args) \<and> set (map fst args) \<subseteq> set (map of_jsonName fs)"

lemma field_entry_exact:
  assumes ok: "fields_ok fs" and keys: "known_keys fs args" and f: "f \<in> set fs"
  shows "field_entry (struct_fields sprint fs) args (field_of sprint i f) = map_of args (of_jsonName f)"
proof -
  let ?ns = "map of_jsonName fs"
  have t: "json_target (struct_fields sprint fs) k = Some k" if "k \<in> set ?ns" for k
    using that by (simp only: json_target_def struct_visible [OF ok] wire_names [OF ok] Let_def if_True)
  have "map_option snd (find (\<lambda>(k, v). json_target (struct_fields sprint fs) k = Some (of_jsonName f)) (rev args))
      = map_of args (of_jsonName f)"
    using keys f t by (intro find_exact [of _ _ ?ns]) (auto simp: known_keys_def)
  with fields_okD [OF ok f] show ?thesis by (simp add: field_entry_def)
qed

lemma those_map_Some: "(\<And>x. x \<in> set xs \<Longrightarrow> f x = Some (g x)) \<Longrightarrow> those (map f xs) = Some (map g xs)"
  by (induction xs) auto

lemma those_None: "None \<in> set xs \<Longrightarrow> those xs = None"
  by (induction xs) (auto split: option.splits)

text \<open>Decoding into the struct of the fields, field by field.\<close>

definition field_back :: "(gval \<Rightarrow> string) \<Rightarrow> (string \<times> gval) list \<Rightarrow> ofield \<Rightarrow> (string \<times> gval) option" where
  "field_back sprint args f =
     (let t = go_type sprint (of_schema f); t' = (if of_required f then t else TPtr t)
      in case map_of args (of_jsonName f) of
           None \<Rightarrow> Some (of_jsonName f, go_zero t')
         | Some v \<Rightarrow> map_option (Pair (of_jsonName f)) (go_back t' v))"

lemma go_back_struct:
  assumes ok: "fields_ok fs" and keys: "known_keys fs args"
  shows "go_back (structType sprint fs) (GMap args) = map_option GMap (those (map (field_back sprint args) fs))"
proof -
  let ?g = "\<lambda>g. case field_entry (struct_fields sprint fs) args g of
            None \<Rightarrow> Some (wire_name g, go_zero (fl_type g))
          | Some x \<Rightarrow> map_option (Pair (wire_name g)) (go_back (fl_type g) x)"
  have "?g (field_of sprint i f) = field_back sprint args f" if f: "f \<in> set fs" for i f
  proof -
    have "fl_type (field_of sprint i f)
      = (if of_required f then go_type sprint (of_schema f) else TPtr (go_type sprint (of_schema f)))"
      by (simp add: go_field_def)
    then show ?thesis
      unfolding field_entry_exact [OF ok keys f] wire_name_field [OF fields_okD(1) [OF ok f]] field_back_def Let_def by (simp only:)
  qed
  then have "map ?g (struct_fields sprint fs) = map (field_back sprint args) fs" by (rule map_struct_fields)
  then show ?thesis by (simp add: structType_fields struct_visible [OF ok])
qed

lemma go_back_present:
  assumes "fields_ok fs" "known_keys fs args"
    "\<And>f. f \<in> set fs \<Longrightarrow> map_of args (of_jsonName f) = None \<Longrightarrow> \<not> of_required f"
    "\<And>f v. f \<in> set fs \<Longrightarrow> map_of args (of_jsonName f) = Some v \<Longrightarrow> v \<noteq> GNil \<and> go_back (go_type sprint (of_schema f)) v = Some (sent_field f v)"
  shows "go_back (structType sprint fs) (GMap args)
     = Some (GMap (map (\<lambda>f. (of_jsonName f, case map_of args (of_jsonName f) of None \<Rightarrow> GNil | Some v \<Rightarrow> sent_field f v)) fs))"
proof -
  have "field_back sprint args f = Some (of_jsonName f, case map_of args (of_jsonName f) of None \<Rightarrow> GNil | Some v \<Rightarrow> sent_field f v)"
    if "f \<in> set fs" for f
    using assms(3) [OF that] assms(4) [OF that] by (cases "map_of args (of_jsonName f)") (simp_all add: field_back_def Let_def)
  from those_map_Some [of fs, OF this] show ?thesis by (simp add: go_back_struct [OF assms(1,2)])
qed

text \<open>The struct of an object's properties is that of the fields they are.\<close>

definition property_fields :: "(string \<times> oschema option) list \<Rightarrow> string list \<Rightarrow> ofield list" where
  "property_fields ps rq = map (\<lambda>(n, p). \<lparr>of_jsonName = n, of_in = [], of_schema = p, of_required = n \<in> set rq, of_explode = False\<rparr>)
     (sort_key fst ps)"

lemma enumerate_map: "enumerate n (map f xs) = map (\<lambda>(i, x). (i, f x)) (enumerate n xs)"
  by (induction xs arbitrary: n) simp_all

lemma sortedKeys_fst: "sortedKeys ps = map fst (sort_key fst ps)"
proof -
  have "sorted (map fst (sort_key fst ps))" by simp
  moreover have "mset (map fst (sort_key fst ps)) = mset (map fst ps)" by simp
  ultimately show ?thesis unfolding sortedKeys_def by (metis properties_for_sort)
qed

lemma enumerate_cong:
  assumes "\<And>i x. x \<in> set xs \<Longrightarrow> h i x = h' i x"
  shows "map (\<lambda>(i, x). h i x) (enumerate k xs) = map (\<lambda>(i, x). h' i x) (enumerate k xs)"
  using assms by (induction xs arbitrary: k) auto

lemma object_struct:
  assumes "distinct (map fst ps)" "ps \<noteq> []"
  shows "object_type sprint ps rq (map (\<lambda>(n, p). (n, case p of None \<Rightarrow> TOther | Some s \<Rightarrow> goType sprint s)) ps)
     = structType sprint (property_fields ps rq)"
proof -
  let ?ts = "map (\<lambda>(n, p). (n, case p of None \<Rightarrow> TOther | Some s \<Rightarrow> goType sprint s)) ps"
  have t: "the (map_of ?ts (fst x)) = go_type sprint (snd x)" "the (map_of ps (fst x)) = snd x" if "x \<in> set ps" for x
    using that assms(1) by (simp_all add: map_of_map go_type_def map_of_is_SomeI [of ps "fst x" "snd x"])
  have "map (\<lambda>(i, x). go_field sprint i (fst x) (the (map_of ps (fst x))) (fst x \<in> set rq) (the (map_of ?ts (fst x))))
        (enumerate 0 (sort_key fst ps))
      = map (\<lambda>(i, x). go_field sprint i (fst x) (snd x) (fst x \<in> set rq) (go_type sprint (snd x))) (enumerate 0 (sort_key fst ps))"
    using t by (intro enumerate_cong) simp
  with assms(2) show ?thesis
    unfolding object_type_def structType_def property_fields_def sortedKeys_fst
    by (simp add: enumerate_map comp_def case_prod_beta)
qed

text \<open>A value of a schema goes through the type of the schema, and is not null.\<close>

lemma property_fields_ok:
  assumes "distinct (map fst ps)" "list_all (\<lambda>(n, p). valid_tag n \<and> n \<noteq> ''-'') ps"
  shows "fields_ok (property_fields ps rq)"
proof -
  have "distinct (map fst (sort_key fst ps))" using assms(1) unfolding sortedKeys_fst [symmetric] sortedKeys_def by simp
  with assms(2) show ?thesis
    by (auto simp: fields_ok_def property_fields_def comp_def case_prod_beta list_all_iff simp del: distinct_map)
qed

lemma sent_not_null: "conforms s v \<Longrightarrow> v \<noteq> GNil \<Longrightarrow> sent_value s v \<noteq> GNil"
  by (cases s) (auto simp: conforms.simps sent_value.simps int64_of_def number_of_def split: gval.splits if_splits option.splits)

lemma go_back_int: "int64_of v = Some i \<Longrightarrow> go_back TInt v = Some (GInt i)"
  by (auto simp: int64_of_def number_of_def put_int_def split: gval.splits if_splits option.splits)

lemma go_back_float: "number_of v = Some q \<Longrightarrow> go_back TFloat v = Some (GFloat q)"
  by (auto simp: number_of_def put_float_def split: gval.splits)

lemma go_back_list:
  assumes "\<And>x. x \<in> set vs \<Longrightarrow> go_back t x = Some (g x)"
  shows "go_back (TSlice t) (GList vs) = Some (GList (map g vs))"
  using those_map_Some [of vs "go_back t" g] assms by simp

lemma sent_object:
  "map (\<lambda>(n, p). (n, case map_of m n of None \<Rightarrow> GNil | Some x \<Rightarrow> (case p of None \<Rightarrow> x | Some s \<Rightarrow> sent_value s x))) (sort_key fst ps)
     = map (\<lambda>f. (of_jsonName f, case map_of m (of_jsonName f) of None \<Rightarrow> GNil | Some v \<Rightarrow> sent_field f v)) (property_fields ps rq)"
  by (auto simp: property_fields_def comp_def sent_field_def split: option.splits)

lemma go_back_object:
  assumes d: "distinct (map fst ps)" "list_all (\<lambda>(n, p). valid_tag n \<and> n \<noteq> ''-'') ps" "ps \<noteq> []"
    and m: "distinct (map fst m)" "list_all (\<lambda>k. k \<in> set (map fst ps)) (map fst m)"
    and c: "\<And>n p. (n, p) \<in> set ps \<Longrightarrow> case map_of m n of None \<Rightarrow> n \<notin> set rq
              | Some x \<Rightarrow> x \<noteq> GNil \<and> go_back (go_type sprint p) x = Some (case p of None \<Rightarrow> x | Some s \<Rightarrow> sent_value s x)"
  shows "go_back (object_type sprint ps rq (map (\<lambda>(n, p). (n, case p of None \<Rightarrow> TOther | Some s \<Rightarrow> goType sprint s)) ps)) (GMap m)
     = Some (GMap (map (\<lambda>(n, p). (n, case map_of m n of None \<Rightarrow> GNil
           | Some x \<Rightarrow> (case p of None \<Rightarrow> x | Some s \<Rightarrow> sent_value s x))) (sort_key fst ps)))"
  unfolding object_struct [OF d(1,3)] sent_object [of m ps rq]
proof (rule go_back_present)
  show "fields_ok (property_fields ps rq)" by (rule property_fields_ok [OF d(1,2)])
  show "known_keys (property_fields ps rq) m"
    using m by (auto simp: known_keys_def property_fields_def list_all_iff comp_def case_prod_beta)
next
  fix f assume f: "f \<in> set (property_fields ps rq)" "map_of m (of_jsonName f) = None"
  then obtain n p where "(n, p) \<in> set ps" "of_jsonName f = n" "of_required f \<longleftrightarrow> n \<in> set rq"
    by (auto simp: property_fields_def)
  with c f(2) show "\<not> of_required f" by fastforce
next
  fix f v assume f: "f \<in> set (property_fields ps rq)" "map_of m (of_jsonName f) = Some v"
  then obtain n p where "(n, p) \<in> set ps" "of_jsonName f = n" "of_schema f = p"
    by (auto simp: property_fields_def)
  with c f(2) show "v \<noteq> GNil \<and> go_back (go_type sprint (of_schema f)) v = Some (sent_field f v)"
    by (fastforce simp: sent_field_def)
qed

lemma go_back_sent: "conforms s v \<Longrightarrow> wire_names_ok s \<Longrightarrow> go_back (goType sprint s) v = Some (sent_value s v)"
proof (induction s arbitrary: v rule: measure_induct_rule [of size])
  case (less s)
  obtain r t f d ps its rq en df nu where s: "s = OSchema r t f d ps its rq en df nu" by (cases s)
  have type: "go_back (go_type sprint p) x = Some (case p of None \<Rightarrow> x | Some s' \<Rightarrow> sent_value s' x)"
    if "\<And>s'. p = Some s' \<Longrightarrow> size s' < size s \<and> conforms s' x \<and> wire_names_ok s'" for p x
    using that less.IH by (cases p) (auto simp: go_type_def)
  note c = less.prems(1) [unfolded s conforms.simps]
  note n = less.prems(2) [unfolded s wire_names_ok.simps]
  note defs = s goType.simps [of sprint] sent_value.simps Let_def
  consider "Primary t = ''string''" | "Primary t = ''integer''" | "Primary t = ''number''" | "Primary t = ''boolean''"
    | "Primary t = ''array''" | (object) "Primary t \<notin> {''string'', ''integer'', ''number'', ''boolean'', ''array''}"
        "Primary t = ''object'' \<or> ps \<noteq> []"
    | "Primary t \<notin> {''string'', ''integer'', ''number'', ''boolean'', ''array'', ''object''}" "ps = []"
    by blast
  then show ?case
  proof cases
    case 1 then show ?thesis using c by (auto simp: defs put_str_def split: gval.splits)
  next
    case 2 then show ?thesis using c go_back_int [of v] by (auto simp: defs simp del: go_back.simps)
  next
    case 3 then show ?thesis using c go_back_float [of v] by (auto simp: defs simp del: go_back.simps)
  next
    case 4 then show ?thesis using c by (auto simp: defs split: gval.splits)
  next
    case 5
    then obtain vs where vs: "v = GList vs" "\<forall>x\<in>set vs. case its of None \<Rightarrow> any_exact x | Some s' \<Rightarrow> conforms s' x"
      using c by (auto simp: list_all_iff split: gval.splits)
    have "go_back (go_type sprint its) x = Some (case its of None \<Rightarrow> x | Some s' \<Rightarrow> sent_value s' x)" if "x \<in> set vs" for x
      using vs(2) that n by (intro type) (auto simp: s)
    from go_back_list [of vs, OF this] 5 vs(1) show ?thesis by (simp add: defs go_type_def del: go_back.simps)
  next
    case object
    then obtain m where m: "v = GMap m" "ps \<noteq> [] \<Longrightarrow> distinct (map fst m) \<and> list_all (\<lambda>k. k \<in> set (map fst ps)) (map fst m)
        \<and> list_all (\<lambda>(n, p). case map_of m n of None \<Rightarrow> n \<notin> set rq
            | Some x \<Rightarrow> x \<noteq> GNil \<and> (case p of None \<Rightarrow> any_exact x | Some s \<Rightarrow> conforms s x)) ps"
      using c by (simp split: gval.splits if_splits; blast)
    show ?thesis
    proof (cases "ps = []")
      case True
      with object m(1) show ?thesis by (simp add: defs object_type_def)
    next
      case False
      have "case map_of m k of None \<Rightarrow> k \<notin> set rq
          | Some x \<Rightarrow> x \<noteq> GNil \<and> go_back (go_type sprint p) x = Some (case p of None \<Rightarrow> x | Some s \<Rightarrow> sent_value s x)"
        if kp: "(k, p) \<in> set ps" for k p
      proof (cases "map_of m k")
        case None
        with m(2) False kp show ?thesis by (fastforce simp: list_all_iff)
      next
        case (Some x)
        with m(2) False kp have x: "x \<noteq> GNil" "\<And>s'. p = Some s' \<Longrightarrow> conforms s' x"
          by (fastforce simp: list_all_iff)+
        have "size s' < size s \<and> conforms s' x \<and> wire_names_ok s'" if "p = Some s'" for s'
          using that x(2) n kp size_property [of k s' ps r t f d its rq en df nu] by (force simp: s list_all_iff)
        from type [OF this] x(1) Some show ?thesis by simp
      qed
      moreover have "list_all (\<lambda>(n, p). valid_tag n \<and> n \<noteq> ''-'') ps" using n by (auto simp: list_all_iff)
      ultimately show ?thesis
        using go_back_object [of ps m rq sprint] n m False object by (simp add: defs del: go_back.simps)
    qed
  next
    case 7 then show ?thesis by (auto simp: defs)
  qed
qed

text \<open>The map of the values sent, absent fields left out again.\<close>

lemma map_of_unsent: "n \<notin> of_jsonName ` set fs \<Longrightarrow> map_of (sent_arguments fs args) n = None"
  by (induction fs) (auto simp: sent_arguments_def List.map_filter_simps split: option.splits)

lemma map_of_sent:
  assumes "distinct (map of_jsonName fs)" "f \<in> set fs"
  shows "map_of (sent_arguments fs args) (of_jsonName f) = map_option (sent_field f) (map_of args (of_jsonName f))"
  using assms
proof (induction fs)
  case (Cons a fs)
  from map_of_unsent [of "of_jsonName a" fs args] Cons show ?case
    by (auto simp: sent_arguments_def List.map_filter_simps split: option.splits)
qed simp

lemma map_of_kept:
  assumes "distinct (map h fs)" "f \<in> set fs"
  shows "map_of (filter (\<lambda>p. snd p \<noteq> GNil) (map (\<lambda>f. (h f, g f)) fs)) (h f) = (if g f = GNil then None else Some (g f))"
  using assms
proof (induction fs)
  case (Cons a fs)
  have "map_of (filter (\<lambda>p. snd p \<noteq> GNil) (map (\<lambda>f. (h f, g f)) fs)) (h a) = None"
    using Cons.prems(1) by (auto simp: map_of_eq_None_iff)
  moreover have "h f \<noteq> h a" if "f \<in> set fs" using that Cons.prems(1) by (auto simp: image_iff)
  ultimately show ?case using Cons by auto
qed simp

lemma structToMap_sent:
  assumes "fields_ok fs" "arguments_conform fs args" "f \<in> set fs"
  shows "map_of (structToMap (GMap (map (\<lambda>f. (of_jsonName f,
      case map_of args (of_jsonName f) of None \<Rightarrow> GNil | Some v \<Rightarrow> sent_field f v)) fs))) (of_jsonName f)
    = map_of (sent_arguments fs args) (of_jsonName f)"
proof -
  have d: "distinct (map of_jsonName fs)" using assms(1) by (simp add: fields_ok_def)
  have "sent_field f v \<noteq> GNil" if "map_of args (of_jsonName f) = Some v" for v
    using assms(2,3) that sent_not_null [of _ v]
    by (fastforce simp: arguments_conform_def list_all_iff sent_field_def split: option.splits)
  then show ?thesis
    by (auto simp: structToMap_def map_of_kept [OF d assms(3)] map_of_sent [OF d assms(3)] split: option.splits)
qed

definition field_names_ok :: "ofield list \<Rightarrow> bool" where
  "field_names_ok fs \<longleftrightarrow> fields_ok fs
     \<and> list_all (\<lambda>f. case of_schema f of None \<Rightarrow> True | Some s \<Rightarrow> wire_names_ok s) fs"

lemma go_back_arguments:
  assumes "field_names_ok fs" "arguments_conform fs args"
  shows "go_back (structType sprint fs) (GMap args)
     = Some (GMap (map (\<lambda>f. (of_jsonName f, case map_of args (of_jsonName f) of None \<Rightarrow> GNil | Some v \<Rightarrow> sent_field f v)) fs))"
proof (rule go_back_present)
  show "fields_ok fs" using assms(1) by (simp add: field_names_ok_def)
  show "known_keys fs args" using assms(2) by (auto simp: known_keys_def arguments_conform_def list_all_iff)
next
  fix f assume "f \<in> set fs" "map_of args (of_jsonName f) = None"
  with assms(2) show "\<not> of_required f" by (fastforce simp: arguments_conform_def list_all_iff)
next
  fix f v assume f: "f \<in> set fs" "map_of args (of_jsonName f) = Some v"
  with assms(2) have v: "v \<noteq> GNil" "case of_schema f of None \<Rightarrow> any_exact v | Some s \<Rightarrow> conforms s v"
    by (fastforce simp: arguments_conform_def list_all_iff)+
  moreover have "case of_schema f of None \<Rightarrow> True | Some s \<Rightarrow> wire_names_ok s"
    using assms(1) f(1) by (simp add: field_names_ok_def list_all_iff)
  ultimately show "v \<noteq> GNil \<and> go_back (go_type sprint (of_schema f)) v = Some (sent_field f v)"
    by (auto simp: go_type_def sent_field_def go_back_sent split: option.splits)
qed

text \<open>A value of another kind than its schema's.\<close>

definition mistyped :: "oschema \<Rightarrow> gval \<Rightarrow> bool" where
  "mistyped s v \<longleftrightarrow>
     (if Primary (os_type s) = ''number'' then number_of v = None
      else if Primary (os_type s) \<in> {''string'', ''integer'', ''boolean''} then \<not> conforms s v
      else if Primary (os_type s) = ''array'' then (case v of GList _ \<Rightarrow> False | _ \<Rightarrow> True)
      else if Primary (os_type s) = ''object'' \<or> os_properties s \<noteq> [] then (case v of GMap _ \<Rightarrow> False | _ \<Rightarrow> True)
      else False)"

definition argument_mistyped :: "ofield \<Rightarrow> (string \<times> gval) list \<Rightarrow> bool" where
  "argument_mistyped f args \<longleftrightarrow>
     (case (of_schema f, map_of args (of_jsonName f)) of (Some s, Some v) \<Rightarrow> v \<noteq> GNil \<and> mistyped s v | _ \<Rightarrow> False)"

lemma go_back_mistyped: "mistyped s v \<Longrightarrow> v \<noteq> GNil \<Longrightarrow> go_back (goType sprint s) v = None"
  by (cases s) (auto simp: mistyped_def conforms.simps goType.simps object_type_def Let_def int64_of_def number_of_def
      put_int_def put_float_def put_str_def split: gval.splits if_splits option.splits)

lemma go_back_rejects:
  assumes "fields_ok fs" "known_keys fs args" "f \<in> set fs" "of_schema f = Some s"
    "map_of args (of_jsonName f) = Some v" "v \<noteq> GNil" "mistyped s v"
  shows "go_back (structType sprint fs) (GMap args) = None"
proof -
  have "field_back sprint args f = None"
    using assms(4-7) go_back_mistyped [of s v sprint] by (simp add: field_back_def Let_def go_type_def)
  with assms(3) have "None \<in> set (map (field_back sprint args) fs)" by (metis image_eqI set_map)
  then show ?thesis by (simp add: go_back_struct [OF assms(1,2)] those_None)
qed

text \<open>The request depends on the values of the fields only.\<close>

lemma place_fields_cong:
  assumes "\<forall>f\<in>set (ro_fields r). map_of vals (of_jsonName f) = map_of vals' (of_jsonName f)"
  shows "place_fields sprint canon r vals = place_fields sprint canon r vals'"
  unfolding place_fields_def
  by (rule foldl_cong) (use assms in \<open>auto simp: place_field_def\<close>)

lemma doRequest_cong:
  assumes "\<forall>f\<in>set (ro_fields r). map_of vals (of_jsonName f) = map_of vals' (of_jsonName f)"
  shows "doRequest js nl cfg base r vals w = doRequest js nl cfg base r vals' w"
  unfolding doRequest_def place_fields_cong [OF assms, of "nl_sprint nl" "nl_header nl"] ..

text \<open>
  C16: A call of a generated tool makes the request of its arguments. The fields of the operation
  have distinct names that a struct tag can carry, and so have the properties of the objects in their
  schemas. When every argument is a field's, conforms to its schema and is not null, and those that are
  required are there, going through the struct type built for the operation and back to a map neither
  adds nor drops an argument, and each is sent as \<open>sent_value\<close> says: strings, booleans and untyped
  values as they are, a number in the form of its type, an object with its optional properties that are
  absent as explicit nulls. The call gives what that request gives, its error as the handler's error. When an argument is
  of another kind than its schema's, the call is an error and no request is made.
\<close>

theorem openapi_tool_forwards:
  assumes "field_names_ok (ro_fields r)"
  shows "(arguments_conform (ro_fields r) args \<longrightarrow>
      oa_tool_call js nl cfg base r (Some (GMap args)) w =
       (case doRequest js nl cfg base r (sent_arguments (ro_fields r) args) w of
          (Inl e, w') \<Rightarrow> ((TVAny GNil, Some e), w')
        | (Inr v, w') \<Rightarrow> ((TVAny v, None), w')))
   \<and> (known_keys (ro_fields r) args \<and> (\<exists>f\<in>set (ro_fields r). argument_mistyped f args) \<longrightarrow>
      oa_tool_call js nl cfg base r (Some (GMap args)) w = ((TVAny GNil, Some (''invalid arguments: '' @ js_text js)), w))"
proof (intro conjI impI)
  let ?fs = "ro_fields r"
  have ok: "fields_ok ?fs" using assms by (simp add: field_names_ok_def)
  {
    assume c: "arguments_conform ?fs args"
    let ?m = "map (\<lambda>f. (of_jsonName f, case map_of args (of_jsonName f) of None \<Rightarrow> GNil | Some v \<Rightarrow> sent_field f v)) ?fs"
    have e: "doRequest js nl cfg base r (structToMap (GMap ?m)) w = doRequest js nl cfg base r (sent_arguments ?fs args) w"
      by (intro doRequest_cong ballI structToMap_sent [OF ok c])
    show "oa_tool_call js nl cfg base r (Some (GMap args)) w =
       (case doRequest js nl cfg base r (sent_arguments ?fs args) w of
          (Inl e, w') \<Rightarrow> ((TVAny GNil, Some e), w')
        | (Inr v, w') \<Rightarrow> ((TVAny v, None), w'))"
      by (simp add: oa_tool_call_def Let_def tool_call_def go_back_arguments [OF assms c] e splitOutputs_def
          split: prod.splits sum.splits)
  next
    assume "known_keys ?fs args \<and> (\<exists>f\<in>set ?fs. argument_mistyped f args)"
    then have "go_back (structType (nl_sprint nl) ?fs) (GMap args) = None"
      using go_back_rejects [OF ok] by (fastforce simp: argument_mistyped_def split: option.splits)
    then show "oa_tool_call js nl cfg base r (Some (GMap args)) w = ((TVAny GNil, Some (''invalid arguments: '' @ js_text js)), w)"
      by (simp add: oa_tool_call_def Let_def tool_call_def)
  }
qed

text \<open>An API that answers every request with \<open>ok\<close> and keeps the requests it got.\<close>

definition echo_api :: "api_request list net_lib" where
  "echo_api = \<lparr>nl_url = (\<lambda>u q. Inr (case q of None \<Rightarrow> u | Some s \<Rightarrow> u @ ''?'' @ s)), nl_newRequest = (\<lambda>_. None), nl_header = (\<lambda>h. h),
     nl_do = (\<lambda>q w. (Received 200 ''ok'', w @ [q])), nl_decode = (\<lambda>_. None), nl_sprint = (\<lambda>_. [])\<rparr>"

definition echo_json :: json_lib where
  "echo_json = \<lparr>js_enc = (\<lambda>v. Inr (case v of GMap [(k, GStr s)] \<Rightarrow> k @ '':'' @ s | _ \<Rightarrow> [])), js_dec = (\<lambda>_. None), js_text = [], js_quote = (\<lambda>s. s)\<rparr>"

definition example_args :: "(string \<times> gval) list" where
  "example_args = [(''limit'', GFloat 5), (''name'', GStr ''n''), (''id'', GStr ''a/b'')]"

definition mistyped_args :: "(string \<times> gval) list" where
  "mistyped_args = [(''limit'', GStr ''5''), (''id'', GStr ''a/b'')]"

lemma openapi_tool_forwards_witness:
  "oa_tool_call echo_json echo_api openapi_default ''http://h'' example_put (Some (GMap example_args)) []
     = ((TVAny (GStr ''ok''), None),
        [\<lparr>hq_method = ''PUT'', hq_url = ''http://h/items/a%2Fb/rev?limit=5'',
          hq_headers = [(''Content-Type'', ''application/json''), (''Accept'', ''application/json'')],
          hq_body = Some ''name:n''\<rparr>])
   \<and> oa_tool_call echo_json echo_api openapi_default ''http://h'' example_put (Some (GMap mistyped_args)) []
     = ((TVAny GNil, Some ''invalid arguments: ''), [])"
proof -
  have a: "field_names_ok (ro_fields example_put)" by code_simp
  have b: "arguments_conform (ro_fields example_put) example_args" by code_simp
  have b': "known_keys (ro_fields example_put) mistyped_args \<and> (\<exists>f\<in>set (ro_fields example_put). argument_mistyped f mistyped_args)"
    by code_simp
  have c: "doRequest echo_json echo_api openapi_default ''http://h'' example_put (sent_arguments (ro_fields example_put) example_args) []
     = (Inr (GStr ''ok''),
        [\<lparr>hq_method = ''PUT'', hq_url = ''http://h/items/a%2Fb/rev?limit=5'',
          hq_headers = [(''Content-Type'', ''application/json''), (''Accept'', ''application/json'')],
          hq_body = Some ''name:n''\<rparr>])" by code_simp
  have d: "js_text echo_json = []" by (simp add: echo_json_def)
  show ?thesis
    unfolding openapi_tool_forwards [OF a, THEN conjunct1, rule_format, OF b] c
      openapi_tool_forwards [OF a, THEN conjunct2, rule_format, OF b'] d by simp
qed

section \<open>Where it does not hold\<close>

text \<open>A path parameter and a property of the body of one name are two fields of that name, which
  \<open>encoding/json\<close> drops both: neither value is sent.\<close>

definition example_shared :: route_plan where
  "example_shared = \<lparr>ro_name = ''put'', ro_description = [], ro_method = ''PUT'', ro_path = ''/items/{id}'',
     ro_fields = [example_field ''id'' ''path'' ''string'' True, example_field ''id'' ''body'' ''string'' True],
     ro_wholeBody = False\<rparr>"

lemma shared_name_dropped:
  "oa_tool_call echo_json echo_api openapi_default ''http://h'' example_shared (Some (GMap [(''id'', GStr ''7'')])) []
     = ((TVAny (GStr ''ok''), None),
        [\<lparr>hq_method = ''PUT'', hq_url = ''http://h/items/{id}'', hq_headers = [(''Accept'', ''application/json'')], hq_body = None\<rparr>])"
  by code_simp

text \<open>Only absent arguments of the top level are left out again: an optional property of an object
  in the body comes out as an explicit null.\<close>

definition example_nested :: "ofield list" where
  "example_nested = [\<lparr>of_jsonName = ''o'', of_in = ''body'',
     of_schema = Some (OSchema [] [''object''] [] [] [(''a'', Some string_schema), (''b'', Some string_schema)] None [] [] GNil False),
     of_required = True, of_explode = False\<rparr>]"

lemma nested_null:
  "map_option structToMap (go_back (structType (\<lambda>_. []) example_nested) (GMap [(''o'', GMap [(''a'', GStr ''x'')])]))
     = Some [(''o'', GMap [(''a'', GStr ''x''), (''b'', GNil)])]"
  by code_simp

text \<open>Distinct operation ids can give one name, of which the last registered is the tool.\<close>

lemma sanitized_names_collide: "sanitizeName ''get-user'' = sanitizeName ''get_user''"
  by code_simp

end
