(* ===== verification/InMemory.thy ===== *)
theory InMemory
  imports Prelude GoStd Json Content Dispatch Session Mount Client
begin

text \<open>
  The in-process transport, \<open>src/transport/transport.go\<close>: a client and a server of this
  development joined by two pipes. The step relations of \<open>Client\<close> and \<open>Session\<close> run side by side;
  what one end has written the other reads in order, at any later time. A line carries a JSON tree
  as decoding gives it back (\<open>jnorm\<close>). \<open>idt\<close> is the text an identifier is written with, which
  the server echoes. A context is an opaque value; that it is cancelled is a step that may come at any
  time, the end of the stream or of a call. Lines beyond the scanner's 16 MB are left out.
\<close>

section \<open>The lines\<close>

definition outgoing_json :: "json_lib \<Rightarrow> outgoing \<Rightarrow> gval" where
  "outgoing_json js x =
     (case x of
        OutResponse r \<Rightarrow> response_json js r
      | OutRequest i meth params \<Rightarrow>
          GMap ([(''jsonrpc'', GStr ''2.0''), (''id'', i), (''method'', GStr meth)] @ opt_raw ''params'' params)
      | OutNotification n \<Rightarrow>
          GMap ([(''jsonrpc'', GStr ''2.0''), (''method'', GStr (nt_method n))] @ opt_raw ''params'' (nt_params n)))"

definition outgoing_id :: "outgoing \<Rightarrow> gval option" where
  "outgoing_id x = (case x of OutResponse r \<Rightarrow> rs_id r | OutRequest i _ _ \<Rightarrow> Some i | OutNotification _ \<Rightarrow> None)"

definition up_line :: "client_message \<Rightarrow> gval option" where
  "up_line q = Some (jnorm (wire_message_json q))"

definition down_line :: "json_lib \<Rightarrow> outgoing \<Rightarrow> gval option" where
  "down_line js x = Some (jnorm (outgoing_json js x))"

section \<open>The connection\<close>

text \<open>A context, nil being \<open>None\<close>, and the options of the clients; \<open>bg\<close> is the background context.\<close>

record ('x, 'v) mem_settings =
  set_ctx :: 'x
  set_clientOpts :: "('v client \<Rightarrow> 'v client) list"

definition WithContext :: "'x option \<Rightarrow> ('x, 'v) mem_settings \<Rightarrow> ('x, 'v) mem_settings" where
  "WithContext ctx s = (case ctx of None \<Rightarrow> s | Some x \<Rightarrow> s\<lparr>set_ctx := x\<rparr>)"

definition WithClientOptions :: "('v client \<Rightarrow> 'v client) list \<Rightarrow> ('x, 'v) mem_settings \<Rightarrow> ('x, 'v) mem_settings" where
  "WithClientOptions opts s = s\<lparr>set_clientOpts := set_clientOpts s @ opts\<rparr>"

definition newSettings :: "'x \<Rightarrow> (('x, 'v) mem_settings \<Rightarrow> ('x, 'v) mem_settings) list \<Rightarrow> ('x, 'v) mem_settings" where
  "newSettings bg opts = fold (\<lambda>opt. opt) opts \<lparr>set_ctx = bg, set_clientOpts = []\<rparr>"

record ('x, 'v, 'w) mem_transport =
  mt_server :: "'w server"
  mt_ctx :: 'x
  mt_clientOpts :: "('v client \<Rightarrow> 'v client) list"

definition InMemory :: "'x \<Rightarrow> 'w server \<Rightarrow> (('x, 'v) mem_settings \<Rightarrow> ('x, 'v) mem_settings) list \<Rightarrow> ('x, 'v, 'w) mem_transport" where
  "InMemory bg srv opts =
     (let s = newSettings bg opts in \<lparr>mt_server = srv, mt_ctx = set_ctx s, mt_clientOpts = set_clientOpts s\<rparr>)"

text \<open>The two ends, and how many lines of the other each has read.\<close>

record ('v, 'w) bridge =
  br_client :: "'v stdio_client"
  br_server :: "'w sess"
  br_up :: nat
  br_down :: nat

text \<open>\<open>Client\<close> opens a connection; the ends act on states of their own.\<close>

definition mem_Client :: "('x, 'v, 'w) mem_transport \<Rightarrow> ('v client \<Rightarrow> 'v client) list \<Rightarrow> 'v \<Rightarrow> 'w \<Rightarrow> ('v, 'w) bridge" where
  "mem_Client t opts v w =
     \<lparr>br_client = NewStdio (mt_clientOpts t @ opts) v, br_server = newSession True w, br_up = 0, br_down = 0\<rparr>"

text \<open>The steps one end takes by itself; every method the code calls has a name.\<close>

definition client_local :: "client_label \<Rightarrow> bool" where
  "client_local l = (case l of CLine _ _ \<Rightarrow> False | CStart meth _ \<Rightarrow> meth \<noteq> [] | CNotify meth _ \<Rightarrow> meth \<noteq> [] | _ \<Rightarrow> True)"

definition server_local :: "label \<Rightarrow> bool" where
  "server_local l = (case l of LLine _ \<Rightarrow> False | LCall meth _ \<Rightarrow> meth \<noteq> [] | LNotify n \<Rightarrow> nt_method n \<noteq> [] | _ \<Rightarrow> True)"

inductive bridge_step ::
  "json_lib \<Rightarrow> (gval \<Rightarrow> string + string) \<Rightarrow> 'w server \<Rightarrow> (gval option \<Rightarrow> string) \<Rightarrow> ('v, 'w) bridge \<Rightarrow> ('v, 'w) bridge \<Rightarrow> bool"
  for js :: json_lib and m :: "gval \<Rightarrow> string + string" and srv :: "'w server" and idt :: "gval option \<Rightarrow> string" where
  b_client: "client_step js (br_client b) l c \<Longrightarrow> client_local l \<Longrightarrow> bridge_step js m srv idt b (b\<lparr>br_client := c\<rparr>)"
| b_server: "sess_step m srv (br_server b) l s \<Longrightarrow> server_local l \<Longrightarrow> bridge_step js m srv idt b (b\<lparr>br_server := s\<rparr>)"
| b_up: "br_up b < length (st_out (br_client b))
    \<Longrightarrow> sess_step m srv (br_server b) (LLine (up_line (st_out (br_client b) ! br_up b))) s
    \<Longrightarrow> bridge_step js m srv idt b (b\<lparr>br_server := s, br_up := br_up b + 1\<rparr>)"
| b_down: "br_down b < length (ss_out (br_server b))
    \<Longrightarrow> client_step js (br_client b)
          (CLine (down_line js (ss_out (br_server b) ! br_down b)) (idt (outgoing_id (ss_out (br_server b) ! br_down b)))) c
    \<Longrightarrow> bridge_step js m srv idt b (b\<lparr>br_client := c, br_down := br_down b + 1\<rparr>)"

inductive bridge_run ::
  "json_lib \<Rightarrow> (gval \<Rightarrow> string + string) \<Rightarrow> 'w server \<Rightarrow> (gval option \<Rightarrow> string) \<Rightarrow> ('v, 'w) bridge \<Rightarrow> ('v, 'w) bridge \<Rightarrow> bool"
  for js :: json_lib and m :: "gval \<Rightarrow> string + string" and srv :: "'w server" and idt :: "gval option \<Rightarrow> string" where
  bridge_none: "bridge_run js m srv idt b b"
| bridge_more: "bridge_run js m srv idt b b' \<Longrightarrow> bridge_step js m srv idt b' b'' \<Longrightarrow> bridge_run js m srv idt b b''"

section \<open>Connect\<close>

text \<open>\<open>Connect\<close> starts the one call of the handshake and waits for its end. Until it returns nobody
  else uses the client: what happens are the steps of that call, of the read loop and its
  goroutines, and of the server.\<close>

definition internal :: "client_label \<Rightarrow> bool" where
  "internal l \<longleftrightarrow> (case l of CWrite _ _ \<Rightarrow> True | CSelect _ _ \<Rightarrow> True | CSend \<Rightarrow> True | CServe _ \<Rightarrow> True | CNote _ \<Rightarrow> True
     | CEOF \<Rightarrow> True | _ \<Rightarrow> False)"

inductive open_step ::
  "json_lib \<Rightarrow> (gval \<Rightarrow> string + string) \<Rightarrow> 'w server \<Rightarrow> (gval option \<Rightarrow> string) \<Rightarrow> ('v, 'w) bridge \<Rightarrow> ('v, 'w) bridge \<Rightarrow> bool"
  for js :: json_lib and m :: "gval \<Rightarrow> string + string" and srv :: "'w server" and idt :: "gval option \<Rightarrow> string" where
  open_client: "client_step js (br_client b) l c \<Longrightarrow> internal l \<Longrightarrow> open_step js m srv idt b (b\<lparr>br_client := c\<rparr>)"
| open_server: "bridge_step js m srv idt b b' \<Longrightarrow> br_client b' = br_client b \<Longrightarrow> open_step js m srv idt b b'"
| open_down: "br_down b < length (ss_out (br_server b))
    \<Longrightarrow> client_step js (br_client b)
          (CLine (down_line js (ss_out (br_server b) ! br_down b)) (idt (outgoing_id (ss_out (br_server b) ! br_down b)))) c
    \<Longrightarrow> open_step js m srv idt b (b\<lparr>br_client := c, br_down := br_down b + 1\<rparr>)"

inductive open_run ::
  "json_lib \<Rightarrow> (gval \<Rightarrow> string + string) \<Rightarrow> 'w server \<Rightarrow> (gval option \<Rightarrow> string) \<Rightarrow> ('v, 'w) bridge \<Rightarrow> ('v, 'w) bridge \<Rightarrow> bool"
  for js :: json_lib and m :: "gval \<Rightarrow> string + string" and srv :: "'w server" and idt :: "gval option \<Rightarrow> string" where
  open_none: "open_run js m srv idt b b"
| open_more: "open_run js m srv idt b b' \<Longrightarrow> open_step js m srv idt b' b'' \<Longrightarrow> open_run js m srv idt b b''"

definition call_from :: "string \<Rightarrow> gval option \<Rightarrow> ('v, 'w) bridge \<Rightarrow> ('v, 'w) bridge" where
  "call_from meth params b = b\<lparr>br_client := st_start meth params (br_client b)\<rparr>"

text \<open>What the end of the call means; \<open>why\<close> are the texts of the context's and the writer's error.\<close>

definition handshake_end :: "json_lib \<Rightarrow> (call_end \<Rightarrow> string) \<Rightarrow> call_end \<Rightarrow> client_error + init_result" where
  "handshake_end js why r =
     (case r of
        Got a \<Rightarrow>
          (case cm_error a of
             Some e \<Rightarrow> Inl (CRpc e)
           | None \<Rightarrow> (case unmarshal step_init empty_init (cm_result a) of None \<Rightarrow> Inl (CText (js_text js)) | Some res \<Rightarrow> Inr res))
      | ConnClosed \<Rightarrow> Inl (CText ''fastmcp/client: connection closed'')
      | _ \<Rightarrow> Inl (CText (why r)))"

definition with_init :: "init_result \<Rightarrow> 'v client \<Rightarrow> 'v client" where
  "with_init res c = c\<lparr>cl_serverInfo := ir_serverInfo res, cl_serverCapabilities := ir_capabilities res,
     cl_protocolVersion := ir_protocolVersion res\<rparr>"

text \<open>\<open>Inl\<close> is the error, the client closed; the write of the notification may fail too.\<close>

inductive mem_Connect ::
  "json_lib \<Rightarrow> (gval \<Rightarrow> string + string) \<Rightarrow> (gval option \<Rightarrow> string) \<Rightarrow> (call_end \<Rightarrow> string) \<Rightarrow> ('x, 'v, 'w) mem_transport \<Rightarrow> 'v \<Rightarrow> 'w
     \<Rightarrow> client_error + ('v, 'w) bridge \<Rightarrow> bool"
  for js :: json_lib and m :: "gval \<Rightarrow> string + string" and idt :: "gval option \<Rightarrow> string" and why :: "call_end \<Rightarrow> string"
    and t :: "('x, 'v, 'w) mem_transport" and v :: "'v" and w :: "'w" where
  connect_marshal: "js_enc js (init_params (newClient (mt_clientOpts t))) = Inl e \<Longrightarrow> mem_Connect js m idt why t v w (Inl (CText e))"
| connect_fails: "js_enc js (init_params (newClient (mt_clientOpts t))) = Inr p
    \<Longrightarrow> open_run js m (mt_server t) idt
          (call_from ''initialize'' (Some (init_params (newClient (mt_clientOpts t)))) (mem_Client t [] v w)) b
    \<Longrightarrow> st_results (br_client b) = [(key, r)] \<Longrightarrow> handshake_end js why r = Inl e
    \<Longrightarrow> mem_Connect js m idt why t v w (Inl e)"
| connect_note_fails: "js_enc js (init_params (newClient (mt_clientOpts t))) = Inr p
    \<Longrightarrow> open_run js m (mt_server t) idt
          (call_from ''initialize'' (Some (init_params (newClient (mt_clientOpts t)))) (mem_Client t [] v w)) b
    \<Longrightarrow> st_results (br_client b) = [(key, r)] \<Longrightarrow> handshake_end js why r = Inr res
    \<Longrightarrow> mem_Connect js m idt why t v w (Inl (CText (why WriteFailed)))"
| connect_ok: "js_enc js (init_params (newClient (mt_clientOpts t))) = Inr p
    \<Longrightarrow> open_run js m (mt_server t) idt
          (call_from ''initialize'' (Some (init_params (newClient (mt_clientOpts t)))) (mem_Client t [] v w)) b
    \<Longrightarrow> st_results (br_client b) = [(key, r)] \<Longrightarrow> handshake_end js why r = Inr res
    \<Longrightarrow> b' = b\<lparr>br_client := st_notify ''notifications/initialized'' None
          ((br_client b)\<lparr>st_client := with_init res (st_client (br_client b))\<rparr>)\<rparr>
    \<Longrightarrow> mem_Connect js m idt why t v w (Inr b')"

section \<open>What each end reads\<close>

definition as_request :: "client_message \<Rightarrow> request" where
  "as_request q = \<lparr>rq_id = map_option jnorm (cm_id q), rq_method = cm_method q, rq_params = map_option jnorm (cm_params q)\<rparr>"

definition as_answer :: "client_message \<Rightarrow> pending_response" where
  "as_answer q = \<lparr>pr_result = map_option jnorm (cm_result q),
     pr_err = map_option (\<lambda>e. e\<lparr>we_data := jnorm (we_data e)\<rparr>) (cm_error q)\<rparr>"

lemma error_up:
  "put_error (jnorm (wire_error_json e)) None = Some (Some (e\<lparr>we_data := jnorm (we_data e)\<rparr>))"
  by (cases "we_data e = GNil") (simp_all add: wire_error_json_def put_error_def decode_value_def step_error_def fold_eq fold_keys
      keys_lower put_int_def put_str_def)

lemma up_line_read:
  "line_inbound (up_line q) = Some \<lparr>in_id = rq_id (as_request q), in_method = cm_method q, in_params = rq_params (as_request q),
      in_result = pr_result (as_answer q), in_error = pr_err (as_answer q)\<rparr>"
  by (cases "cm_id q"; cases "cm_method q = []"; cases "cm_params q"; cases "cm_result q"; cases "cm_error q")
    (simp_all add: line_inbound_def up_line_def wire_message_json_def opt_raw_def opt_str_def unmarshal_def decode_value_def
      step_inbound_def fold_eq fold_keys keys_lower put_str_def empty_inbound_def as_request_def as_answer_def error_up)

definition answer_of :: "json_lib \<Rightarrow> response \<Rightarrow> client_message" where
  "answer_of js r = empty_message\<lparr>cm_id := map_option jnorm (rs_id r), cm_result := map_option jnorm (rs_result r),
     cm_error := map_option (wire_of js) (rs_error r)\<rparr>"

definition as_message :: "json_lib \<Rightarrow> outgoing \<Rightarrow> client_message" where
  "as_message js x =
     (case x of
        OutResponse r \<Rightarrow> answer_of js r
      | OutRequest i meth params \<Rightarrow> empty_message\<lparr>cm_id := Some (jnorm i), cm_method := meth, cm_params := map_option jnorm params\<rparr>
      | OutNotification n \<Rightarrow> empty_message\<lparr>cm_method := nt_method n, cm_params := map_option jnorm (nt_params n)\<rparr>)"

lemma down_line_read: "unmarshal step_message_in empty_message (down_line js x) = Some (as_message js x)"
proof (cases x)
  case (OutResponse r)
  then show ?thesis by (simp add: down_line_def outgoing_json_def answer_back as_message_def answer_of_def)
next
  case (OutRequest i meth params)
  then show ?thesis
    by (cases params) (simp_all add: down_line_def outgoing_json_def as_message_def opt_raw_def unmarshal_def decode_value_def
        step_message_in_def fold_eq fold_keys keys_lower put_str_def empty_message_def)
next
  case (OutNotification n)
  then show ?thesis
    by (cases "nt_params n") (simp_all add: down_line_def outgoing_json_def as_message_def opt_raw_def unmarshal_def decode_value_def
        step_message_in_def fold_eq fold_keys keys_lower put_str_def empty_message_def)
qed

section \<open>What has been written\<close>

definition call_message :: "nat \<Rightarrow> string \<Rightarrow> gval option \<Rightarrow> client_message" where
  "call_message n meth params = empty_message\<lparr>cm_id := Some (GInt (int n)), cm_method := meth, cm_params := params\<rparr>"

definition is_call :: "client_message \<Rightarrow> bool" where
  "is_call q \<longleftrightarrow> cm_method q \<noteq> [] \<and> cm_id q \<noteq> None"

lemma call_message_simps [simp]:
  "cm_id (call_message n meth params) = Some (GInt (int n))" "cm_method (call_message n meth params) = meth"
  "cm_params (call_message n meth params) = params" "is_call (call_message n meth params) \<longleftrightarrow> meth \<noteq> []"
  by (simp_all add: call_message_def is_call_def)

text \<open>The calls written by the client have one identifier each, and so have those to be written.\<close>

definition calls_out :: "'v stdio_client \<Rightarrow> client_message list" where
  "calls_out c = filter is_call (st_out c)"

definition numbered :: "nat \<Rightarrow> client_message \<Rightarrow> bool" where
  "numbered k q \<longleftrightarrow> (\<exists>n meth params. n \<le> k \<and> meth \<noteq> [] \<and> q = call_message n meth params)"

definition writing_ok :: "'v stdio_client \<Rightarrow> bool" where
  "writing_ok c \<longleftrightarrow> (\<forall>key q. st_writing c key = Some q \<longrightarrow>
     (\<exists>n meth params. n \<le> cl_idCtr (st_client c) \<and> meth \<noteq> [] \<and> key = id_text n \<and> q = call_message n meth params
        \<and> cm_id q \<notin> cm_id ` set (calls_out c)))"

definition out_inv :: "'v stdio_client \<Rightarrow> bool" where
  "out_inv c \<longleftrightarrow> (\<forall>q\<in>set (calls_out c). numbered (cl_idCtr (st_client c)) q)
     \<and> distinct (map cm_id (calls_out c)) \<and> writing_ok c"

lemma numbered_mono: "numbered k q \<Longrightarrow> k \<le> k' \<Longrightarrow> numbered k' q"
  unfolding numbered_def by (elim exE conjE) (intro exI conjI, erule le_trans, assumption+)

text \<open>Steps that write no call keep it.\<close>

lemma out_inv_cong:
  assumes "out_inv c" "calls_out c' = calls_out c" "st_writing c' = st_writing c" "cl_idCtr (st_client c') = cl_idCtr (st_client c)"
  shows "out_inv c'"
  using assms by (simp add: out_inv_def writing_ok_def)

lemma reply_no_call: "\<not> is_call (client_reply q r)"
  by (simp add: is_call_def client_reply_def empty_message_def split: sum.splits)

lemma out_start:
  assumes "out_inv c" "meth \<noteq> []"
  shows "out_inv (st_start meth params c)"
proof -
  let ?k = "cl_idCtr (st_client c)" and ?c = "st_start meth params c"
  have f: "calls_out ?c = calls_out c" "cl_idCtr (st_client ?c) = Suc ?k"
    "st_writing ?c = (st_writing c)(id_text (Suc ?k) \<mapsto> call_message (Suc ?k) meth params)"
    by (simp_all add: st_start_def nextID_def calls_out_def call_message_def)
  have fresh: "Some (GInt (int (Suc ?k))) \<notin> cm_id ` set (calls_out c)"
    using assms(1) by (auto simp: out_inv_def numbered_def)
  have "writing_ok ?c"
    unfolding writing_ok_def f
  proof (intro allI impI)
    fix key q assume w: "((st_writing c)(id_text (Suc ?k) \<mapsto> call_message (Suc ?k) meth params)) key = Some q"
    show "\<exists>n meth params. n \<le> Suc ?k \<and> meth \<noteq> [] \<and> key = id_text n \<and> q = call_message n meth params
        \<and> cm_id q \<notin> cm_id ` set (calls_out c)"
    proof (cases "key = id_text (Suc ?k)")
      case True
      with w fresh assms(2) show ?thesis by (intro exI [of _ "Suc ?k"] exI [of _ meth] exI [of _ params]) auto
    next
      case False
      with w have "st_writing c key = Some q" by simp
      with assms(1) obtain n me pa where "n \<le> ?k" "me \<noteq> []" "key = id_text n" "q = call_message n me pa"
        "cm_id q \<notin> cm_id ` set (calls_out c)" unfolding out_inv_def writing_ok_def by blast
      then show ?thesis by (intro exI [of _ n] exI [of _ me] exI [of _ pa]) auto
    qed
  qed
  moreover have "\<forall>q\<in>set (calls_out c). numbered (Suc ?k) q"
    using assms(1) numbered_mono by (auto simp: out_inv_def)
  ultimately show ?thesis using assms(1) by (simp add: out_inv_def f)
qed

lemma out_write:
  assumes "out_inv c" "st_write key success c = Some c'"
  shows "out_inv c'"
proof -
  obtain q where q: "st_writing c key = Some q" using assms(2) by (auto simp: st_write_def split: option.splits)
  with assms(1) obtain n meth params where n: "n \<le> cl_idCtr (st_client c)" "meth \<noteq> []" "key = id_text n"
    "q = call_message n meth params" "cm_id q \<notin> cm_id ` set (calls_out c)"
    unfolding out_inv_def writing_ok_def by blast
  have other: "cm_id p \<notin> cm_id ` set (calls_out c) \<and> cm_id p \<noteq> cm_id q
      \<and> (\<exists>n' me pa. n' \<le> cl_idCtr (st_client c) \<and> me \<noteq> [] \<and> k = id_text n' \<and> p = call_message n' me pa)"
    if "st_writing c k = Some p" "k \<noteq> key" for k p
  proof -
    from that(1) assms(1) obtain n' me pa where n': "n' \<le> cl_idCtr (st_client c)" "me \<noteq> []" "k = id_text n'"
      "p = call_message n' me pa" "cm_id p \<notin> cm_id ` set (calls_out c)"
      unfolding out_inv_def writing_ok_def by blast
    with n that(2) have "n' \<noteq> n" by auto
    with n n' show ?thesis by auto
  qed
  show ?thesis
  proof (cases success)
    case True
    with assms(2) q have f: "st_out c' = st_out c @ [q]" "st_writing c' = (st_writing c)(key := None)" "st_client c' = st_client c"
      by (auto simp: st_write_def)
    have co: "calls_out c' = calls_out c @ [q]" using n(2,4) by (simp add: calls_out_def f)
    have "writing_ok c'" unfolding writing_ok_def f co
      using other by (auto split: if_splits)
    moreover have "numbered (cl_idCtr (st_client c)) q" unfolding numbered_def using n by blast
    ultimately show ?thesis using assms(1) n(5) by (simp add: out_inv_def co f)
  next
    case False
    with assms(2) q have f: "st_out c' = st_out c" "st_writing c' = (st_writing c)(key := None)" "st_client c' = st_client c"
      by (auto simp: st_write_def)
    have "writing_ok c'" unfolding writing_ok_def f calls_out_def
      using other by (auto simp: calls_out_def split: if_splits)
    then show ?thesis using assms(1) by (simp add: out_inv_def calls_out_def f)
  qed
qed

lemma out_step:
  assumes "client_step js c l c'" "client_local l \<or> (\<exists>line key. l = CLine line key)" "out_inv c"
  shows "out_inv c'"
  using assms
proof (induction rule: client_step.induct)
  case (c_start s meth params)
  then show ?case by (intro out_start) (auto simp: client_local_def)
next
  case (c_write key success s s')
  from out_write [OF c_write(3,1)] show ?case .
next
  case (c_serve i s s')
  then show ?case
    by (intro out_inv_cong [OF c_serve(3)])
      (auto simp: serveRequest_def calls_out_def reply_no_call split: if_splits prod.splits)
next
  case (c_token s)
  have "writing_ok (s\<lparr>st_client := snd (nextID (st_client s))\<rparr>)"
    unfolding writing_ok_def
  proof (intro allI impI)
    fix key q assume "st_writing (s\<lparr>st_client := snd (nextID (st_client s))\<rparr>) key = Some q"
    then have "st_writing s key = Some q" by simp
    with c_token(2) obtain n meth params where "n \<le> cl_idCtr (st_client s)" "meth \<noteq> []" "key = id_text n"
      "q = call_message n meth params" "cm_id q \<notin> cm_id ` set (calls_out s)"
      unfolding out_inv_def writing_ok_def by blast
    then show "\<exists>n meth params. n \<le> cl_idCtr (st_client (s\<lparr>st_client := snd (nextID (st_client s))\<rparr>)) \<and> meth \<noteq> []
        \<and> key = id_text n \<and> q = call_message n meth params
        \<and> cm_id q \<notin> cm_id ` set (calls_out (s\<lparr>st_client := snd (nextID (st_client s))\<rparr>))"
      by (intro exI [of _ n] exI [of _ meth] exI [of _ params]) (simp add: nextID_def calls_out_def)
  qed
  moreover have "\<forall>q\<in>set (calls_out s). numbered (Suc (cl_idCtr (st_client s))) q"
    using c_token(2) numbered_mono by (auto simp: out_inv_def)
  ultimately show ?case using c_token(2) by (simp add: out_inv_def nextID_def calls_out_def)
next
  case (c_notify s meth params)
  show ?case by (rule out_inv_cong [OF c_notify(2)])
      (simp_all add: st_notify_def calls_out_def is_call_def empty_message_def)
next
  case (c_select key sel s s')
  show ?case by (rule out_inv_cong [OF c_select(3)])
      (use c_select(1) in \<open>auto simp: st_select_def st_finish_def calls_out_def split: select_case.splits option.splits chan.splits if_splits\<close>)
next
  case (c_line s line raw)
  show ?case by (rule out_inv_cong [OF c_line(4)]) (auto simp: st_line_def calls_out_def split: option.splits)
next
  case (c_send s s')
  show ?case by (rule out_inv_cong [OF c_send(3)])
      (use c_send(1) in \<open>auto simp: st_send_def calls_out_def split: option.splits chan.splits\<close>)
next
  case (c_note i s s')
  show ?case by (rule out_inv_cong [OF c_note(3)])
      (use c_note(1) in \<open>auto simp: runNotification_def calls_out_def split: if_splits\<close>)
next
  case (c_close s)
  show ?case by (rule out_inv_cong [OF c_close(2)]) (simp_all add: st_shutdown_def calls_out_def)
next
  case (c_eof s)
  show ?case by (rule out_inv_cong [OF c_eof(3)]) (simp_all add: st_shutdown_def calls_out_def)
qed

lemma client_out_grows: "client_step js c l c' \<Longrightarrow> set (st_out c) \<subseteq> set (st_out c')"
  by (induction rule: client_step.induct)
    (auto simp: st_start_def nextID_def st_notify_def st_write_def st_select_def st_finish_def st_line_def st_send_def
      serveRequest_def runNotification_def st_shutdown_def
      split: if_splits option.splits prod.splits select_case.splits chan.splits)

lemma server_out_grows: "sess_step m srv s l s' \<Longrightarrow> set (ss_out s) \<subseteq> set (ss_out s')"
  by (induction rule: sess_step.induct)
    (auto simp: handle_def deliver_def run_job_def start_request_def take_answer_def cancel_request_def ss_notify_def ss_write_def
        Let_def split: if_splits option.splits prod.splits)

section \<open>Where replies come from\<close>

definition dispatched :: "(gval \<Rightarrow> string + string) \<Rightarrow> 'w server \<Rightarrow> client_message \<Rightarrow> response \<Rightarrow> bool" where
  "dispatched m srv q r \<longleftrightarrow> (\<exists>subs u conn u'. Dispatch m srv (as_request q) (Some subs) u = (Some r, conn, u'))"

definition serve_inv :: "(gval \<Rightarrow> string + string) \<Rightarrow> 'w server \<Rightarrow> client_message set \<Rightarrow> 'w sess \<Rightarrow> bool" where
  "serve_inv m srv Q s \<longleftrightarrow>
     (\<forall>j\<in>set (ss_jobs s). \<exists>q\<in>Q. cm_method q \<noteq> [] \<and> j = as_request q)
     \<and> (\<forall>x\<in>set (ss_out s). case x of
          OutResponse r \<Rightarrow> \<exists>q\<in>Q. cm_method q \<noteq> [] \<and> dispatched m srv q r
        | OutRequest i meth params \<Rightarrow> meth \<noteq> []
        | OutNotification n \<Rightarrow> nt_method n \<noteq> [])"

lemma serve_inv_mono: "serve_inv m srv Q s \<Longrightarrow> Q \<subseteq> Q' \<Longrightarrow> serve_inv m srv Q' s"
  unfolding serve_inv_def by (auto split: outgoing.splits) blast+

lemma serve_up:
  assumes "serve_inv m srv Q s" "q \<in> Q" "sess_step m srv s (LLine (up_line q)) s'"
  shows "serve_inv m srv Q s'"
proof -
  from assms(3) have s': "s' = handle (up_line q) s" by (auto simp: sess_step_simps)
  show ?thesis
  proof (cases "cm_method q = []")
    case True
    then have "s' = deliver (rq_id (as_request q)) (as_answer q) s"
      using up_line_read [of q] unfolding s' handle_def line_inbound_def by (simp add: as_answer_def)
    with assms(1) show ?thesis by (simp add: serve_inv_def frame_rules)
  next
    case False
    then have "s' = s\<lparr>ss_jobs := ss_jobs s @ [as_request q]\<rparr>"
      using up_line_read [of q] unfolding s' handle_def line_inbound_def by (simp add: as_request_def)
    with assms(1,2) False show ?thesis by (auto simp: serve_inv_def)
  qed
qed

lemma serve_local:
  assumes "serve_inv m srv Q s" "sess_step m srv s l s'" "server_local l"
  shows "serve_inv m srv Q s'"
  using assms(2,1,3)
proof (induction rule: sess_step.induct)
  case (finish_job i ss ss')
  from finish_job(1) have i: "i < length (ss_jobs ss)" by (auto simp: run_job_def split: if_splits)
  then obtain q where q: "q \<in> Q" "cm_method q \<noteq> []" "ss_jobs ss ! i = as_request q"
    using finish_job(2) unfolding serve_inv_def by (meson nth_mem)
  obtain resp c w where d: "Dispatch m srv (as_request q) (Some (ss_subs ss)) (ss_world ss) = (resp, c, w)"
    by (metis prod_cases3)
  have new: "set (ss_jobs ss') \<subseteq> set (ss_jobs ss)"
    "ss_out ss' = ss_out ss @ (case resp of None \<Rightarrow> [] | Some r \<Rightarrow> [OutResponse r])"
    using finish_job(1) i d q(3)
    by (auto simp: run_job_def Let_def frame_rules split: option.splits dest: in_set_takeD in_set_dropD)
  have "dispatched m srv q r" if "resp = Some r" for r using d that unfolding dispatched_def by blast
  with finish_job(2) q new show ?case unfolding serve_inv_def by (auto split: option.splits)
qed (auto simp: server_local_def serve_inv_def start_request_def take_answer_def cancel_request_def ss_notify_def ss_write_def
    Let_def split: if_splits option.splits)

text \<open>What the client answers to a request of the server: what its handlers, set by the options, make
  of it.\<close>

definition handled :: "json_lib \<Rightarrow> 'v client \<Rightarrow> outgoing set \<Rightarrow> client_message \<Rightarrow> bool" where
  "handled js cl X q \<longleftrightarrow> (\<exists>i meth params u r u'. OutRequest i meth params \<in> X
     \<and> handleServerRequest js cl meth (map_option jnorm params) u = (r, u')
     \<and> q = client_reply (as_message js (OutRequest i meth params)) r)"

definition reply_inv :: "json_lib \<Rightarrow> 'v client \<Rightarrow> outgoing set \<Rightarrow> 'v stdio_client \<Rightarrow> bool" where
  "reply_inv js cl X c \<longleftrightarrow> (\<exists>k. st_client c = cl\<lparr>cl_idCtr := k\<rparr>)
     \<and> (\<forall>q\<in>set (st_jobs c). \<exists>i meth params. OutRequest i meth params \<in> X \<and> q = as_message js (OutRequest i meth params))
     \<and> (\<forall>q\<in>set (st_out c). cm_method q = [] \<longrightarrow> handled js cl X q)
     \<and> (\<forall>key q. st_writing c key = Some q \<longrightarrow> cm_method q \<noteq> [])"

lemma reply_inv_mono: "reply_inv js cl X c \<Longrightarrow> X \<subseteq> X' \<Longrightarrow> reply_inv js cl X' c"
  unfolding reply_inv_def handled_def by (elim conjE) (intro conjI; blast)

lemma handler_of_options: "handleServerRequest js (cl\<lparr>cl_idCtr := k\<rparr>) meth params u = handleServerRequest js cl meth params u"
  by (simp add: handleServerRequest_def split: option.split)

lemma reply_inv_cong:
  assumes "reply_inv js cl X c" "st_client c' = st_client c" "set (st_jobs c') \<subseteq> set (st_jobs c)"
    "st_out c' = st_out c" "\<And>k q. st_writing c' k = Some q \<Longrightarrow> st_writing c k = Some q"
  shows "reply_inv js cl X c'"
  using assms unfolding reply_inv_def by (simp add: subset_iff) blast

lemma reply_line:
  assumes "reply_inv js cl X c" "x \<in> X" "idt None = []"
  shows "reply_inv js cl X (st_line (down_line js x) (idt (outgoing_id x)) c)"
proof -
  let ?c = "st_line (down_line js x) (idt (outgoing_id x)) c"
  have f: "st_client ?c = st_client c" "st_out ?c = st_out c" "st_writing ?c = st_writing c"
    by (auto simp: st_line_def split: option.split)
  have "q \<in> set (st_jobs c) \<or> (\<exists>i meth params. x = OutRequest i meth params \<and> q = as_message js x)"
    if "q \<in> set (st_jobs ?c)" for q
  proof -
    have "q \<in> set (st_jobs c) \<or> (q = as_message js x \<and> cm_method (as_message js x) \<noteq> [] \<and> idt (outgoing_id x) \<noteq> [])"
      using that by (auto simp: st_line_def down_line_read split: if_splits)
    then show ?thesis using assms(3)
      by (cases x) (auto simp: as_message_def outgoing_id_def answer_of_def empty_message_def)
  qed
  with assms(1,2) show ?thesis unfolding reply_inv_def f by blast
qed

lemma reply_local:
  assumes "client_step js c l c'" "client_local l" "reply_inv js cl X c"
  shows "reply_inv js cl X c'"
  using assms
proof (induction rule: client_step.induct)
  case (c_start s meth params)
  then have "meth \<noteq> []" by (simp add: client_local_def)
  with c_start(2) show ?case
    by (auto simp: reply_inv_def st_start_def nextID_def split: if_splits)
next
  case (c_token s)
  then show ?case by (auto simp: reply_inv_def nextID_def)
next
  case (c_notify s meth params)
  then show ?case by (auto simp: reply_inv_def st_notify_def client_local_def empty_message_def)
next
  case (c_write key success s s')
  then show ?case
    by (auto simp: reply_inv_def st_write_def split: option.splits if_splits)
next
  case (c_serve i s s')
  from c_serve(1) have i: "i < length (st_jobs s)" by (auto simp: serveRequest_def split: if_splits)
  let ?q = "st_jobs s ! i"
  from i c_serve(3) obtain j meth params where x: "OutRequest j meth params \<in> X" "?q = as_message js (OutRequest j meth params)"
    unfolding reply_inv_def by (meson nth_mem)
  obtain k where cl: "st_client s = cl\<lparr>cl_idCtr := k\<rparr>" using c_serve(3) by (auto simp: reply_inv_def)
  obtain r u' where h: "handleServerRequest js cl meth (map_option jnorm params) (st_world s) = (r, u')" by (metis surj_pair)
  then have h': "handleServerRequest js (st_client s) (cm_method ?q) (cm_params ?q) (st_world s) = (r, u')"
    by (simp add: cl handler_of_options x(2) as_message_def)
  have "handled js cl X (client_reply ?q r)" unfolding handled_def
    by (intro exI conjI, rule x(1), rule h) (simp add: x(2))
  moreover have "s' = s\<lparr>st_jobs := remove_nth i (st_jobs s), st_world := u', st_out := st_out s @ [client_reply ?q r]\<rparr>"
    using c_serve(1) i h' by (simp add: serveRequest_def)
  moreover have "set (remove_nth i (st_jobs s)) \<subseteq> set (st_jobs s)"
    by (auto simp: remove_nth_def dest: in_set_takeD in_set_dropD)
  ultimately show ?case using c_serve(3) by (auto simp: reply_inv_def)
next
  case (c_select key sel s s')
  show ?case by (rule reply_inv_cong [OF c_select(3)])
      (use c_select(1) in \<open>auto simp: st_select_def st_finish_def split: select_case.splits option.splits chan.splits if_splits\<close>)
next
  case (c_line s line raw)
  then show ?case by (simp add: client_local_def)
next
  case (c_send s s')
  show ?case by (rule reply_inv_cong [OF c_send(3)]) (use c_send(1) in \<open>auto simp: st_send_def split: option.splits chan.splits\<close>)
next
  case (c_note i s s')
  show ?case by (rule reply_inv_cong [OF c_note(3)]) (use c_note(1) in \<open>auto simp: runNotification_def split: if_splits\<close>)
next
  case (c_close s)
  show ?case by (rule reply_inv_cong [OF c_close(2)]) (simp_all add: st_shutdown_def)
next
  case (c_eof s)
  show ?case by (rule reply_inv_cong [OF c_eof(3)]) (simp_all add: st_shutdown_def)
qed

section \<open>The whole connection\<close>

text \<open>Each end has taken a run of its own, on lines the other wrote.\<close>

definition bridge_inv where
  "bridge_inv js m srv idt opts v w b \<longleftrightarrow>
     (\<exists>ls. client_run js (NewStdio opts v) ls (br_client b)
        \<and> (\<forall>line key. CLine line key \<in> set ls \<longrightarrow>
             (\<exists>x\<in>set (ss_out (br_server b)). line = down_line js x \<and> key = idt (outgoing_id x))))
     \<and> (\<exists>ks. sess_run m srv (newSession True w) ks (br_server b)
        \<and> (\<forall>line. LLine line \<in> set ks \<longrightarrow> (\<exists>q\<in>set (st_out (br_client b)). line = up_line q)))
     \<and> out_inv (br_client b)
     \<and> serve_inv m srv (set (st_out (br_client b))) (br_server b)
     \<and> reply_inv js (newClient opts) (set (ss_out (br_server b))) (br_client b)"

lemma bridge_inv_start: "bridge_inv js m srv idt (mt_clientOpts t @ opts) v w (mem_Client t opts v w)"
  unfolding bridge_inv_def
proof (intro conjI)
  let ?b = "mem_Client t opts v w"
  show "\<exists>ls. client_run js (NewStdio (mt_clientOpts t @ opts) v) ls (br_client ?b)
      \<and> (\<forall>line key. CLine line key \<in> set ls \<longrightarrow> (\<exists>x\<in>set (ss_out (br_server ?b)). line = down_line js x \<and> key = idt (outgoing_id x)))"
    by (intro exI [of _ "[]"]) (simp add: mem_Client_def run_none)
  show "\<exists>ks. sess_run m srv (newSession True w) ks (br_server ?b)
      \<and> (\<forall>line. LLine line \<in> set ks \<longrightarrow> (\<exists>q\<in>set (st_out (br_client ?b)). line = up_line q))"
    by (intro exI [of _ "[]"]) (simp add: mem_Client_def run_Nil)
  show "reply_inv js (newClient (mt_clientOpts t @ opts)) (set (ss_out (br_server ?b))) (br_client ?b)"
    by (auto simp: mem_Client_def reply_inv_def NewStdio_def intro!: exI [of _ "cl_idCtr (newClient (mt_clientOpts t @ opts))"])
qed (simp_all add: mem_Client_def out_inv_def calls_out_def writing_ok_def serve_inv_def NewStdio_def newSession_def)

lemma client_side:
  assumes "client_run js s0 ls c" "client_step js c l c'"
    "\<forall>line key. CLine line key \<in> set ls \<longrightarrow> P line key" "\<forall>line key. l = CLine line key \<longrightarrow> P line key"
  shows "\<exists>ls. client_run js s0 ls c' \<and> (\<forall>line key. CLine line key \<in> set ls \<longrightarrow> P line key)"
  using run_more [OF assms(1,2)] assms(3,4) by (intro exI [of _ "ls @ [l]"]) auto

lemma server_side:
  assumes "sess_run m srv s0 ks s" "sess_step m srv s l s'"
    "\<forall>line. LLine line \<in> set ks \<longrightarrow> P line" "\<forall>line. l = LLine line \<longrightarrow> P line"
  shows "\<exists>ks. sess_run m srv s0 ks s' \<and> (\<forall>line. LLine line \<in> set ks \<longrightarrow> P line)"
  using run_snoc [OF assms(1,2)] assms(3,4) by (intro exI [of _ "ks @ [l]"]) auto

lemma bridge_client_step:
  assumes inv: "bridge_inv js m srv idt opts v w b" and step: "client_step js (br_client b) l c"
    and l: "client_local l \<or> (\<exists>x\<in>set (ss_out (br_server b)). l = CLine (down_line js x) (idt (outgoing_id x)))"
    and idt: "idt None = []" and c: "br_client b' = c" "br_server b' = br_server b"
  shows "bridge_inv js m srv idt opts v w b'"
  unfolding bridge_inv_def c
proof (intro conjI)
  have sub: "set (st_out (br_client b)) \<subseteq> set (st_out c)" by (rule client_out_grows [OF step])
  show "\<exists>ls. client_run js (NewStdio opts v) ls c
      \<and> (\<forall>line key. CLine line key \<in> set ls \<longrightarrow> (\<exists>x\<in>set (ss_out (br_server b)). line = down_line js x \<and> key = idt (outgoing_id x)))"
    using inv l unfolding bridge_inv_def
    by (elim exE conjE) (rule client_side [OF _ step], auto simp: client_local_def)
  show "\<exists>ks. sess_run m srv (newSession True w) ks (br_server b)
      \<and> (\<forall>line. LLine line \<in> set ks \<longrightarrow> (\<exists>q\<in>set (st_out c). line = up_line q))"
    using inv sub unfolding bridge_inv_def by blast
  show "out_inv c" using inv l by (intro out_step [OF step]) (auto simp: bridge_inv_def)
  show "serve_inv m srv (set (st_out c)) (br_server b)"
    using inv unfolding bridge_inv_def by (elim conjE) (erule serve_inv_mono, rule sub)
  have r: "reply_inv js (newClient opts) (set (ss_out (br_server b))) (br_client b)" using inv by (simp add: bridge_inv_def)
  show "reply_inv js (newClient opts) (set (ss_out (br_server b))) c"
  proof (cases "client_local l")
    case True
    from reply_local [OF step True r] show ?thesis .
  next
    case False
    with l obtain x where x: "x \<in> set (ss_out (br_server b))" "l = CLine (down_line js x) (idt (outgoing_id x))" by blast
    with step have "c = st_line (down_line js x) (idt (outgoing_id x)) (br_client b)" by (auto elim: client_stepE)
    with reply_line [OF r x(1), of idt, OF idt] show ?thesis by simp
  qed
qed

lemma bridge_server_step:
  assumes inv: "bridge_inv js m srv idt opts v w b" and step: "sess_step m srv (br_server b) l s"
    and l: "server_local l \<or> (\<exists>q\<in>set (st_out (br_client b)). l = LLine (up_line q))"
    and s: "br_client b' = br_client b" "br_server b' = s"
  shows "bridge_inv js m srv idt opts v w b'"
  unfolding bridge_inv_def s
proof (intro conjI)
  have sub: "set (ss_out (br_server b)) \<subseteq> set (ss_out s)" by (rule server_out_grows [OF step])
  show "\<exists>ls. client_run js (NewStdio opts v) ls (br_client b)
      \<and> (\<forall>line key. CLine line key \<in> set ls \<longrightarrow> (\<exists>x\<in>set (ss_out s). line = down_line js x \<and> key = idt (outgoing_id x)))"
    using inv sub unfolding bridge_inv_def by blast
  show "\<exists>ks. sess_run m srv (newSession True w) ks s
      \<and> (\<forall>line. LLine line \<in> set ks \<longrightarrow> (\<exists>q\<in>set (st_out (br_client b)). line = up_line q))"
    using inv l unfolding bridge_inv_def
    by (elim exE conjE) (rule server_side [OF _ step], auto simp: server_local_def)
  show "out_inv (br_client b)" using inv by (simp add: bridge_inv_def)
  show "reply_inv js (newClient opts) (set (ss_out s)) (br_client b)"
    using inv unfolding bridge_inv_def by (elim conjE) (erule reply_inv_mono, rule sub)
  have r: "serve_inv m srv (set (st_out (br_client b))) (br_server b)" using inv by (simp add: bridge_inv_def)
  show "serve_inv m srv (set (st_out (br_client b))) s"
    using l serve_local [OF r step] serve_up [OF r] step by blast
qed

lemma bridge_run_inv:
  assumes "bridge_run js m srv idt b0 b" "idt None = []" "bridge_inv js m srv idt opts v w b0"
  shows "bridge_inv js m srv idt opts v w b"
  using assms
proof (induction rule: bridge_run.induct)
  case (bridge_none b)
  then show ?case by simp
next
  case (bridge_more b b' b'')
  then have inv: "bridge_inv js m srv idt opts v w b'" by blast
  from bridge_more(2) show ?case
  proof (cases rule: bridge_step.cases)
    case (b_client l c)
    then show ?thesis using bridge_more.prems(1) by (intro bridge_client_step [OF inv b_client(2)]) simp_all
  next
    case (b_server l s)
    then show ?thesis by (intro bridge_server_step [OF inv b_server(2)]) simp_all
  next
    case (b_up s)
    then show ?thesis by (intro bridge_server_step [OF inv b_up(3)]) auto
  next
    case (b_down c)
    then show ?thesis using bridge_more.prems(1) by (intro bridge_client_step [OF inv b_down(3)]) auto
  qed
qed

lemma only_call:
  assumes "out_inv c" "q \<in> set (st_out c)" "is_call q"
  shows "filter (\<lambda>p. is_call p \<and> cm_id p = cm_id q) (st_out c) = [q]"
proof -
  have "filter (\<lambda>p. cm_id p = cm_id q) (calls_out c) = [q]"
    using assms by (intro filter_key_unique) (auto simp: out_inv_def calls_out_def)
  then show ?thesis by (simp add: calls_out_def conj_commute)
qed

lemma call_answered:
  assumes "client_options (mt_clientOpts t @ opts)" and "idt None = []" "\<forall>n. idt (Some (GFloat (of_nat n))) = id_text n"
    and "bridge_run js m (mt_server t) idt (mem_Client t opts v w) b" and "(key, Got a) \<in> set (st_results (br_client b))"
  shows "\<exists>n meth params subs u r conn u'. key = id_text n
     \<and> filter (\<lambda>q. is_call q \<and> cm_id q = Some (GInt (int n))) (st_out (br_client b)) = [call_message n meth params]
     \<and> Dispatch m (mt_server t) \<lparr>rq_id = Some (GFloat (of_nat n)), rq_method = meth, rq_params = map_option jnorm params\<rparr>
         (Some subs) u = (Some r, conn, u')
     \<and> a = answer_of js r"
proof -
  let ?c = "br_client b" and ?s = "br_server b"
  have inv: "bridge_inv js m (mt_server t) idt (mt_clientOpts t @ opts) v w b"
    by (rule bridge_run_inv [OF assms(4,2) bridge_inv_start])
  then obtain ls where ls: "client_run js (NewStdio (mt_clientOpts t @ opts) v) ls ?c"
    "\<forall>line key. CLine line key \<in> set ls \<longrightarrow> (\<exists>x\<in>set (ss_out ?s). line = down_line js x \<and> key = idt (outgoing_id x))"
    unfolding bridge_inv_def by blast
  have o: "out_inv ?c" and sv: "serve_inv m (mt_server t) (set (st_out ?c)) ?s" using inv by (simp_all add: bridge_inv_def)
  have "answer_read ls key a"
    using run_inv [OF ls(1) client_options [OF assms(1)]] assms(5) by (simp add: chan_inv_def)
  then obtain line where line: "CLine line key \<in> set ls" "unmarshal step_message_in empty_message line = Some a" "cm_method a = []"
    by (auto simp: answer_read_def)
  with ls(2) obtain x where x: "x \<in> set (ss_out ?s)" "line = down_line js x" "key = idt (outgoing_id x)" by blast
  have a: "a = as_message js x" using line(2) by (simp add: x(2) down_line_read)
  with line(3) sv x(1) obtain r where r: "x = OutResponse r"
    unfolding serve_inv_def by (cases x) (auto simp: as_message_def dest!: bspec)
  with sv x(1) obtain q where q: "q \<in> set (st_out ?c)" "cm_method q \<noteq> []" "dispatched m (mt_server t) q r"
    unfolding serve_inv_def by force
  obtain subs u conn u' where d: "Dispatch m (mt_server t) (as_request q) (Some subs) u = (Some r, conn, u')"
    using q(3) by (auto simp: dispatched_def)
  then have id: "rs_id r = rq_id (as_request q)" "rq_id (as_request q) \<noteq> None"
    by (auto simp: Dispatch_def IsNotification_def errorResponse_def resultResponse_def split: prod.splits if_splits sum.splits)
  then have call: "is_call q" using q(2) by (auto simp: is_call_def as_request_def)
  then obtain n meth params where n: "q = call_message n meth params"
    using o q(1) unfolding out_inv_def calls_out_def numbered_def by auto
  have key: "key = id_text n"
    using id(1) assms(3) by (simp add: x(3) r outgoing_id_def n as_request_def)
  have only: "filter (\<lambda>q. is_call q \<and> cm_id q = Some (GInt (int n))) (st_out ?c) = [call_message n meth params]"
    using only_call [OF o q(1) call] by (simp add: n)
  have "as_request q = \<lparr>rq_id = Some (GFloat (of_nat n)), rq_method = meth, rq_params = map_option jnorm params\<rparr>"
    by (simp add: n as_request_def)
  note d' = d [unfolded this]
  have "a = answer_of js r" by (simp add: a r as_message_def)
  with key only d' show ?thesis by blast
qed

text \<open>
  C7: A call over the in-process transport is answered by the dispatch of that call. In
  whatever order the two ends run, an answer a call got is the response the server made of the one
  call written with its identifier: of its method and its parameters as they decode, no other
  call's, and with nothing changed on the way but the decoding.
\<close>

theorem in_memory_calls:
  assumes "client_options (mt_clientOpts t @ opts)" and "idt None = []" "\<forall>n. idt (Some (GFloat (of_nat n))) = id_text n"
    and "bridge_run js m (mt_server t) idt (mem_Client t opts v w) b" and "(key, Got a) \<in> set (st_results (br_client b))"
  shows "\<exists>n meth params subs u r conn u'. key = id_text n
     \<and> filter (\<lambda>q. is_call q \<and> cm_id q = Some (GInt (int n))) (st_out (br_client b)) = [call_message n meth params]
     \<and> Dispatch m (mt_server t) \<lparr>rq_id = Some (GFloat (of_nat n)), rq_method = meth, rq_params = map_option jnorm params\<rparr>
         (Some subs) u = (Some r, conn, u')
     \<and> a = answer_of js r"
  by (rule call_answered [OF assms])

section \<open>The handshake\<close>

text \<open>While a connection opens it takes steps of the bridge, and the client writes one call at most.\<close>

lemma open_is_bridge: "open_step js m srv idt b b' \<Longrightarrow> bridge_step js m srv idt b b'"
proof (induction rule: open_step.induct)
  case (open_client b l c)
  have "client_local l" using open_client(2) by (simp add: internal_def client_local_def split: client_label.splits)
  with open_client(1) show ?case by (rule b_client)
next
  case (open_server b b')
  then show ?case by simp
next
  case (open_down b c)
  then show ?case by (rule b_down)
qed

lemma open_runs_bridge: "open_run js m srv idt b b' \<Longrightarrow> bridge_run js m srv idt b0 b \<Longrightarrow> bridge_run js m srv idt b0 b'"
  by (induction rule: open_run.induct) (auto intro: bridge_more open_is_bridge)

lemma bridge_from_call:
  assumes "meth \<noteq> []" "open_run js m srv idt (call_from meth params b) b'"
  shows "bridge_run js m srv idt b b'"
proof (rule open_runs_bridge [OF assms(2)])
  have "bridge_step js m srv idt b (call_from meth params b)"
    unfolding call_from_def by (rule b_client [OF c_start]) (simp add: client_local_def assms(1))
  then show "bridge_run js m srv idt b (call_from meth params b)" by (rule bridge_more [OF bridge_none])
qed

definition calls_only :: "client_message \<Rightarrow> 'v stdio_client \<Rightarrow> bool" where
  "calls_only q c \<longleftrightarrow> (\<forall>key x. st_writing c key = Some x \<longrightarrow> x = q) \<and> (\<forall>x\<in>set (st_out c). is_call x \<longrightarrow> x = q)"

lemma calls_only_less:
  assumes "calls_only q c" "\<forall>key x. st_writing c' key = Some x \<longrightarrow> st_writing c key = Some x \<or> x = q"
    "\<forall>x\<in>set (st_out c'). is_call x \<longrightarrow> x \<in> set (st_out c) \<or> x = q"
  shows "calls_only q c'"
  using assms unfolding calls_only_def by blast

lemma calls_only_line: "calls_only q c \<Longrightarrow> calls_only q (st_line line raw c)"
  by (simp add: calls_only_def st_line_def split: option.splits)

lemma calls_only_step: "client_step js c l c' \<Longrightarrow> internal l \<Longrightarrow> calls_only q c \<Longrightarrow> calls_only q c'"
proof (induction rule: client_step.induct)
  case (c_write key success s s')
  then obtain x where x: "st_writing s key = Some x" by (auto simp: st_write_def split: option.splits)
  moreover from x c_write(3) have "x = q" by (simp add: calls_only_def)
  ultimately have "st_writing s key = Some q" by simp
  with c_write(1) show ?case
    by (intro calls_only_less [OF c_write(3)]) (auto simp: st_write_def split: if_splits)
next
  case (c_select key sel s s')
  then show ?case by (auto simp: calls_only_def st_select_def st_finish_def split: if_splits select_case.splits option.splits chan.splits)
next
  case (c_send s s')
  then show ?case by (auto simp: calls_only_def st_send_def split: option.splits chan.splits)
next
  case (c_serve i s s')
  then show ?case by (auto simp: calls_only_def serveRequest_def reply_no_call split: if_splits prod.splits)
next
  case (c_note i s s')
  then show ?case by (auto simp: calls_only_def runNotification_def split: if_splits)
qed (simp_all add: internal_def calls_only_def st_shutdown_def)

lemma calls_only_open: "open_run js m srv idt b b' \<Longrightarrow> calls_only q (br_client b) \<Longrightarrow> calls_only q (br_client b')"
proof (induction rule: open_run.induct)
  case (open_more b b' b'')
  then have inv: "calls_only q (br_client b')" by simp
  from open_more(2) show ?case
  proof (cases rule: open_step.cases)
    case (open_client l c)
    with calls_only_step [OF _ _ inv] show ?thesis by simp
  next
    case open_server
    with inv show ?thesis by simp
  next
    case (open_down c)
    then have "c = st_line (down_line js (ss_out (br_server b') ! br_down b')) (idt (outgoing_id (ss_out (br_server b') ! br_down b'))) (br_client b')"
      by (auto elim: client_stepE)
    with open_down calls_only_line [OF inv] show ?thesis by simp
  qed
qed simp

lemma init_keys: "to_lower ''capabilities'' = ''capabilities''" "to_lower ''clientInfo'' = ''clientinfo''"
  "to_lower ''protocolVersion'' = ''protocolversion''" "to_lower ''serverInfo'' = ''serverinfo''"
  "to_lower ''version'' = ''version''" "to_lower ''instructions'' = ''instructions''"
  by code_simp+

lemma protocol_read: "unmarshal step_protocol [] (Some (jnorm (init_params c))) = Some ProtocolVersion"
  by (simp add: init_params_def unmarshal_def decode_value_def step_protocol_def fold_eq init_keys put_str_def)

text \<open>The capabilities a server announces, and its answer to the handshake as the client reads it.\<close>

definition announced :: "'w server \<Rightarrow> (string \<times> gval) list" where
  "announced s = [(''logging'', GMap []), (''completions'', GMap [])]
     @ (if sv_toolOrder s \<noteq> [] then [(''tools'', GMap [(''listChanged'', GBool True)])] else [])
     @ (if sv_resourceOrder s \<noteq> [] \<or> sv_templates s \<noteq> []
        then [(''resources'', GMap [(''listChanged'', GBool True), (''subscribe'', GBool True)])] else [])
     @ (if sv_promptOrder s \<noteq> [] then [(''prompts'', GMap [(''listChanged'', GBool True)])] else [])"

lemma init_read:
  "unmarshal step_init empty_init (Some (jnorm (handleInitialize s (Some (jnorm (init_params c)))))) =
     Some \<lparr>ir_protocolVersion = ProtocolVersion, ir_capabilities = Some (GMap (announced s)),
           ir_serverInfo = \<lparr>si_name = sv_name s, si_version = sv_version s\<rparr>, ir_instructions = sv_instructions s\<rparr>"
proof -
  have caps: "jnorm (GMap (announced s)) = GMap (announced s)" by (simp add: announced_def)
  have "handleInitialize s (Some (jnorm (init_params c))) =
      GMap ([(''protocolVersion'', GStr ProtocolVersion), (''capabilities'', GMap (announced s)),
        (''serverInfo'', GMap [(''name'', GStr (sv_name s)), (''version'', GStr (sv_version s))])]
        @ (if sv_instructions s \<noteq> [] then [(''instructions'', GStr (sv_instructions s))] else []))"
    unfolding handleInitialize_def protocol_read announced_def Let_def
    by (simp add: ProtocolVersion_def)
  then show ?thesis
    using caps by (cases "sv_instructions s = []")
      (simp_all add: unmarshal_def decode_value_def step_init_def step_server_info_def fold_eq fold_keys init_keys put_str_def empty_init_def)
qed

text \<open>
  C13: \<open>Connect\<close> over the in-process transport. A client that it returns knows the name
  and the version of the server, the protocol version it asked for, and the capabilities the server
  announces for its components; it has made one call, the handshake, and told the server last that it
  is initialized.
\<close>

theorem connect_handshake:
  assumes "client_options (mt_clientOpts t)" and "idt None = []" "\<forall>n. idt (Some (GFloat (of_nat n))) = id_text n"
    and "mem_Connect js m idt why t v w (Inr b)"
  shows "cl_serverInfo (st_client (br_client b)) = \<lparr>si_name = sv_name (mt_server t), si_version = sv_version (mt_server t)\<rparr>
    \<and> cl_protocolVersion (st_client (br_client b)) = ProtocolVersion
    \<and> cl_serverCapabilities (st_client (br_client b)) = Some (GMap (announced (mt_server t)))
    \<and> filter is_call (st_out (br_client b)) = [call_message 1 ''initialize'' (Some (init_params (newClient (mt_clientOpts t))))]
    \<and> last (st_out (br_client b)) = empty_message\<lparr>cm_method := ''notifications/initialized''\<rparr>"
  using assms(4)
proof (cases rule: mem_Connect.cases)
  case (connect_ok p b1 key r res)
  let ?ps = "Some (init_params (newClient (mt_clientOpts t)))" and ?srv = "mt_server t"
  let ?start = "call_from ''initialize'' ?ps (mem_Client t [] v w)" and ?q = "call_message 1 ''initialize'' (Some (init_params (newClient (mt_clientOpts t))))"
  have run: "bridge_run js m ?srv idt (mem_Client t [] v w) b1" by (rule bridge_from_call [OF _ connect_ok(2)]) simp
  from connect_ok(4) obtain a where a: "r = Got a" by (cases r) (simp_all add: handshake_end_def)
  with connect_ok(3) have "(key, Got a) \<in> set (st_results (br_client b1))" by simp
  from call_answered [OF _ assms(2,3) run this] assms(1) obtain n meth params subs u x conn u' where d:
    "filter (\<lambda>q. is_call q \<and> cm_id q = Some (GInt (int n))) (st_out (br_client b1)) = [call_message n meth params]"
    "Dispatch m ?srv \<lparr>rq_id = Some (GFloat (of_nat n)), rq_method = meth, rq_params = map_option jnorm params\<rparr> (Some subs) u = (Some x, conn, u')"
    "a = answer_of js x" by auto
  have k: "cl_idCtr (newClient (mt_clientOpts t)) = 0" by (rule client_options [OF assms(1)])
  have "calls_only ?q (br_client ?start)"
    by (simp add: calls_only_def call_from_def mem_Client_def NewStdio_def st_start_def nextID_def k call_message_def)
  note only = calls_only_open [OF connect_ok(2) this]
  have "call_message n meth params \<in> set (filter (\<lambda>q. is_call q \<and> cm_id q = Some (GInt (int n))) (st_out (br_client b1)))"
    unfolding d(1) by simp
  then have mem: "call_message n meth params \<in> set (st_out (br_client b1))" "is_call (call_message n meth params)"
    by (simp_all only: set_filter mem_Collect_eq)
  with only have q: "call_message n meth params = ?q" by (simp only: calls_only_def)
  then have f: "n = 1" "meth = ''initialize''" "params = ?ps" by (auto simp: call_message_def empty_message_def)
  have one: "filter is_call (st_out (br_client b1)) = [?q]"
  proof -
    have "filter is_call (st_out (br_client b1)) = filter (\<lambda>q. is_call q \<and> cm_id q = Some (GInt (int n))) (st_out (br_client b1))"
      by (rule filter_cong) (use only f in \<open>auto simp: calls_only_def\<close>)
    then show ?thesis using d(1) q by simp
  qed
  have "x = resultResponse (Some (GFloat 1)) (Some (handleInitialize ?srv (Some (jnorm (init_params (newClient (mt_clientOpts t)))))))"
    using d(2) by (simp add: f Dispatch_def route_def IsNotification_def)
  then have "cm_error a = None" "cm_result a = Some (jnorm (handleInitialize ?srv (Some (jnorm (init_params (newClient (mt_clientOpts t)))))))"
    by (simp_all add: d(3) answer_of_def resultResponse_def)
  with connect_ok(4) have "res = \<lparr>ir_protocolVersion = ProtocolVersion, ir_capabilities = Some (GMap (announced ?srv)),
           ir_serverInfo = \<lparr>si_name = sv_name ?srv, si_version = sv_version ?srv\<rparr>, ir_instructions = sv_instructions ?srv\<rparr>"
    by (simp add: a handshake_end_def init_read)
  with connect_ok(5) one show ?thesis
    by (simp add: st_notify_def with_init_def) (simp add: is_call_def empty_message_def)
qed

definition request_to :: "gval \<Rightarrow> outgoing \<Rightarrow> bool" where
  "request_to key x = (case x of OutRequest i _ _ \<Rightarrow> i = key | _ \<Rightarrow> False)"

lemma only_request:
  "distinct (requests_out outs) \<Longrightarrow> OutRequest key meth params \<in> set outs \<Longrightarrow>
     filter (request_to key) outs = [OutRequest key meth params]"
proof (induction outs)
  case (Cons x outs)
  have none: "filter (request_to key) outs = []" if "key \<notin> set (requests_out outs)"
    using that by (auto simp: filter_empty_conv request_to_def requests_out_def split: outgoing.splits)
  have mem: "key \<in> set (requests_out outs)" if "OutRequest key meth params \<in> set outs"
    using that by (force simp: requests_out_def)
  show ?case
  proof (cases "request_to key x")
    case True
    then obtain me pa where x: "x = OutRequest key me pa" by (auto simp: request_to_def split: outgoing.splits)
    with Cons.prems(1) have n: "key \<notin> set (requests_out outs)" by (simp add: requests_out_def)
    with mem Cons.prems(2) x have "x = OutRequest key meth params" by auto
    with none [OF n] True show ?thesis by simp
  next
    case False
    with Cons.prems have "OutRequest key meth params \<in> set outs" by (auto simp: request_to_def)
    moreover have "distinct (requests_out outs)" using Cons.prems(1) by (simp add: requests_out_def split: outgoing.splits)
    ultimately show ?thesis using Cons.IH False by simp
  qed
qed simp

text \<open>The reply of a client as the server's handler gets it.\<close>

definition reply_of :: "wire_error + gval \<Rightarrow> pending_response" where
  "reply_of r = (case r of
       Inl e \<Rightarrow> \<lparr>pr_result = None, pr_err = Some (e\<lparr>we_data := jnorm (we_data e)\<rparr>)\<rparr>
     | Inr v \<Rightarrow> \<lparr>pr_result = Some (jnorm v), pr_err = None\<rparr>)"

text \<open>
  C38: A request of the server over the in-process transport (sampling, roots) is
  answered by the client's handlers. An answer a server handler got is what the handlers the
  client was made with returned for the one request written with its identifier, its method and
  its parameters as they decode.
\<close>

theorem in_memory_requests:
  assumes "idt None = []" and "bridge_run js m (mt_server t) idt (mem_Client t opts v w) b"
    and "(key, Answered p) \<in> set (ss_done (br_server b))"
  shows "\<exists>meth params u r u'. filter (request_to key) (ss_out (br_server b)) = [OutRequest key meth params]
     \<and> handleServerRequest js (newClient (mt_clientOpts t @ opts)) meth (map_option jnorm params) u = (r, u')
     \<and> p = reply_of r"
proof -
  let ?c = "br_client b" and ?s = "br_server b" and ?o = "mt_clientOpts t @ opts"
  have inv: "bridge_inv js m (mt_server t) idt ?o v w b"
    by (rule bridge_run_inv [OF assms(2,1) bridge_inv_start])
  then obtain ks where ks: "sess_run m (mt_server t) (newSession True w) ks ?s"
    "\<forall>line. LLine line \<in> set ks \<longrightarrow> (\<exists>q\<in>set (st_out ?c). line = up_line q)"
    unfolding bridge_inv_def by blast
  have rv: "reply_inv js (newClient ?o) (set (ss_out ?s)) ?c" using inv by (simp add: bridge_inv_def)
  have si: "sess_inv ks ?s" by (rule inv_run [OF ks(1) refl])
  then have ids: "requests_out (ss_out ?s) = issued (ss_idCtr ?s)" by (simp add: sess_inv_def)
  from si assms(3) obtain l where "l \<in> set ks" "answer_line l key p" unfolding sess_inv_def by blast
  then obtain line y where y: "LLine line \<in> set ks" "line_inbound line = Some y" "in_method y = []" "in_id y = Some key"
    "p = \<lparr>pr_result = in_result y, pr_err = in_error y\<rparr>" by (auto simp: answer_line_def)
  with ks(2) obtain q where q: "q \<in> set (st_out ?c)" "line = up_line q" by blast
  note y' = y(2) [unfolded q(2) up_line_read]
  have a: "cm_method q = []" "rq_id (as_request q) = Some key" "p = as_answer q" using y(3,4,5) y' by auto
  with rv q(1) have "handled js (newClient ?o) (set (ss_out ?s)) q" by (simp add: reply_inv_def)
  then obtain i meth params u r u' where h: "OutRequest i meth params \<in> set (ss_out ?s)"
    "handleServerRequest js (newClient ?o) meth (map_option jnorm params) u = (r, u')"
    "q = client_reply (as_message js (OutRequest i meth params)) r"
    unfolding handled_def by blast
  have "i \<in> set (requests_out (ss_out ?s))" using h(1) by (force simp: requests_out_def)
  then have "jnorm i = i" by (auto simp: ids issued_def srv_id_def)
  then have "i = key" using a(2) by (cases r) (simp_all add: h(3) client_reply_def as_request_def as_message_def empty_message_def)
  moreover have "p = reply_of r"
    by (cases r) (simp_all add: a(3) h(3) client_reply_def as_answer_def reply_of_def as_message_def empty_message_def)
  moreover have "distinct (requests_out (ss_out ?s))" unfolding ids by (rule issued_distinct)
  ultimately show ?thesis using only_request [of "ss_out ?s" i meth params] h(1,2) by blast
qed

section \<open>Two connections\<close>

definition demo_idt :: "gval option \<Rightarrow> string" where
  "demo_idt i = (case i of Some (GFloat q) \<Rightarrow> id_text (nat \<lfloor>q\<rfloor>) | Some (GStr s) \<Rightarrow> CHR 0x22 # s @ [CHR 0x22] | _ \<Rightarrow> [])"

definition mem_json :: json_lib where
  "mem_json = \<lparr>js_enc = (\<lambda>_. Inr ''x''), js_dec = (\<lambda>_. None), js_text = [], js_quote = (\<lambda>s. s)\<rparr>"

lemma demo_idt: "demo_idt None = []" "\<forall>n. demo_idt (Some (GFloat (of_nat n))) = id_text n"
  by (simp_all add: demo_idt_def)

definition demo_mem :: "(unit, nat, unit) mem_transport" where
  "demo_mem = InMemory () (New ''s'' []) [WithClientOptions [WithRoots (Some [\<lparr>rt_uri = ''file:///'', rt_name = []\<rparr>])]]"

lemma demo_mem_server: "mt_server demo_mem = New ''s'' []"
  by (simp add: demo_mem_def InMemory_def)

text \<open>One call of the demonstration connection, from its start to its end.\<close>

lemma demo_call_run:
  assumes meth: "meth \<noteq> []"
    and disp: "Dispatch demo_marshal (mt_server demo_mem) \<lparr>rq_id = Some (GFloat 1), rq_method = meth, rq_params = map_option jnorm params\<rparr>
      (Some {}) () = (Some R, Some {}, ())"
    and id: "rs_id R = Some (GFloat 1)"
  shows "\<exists>b. open_run mem_json demo_marshal (mt_server demo_mem) demo_idt (call_from meth params (mem_Client demo_mem [] (0::nat) ())) b
     \<and> st_results (br_client b) = [(''1'', Got (answer_of mem_json R))]"
proof -
  let ?a = "answer_of mem_json R"
  let ?step = "open_step mem_json demo_marshal (mt_server demo_mem) demo_idt"
  define b0 where "b0 = (mem_Client demo_mem [] 0 () :: (nat, unit) bridge)"
  define b1 where "b1 = call_from meth params b0"
  have k: "cl_idCtr (st_client (br_client b0)) = 0"
    by (simp add: b0_def mem_Client_def demo_mem_def InMemory_def newSettings_def WithClientOptions_def NewStdio_def newClient_def WithRoots_def)
  have c1: "st_writing (br_client b1) ''1'' = Some (call_message 1 meth params)" "st_out (br_client b1) = []"
    "st_hand (br_client b1) = None" "\<not> st_eof (br_client b1)" "''1'' \<in> st_pending (br_client b1)"
    "st_chans (br_client b1) ''1'' = Some ChEmpty" "br_server b1 = newSession True ()" "br_up b1 = 0" "br_down b1 = 0"
    "st_results (br_client b1) = []"
    using k by (simp_all add: b1_def call_from_def st_start_def nextID_def id_text_1 call_message_def)
      (simp_all add: b0_def mem_Client_def NewStdio_def)
  define b2 where "b2 = b1\<lparr>br_client := the (st_write ''1'' True (br_client b1))\<rparr>"
  have c2: "st_out (br_client b2) = [call_message 1 meth params]" "st_waiting (br_client b2) = insert ''1'' (st_waiting (br_client b1))"
    "st_hand (br_client b2) = None" "\<not> st_eof (br_client b2)" "''1'' \<in> st_pending (br_client b2)"
    "st_chans (br_client b2) ''1'' = Some ChEmpty" "br_server b2 = newSession True ()" "br_up b2 = 0" "br_down b2 = 0"
    "st_results (br_client b2) = []"
    using c1 by (simp_all add: b2_def st_write_def)
  have s2: "?step b1 b2" unfolding b2_def
    by (rule open_client [OF c_write [where key = "''1''" and success = True]]) (simp_all add: st_write_def c1 internal_def)
  define q where "q = call_message 1 meth params"
  have up: "st_out (br_client b2) = [q]" by (simp add: c2 q_def)
  have rq: "as_request q = \<lparr>rq_id = Some (GFloat 1), rq_method = meth, rq_params = map_option jnorm params\<rparr>" by (simp add: as_request_def q_def)
  define b3 where "b3 = b2\<lparr>br_server := handle (up_line q) (newSession True ()), br_up := 1\<rparr>"
  have "cm_method q \<noteq> []" by (simp add: q_def meth)
  then have "handle (up_line q) (newSession True ()) = (newSession True ())\<lparr>ss_jobs := ss_jobs (newSession True ()) @ [as_request q]\<rparr>"
    using up_line_read [of q] unfolding handle_def line_inbound_def by (simp add: as_request_def)
  then have b3s: "br_server b3 = (newSession True ())\<lparr>ss_jobs := [as_request q]\<rparr>" by (simp add: b3_def) (simp add: newSession_def)
  have s3: "?step b2 b3"
    using b_up [where b = b2 and s = "handle (up_line q) (newSession True ())"]
    by (intro open_server) (simp_all add: b3_def c2(7,8) up read_line newSession_def)
  define b4 where "b4 = b3\<lparr>br_server := (newSession True ())\<lparr>ss_subs := {}, ss_out := [OutResponse R]\<rparr>\<rparr>"
  have j: "run_job demo_marshal (mt_server demo_mem) 0 (br_server b3) = Some (br_server b4)"
    unfolding b3s using disp by (simp add: run_job_def b4_def rq newSession_def ss_write_def)
  have s4: "?step b3 b4"
    using b_server [OF finish_job [OF j], where js = mem_json and idt = demo_idt]
    by (intro open_server) (simp_all add: b4_def server_local_def)
  have c4: "br_client b4 = br_client b2" "ss_out (br_server b4) = [OutResponse R]" "br_down b4 = 0"
    by (simp_all add: b4_def b3_def c2)
  have key: "demo_idt (outgoing_id (OutResponse R)) = ''1''"
    using id by (simp add: outgoing_id_def demo_idt_def id_text_1)
  define b5 where "b5 = b4\<lparr>br_client := st_line (down_line mem_json (OutResponse R)) ''1'' (br_client b4), br_down := 1\<rparr>"
  have s5: "?step b4 b5"
    using open_down [of b4 mem_json demo_idt "st_line (down_line mem_json (OutResponse R)) ''1'' (br_client b4)"]
    by (simp add: b5_def c4 key c_line c2)
  have c5: "br_client b5 = (br_client b2)\<lparr>st_pending := st_pending (br_client b2) - {''1''}, st_hand := Some (''1'', ?a)\<rparr>"
    by (simp add: b5_def c4 st_line_def down_line_read as_message_def c2) (simp add: answer_of_def empty_message_def)
  define b6 where "b6 = b5\<lparr>br_client := (br_client b5)\<lparr>st_hand := None, st_chans := (st_chans (br_client b5))(''1'' \<mapsto> ChFull ?a)\<rparr>\<rparr>"
  have "st_send (br_client b5) = Some (br_client b6)" by (simp add: st_send_def b6_def c5 c2)
  then have s6: "?step b5 b6"
    using open_client [OF c_send, where js = mem_json and b = b5] by (simp add: b6_def internal_def)
  define b7 where "b7 = b6\<lparr>br_client := st_finish ''1'' (Got ?a)
      ((br_client b6)\<lparr>st_chans := (st_chans (br_client b6))(''1'' \<mapsto> ChEmpty)\<rparr>)\<rparr>"
  have "st_select ''1'' SelChan (br_client b6) = Some (br_client b7)"
    by (simp add: st_select_def b7_def b6_def c5 c2)
  then have s7: "?step b6 b7"
    using open_client [OF c_select, where js = mem_json and b = b6] by (simp add: b7_def internal_def)
  have "open_run mem_json demo_marshal (mt_server demo_mem) demo_idt b1 b7"
    by (intro open_more [OF _ s7] open_more [OF _ s6] open_more [OF _ s5] open_more [OF _ s4] open_more [OF _ s3]
        open_more [OF _ s2] open_none)
  moreover have "st_results (br_client b7) = [(''1'', Got ?a)]" by (simp add: b7_def st_finish_def b6_def c5 c2)
  ultimately show ?thesis unfolding b0_def b1_def by blast
qed

lemma ping_dispatched:
  "Dispatch demo_marshal (New ''s'' []) \<lparr>rq_id = Some (GFloat 1), rq_method = ''ping'', rq_params = None\<rparr> (Some {}) () =
     (Some (resultResponse (Some (GFloat 1)) (Some (GMap []))), Some {}, ())"
  by (simp add: Dispatch_def route_def IsNotification_def ok_def)

lemma demo_ping_run:
  "\<exists>b. bridge_run mem_json demo_marshal (mt_server demo_mem) demo_idt (mem_Client demo_mem [] (0::nat) ()) b
     \<and> (''1'', Got (answer_of mem_json (resultResponse (Some (GFloat 1)) (Some (GMap []))))) \<in> set (st_results (br_client b))"
proof -
  obtain b where "open_run mem_json demo_marshal (mt_server demo_mem) demo_idt (call_from ''ping'' None (mem_Client demo_mem [] (0::nat) ())) b"
    "st_results (br_client b) = [(''1'', Got (answer_of mem_json (resultResponse (Some (GFloat 1)) (Some (GMap [])))))]"
    using demo_call_run [of "''ping''" None] ping_dispatched by (auto simp: demo_mem_server resultResponse_def)
  with bridge_from_call [of "''ping''"] show ?thesis by (intro exI [of _ b]) simp
qed

lemma demo_options: "client_options (mt_clientOpts demo_mem @ [])"
  by (simp add: client_options_def demo_mem_def InMemory_def newSettings_def WithClientOptions_def WithRoots_def)

text \<open>A ping.\<close>

lemma in_memory_calls_witness:
  "\<exists>b n meth params subs u r conn u'. bridge_run mem_json demo_marshal (mt_server demo_mem) demo_idt (mem_Client demo_mem [] 0 ()) b
     \<and> ''1'' = id_text n
     \<and> filter (\<lambda>q. is_call q \<and> cm_id q = Some (GInt (int n))) (st_out (br_client b)) = [call_message n meth params]
     \<and> Dispatch demo_marshal (mt_server demo_mem)
         \<lparr>rq_id = Some (GFloat (of_nat n)), rq_method = meth, rq_params = map_option jnorm params\<rparr> (Some subs) u = (Some r, conn, u')
     \<and> answer_of mem_json (resultResponse (Some (GFloat 1)) (Some (GMap []))) = answer_of mem_json r"
proof -
  obtain b where b: "bridge_run mem_json demo_marshal (mt_server demo_mem) demo_idt (mem_Client demo_mem [] 0 ()) b"
    "(''1'', Got (answer_of mem_json (resultResponse (Some (GFloat 1)) (Some (GMap []))))) \<in> set (st_results (br_client b))"
    using demo_ping_run by blast
  from in_memory_calls [OF demo_options demo_idt b] b(1) show ?thesis by blast
qed

text \<open>The roots the client was made with.\<close>

lemma demo_roots_run:
  "\<exists>b. bridge_run mem_json demo_marshal (mt_server demo_mem) demo_idt (mem_Client demo_mem [] 0 ()) b
     \<and> (srv_id 1, Answered (reply_of (Inr (GMap [(''roots'', GList [GMap [(''uri'', GStr ''file:///'')]])])))) \<in> set (ss_done (br_server b))"
proof -
  let ?V = "GMap [(''roots'', GList [GMap [(''uri'', GStr ''file:///'')]])]"
  let ?step = "bridge_step mem_json demo_marshal (mt_server demo_mem) demo_idt"
  define x where "x = OutRequest (srv_id 1) ''roots/list'' None"
  define b0 where "b0 = (mem_Client demo_mem [] 0 () :: (nat, unit) bridge)"
  define b1 where "b1 = b0\<lparr>br_server := (newSession True ())\<lparr>ss_idCtr := 1, ss_pending := [srv_id 1 \<mapsto> None], ss_out := [x]\<rparr>\<rparr>"
  have sv: "br_server b0 = newSession True ()" by (simp add: b0_def mem_Client_def)
  have s1: "?step b0 b1"
  proof -
    have "start_request ''roots/list'' None (br_server b0) = Some (br_server b1)"
      unfolding sv demo_call by (simp add: b1_def x_def)
    from b_server [OF start_call [OF this], where js = mem_json and idt = demo_idt] show ?thesis
      by (simp add: b1_def server_local_def)
  qed
  have c1: "st_jobs (br_client b1) = []" "st_out (br_client b1) = []" "st_hand (br_client b1) = None" "\<not> st_eof (br_client b1)"
    "br_down b1 = 0" "br_up b1 = 0" "ss_out (br_server b1) = [x]"
    "cl_rootsHandler (st_client (br_client b1)) = None" "cl_roots (st_client (br_client b1)) = Some [\<lparr>rt_uri = ''file:///'', rt_name = []\<rparr>]"
    by (simp_all add: b1_def b0_def mem_Client_def NewStdio_def demo_mem_def InMemory_def newSettings_def WithClientOptions_def
        newClient_def WithRoots_def)
  have key: "demo_idt (outgoing_id x) \<noteq> []" by (simp add: outgoing_id_def x_def demo_idt_def srv_id_def)
  define q where "q = as_message mem_json x"
  have qs: "cm_method q = ''roots/list''" "cm_params q = None" "cm_id q = Some (srv_id 1)"
    by (simp_all add: q_def as_message_def x_def srv_id_def empty_message_def)
  define b2 where "b2 = b1\<lparr>br_client := st_line (down_line mem_json x) (demo_idt (outgoing_id x)) (br_client b1), br_down := 1\<rparr>"
  have s2: "?step b1 b2"
    using b_down [where b = b1 and js = mem_json and idt = demo_idt and c = "st_line (down_line mem_json x) (demo_idt (outgoing_id x)) (br_client b1)"]
    by (simp add: b2_def c1 c_line)
  have c2: "br_client b2 = (br_client b1)\<lparr>st_jobs := [q]\<rparr>"
    using key by (simp add: b2_def st_line_def down_line_read q_def [symmetric] qs c1)
  define a where "a = client_reply q (Inr ?V)"
  have h: "handleServerRequest mem_json (st_client (br_client b2)) ''roots/list'' None u = (Inr ?V, u)" for u
    by (simp add: handleServerRequest_def c2 c1 marshal_result_def mem_json_def root_json_def opt_str_def)
  define b3 where "b3 = b2\<lparr>br_client := the (serveRequest mem_json 0 (br_client b2))\<rparr>"
  have sr: "serveRequest mem_json 0 (br_client b2) = Some ((br_client b2)\<lparr>st_jobs := [], st_out := [a]\<rparr>)"
    using h [of "st_world (br_client b2)"] unfolding serveRequest_def
    by (simp add: c2 c1 qs a_def remove_nth_def)
  have s3: "?step b2 b3"
    unfolding b3_def sr by (rule b_client [OF c_serve]) (use sr in \<open>simp_all add: client_local_def\<close>)
  have c3: "st_out (br_client b3) = [a]" "br_up b3 = 0" "br_server b3 = br_server b1"
    by (simp_all add: b3_def sr) (simp_all add: b2_def c1)
  have as: "cm_method a = []" "rq_id (as_request a) = Some (srv_id 1)" "as_answer a = reply_of (Inr ?V)"
    by (simp_all add: a_def client_reply_def as_request_def as_answer_def reply_of_def qs empty_message_def srv_id_def)
  define b4 where "b4 = b3\<lparr>br_server := handle (up_line a) (br_server b3), br_up := 1\<rparr>"
  have s4: "?step b3 b4"
    using b_up [where b = b3 and s = "handle (up_line a) (br_server b3)"]
    by (simp add: b4_def c3(1,2) read_line) (simp add: c3 b1_def read_line newSession_def)
  have hd: "handle (up_line a) (br_server b3) = (br_server b3)\<lparr>ss_pending := [srv_id 1 \<mapsto> Some (reply_of (Inr ?V))]\<rparr>"
    using up_line_read [of a] as unfolding handle_def line_inbound_def
    by (simp add: deliver_def c3 b1_def as_answer_def)
  have f1: "ss_blocked (br_server b1) = None" "ss_done (br_server b1) = []" by (simp_all add: b1_def newSession_def)
  have b4s: "br_server b4 = (br_server b1)\<lparr>ss_pending := [srv_id 1 \<mapsto> Some (reply_of (Inr ?V))]\<rparr>"
    using hd unfolding c3(3) by (simp add: b4_def c3(3))
  define b5 where "b5 = b4\<lparr>br_server := (br_server b4)\<lparr>ss_pending := Map.empty, ss_done := [(srv_id 1, Answered (reply_of (Inr ?V)))]\<rparr>\<rparr>"
  have "take_answer (srv_id 1) (br_server b4) = Some (br_server b5)"
    by (simp add: take_answer_def b5_def b4s f1)
  then have s5: "?step b4 b5"
    using b_server [OF take_resp, where js = mem_json and b = b4] by (simp add: b5_def server_local_def)
  have "bridge_run mem_json demo_marshal (mt_server demo_mem) demo_idt b0 b5"
    by (intro bridge_more [OF _ s5] bridge_more [OF _ s4] bridge_more [OF _ s3] bridge_more [OF _ s2] bridge_more [OF _ s1] bridge_none)
  moreover have "(srv_id 1, Answered (reply_of (Inr ?V))) \<in> set (ss_done (br_server b5))" by (simp add: b5_def)
  ultimately show ?thesis unfolding b0_def by blast
qed

lemma in_memory_requests_witness:
  "\<exists>b meth params u r u'. bridge_run mem_json demo_marshal (mt_server demo_mem) demo_idt (mem_Client demo_mem [] 0 ()) b
     \<and> filter (request_to (srv_id 1)) (ss_out (br_server b)) = [OutRequest (srv_id 1) meth params]
     \<and> handleServerRequest mem_json (newClient (mt_clientOpts demo_mem @ [])) meth (map_option jnorm params) u = (r, u')
     \<and> reply_of (Inr (GMap [(''roots'', GList [GMap [(''uri'', GStr ''file:///'')]])])) = reply_of r"
proof -
  obtain b where b: "bridge_run mem_json demo_marshal (mt_server demo_mem) demo_idt (mem_Client demo_mem [] 0 ()) b"
    "(srv_id 1, Answered (reply_of (Inr (GMap [(''roots'', GList [GMap [(''uri'', GStr ''file:///'')]])])))) \<in> set (ss_done (br_server b))"
    using demo_roots_run by blast
  from in_memory_requests [OF demo_idt(1) b] b(1) show ?thesis by blast
qed

text \<open>A handshake.\<close>

lemma connect_handshake_witness:
  "\<exists>b. mem_Connect mem_json demo_marshal demo_idt (\<lambda>_. []) demo_mem (0::nat) () (Inr b)
     \<and> cl_serverInfo (st_client (br_client b)) = \<lparr>si_name = ''s'', si_version = sv_version (mt_server demo_mem)\<rparr>
     \<and> last (st_out (br_client b)) = empty_message\<lparr>cm_method := ''notifications/initialized''\<rparr>"
proof -
  let ?ps = "init_params (newClient (mt_clientOpts demo_mem))"
  let ?R = "resultResponse (Some (GFloat 1)) (Some (handleInitialize (mt_server demo_mem) (Some (jnorm ?ps))))"
  have "Dispatch demo_marshal (mt_server demo_mem) \<lparr>rq_id = Some (GFloat 1), rq_method = ''initialize'', rq_params = Some (jnorm ?ps)\<rparr> (Some {}) () =
      (Some ?R, Some {}, ())"
    by (simp add: Dispatch_def route_def IsNotification_def)
  then obtain b where b: "open_run mem_json demo_marshal (mt_server demo_mem) demo_idt
      (call_from ''initialize'' (Some ?ps) (mem_Client demo_mem [] (0::nat) ())) b"
    "st_results (br_client b) = [(''1'', Got (answer_of mem_json ?R))]"
    using demo_call_run [of "''initialize''" "Some ?ps" ?R] by (auto simp: resultResponse_def)
  have "handshake_end mem_json (\<lambda>_. []) (Got (answer_of mem_json ?R)) =
      Inr \<lparr>ir_protocolVersion = ProtocolVersion, ir_capabilities = Some (GMap (announced (mt_server demo_mem))),
           ir_serverInfo = \<lparr>si_name = sv_name (mt_server demo_mem), si_version = sv_version (mt_server demo_mem)\<rparr>,
           ir_instructions = sv_instructions (mt_server demo_mem)\<rparr>"
    by (simp add: handshake_end_def answer_of_def resultResponse_def empty_message_def init_read)
  then have c: "mem_Connect mem_json demo_marshal demo_idt (\<lambda>_. []) demo_mem (0::nat) () (Inr (b\<lparr>br_client :=
      st_notify ''notifications/initialized'' None ((br_client b)\<lparr>st_client := with_init
        \<lparr>ir_protocolVersion = ProtocolVersion, ir_capabilities = Some (GMap (announced (mt_server demo_mem))),
           ir_serverInfo = \<lparr>si_name = sv_name (mt_server demo_mem), si_version = sv_version (mt_server demo_mem)\<rparr>,
           ir_instructions = sv_instructions (mt_server demo_mem)\<rparr> (st_client (br_client b))\<rparr>)\<rparr>))" (is "mem_Connect _ _ _ _ _ _ _ (Inr ?b)")
    by (intro connect_ok [OF _ b(1) b(2) _ refl]) (simp_all add: mem_json_def)
  have "client_options (mt_clientOpts demo_mem)" using demo_options by simp
  from connect_handshake [OF this demo_idt c] c show ?thesis
    by (intro exI [of _ ?b]) (simp add: demo_mem_server New_def)
qed

end
