(* ===== verification/Contrib.thy ===== *)
theory Contrib
  imports Prelude GoStd Json Content Schema Registry Dispatch Mount JsonSchema Client Proxy
begin

text \<open>
  The helpers of \<open>src/contrib/\<close>: bulk calls over a client, one after the other or with a bounded
  fan-out (\<open>bulk.go\<close>), the meta-tools that offer them (\<open>caller.go\<close>), retries and timing
  (\<open>helpers.go\<close>) and groups of tools (\<open>mixin.go\<close>). The clock, the context and sleeping are read
  off the world (\<open>run_env\<close>). A joined error is the list of its parts. Durations are unbounded
  integers and the arithmetic on them is exact. The parallel fan-out is a step relation in which a
  call of the client is one step.
\<close>

section \<open>Results\<close>

datatype bulk_error = Skipped | CallFailed client_error | ToolFailed string string | CtxFailed string | Plain_error string

record bulk_call =
  bc_tool :: string
  bc_arguments :: "(string \<times> gval) list option"

record tool_outcome =
  tl_tool :: string
  tl_arguments :: "(string \<times> gval) list option"
  tl_isError :: bool
  tl_content :: "content list"
  tl_structured :: "gval option"
  tl_err :: "bulk_error option"
  tl_duration :: int

definition bulk_error_text :: "json_lib \<Rightarrow> bulk_error \<Rightarrow> string" where
  "bulk_error_text js e =
     (case e of
        Skipped \<Rightarrow> ''fastmcp/contrib: call skipped after prior failure''
      | CallFailed ce \<Rightarrow> cerr_text ce
      | ToolFailed tool txt \<Rightarrow> ''tool '' @ js_quote js tool @ '' reported an error: '' @ txt
      | CtxFailed s \<Rightarrow> s
      | Plain_error s \<Rightarrow> s)"

definition Failed :: "tool_outcome \<Rightarrow> bool" where
  "Failed r \<longleftrightarrow> tl_isError r \<or> tl_err r \<noteq> None"

definition result_Text :: "tool_outcome \<Rightarrow> string" where
  "result_Text r = fold (\<lambda>c out. if ct_type c \<noteq> ''text'' then out
      else (if out \<noteq> [] then out @ [CHR 0x0A] else out) @ ct_text c) (tl_content r) []"

definition failure :: "tool_outcome \<Rightarrow> bulk_error option" where
  "failure r =
     (case tl_err r of
        Some e \<Rightarrow> Some e
      | None \<Rightarrow> if tl_isError r then Some (ToolFailed (tl_tool r) (result_Text r)) else None)"

text \<open>The JSON form; empty arguments, contents and raw messages are left out.\<close>

definition result_json :: "json_lib \<Rightarrow> tool_outcome \<Rightarrow> gval" where
  "result_json js r = GMap
     ([(''tool'', GStr (tl_tool r))]
      @ (case tl_arguments r of None \<Rightarrow> [] | Some m \<Rightarrow> if m = [] then [] else [(''arguments'', GMap m)])
      @ [(''is_error'', GBool (tl_isError r))]
      @ (if tl_content r = [] then [] else [(''content'', contents_json (tl_content r))])
      @ opt_raw ''structured_content'' (tl_structured r)
      @ [(''duration_ns'', GInt (tl_duration r))]
      @ opt_str ''error'' (case tl_err r of None \<Rightarrow> [] | Some e \<Rightarrow> bulk_error_text js e))"

definition put_map :: "gval \<Rightarrow> (string \<times> gval) list option option" where
  "put_map v = (case v of GMap m \<Rightarrow> Some (Some m) | GNil \<Rightarrow> Some None | _ \<Rightarrow> None)"

text \<open>The target with the text of \<open>error\<close> beside it.\<close>

definition step_result :: "string \<Rightarrow> gval \<Rightarrow> tool_outcome \<times> string \<Rightarrow> (tool_outcome \<times> string) option" where
  "step_result k v st =
     (case st of (r, e) \<Rightarrow>
        if equal_fold k ''tool'' then map_option (\<lambda>s. (r\<lparr>tl_tool := s\<rparr>, e)) (put_str v (tl_tool r))
        else if equal_fold k ''arguments'' then map_option (\<lambda>m. (r\<lparr>tl_arguments := m\<rparr>, e)) (put_map v)
        else if equal_fold k ''is_error'' then map_option (\<lambda>b. (r\<lparr>tl_isError := b\<rparr>, e)) (put_bool v (tl_isError r))
        else if equal_fold k ''content''
        then map_option (\<lambda>cs. (r\<lparr>tl_content := cs\<rparr>, e)) (put_list step_content (empty_content []) v)
        else if equal_fold k ''structured_content'' then Some (r\<lparr>tl_structured := Some v\<rparr>, e)
        else if equal_fold k ''duration_ns'' then map_option (\<lambda>i. (r\<lparr>tl_duration := i\<rparr>, e)) (put_int v (tl_duration r))
        else if equal_fold k ''error'' then map_option (\<lambda>s. (r, s)) (put_str v e)
        else Some (r, e))"

definition empty_outcome :: tool_outcome where
  "empty_outcome = \<lparr>tl_tool = [], tl_arguments = None, tl_isError = False, tl_content = [], tl_structured = None,
     tl_err = None, tl_duration = 0\<rparr>"

definition result_Unmarshal :: "gval \<Rightarrow> tool_outcome \<Rightarrow> tool_outcome option" where
  "result_Unmarshal v r =
     map_option (\<lambda>(r', e). if e = [] then r' else r'\<lparr>tl_err := Some (Plain_error e)\<rparr>) (decode_value step_result v (r, []))"

section \<open>Calls\<close>

record 'w run_env =
  re_now :: "'w \<Rightarrow> int \<times> 'w"
  re_ctx :: "'w \<Rightarrow> string option"
  re_sleep :: "int \<Rightarrow> 'w \<Rightarrow> string option \<times> 'w"

record bulk_options =
  bo_Parallel :: bool
  bo_MaxConcurrency :: int
  bo_ContinueOnError :: bool

definition DefaultBulkOptions :: bulk_options where
  "DefaultBulkOptions = \<lparr>bo_Parallel = False, bo_MaxConcurrency = 0, bo_ContinueOnError = True\<rparr>"

text \<open>The arguments are passed as an interface that is never nil: a nil map is sent as null.\<close>

definition call_args :: "(string \<times> gval) list option \<Rightarrow> gval option" where
  "call_args a = Some (case a of None \<Rightarrow> GNil | Some m \<Rightarrow> GMap m)"

definition invoke ::
  "json_lib \<Rightarrow> 'w transport \<Rightarrow> 'w run_env \<Rightarrow> bulk_call \<Rightarrow> 'w client \<Rightarrow> 'w \<Rightarrow> tool_outcome \<times> 'w client \<times> 'w" where
  "invoke js tr env call c w =
     (case re_now env w of (t0, w1) \<Rightarrow>
      case cl_CallTool js tr (bc_tool call) (call_args (bc_arguments call)) c w1 of ((res, c'), w2) \<Rightarrow>
      case re_now env w2 of (t1, w3) \<Rightarrow>
        let r = empty_outcome\<lparr>tl_tool := bc_tool call, tl_arguments := bc_arguments call, tl_duration := t1 - t0\<rparr>
        in (case res of
              Inl e \<Rightarrow> r\<lparr>tl_err := Some (CallFailed e)\<rparr>
            | Inr x \<Rightarrow> r\<lparr>tl_content := tc_content x, tl_structured := tc_structured x, tl_isError := tc_isError x\<rparr>, c', w3))"

fun callSequential ::
  "json_lib \<Rightarrow> 'w transport \<Rightarrow> 'w run_env \<Rightarrow> bool \<Rightarrow> bulk_call list \<Rightarrow> tool_outcome list \<times> bulk_error list \<Rightarrow> 'w client \<Rightarrow> 'w
     \<Rightarrow> (tool_outcome list \<times> bulk_error list) \<times> 'w client \<times> 'w" where
  "callSequential js tr env cont [] acc c w = (acc, c, w)"
| "callSequential js tr env cont (call # calls) (results, errs) c w =
     (case re_ctx env w of
        Some e \<Rightarrow> ((results, errs @ [CtxFailed e]), c, w)
      | None \<Rightarrow>
          (case invoke js tr env call c w of (r, c', w') \<Rightarrow>
             if Failed r \<and> \<not> cont then ((results @ [r], errs @ [the (failure r)]), c', w')
             else callSequential js tr env cont calls
                    (results @ [r], errs @ (if Failed r then [the (failure r)] else [])) c' w'))"

text \<open>The goroutines of \<open>callParallel\<close>: waiting for a slot, holding one, calling, and done but
  for the bookkeeping.\<close>

datatype call_status = Waiting | Holding | Calling | Called tool_outcome | Finished

record 'w fan_out =
  fo_status :: "call_status list"
  fo_results :: "tool_outcome option list"
  fo_errs :: "bulk_error list"
  fo_cancelled :: bool
  fo_client :: "'w client"
  fo_world :: 'w

definition fan_limit :: "bulk_options \<Rightarrow> bulk_call list \<Rightarrow> nat" where
  "fan_limit opts calls =
     (let l = bo_MaxConcurrency opts in if l \<le> 0 \<or> l > int (length calls) then length calls else nat l)"

definition has_slot :: "call_status \<Rightarrow> bool" where
  "has_slot s \<longleftrightarrow> (case s of Holding \<Rightarrow> True | Calling \<Rightarrow> True | Called _ \<Rightarrow> True | _ \<Rightarrow> False)"

definition in_flight :: "'w fan_out \<Rightarrow> nat" where
  "in_flight s = length (filter has_slot (fo_status s))"

definition fan_start :: "bulk_call list \<Rightarrow> 'w client \<Rightarrow> 'w \<Rightarrow> 'w fan_out" where
  "fan_start calls c w = \<lparr>fo_status = replicate (length calls) Waiting, fo_results = replicate (length calls) None,
     fo_errs = [], fo_cancelled = False, fo_client = c, fo_world = w\<rparr>"

text \<open>The context of the batch is done when it was cancelled or its parent is done.\<close>

definition aborting :: "'w run_env \<Rightarrow> 'w fan_out \<Rightarrow> bool" where
  "aborting env s \<longleftrightarrow> fo_cancelled s \<or> re_ctx env (fo_world s) \<noteq> None"

definition skipped :: "bulk_call \<Rightarrow> tool_outcome" where
  "skipped call = empty_outcome\<lparr>tl_tool := bc_tool call, tl_arguments := bc_arguments call, tl_err := Some Skipped\<rparr>"

definition set_status :: "nat \<Rightarrow> call_status \<Rightarrow> 'w fan_out \<Rightarrow> 'w fan_out" where
  "set_status i st s = s\<lparr>fo_status := (fo_status s)[i := st]\<rparr>"

definition skip_call :: "bulk_call list \<Rightarrow> nat \<Rightarrow> 'w fan_out \<Rightarrow> 'w fan_out" where
  "skip_call calls i s = set_status i Finished (s\<lparr>fo_results := (fo_results s)[i := Some (skipped (calls ! i))]\<rparr>)"

definition run_call :: "json_lib \<Rightarrow> 'w transport \<Rightarrow> 'w run_env \<Rightarrow> bulk_call list \<Rightarrow> nat \<Rightarrow> 'w fan_out \<Rightarrow> 'w fan_out" where
  "run_call js tr env calls i s =
     (case invoke js tr env (calls ! i) (fo_client s) (fo_world s) of (r, c, w) \<Rightarrow>
        set_status i (Called r) (s\<lparr>fo_results := (fo_results s)[i := Some r], fo_client := c, fo_world := w\<rparr>))"

definition end_call :: "bool \<Rightarrow> nat \<Rightarrow> tool_outcome \<Rightarrow> 'w fan_out \<Rightarrow> 'w fan_out" where
  "end_call cont i r s =
     set_status i Finished (if Failed r
       then s\<lparr>fo_errs := fo_errs s @ [the (failure r)], fo_cancelled := (fo_cancelled s \<or> \<not> cont)\<rparr> else s)"

text \<open>The world may move on by itself; only a context that is done stays done. Recording an error and
  cancelling the others are one step: a goroutine between the two sees what it would have seen before.\<close>

inductive fan_step ::
  "json_lib \<Rightarrow> 'w transport \<Rightarrow> 'w run_env \<Rightarrow> bulk_options \<Rightarrow> bulk_call list \<Rightarrow> 'w fan_out \<Rightarrow> 'w fan_out \<Rightarrow> bool"
  for js :: json_lib and tr :: "'w transport" and env :: "'w run_env" and opts :: bulk_options and calls :: "bulk_call list" where
  f_acquire: "i < length calls \<Longrightarrow> fo_status s ! i = Waiting \<Longrightarrow> in_flight s < fan_limit opts calls
    \<Longrightarrow> fan_step js tr env opts calls s (set_status i Holding s)"
| f_skip: "i < length calls \<Longrightarrow> fo_status s ! i = Waiting \<or> fo_status s ! i = Holding \<Longrightarrow> aborting env s
    \<Longrightarrow> fan_step js tr env opts calls s (skip_call calls i s)"
| f_check: "i < length calls \<Longrightarrow> fo_status s ! i = Holding \<Longrightarrow> \<not> aborting env s
    \<Longrightarrow> fan_step js tr env opts calls s (set_status i Calling s)"
| f_call: "i < length calls \<Longrightarrow> fo_status s ! i = Calling
    \<Longrightarrow> fan_step js tr env opts calls s (run_call js tr env calls i s)"
| f_end: "i < length calls \<Longrightarrow> fo_status s ! i = Called r
    \<Longrightarrow> fan_step js tr env opts calls s (end_call (bo_ContinueOnError opts) i r s)"
| f_world: "(re_ctx env (fo_world s) \<noteq> None \<longrightarrow> re_ctx env w \<noteq> None)
    \<Longrightarrow> fan_step js tr env opts calls s (s\<lparr>fo_world := w\<rparr>)"

inductive fan_run ::
  "json_lib \<Rightarrow> 'w transport \<Rightarrow> 'w run_env \<Rightarrow> bulk_options \<Rightarrow> bulk_call list \<Rightarrow> 'w fan_out \<Rightarrow> 'w fan_out \<Rightarrow> bool"
  for js :: json_lib and tr :: "'w transport" and env :: "'w run_env" and opts :: bulk_options and calls :: "bulk_call list" where
  fan_none: "fan_run js tr env opts calls s s"
| fan_more: "fan_run js tr env opts calls s s' \<Longrightarrow> fan_step js tr env opts calls s' s'' \<Longrightarrow> fan_run js tr env opts calls s s''"

text \<open>\<open>CallToolsBulk\<close>: what it may return, with the client and the world it leaves.\<close>

definition nil_client :: bulk_error where
  "nil_client = Plain_error ''fastmcp/contrib: nil client''"

definition fan_done :: "'w fan_out \<Rightarrow> bool" where
  "fan_done s \<longleftrightarrow> list_all (\<lambda>st. st = Finished) (fo_status s)"

inductive CallToolsBulk ::
  "json_lib \<Rightarrow> 'w transport \<Rightarrow> 'w run_env \<Rightarrow> bulk_call list \<Rightarrow> bulk_options \<Rightarrow> 'w client option \<Rightarrow> 'w
     \<Rightarrow> tool_outcome list \<times> bulk_error list \<Rightarrow> 'w client option \<times> 'w \<Rightarrow> bool"
  for js :: json_lib and tr :: "'w transport" and env :: "'w run_env" where
  bulk_nil: "CallToolsBulk js tr env calls opts None w ([], [nil_client]) (None, w)"
| bulk_empty: "CallToolsBulk js tr env [] opts (Some c) w ([], []) (Some c, w)"
| bulk_sequential: "calls \<noteq> [] \<Longrightarrow> \<not> bo_Parallel opts
    \<Longrightarrow> callSequential js tr env (bo_ContinueOnError opts) calls ([], []) c w = (out, c', w')
    \<Longrightarrow> CallToolsBulk js tr env calls opts (Some c) w out (Some c', w')"
| bulk_parallel: "calls \<noteq> [] \<Longrightarrow> bo_Parallel opts \<Longrightarrow> fan_run js tr env opts calls (fan_start calls c w) s \<Longrightarrow> fan_done s
    \<Longrightarrow> CallToolsBulk js tr env calls opts (Some c) w (map the (fo_results s), fo_errs s) (Some (fo_client s), fo_world s)"

definition bulk_calls_of :: "string \<Rightarrow> (string \<times> gval) list option list \<Rightarrow> bulk_call list" where
  "bulk_calls_of tool argSets = map (\<lambda>a. \<lparr>bc_tool = tool, bc_arguments = a\<rparr>) argSets"

definition CallToolBulk where
  "CallToolBulk js tr env tool argSets opts = CallToolsBulk js tr env (bulk_calls_of tool argSets) opts"

section \<open>Retries and timing\<close>

record retry_policy =
  rp_MaxAttempts :: int
  rp_BaseDelay :: int
  rp_MaxDelay :: int
  rp_Multiplier :: rat
  rp_RetryIf :: "(client_error \<Rightarrow> bool) option"

definition DefaultRetryPolicy :: retry_policy where
  "DefaultRetryPolicy = \<lparr>rp_MaxAttempts = 3, rp_BaseDelay = 50 * 10 ^ 6, rp_MaxDelay = 2 * 10 ^ 9, rp_Multiplier = 2, rp_RetryIf = None\<rparr>"

definition retry_sleep :: "'w run_env \<Rightarrow> int \<Rightarrow> 'w \<Rightarrow> string option \<times> 'w" where
  "retry_sleep env d w = (if d \<le> 0 then (re_ctx env w, w) else re_sleep env d w)"

definition next_delay :: "retry_policy \<Rightarrow> int \<Rightarrow> int" where
  "next_delay p d =
     (if d > 0
      then let d' = trunc (of_int d * (if rp_Multiplier p \<le> 0 then 2 else rp_Multiplier p))
           in if rp_MaxDelay p > 0 \<and> d' > rp_MaxDelay p then rp_MaxDelay p else d'
      else d)"

text \<open>The loop, on the attempts that are left.\<close>

fun retry_loop ::
  "json_lib \<Rightarrow> 'w transport \<Rightarrow> 'w run_env \<Rightarrow> string \<Rightarrow> gval option \<Rightarrow> retry_policy \<Rightarrow> nat \<Rightarrow> int \<Rightarrow> 'w client \<Rightarrow> 'w
     \<Rightarrow> (bulk_error + tool_call_result) \<times> 'w client \<times> 'w" where
  "retry_loop js tr env name args p 0 delay c w = (Inl nil_client, c, w)"
| "retry_loop js tr env name args p (Suc k) delay c w =
     (case cl_CallTool js tr name args c w of
        ((Inr res, c'), w') \<Rightarrow> (Inr res, c', w')
      | ((Inl e, c'), w') \<Rightarrow>
          if k = 0 then (Inl (CallFailed e), c', w')
          else if (case rp_RetryIf p of None \<Rightarrow> False | Some f \<Rightarrow> \<not> f e) then (Inl (CallFailed e), c', w')
          else (case retry_sleep env delay w' of
                  (Some ce, w'') \<Rightarrow> (Inl (CtxFailed ce), c', w'')
                | (None, w'') \<Rightarrow> retry_loop js tr env name args p k (next_delay p delay) c' w''))"

definition attempts :: "retry_policy \<Rightarrow> nat" where
  "attempts p = (if rp_MaxAttempts p < 1 then 1 else nat (rp_MaxAttempts p))"

definition Retry ::
  "json_lib \<Rightarrow> 'w transport \<Rightarrow> 'w run_env \<Rightarrow> string \<Rightarrow> gval option \<Rightarrow> retry_policy \<Rightarrow> 'w client option \<Rightarrow> 'w
     \<Rightarrow> (bulk_error + tool_call_result) \<times> 'w client option \<times> 'w" where
  "Retry js tr env name args p c w =
     (case c of
        None \<Rightarrow> (Inl nil_client, None, w)
      | Some cl \<Rightarrow> (case retry_loop js tr env name args p (attempts p) (rp_BaseDelay p) cl w of (r, cl', w') \<Rightarrow> (r, Some cl', w')))"

definition Timed ::
  "json_lib \<Rightarrow> 'w transport \<Rightarrow> 'w run_env \<Rightarrow> string \<Rightarrow> gval option \<Rightarrow> 'w client option \<Rightarrow> 'w
     \<Rightarrow> ((bulk_error + tool_call_result) \<times> int) \<times> 'w client option \<times> 'w" where
  "Timed js tr env name args c w =
     (case c of
        None \<Rightarrow> ((Inl nil_client, 0), None, w)
      | Some cl \<Rightarrow>
          (case re_now env w of (t0, w1) \<Rightarrow>
           case cl_CallTool js tr name args cl w1 of ((res, cl'), w2) \<Rightarrow>
           case re_now env w2 of (t1, w3) \<Rightarrow>
             (((case res of Inl e \<Rightarrow> Inl (CallFailed e) | Inr x \<Rightarrow> Inr x), t1 - t0), Some cl', w3)))"

section \<open>Groups of tools\<close>

record 'w mixin_tool =
  mx_name :: string
  mx_description :: string
  mx_handler :: go_handler
  mx_call :: "gval option \<Rightarrow> 'w \<Rightarrow> (tool_value \<times> string option) \<times> 'w"

record 'w mcp_mixin =
  mx_prefix :: string
  mx_tools :: "'w mixin_tool list"

definition NewMCPMixin :: "string \<Rightarrow> 'w mcp_mixin" where
  "NewMCPMixin pre = \<lparr>mx_prefix = pre, mx_tools = []\<rparr>"

definition mixin_Tool :: "'w mixin_tool \<Rightarrow> 'w mcp_mixin \<Rightarrow> 'w mcp_mixin" where
  "mixin_Tool t m = m\<lparr>mx_tools := mx_tools m @ [t]\<rparr>"

definition mixin_ToolName :: "'w mcp_mixin \<Rightarrow> string \<Rightarrow> string" where
  "mixin_ToolName m name = (if mx_prefix m = [] then name else mx_prefix m @ ''_'' @ name)"

text \<open>A handler that does not fit panics, the tools before it staying registered.\<close>

fun register_tools :: "'w mcp_mixin \<Rightarrow> 'w mixin_tool list \<Rightarrow> 'w server \<Rightarrow> 'w server \<times> build_error option" where
  "register_tools m [] srv = (srv, None)"
| "register_tools m (t # ts) srv =
     (case Tool (mixin_ToolName m (mx_name t)) (mx_description t) (mx_handler t) (mx_call t) srv of
        Inl e \<Rightarrow> (srv, Some e)
      | Inr srv' \<Rightarrow> register_tools m ts srv')"

definition mixin_Register :: "'w mcp_mixin \<Rightarrow> 'w server \<Rightarrow> 'w server \<times> build_error option" where
  "mixin_Register m srv = register_tools m (mx_tools m) srv"

section \<open>Facts about results\<close>

definition reread :: "json_lib \<Rightarrow> tool_outcome \<Rightarrow> tool_outcome" where
  "reread js r = r\<lparr>
     tl_arguments := (case tl_arguments r of None \<Rightarrow> None | Some m \<Rightarrow> if m = [] then None else Some (map (\<lambda>(k, v). (k, jnorm v)) m)),
     tl_structured := map_option jnorm (tl_structured r),
     tl_err := (case tl_err r of None \<Rightarrow> None
        | Some e \<Rightarrow> if bulk_error_text js e = [] then None else Some (Plain_error (bulk_error_text js e)))\<rparr>"

lemma bulk_keys:
  "to_lower ''tool'' = ''tool''" "to_lower ''is_error'' = ''is_error''" "to_lower ''structured_content'' = ''structured_content''"
  "to_lower ''duration_ns'' = ''duration_ns''"
  by code_simp+

lemma put_list_contents: "put_list step_content (empty_content []) (jnorm (contents_json cs)) = Some cs"
  by (rule contents_back)

lemma result_back: "result_Unmarshal (jnorm (result_json js r)) empty_outcome = Some (reread js r)"
  by (cases "tl_arguments r"; cases "tl_content r = []"; cases "tl_structured r"; cases "tl_err r"; cases "the (tl_arguments r) = []";
        cases "bulk_error_text js (the (tl_err r)) = []"; cases r)
      (simp_all add: result_json_def result_Unmarshal_def decode_value_def step_result_def fold_eq fold_keys keys_lower bulk_keys
        opt_raw_def opt_str_def put_str_def put_bool_def put_int_def put_map_def put_list_contents empty_outcome_def reread_def)

text \<open>
  A bulk result read back from its JSON is the result with its error as a
  plain one of the same text, empty arguments nil and the other JSON values as they decode. It has
  failed still, unless the text of its error is empty.
\<close>

theorem bulk_result_roundtrip:
  "result_Unmarshal (jnorm (result_json js r)) empty_outcome = Some (reread js r)
   \<and> (Failed (reread js r) \<longleftrightarrow> tl_isError r \<or> (case tl_err r of None \<Rightarrow> False | Some e \<Rightarrow> bulk_error_text js e \<noteq> []))"
  by (cases "tl_err r") (auto simp: result_back Failed_def reread_def)

section \<open>Facts about bulk calls\<close>

definition made_for :: "bulk_call \<Rightarrow> tool_outcome \<Rightarrow> bool" where
  "made_for call r \<longleftrightarrow> tl_tool r = bc_tool call \<and> tl_arguments r = bc_arguments call"

text \<open>A call that was made and failed.\<close>

definition call_failed :: "tool_outcome \<Rightarrow> bool" where
  "call_failed r \<longleftrightarrow> Failed r \<and> tl_err r \<noteq> Some Skipped"

lemma invoke_result: "invoke js tr env call c w = (r, c', w') \<Longrightarrow> made_for call r \<and> tl_err r \<noteq> Some Skipped"
  by (auto simp: invoke_def made_for_def empty_outcome_def Let_def split: prod.splits sum.splits)

lemma skipped_result: "made_for call (skipped call)" "\<not> call_failed (skipped call)"
  by (simp_all add: made_for_def skipped_def call_failed_def)

definition cell :: "call_status \<Rightarrow> tool_outcome option \<Rightarrow> bulk_error multiset" where
  "cell st res = (case (st, res) of (Finished, Some r) \<Rightarrow> if call_failed r then {#the (failure r)#} else {#} | _ \<Rightarrow> {#})"

definition slot_ok :: "bulk_call \<Rightarrow> call_status \<Rightarrow> tool_outcome option \<Rightarrow> bool" where
  "slot_ok call st res =
     (case st of
        Called r \<Rightarrow> res = Some r \<and> made_for call r \<and> tl_err r \<noteq> Some Skipped
      | Finished \<Rightarrow> (\<exists>r. res = Some r \<and> made_for call r)
      | _ \<Rightarrow> res = None)"

definition fan_inv :: "'w run_env \<Rightarrow> bulk_options \<Rightarrow> bulk_call list \<Rightarrow> 'w fan_out \<Rightarrow> bool" where
  "fan_inv env opts calls s \<longleftrightarrow>
     length (fo_status s) = length calls \<and> length (fo_results s) = length calls
     \<and> in_flight s \<le> fan_limit opts calls
     \<and> (\<forall>i<length calls. slot_ok (calls ! i) (fo_status s ! i) (fo_results s ! i))
     \<and> mset (fo_errs s) = (\<Sum>i<length calls. cell (fo_status s ! i) (fo_results s ! i))
     \<and> (fo_cancelled s \<longrightarrow> \<not> bo_ContinueOnError opts \<and> fo_errs s \<noteq> [])
     \<and> ((\<forall>w. re_ctx env w = None) \<longrightarrow> \<not> fo_cancelled s \<longrightarrow> (\<forall>r. Some r \<in> set (fo_results s) \<longrightarrow> tl_err r \<noteq> Some Skipped))"

lemma count_update:
  "i < length xs \<Longrightarrow> length (filter P (xs[i := y])) + (if P (xs ! i) then 1 else 0) = length (filter P xs) + (if P y then 1 else 0)"
proof (induction xs arbitrary: i)
  case (Cons x xs)
  then show ?case by (cases i) auto
qed simp

lemma sum_cell_update:
  fixes f :: "nat \<Rightarrow> 'a multiset"
  assumes "i < n" "\<And>j. j < n \<Longrightarrow> j \<noteq> i \<Longrightarrow> g j = f j" "f i = {#}"
  shows "(\<Sum>j<n. g j) = (\<Sum>j<n. f j) + g i"
proof -
  have "(\<Sum>j<n. g j) = g i + (\<Sum>j\<in>{..<n} - {i}. g j)" using assms(1) by (intro sum.remove) auto
  also have "(\<Sum>j\<in>{..<n} - {i}. g j) = (\<Sum>j\<in>{..<n} - {i}. f j)" using assms(2) by (intro sum.cong) auto
  also have "\<dots> = (\<Sum>j<n. f j)" using assms(1,3) sum.remove [of "{..<n}" i f] by simp
  finally show ?thesis by (simp add: add.commute)
qed

text \<open>A step on one call, from one that is not finished: what it writes, and what it adds.\<close>

lemma fan_update:
  assumes inv: "fan_inv env opts calls s" and i: "i < length calls" "fo_status s ! i \<noteq> Finished"
    and s': "fo_status s' = (fo_status s)[i := st]" "fo_results s' = (fo_results s)[i := res]"
      "mset (fo_errs s') = mset (fo_errs s) + cell st res"
    and ok: "slot_ok (calls ! i) st res"
    and slot: "has_slot st \<longrightarrow> has_slot (fo_status s ! i) \<or> in_flight s < fan_limit opts calls"
    and canc: "fo_cancelled s' \<longrightarrow> \<not> bo_ContinueOnError opts \<and> fo_errs s' \<noteq> []"
    and skip: "(\<forall>w. re_ctx env w = None) \<longrightarrow> \<not> fo_cancelled s' \<longrightarrow>
      \<not> fo_cancelled s \<and> (\<forall>r. res = Some r \<longrightarrow> tl_err r \<noteq> Some Skipped)"
  shows "fan_inv env opts calls s'"
  unfolding fan_inv_def
proof (intro conjI)
  note n = inv [unfolded fan_inv_def, THEN conjunct1] inv [unfolded fan_inv_def, THEN conjunct2, THEN conjunct1]
  show "length (fo_status s') = length calls" "length (fo_results s') = length calls" using n s' by simp_all
  have "in_flight s' + (if has_slot (fo_status s ! i) then 1 else 0) = in_flight s + (if has_slot st then 1 else 0)"
    unfolding in_flight_def s'(1) using i(1) n(1) by (intro count_update) simp
  then show "in_flight s' \<le> fan_limit opts calls" using slot inv unfolding fan_inv_def by (auto split: if_splits)
  show "\<forall>j<length calls. slot_ok (calls ! j) (fo_status s' ! j) (fo_results s' ! j)"
    using inv ok i(1) unfolding s' fan_inv_def by (auto simp: nth_list_update)
  have z: "cell (fo_status s ! i) (fo_results s ! i) = {#}" using i(2) by (simp add: cell_def split: call_status.splits)
  have g: "cell ((fo_status s)[i := st] ! j) ((fo_results s)[i := res] ! j) = cell (fo_status s ! j) (fo_results s ! j)"
    if "j \<noteq> i" for j using that by simp
  have gi: "cell ((fo_status s)[i := st] ! i) ((fo_results s)[i := res] ! i) = cell st res" using i(1) n by simp
  show "mset (fo_errs s') = (\<Sum>j<length calls. cell (fo_status s' ! j) (fo_results s' ! j))"
  proof -
    have "(\<Sum>j<length calls. cell ((fo_status s)[i := st] ! j) ((fo_results s)[i := res] ! j))
        = (\<Sum>j<length calls. cell (fo_status s ! j) (fo_results s ! j)) + cell st res"
      by (rule sum_cell_update [where f = "\<lambda>j. cell (fo_status s ! j) (fo_results s ! j)"
          and g = "\<lambda>j. cell ((fo_status s)[i := st] ! j) ((fo_results s)[i := res] ! j)", OF i(1) g z, unfolded gi])
    moreover have "mset (fo_errs s) = (\<Sum>j<length calls. cell (fo_status s ! j) (fo_results s ! j))"
      using inv by (simp only: fan_inv_def)
    ultimately show ?thesis unfolding s' by simp
  qed
  show "fo_cancelled s' \<longrightarrow> \<not> bo_ContinueOnError opts \<and> fo_errs s' \<noteq> []" by (rule canc)
  show "(\<forall>w. re_ctx env w = None) \<longrightarrow> \<not> fo_cancelled s' \<longrightarrow> (\<forall>r. Some r \<in> set (fo_results s') \<longrightarrow> tl_err r \<noteq> Some Skipped)"
  proof (intro impI allI)
    fix r assume a: "\<forall>w. re_ctx env w = None" "\<not> fo_cancelled s'" "Some r \<in> set (fo_results s')"
    from a(3) have "Some r = res \<or> Some r \<in> set (fo_results s)" unfolding s' using set_update_subset_insert by fastforce
    then show "tl_err r \<noteq> Some Skipped" using a(1,2) skip inv unfolding fan_inv_def by metis
  qed
qed

lemma fan_inv_status:
  "fan_inv env opts calls s \<Longrightarrow> i < length calls \<Longrightarrow> slot_ok (calls ! i) (fo_status s ! i) (fo_results s ! i)"
  by (simp add: fan_inv_def)

lemma fan_step_inv:
  assumes "fan_step js tr env opts calls s s'" "fan_inv env opts calls s"
  shows "fan_inv env opts calls s'"
  using assms
proof (induction rule: fan_step.induct)
  case (f_acquire i s)
  have r: "fo_results s ! i = None" using fan_inv_status [OF f_acquire(4,1)] f_acquire(2) by (simp add: slot_ok_def)
  have n: "fo_results s = (fo_results s)[i := None]" using r by (metis list_update_id)
  show ?case
    by (rule fan_update [OF f_acquire(4,1), where st = Holding and res = None])
      (use f_acquire n in \<open>auto simp: set_status_def cell_def slot_ok_def fan_inv_def\<close>)
next
  case (f_skip i s)
  have a: "fo_cancelled s \<or> re_ctx env (fo_world s) \<noteq> None" using f_skip(3) by (simp add: aborting_def)
  show ?case
    by (rule fan_update [OF f_skip(4,1), where st = Finished and res = "Some (skipped (calls ! i))"])
      (use f_skip a skipped_result in \<open>auto simp: skip_call_def set_status_def cell_def slot_ok_def has_slot_def fan_inv_def\<close>)
next
  case (f_check i s)
  have r: "fo_results s ! i = None" using fan_inv_status [OF f_check(4,1)] f_check(2) by (simp add: slot_ok_def)
  have n: "fo_results s = (fo_results s)[i := None]" using r by (metis list_update_id)
  show ?case
    by (rule fan_update [OF f_check(4,1), where st = Calling and res = None])
      (use f_check n in \<open>auto simp: set_status_def cell_def slot_ok_def has_slot_def fan_inv_def\<close>)
next
  case (f_call i s)
  obtain r c w where inv: "invoke js tr env (calls ! i) (fo_client s) (fo_world s) = (r, c, w)" by (metis prod_cases3)
  show ?case
    by (rule fan_update [OF f_call(3,1), where st = "Called r" and res = "Some r"])
      (use f_call invoke_result [OF inv] in \<open>auto simp: run_call_def inv set_status_def cell_def slot_ok_def has_slot_def fan_inv_def\<close>)
next
  case (f_end i s r)
  have r: "fo_results s ! i = Some r" "made_for (calls ! i) r" "tl_err r \<noteq> Some Skipped"
    using fan_inv_status [OF f_end(3,1)] f_end(2) by (simp_all add: slot_ok_def)
  have n: "fo_results s = (fo_results s)[i := Some r]" using r(1) by (metis list_update_id)
  show ?case
    by (rule fan_update [OF f_end(3,1), where st = Finished and res = "Some r"])
      (use f_end r n in \<open>auto simp: end_call_def set_status_def cell_def slot_ok_def has_slot_def fan_inv_def call_failed_def\<close>)
next
  case (f_world s w)
  then show ?case by (simp add: fan_inv_def in_flight_def)
qed

lemma fan_run_inv: "fan_run js tr env opts calls s0 s \<Longrightarrow> fan_inv env opts calls s0 \<Longrightarrow> fan_inv env opts calls s"
  by (induction rule: fan_run.induct) (auto intro: fan_step_inv)

lemma fan_start_inv: "fan_inv env opts calls (fan_start calls c w)"
  by (auto simp: fan_inv_def fan_start_def in_flight_def has_slot_def slot_ok_def cell_def)

text \<open>Something can always be done, and only finitely much.\<close>

definition rank :: "call_status \<Rightarrow> nat" where
  "rank st = (case st of Waiting \<Rightarrow> 4 | Holding \<Rightarrow> 3 | Calling \<Rightarrow> 2 | Called _ \<Rightarrow> 1 | Finished \<Rightarrow> 0)"

definition work_left :: "'w fan_out \<Rightarrow> nat" where
  "work_left s = sum_list (map rank (fo_status s))"

lemma work_update:
  assumes "i < length (fo_status s)" "rank st < rank (fo_status s ! i)" "fo_status s' = (fo_status s)[i := st]"
  shows "work_left s' < work_left s"
proof -
  have "sum_list (map rank (xs[i := st])) + rank (xs ! i) = sum_list (map rank xs) + rank st" if "i < length xs" for xs
    using that
  proof (induction xs arbitrary: i)
    case (Cons x xs)
    then show ?case by (cases i) auto
  qed simp
  from this [OF assms(1)] assms(2,3) show ?thesis by (simp add: work_left_def)
qed

lemma fan_progress:
  assumes inv: "fan_inv env opts calls s" and nd: "\<not> fan_done s"
  shows "\<exists>s'. fan_step js tr env opts calls s s' \<and> work_left s' < work_left s"
proof -
  have len: "length (fo_status s) = length calls" using inv by (simp add: fan_inv_def)
  show ?thesis
  proof (cases "\<exists>i<length calls. has_slot (fo_status s ! i)")
    case True
    then obtain i where i: "i < length calls" "has_slot (fo_status s ! i)" by blast
    then consider "fo_status s ! i = Holding" | "fo_status s ! i = Calling" | r where "fo_status s ! i = Called r"
      by (auto simp: has_slot_def split: call_status.splits)
    then show ?thesis
    proof cases
      case 1
      show ?thesis
      proof (cases "aborting env s")
        case True
        with 1 i have "fan_step js tr env opts calls s (skip_call calls i s)" by (intro f_skip) simp_all
        moreover have "work_left (skip_call calls i s) < work_left s"
          using i 1 len by (intro work_update [of i s Finished]) (simp_all add: skip_call_def set_status_def rank_def)
        ultimately show ?thesis by blast
      next
        case False
        with 1 i have "fan_step js tr env opts calls s (set_status i Calling s)" by (intro f_check) simp_all
        moreover have "work_left (set_status i Calling s) < work_left s"
          using i 1 len by (intro work_update [of i s Calling]) (simp_all add: set_status_def rank_def)
        ultimately show ?thesis by blast
      qed
    next
      case 2
      obtain r c w where q: "invoke js tr env (calls ! i) (fo_client s) (fo_world s) = (r, c, w)" by (metis prod_cases3)
      have "fan_step js tr env opts calls s (run_call js tr env calls i s)" using i 2 by (intro f_call) simp_all
      moreover have "work_left (run_call js tr env calls i s) < work_left s"
        using i 2 len by (intro work_update [of i s "Called r"]) (simp_all add: run_call_def q set_status_def rank_def)
      ultimately show ?thesis by blast
    next
      case (3 r)
      have "fan_step js tr env opts calls s (end_call (bo_ContinueOnError opts) i r s)" using i 3 by (intro f_end) simp_all
      moreover have "work_left (end_call (bo_ContinueOnError opts) i r s) < work_left s"
        using i 3 len by (intro work_update [of i s Finished]) (simp_all add: end_call_def set_status_def rank_def)
      ultimately show ?thesis by blast
    qed
  next
    case False
    then have "in_flight s = 0" using len by (auto simp: in_flight_def filter_empty_conv in_set_conv_nth)
    from nd obtain i where i: "i < length calls" "fo_status s ! i \<noteq> Finished"
      using len by (auto simp: fan_done_def list_all_iff in_set_conv_nth)
    with False have w: "fo_status s ! i = Waiting" by (cases "fo_status s ! i") (auto simp: has_slot_def)
    have "0 < fan_limit opts calls" using i(1) by (auto simp: fan_limit_def Let_def)
    with i w \<open>in_flight s = 0\<close> have "fan_step js tr env opts calls s (set_status i Holding s)" by (intro f_acquire) simp_all
    moreover have "work_left (set_status i Holding s) < work_left s"
      using i w len by (intro work_update [of i s Holding]) (simp_all add: set_status_def rank_def)
    ultimately show ?thesis by blast
  qed
qed

lemma fan_prepend:
  "fan_run js tr env opts calls s1 s' \<Longrightarrow> fan_step js tr env opts calls s s1 \<Longrightarrow> fan_run js tr env opts calls s s'"
proof (induction rule: fan_run.induct)
  case (fan_none s1)
  show ?case by (rule fan_more [OF fan_run.fan_none fan_none])
next
  case (fan_more s1 s' s'')
  show ?case by (rule fan_run.fan_more [OF fan_more(3) [OF fan_more(4)] fan_more(2)])
qed

lemma fan_can_finish: "fan_inv env opts calls s \<Longrightarrow> \<exists>s'. fan_run js tr env opts calls s s' \<and> fan_done s'"
proof (induction "work_left s" arbitrary: s rule: less_induct)
  case less
  show ?case
  proof (cases "fan_done s")
    case True
    then show ?thesis using fan_none by blast
  next
    case False
    from fan_progress [OF less.prems False] obtain s1 where s1: "fan_step js tr env opts calls s s1" "work_left s1 < work_left s" by blast
    from less.hyps [OF s1(2) fan_step_inv [OF s1(1) less.prems]] obtain s' where s': "fan_run js tr env opts calls s1 s'" "fan_done s'" by blast
    from fan_prepend [OF s'(1) s1(1)] s'(2) show ?thesis by blast
  qed
qed

text \<open>What a finished fan-out holds.\<close>

lemma cells_failures:
  "(\<And>i. i < length rs \<Longrightarrow> f i = cell Finished (rs ! i)) \<Longrightarrow> list_all (\<lambda>r. r \<noteq> None) rs
   \<Longrightarrow> (\<Sum>i<length rs. f i) = mset (map (\<lambda>r. the (failure r)) (filter call_failed (map the rs)))"
proof (induction rs arbitrary: f)
  case (Cons r rs)
  obtain x where x: "r = Some x" using Cons.prems(2) by auto
  have "(\<Sum>i<length (r # rs). f i) = f 0 + (\<Sum>i<length rs. f (Suc i))" by (simp add: sum.lessThan_Suc_shift del: sum.lessThan_Suc)
  also have "(\<Sum>i<length rs. f (Suc i)) = mset (map (\<lambda>r. the (failure r)) (filter call_failed (map the rs)))"
    using Cons.prems(2) by (intro Cons.IH) (auto simp: Cons.prems(1) [of "Suc i" for i, simplified])
  also have "f 0 = cell Finished (Some x)" using Cons.prems(1) [of 0] x by simp
  finally show ?case by (simp add: x cell_def)
qed simp

lemma fan_finished:
  assumes inv: "fan_inv env opts calls s" and d: "fan_done s"
  shows "list_all2 made_for calls (map the (fo_results s))"
    and "mset (fo_errs s) = mset (map (\<lambda>r. the (failure r)) (filter call_failed (map the (fo_results s))))"
    and "(\<forall>w. re_ctx env w = None) \<Longrightarrow> r \<in> set (map the (fo_results s)) \<Longrightarrow> tl_err r = Some Skipped
         \<Longrightarrow> \<not> bo_ContinueOnError opts \<and> fo_errs s \<noteq> []"
proof -
  have len: "length (fo_status s) = length calls" "length (fo_results s) = length calls" using inv by (simp_all add: fan_inv_def)
  have st: "fo_status s ! i = Finished" if "i < length calls" for i
    using d len(1) that by (simp add: fan_done_def list_all_length)
  have res: "\<exists>r. fo_results s ! i = Some r \<and> made_for (calls ! i) r" if "i < length calls" for i
    using fan_inv_status [OF inv that] st [OF that] by (simp add: slot_ok_def)
  show "list_all2 made_for calls (map the (fo_results s))"
    unfolding list_all2_conv_all_nth using len res by fastforce
  have some: "list_all (\<lambda>r. r \<noteq> None) (fo_results s)" unfolding list_all_length using len res by fastforce
  have "mset (fo_errs s) = (\<Sum>i<length (fo_results s). cell (fo_status s ! i) (fo_results s ! i))"
    using inv by (simp add: fan_inv_def)
  also have "\<dots> = mset (map (\<lambda>r. the (failure r)) (filter call_failed (map the (fo_results s))))"
    by (rule cells_failures [OF _ some]) (use len st in simp_all)
  finally show "mset (fo_errs s) = mset (map (\<lambda>r. the (failure r)) (filter call_failed (map the (fo_results s))))" .
  assume a: "\<forall>w. re_ctx env w = None" "r \<in> set (map the (fo_results s))" "tl_err r = Some Skipped"
  then have "Some r \<in> set (fo_results s)" using some by (auto simp: list_all_iff)
  with a inv show "\<not> bo_ContinueOnError opts \<and> fo_errs s \<noteq> []" unfolding fan_inv_def by blast
qed

lemma fan_reaches: "fan_run js tr env opts calls (fan_start calls c w) s \<Longrightarrow> fan_inv env opts calls s"
  by (rule fan_run_inv [OF _ fan_start_inv])

lemma sequential_exact:
  "callSequential js tr env cont calls (rs, es) c w = ((results, errs), c', w') \<Longrightarrow>
   \<exists>new ctx. results = rs @ new \<and> errs = es @ map (\<lambda>r. the (failure r)) (filter Failed new) @ map CtxFailed ctx
     \<and> list_all2 made_for (take (length new) calls) new \<and> (\<forall>r\<in>set new. tl_err r \<noteq> Some Skipped)
     \<and> (\<forall>e\<in>set ctx. \<exists>w. re_ctx env w = Some e) \<and> length ctx \<le> 1
     \<and> (length new < length calls \<longrightarrow> ctx \<noteq> [] \<or> \<not> cont \<and> filter Failed new \<noteq> [])"
proof (induction calls arbitrary: rs es c w)
  case Nil
  then show ?case by (intro exI [of _ "[]"]) simp
next
  case (Cons call calls)
  show ?case
  proof (cases "re_ctx env w")
    case (Some e)
    with Cons.prems show ?thesis by (intro exI [of _ "[]"] exI [of _ "[e]"]) auto
  next
    case None
    obtain r c1 w1 where q: "invoke js tr env call c w = (r, c1, w1)" by (metis prod_cases3)
    note m = invoke_result [OF q]
    show ?thesis
    proof (cases "Failed r \<and> \<not> cont")
      case True
      with Cons.prems None q m show ?thesis by (intro exI [of _ "[r]"] exI [of _ "[]"]) auto
    next
      case False
      with Cons.prems None q have
        "callSequential js tr env cont calls (rs @ [r], es @ (if Failed r then [the (failure r)] else [])) c1 w1 = ((results, errs), c', w')"
        by simp
      from Cons.IH [OF this] obtain new ctx where
        "results = (rs @ [r]) @ new"
        "errs = (es @ (if Failed r then [the (failure r)] else [])) @ map (\<lambda>r. the (failure r)) (filter Failed new) @ map CtxFailed ctx"
        "list_all2 made_for (take (length new) calls) new" "\<forall>r\<in>set new. tl_err r \<noteq> Some Skipped"
        "\<forall>e\<in>set ctx. \<exists>w. re_ctx env w = Some e" "length ctx \<le> 1"
        "length new < length calls \<longrightarrow> ctx \<noteq> [] \<or> \<not> cont \<and> filter Failed new \<noteq> []"
        by blast
      with m show ?thesis by (intro exI [of _ "r # new"] exI [of _ ctx]) auto
    qed
  qed
qed

text \<open>
  C11: What \<open>CallToolsBulk\<close> returns over a client. The results stand at the positions of
  their calls, each naming its tool and arguments; in parallel there is one for every call. The
  errors are exactly those of the calls that were made and failed (in the calls' order when they
  run one after the other, followed by the context's when that is why the batch ended). While the
  context is never done, the error is nil exactly when every call was made and succeeded.
\<close>

theorem bulk_outcome:
  assumes "CallToolsBulk js tr env calls opts (Some c) w (results, errs) st"
  shows "list_all2 made_for (take (length results) calls) results
    \<and> (bo_Parallel opts \<longrightarrow> length results = length calls
         \<and> mset errs = mset (map (\<lambda>r. the (failure r)) (filter call_failed results)))
    \<and> (\<not> bo_Parallel opts \<longrightarrow>
         (\<exists>ctx. errs = map (\<lambda>r. the (failure r)) (filter call_failed results) @ map CtxFailed ctx \<and> length ctx \<le> 1))
    \<and> ((\<forall>w. re_ctx env w = None) \<longrightarrow> (errs = [] \<longleftrightarrow> length results = length calls \<and> (\<forall>r\<in>set results. \<not> Failed r)))"
  using assms
proof (cases rule: CallToolsBulk.cases)
  case bulk_empty
  then show ?thesis by simp
next
  case (bulk_sequential c' w')
  from sequential_exact [OF bulk_sequential(4)] obtain ctx where f:
    "errs = map (\<lambda>r. the (failure r)) (filter Failed results) @ map CtxFailed ctx"
    "list_all2 made_for (take (length results) calls) results" "\<forall>r\<in>set results. tl_err r \<noteq> Some Skipped"
    "\<forall>e\<in>set ctx. \<exists>w. re_ctx env w = Some e" "length ctx \<le> 1"
    "length results < length calls \<longrightarrow> ctx \<noteq> [] \<or> \<not> bo_ContinueOnError opts \<and> filter Failed results \<noteq> []"
    by auto
  have same: "filter call_failed results = filter Failed results"
    by (rule filter_cong) (use f(3) in \<open>auto simp: call_failed_def\<close>)
  have len: "length results \<le> length calls" using list_all2_lengthD [OF f(2)] by simp
  have "ctx = []" if "\<forall>w. re_ctx env w = None" using f(4) that by (cases ctx) auto
  moreover have "filter Failed results = [] \<longleftrightarrow> (\<forall>r\<in>set results. \<not> Failed r)" by (simp add: filter_empty_conv)
  ultimately show ?thesis using f len bulk_sequential(3) by (auto simp: same)
next
  case (bulk_parallel s)
  note fin = fan_finished [OF fan_reaches [OF bulk_parallel(6)] bulk_parallel(7)]
  have len: "length results = length calls" using list_all2_lengthD [OF fin(1)] bulk_parallel(1) by simp
  have "errs = [] \<longleftrightarrow> length results = length calls \<and> (\<forall>r\<in>set results. \<not> Failed r)" if "\<forall>w. re_ctx env w = None"
  proof
    assume e: "errs = []"
    then have "filter call_failed results = []" using fin(2) bulk_parallel(1,2) by simp
    moreover have "tl_err r \<noteq> Some Skipped" if "r \<in> set results" for r
      using fin(3) [OF \<open>\<forall>w. re_ctx env w = None\<close>] that bulk_parallel(1,2) e by auto
    ultimately show "length results = length calls \<and> (\<forall>r\<in>set results. \<not> Failed r)"
      using len by (auto simp: filter_empty_conv call_failed_def)
  next
    assume "length results = length calls \<and> (\<forall>r\<in>set results. \<not> Failed r)"
    then have "filter call_failed results = []" by (simp add: filter_empty_conv call_failed_def)
    then show "errs = []" using fin(2) bulk_parallel(1,2) by simp
  qed
  then show ?thesis using fin(1,2) len bulk_parallel(1,2,5) by simp
qed

text \<open>
  C19: At every moment of a parallel batch at most \<open>MaxConcurrency\<close> calls hold a slot (all of
  them where it is not positive), and from every state the batch reaches it can still be brought to
  its end: no goroutine waits for ever.
\<close>

theorem bulk_fan_out:
  assumes "fan_run js tr env opts calls (fan_start calls c w) s"
  shows "in_flight s \<le> fan_limit opts calls
    \<and> (bo_MaxConcurrency opts > 0 \<longrightarrow> int (in_flight s) \<le> bo_MaxConcurrency opts)
    \<and> (\<exists>s'. fan_run js tr env opts calls s s' \<and> fan_done s')"
proof -
  note inv = fan_reaches [OF assms]
  then have l: "in_flight s \<le> fan_limit opts calls" by (simp add: fan_inv_def)
  moreover have "int (in_flight s) \<le> bo_MaxConcurrency opts" if "bo_MaxConcurrency opts > 0"
    using l that by (auto simp: fan_limit_def Let_def split: if_splits)
  ultimately show ?thesis using fan_can_finish [OF inv] by blast
qed

definition dead_line :: "nat transport" where
  "dead_line = \<lparr>tr_roundTrip = (\<lambda>m w. (Inl (CText ''down''), w + 1)), tr_notify = (\<lambda>m w. (None, w))\<rparr>"

definition quiet_env :: "nat run_env" where
  "quiet_env = \<lparr>re_now = (\<lambda>w. (int w, w)), re_ctx = (\<lambda>_. None), re_sleep = (\<lambda>d w. (None, w))\<rparr>"

definition pass_json :: json_lib where
  "pass_json = \<lparr>js_enc = (\<lambda>_. Inr []), js_dec = (\<lambda>_. None), js_text = [], js_quote = (\<lambda>s. s)\<rparr>"

abbreviation demo_calls :: "bulk_call list" where
  "demo_calls \<equiv> bulk_calls_of ''t'' [None, Some []]"

lemma dead_invoke:
  "invoke pass_json dead_line quiet_env call c w =
     (empty_outcome\<lparr>tl_tool := bc_tool call, tl_arguments := bc_arguments call, tl_duration := 1, tl_err := Some (CallFailed (CText ''down''))\<rparr>,
      c\<lparr>cl_idCtr := cl_idCtr c + 2\<rparr>, w + 1)"
  by (simp add: invoke_def cl_CallTool_def client_call_def nextID_def decode_result_def dead_line_def quiet_env_def pass_json_def
      empty_outcome_def)

theorem bulk_outcome_witness:
  "\<exists>results errs st. CallToolsBulk pass_json dead_line quiet_env demo_calls DefaultBulkOptions (Some demo_client) 0 (results, errs) st
     \<and> length results = 2 \<and> errs = [CallFailed (CText ''down''), CallFailed (CText ''down'')] \<and> list_all2 made_for demo_calls results"
proof -
  have r: "\<exists>results c w. CallToolsBulk pass_json dead_line quiet_env demo_calls DefaultBulkOptions (Some demo_client) 0
      (results, [CallFailed (CText ''down''), CallFailed (CText ''down'')]) (Some c, w) \<and> length results = 2"
    by (intro exI conjI, rule bulk_sequential, simp_all add: DefaultBulkOptions_def bulk_calls_of_def dead_invoke quiet_env_def [THEN arg_cong [where f = re_ctx]] Failed_def failure_def)
      simp_all
  then obtain results c w where
    "CallToolsBulk pass_json dead_line quiet_env demo_calls DefaultBulkOptions (Some demo_client) 0
      (results, [CallFailed (CText ''down''), CallFailed (CText ''down'')]) (Some c, w)" "length results = 2"
    by blast
  moreover from bulk_outcome [OF this(1)] this(2) have "list_all2 made_for demo_calls results" by (simp add: bulk_calls_of_def)
  ultimately show ?thesis by blast
qed

definition narrow :: bulk_options where
  "narrow = \<lparr>bo_Parallel = True, bo_MaxConcurrency = 1, bo_ContinueOnError = False\<rparr>"

theorem bulk_fan_out_witness:
  "\<exists>s. fan_run pass_json dead_line quiet_env narrow demo_calls (fan_start demo_calls demo_client 0) s
     \<and> in_flight s = 1 \<and> int (in_flight s) \<le> 1
     \<and> (\<exists>s'. fan_run pass_json dead_line quiet_env narrow demo_calls s s' \<and> fan_done s')"
proof -
  let ?init = "fan_start demo_calls demo_client (0::nat)" and ?s = "set_status 1 Holding (fan_start demo_calls demo_client (0::nat))"
  have run: "fan_run pass_json dead_line quiet_env narrow demo_calls ?init ?s"
    by (rule fan_more [OF fan_none f_acquire])
      (simp_all add: fan_start_def bulk_calls_of_def in_flight_def has_slot_def fan_limit_def narrow_def)
  moreover have "in_flight ?s = 1"
    by (simp add: fan_start_def bulk_calls_of_def in_flight_def has_slot_def set_status_def)
  ultimately show ?thesis using bulk_fan_out [OF run] by auto
qed

text \<open>With a context that is done from the start a parallel batch may make no call at all and return
  a nil error, every result marked skipped.\<close>

definition done_env :: "nat run_env" where
  "done_env = quiet_env\<lparr>re_ctx := \<lambda>_. Some ''context canceled''\<rparr>"

lemma parallel_done_no_error:
  "CallToolsBulk pass_json dead_line done_env demo_calls (narrow\<lparr>bo_ContinueOnError := True\<rparr>) (Some demo_client) 0
     (map skipped demo_calls, []) (Some demo_client, 0)"
proof -
  let ?o = "narrow\<lparr>bo_ContinueOnError := True\<rparr>"
  let ?a = "fan_start demo_calls demo_client (0::nat)"
  let ?b = "skip_call demo_calls 0 ?a" let ?c = "skip_call demo_calls 1 ?b"
  note ds = fan_start_def bulk_calls_of_def skip_call_def set_status_def aborting_def done_env_def
  have "fan_step pass_json dead_line done_env ?o demo_calls ?a ?b" by (rule f_skip) (simp_all add: ds)
  moreover have "fan_step pass_json dead_line done_env ?o demo_calls ?b ?c" by (rule f_skip) (simp_all add: ds)
  ultimately have run: "fan_run pass_json dead_line done_env ?o demo_calls ?a ?c"
    using fan_more [OF fan_more [OF fan_none]] by blast
  have e: "map the (fo_results ?c) = map skipped demo_calls" "fo_errs ?c = []" "fo_client ?c = demo_client" "fo_world ?c = 0"
    by (simp_all add: ds)
  show ?thesis
    using CallToolsBulk.bulk_parallel [OF _ _ run] by (simp add: e) (simp add: ds narrow_def fan_done_def)
qed

section \<open>Facts about retries\<close>

lemma call_counts: "cl_CallTool js tr name args c w = ((r, c'), w') \<Longrightarrow> cl_idCtr c' = cl_idCtr c + 2"
  by (auto simp: cl_CallTool_def client_call_def nextID_def decode_result_def split: option.splits sum.splits prod.splits)

lemma call_world:
  assumes "cl_CallTool js tr name args c w = ((r, c'), w')" "\<And>m w. f (snd (tr_roundTrip tr m w)) = f w"
  shows "f w' = f w"
proof -
  have "f w' = f w" if "client_call js tr meth ps c w = (x, w')" for meth ps c x
    using that assms(2) [of "empty_message\<lparr>cm_id := Some (GInt (1 + int (cl_idCtr c))), cm_method := meth, cm_params := ps\<rparr>" w]
    by (auto simp: client_call_def nextID_def add.commute split: option.splits sum.splits prod.splits)
  with assms(1) show ?thesis
    by (auto simp: cl_CallTool_def nextID_def decode_result_def split: option.splits sum.splits prod.splits)
qed

text \<open>How the delays grow, and what a loop of attempts does.\<close>

definition nth_delay :: "retry_policy \<Rightarrow> int \<Rightarrow> nat \<Rightarrow> int" where
  "nth_delay p d i = (next_delay p ^^ i) d"

lemma nth_delay_Suc: "nth_delay p d (Suc i) = nth_delay p (next_delay p d) i"
  by (simp add: nth_delay_def funpow_swap1)

lemma nth_delay_stays: "d \<le> 0 \<Longrightarrow> nth_delay p d i = d"
  by (induction i) (simp_all add: nth_delay_def next_delay_def)

lemma nth_delay_capped:
  assumes "0 < nth_delay p d i" "rp_MaxDelay p > 0"
  shows "nth_delay p d (Suc i) \<le> rp_MaxDelay p"
  using assms by (simp add: nth_delay_def next_delay_def Let_def)

lemma delays_Cons: "map (nth_delay p d) [0..<Suc n] = d # map (nth_delay p (next_delay p d)) [0..<n]"
  by (simp add: upt_conv_Cons map_Suc_upt [symmetric] nth_delay_Suc del: upt_Suc) (simp add: nth_delay_def)

definition gave_up :: "retry_policy \<Rightarrow> (bulk_error + tool_call_result) \<Rightarrow> bool" where
  "gave_up p r \<longleftrightarrow>
     (case r of
        Inr _ \<Rightarrow> True
      | Inl (CtxFailed _) \<Rightarrow> True
      | Inl (CallFailed e) \<Rightarrow> (case rp_RetryIf p of None \<Rightarrow> False | Some f \<Rightarrow> \<not> f e)
      | _ \<Rightarrow> False)"

lemma retry_loop_exact:
  assumes "\<And>m w. slept (snd (tr_roundTrip tr m w)) = slept w" "\<And>d w. slept (snd (re_sleep env d w)) = slept w @ [d]"
  shows "retry_loop js tr env name args p (Suc k) d c w = (r, c', w') \<Longrightarrow>
    \<exists>n m. 1 \<le> n \<and> n \<le> Suc k \<and> cl_idCtr c' = cl_idCtr c + 2 * n \<and> (n \<le> k \<longrightarrow> gave_up p r)
      \<and> slept w' = slept w @ map (nth_delay p d) [0..<m] \<and> m \<le> k \<and> m \<le> n \<and> (\<forall>i<m. 0 < nth_delay p d i)"
proof (induction k arbitrary: d c w)
  case 0
  obtain res c1 w1 where q: "cl_CallTool js tr name args c w = ((res, c1), w1)" by (metis prod_cases3 surj_pair)
  with 0 have "c' = c1" "w' = w1" by (auto split: sum.splits)
  with call_counts [OF q] call_world [OF q, of slept, OF assms(1)] show ?case by (intro exI [of _ 1] exI [of _ 0]) simp
next
  case (Suc k)
  obtain res c1 w1 where q: "cl_CallTool js tr name args c w = ((res, c1), w1)" by (metis prod_cases3 surj_pair)
  note s1 = call_world [OF q, of slept, OF assms(1)] and n1 = call_counts [OF q]
  have once: ?case if "c' = c1" "w' = w1" "gave_up p r"
    using that s1 n1 by (intro exI [of _ 1] exI [of _ 0]) simp
  show ?case
  proof (cases res)
    case (Inr x)
    with Suc.prems q show ?thesis by (intro once) (auto simp: gave_up_def)
  next
    case (Inl e)
    show ?thesis
    proof (cases "case rp_RetryIf p of None \<Rightarrow> False | Some f \<Rightarrow> \<not> f e")
      case True
      with Suc.prems q Inl show ?thesis by (intro once) (auto simp: gave_up_def)
    next
      case False
      obtain o1 w2 where z: "retry_sleep env d w1 = (o1, w2)" by force
      have s2: "slept w2 = slept w1 @ (if 0 < d then [d] else [])"
        using z assms(2) [of d w1] by (auto simp: retry_sleep_def split: if_splits)
      show ?thesis
      proof (cases o1)
        case (Some ce)
        with Suc.prems q Inl False z have "c' = c1" "w' = w2" "r = Inl (CtxFailed ce)" by simp_all
        with s1 s2 n1 show ?thesis
          by (intro exI [of _ 1] exI [of _ "if 0 < d then 1 else 0"]) (simp add: gave_up_def nth_delay_def)
      next
        case None
        with Suc.prems q Inl False z have "retry_loop js tr env name args p (Suc k) (next_delay p d) c1 w2 = (r, c', w')" by simp
        from Suc.IH [OF this] obtain n m where i: "1 \<le> n" "n \<le> Suc k" "cl_idCtr c' = cl_idCtr c1 + 2 * n" "n \<le> k \<longrightarrow> gave_up p r"
          "slept w' = slept w2 @ map (nth_delay p (next_delay p d)) [0..<m]" "m \<le> k" "m \<le> n" "\<forall>i<m. 0 < nth_delay p (next_delay p d) i"
          by blast
        show ?thesis
        proof (cases "0 < d")
          case True
          have "slept w' = slept w @ map (nth_delay p d) [0..<Suc m]" using i(5) s1 s2 True delays_Cons by simp
          moreover have "\<forall>j<Suc m. 0 < nth_delay p d j"
            using i(8) True by (auto simp: less_Suc_eq_0_disj nth_delay_Suc) (simp add: nth_delay_def)
          ultimately show ?thesis using i n1 by (intro exI [of _ "Suc n"] exI [of _ "Suc m"]) simp
        next
          case False
          then have "m = 0" using i(8) nth_delay_stays [of d p 0] by (cases m) (auto simp: next_delay_def nth_delay_def)
          with i n1 s1 s2 False show ?thesis by (intro exI [of _ "Suc n"] exI [of _ 0]) simp
        qed
      qed
    qed
  qed
qed

text \<open>
  C20: \<open>Retry\<close> calls the tool at least once and at most \<open>MaxAttempts\<close> times (once where that is
  not positive), and stops before only on a success, an error the policy does not retry or a context
  that is done. It sleeps between attempts only, never after the last, for the delays that grow from
  \<open>BaseDelay\<close> by the multiplier; every delay but the first is at most \<open>MaxDelay\<close>. A recording of the
  sleeps, which the transport leaves alone, is read off the world.
\<close>

theorem retry_bounded:
  assumes "\<And>m w. slept (snd (tr_roundTrip tr m w)) = slept w" "\<And>d w. slept (snd (re_sleep env d w)) = slept w @ [d]"
    and "Retry js tr env name args p (Some c) w = (r, c', w')"
  shows "\<exists>cl n m. c' = Some cl \<and> cl_idCtr cl = cl_idCtr c + 2 * n \<and> 1 \<le> n \<and> int n \<le> max 1 (rp_MaxAttempts p)
     \<and> (int n < rp_MaxAttempts p \<longrightarrow> gave_up p r)
     \<and> slept w' = slept w @ map (nth_delay p (rp_BaseDelay p)) [0..<m] \<and> int m < max 1 (rp_MaxAttempts p) \<and> m \<le> n
     \<and> (\<forall>i<m. 0 < nth_delay p (rp_BaseDelay p) i
          \<and> (0 < i \<and> 0 < rp_MaxDelay p \<longrightarrow> nth_delay p (rp_BaseDelay p) i \<le> rp_MaxDelay p))"
proof -
  obtain k where k: "attempts p = Suc k" by (cases "attempts p") (auto simp: attempts_def split: if_splits)
  then have a: "int (Suc k) = max 1 (rp_MaxAttempts p)" by (auto simp: attempts_def split: if_splits)
  from assms(3) obtain cl where l: "retry_loop js tr env name args p (Suc k) (rp_BaseDelay p) c w = (r, cl, w')" "c' = Some cl"
    by (auto simp: Retry_def k split: prod.splits)
  from retry_loop_exact [OF assms(1,2) l(1)] obtain n m where f: "1 \<le> n" "n \<le> Suc k" "cl_idCtr cl = cl_idCtr c + 2 * n"
    "n \<le> k \<longrightarrow> gave_up p r" "slept w' = slept w @ map (nth_delay p (rp_BaseDelay p)) [0..<m]" "m \<le> k" "m \<le> n"
    "\<forall>i<m. 0 < nth_delay p (rp_BaseDelay p) i" by blast
  have cap: "nth_delay p (rp_BaseDelay p) i \<le> rp_MaxDelay p" if "i < m" "0 < i" "0 < rp_MaxDelay p" for i
    using that f(8) nth_delay_capped [of p "rp_BaseDelay p" "i - 1"] by (cases i) auto
  have "int n < rp_MaxAttempts p \<longrightarrow> gave_up p r" using f(4) a by auto
  with l(2) f cap a show ?thesis by (intro exI [of _ cl] exI [of _ n] exI [of _ m]) auto
qed

definition logged_line :: "int list transport" where
  "logged_line = \<lparr>tr_roundTrip = (\<lambda>m w. (Inl (CText ''down''), w)), tr_notify = (\<lambda>m w. (None, w))\<rparr>"

definition logged_env :: "int list run_env" where
  "logged_env = \<lparr>re_now = (\<lambda>w. (0, w)), re_ctx = (\<lambda>_. None), re_sleep = (\<lambda>d w. (None, w @ [d]))\<rparr>"

text \<open>Five nanoseconds asked for first, at most two allowed: the first delay is not capped.\<close>

definition steep :: retry_policy where
  "steep = \<lparr>rp_MaxAttempts = 3, rp_BaseDelay = 5, rp_MaxDelay = 2, rp_Multiplier = 2, rp_RetryIf = None\<rparr>"

lemma logged_call:
  "cl_CallTool pass_json logged_line name args c w = ((Inl (CText ''down''), c\<lparr>cl_idCtr := cl_idCtr c + 2\<rparr>), w)"
  by (simp add: cl_CallTool_def client_call_def nextID_def decode_result_def logged_line_def pass_json_def)

lemma steep_fields:
  "rp_MaxAttempts steep = 3" "rp_BaseDelay steep = 5" "rp_MaxDelay steep = 2" "rp_RetryIf steep = None"
  by (simp_all add: steep_def)

lemma steep_run:
  "Retry pass_json logged_line logged_env ''t'' None steep (Some (newClient [])) [] =
     (Inl (CallFailed (CText ''down'')), Some ((newClient [])\<lparr>cl_idCtr := 6\<rparr>), [5, 2])"
proof -
  have "attempts steep = Suc (Suc (Suc 0))" by (simp add: attempts_def steep_def)
  moreover have "next_delay steep 5 = 2" by (simp add: next_delay_def steep_def trunc_def)
  ultimately show ?thesis
    by (simp add: Retry_def logged_call retry_sleep_def logged_env_def steep_fields eval_nat_numeral newClient_def)
qed

theorem retry_bounded_witness:
  "\<exists>n m. Retry pass_json logged_line logged_env ''t'' None steep (Some (newClient [])) [] =
       (Inl (CallFailed (CText ''down'')), Some ((newClient [])\<lparr>cl_idCtr := 2 * n\<rparr>), [5, 2])
     \<and> int n \<le> 3 \<and> [5, 2] = map (nth_delay steep 5) [0..<m] \<and> m \<le> n"
proof -
  have "\<exists>cl n m. Some ((newClient [])\<lparr>cl_idCtr := 6\<rparr>) = Some (cl :: int list client)
     \<and> cl_idCtr cl = cl_idCtr (newClient [] :: int list client) + 2 * n \<and> 1 \<le> n \<and> int n \<le> max 1 (rp_MaxAttempts steep)
     \<and> (int n < rp_MaxAttempts steep \<longrightarrow> gave_up steep (Inl (CallFailed (CText ''down''))))
     \<and> [5, 2] = [] @ map (nth_delay steep (rp_BaseDelay steep)) [0..<m] \<and> int m < max 1 (rp_MaxAttempts steep) \<and> m \<le> n
     \<and> (\<forall>i<m. 0 < nth_delay steep (rp_BaseDelay steep) i
          \<and> (0 < i \<and> 0 < rp_MaxDelay steep \<longrightarrow> nth_delay steep (rp_BaseDelay steep) i \<le> rp_MaxDelay steep))"
    by (rule retry_bounded [where slept = "\<lambda>w. w", OF _ _ steep_run]) (simp_all add: logged_line_def logged_env_def)
  then obtain cl n m where f: "Some ((newClient [])\<lparr>cl_idCtr := 6\<rparr>) = Some (cl :: int list client)"
    "cl_idCtr cl = cl_idCtr (newClient [] :: int list client) + 2 * n" "int n \<le> max 1 (rp_MaxAttempts steep)"
    "[5, 2] = [] @ map (nth_delay steep (rp_BaseDelay steep)) [0..<m]" "m \<le> n"
    by (elim exE conjE) (rule that)
  have "6 = 2 * n" using f(1,2) by (auto simp: newClient_def)
  with f(3-5) steep_run show ?thesis by (intro exI [of _ n] exI [of _ m]) (simp add: steep_fields)
qed

section \<open>The bulk meta-tools\<close>

text \<open>\<open>BulkToolCaller\<close>: the two names, the loopback client over the transport \<open>tr\<close>, whether it can be
  cancelled and whether its server end is running.\<close>

record 'w bulk_tool_caller =
  bt_callsToolName :: string
  bt_callToolName :: string
  bt_loop :: "'w client option"
  bt_cancel :: bool
  bt_serveDone :: bool

definition WithCallsToolName :: "string \<Rightarrow> 'w bulk_tool_caller \<Rightarrow> 'w bulk_tool_caller" where
  "WithCallsToolName name b = b\<lparr>bt_callsToolName := name\<rparr>"

definition WithCallToolName :: "string \<Rightarrow> 'w bulk_tool_caller \<Rightarrow> 'w bulk_tool_caller" where
  "WithCallToolName name b = b\<lparr>bt_callToolName := name\<rparr>"

definition NewBulkToolCaller :: "('w bulk_tool_caller \<Rightarrow> 'w bulk_tool_caller) list \<Rightarrow> 'w bulk_tool_caller" where
  "NewBulkToolCaller opts = fold (\<lambda>opt. opt) opts
     \<lparr>bt_callsToolName = ''call_tools_bulk'', bt_callToolName = ''call_tool_bulk'', bt_loop = None, bt_cancel = False, bt_serveDone = False\<rparr>"

text \<open>The arguments of both tools; the first has calls, the second a tool with its argument sets.\<close>

record bulk_args =
  ba_calls :: "bulk_call list"
  ba_tool :: string
  ba_arguments :: "(string \<times> gval) list option list"
  ba_continue :: "bool option"
  ba_parallel :: bool
  ba_max :: int

definition empty_args :: bulk_args where
  "empty_args = \<lparr>ba_calls = [], ba_tool = [], ba_arguments = [], ba_continue = None, ba_parallel = False, ba_max = 0\<rparr>"

definition step_bulk_call :: "string \<Rightarrow> gval \<Rightarrow> bulk_call \<Rightarrow> bulk_call option" where
  "step_bulk_call k v c =
     (if equal_fold k ''tool'' then map_option (\<lambda>s. c\<lparr>bc_tool := s\<rparr>) (put_str v (bc_tool c))
      else if equal_fold k ''arguments'' then map_option (\<lambda>m. c\<lparr>bc_arguments := m\<rparr>) (put_map v)
      else Some c)"

definition put_flag :: "gval \<Rightarrow> bool option option" where
  "put_flag v = (case v of GNil \<Rightarrow> Some None | GBool b \<Rightarrow> Some (Some b) | _ \<Rightarrow> None)"

definition put_maps :: "gval \<Rightarrow> (string \<times> gval) list option list option" where
  "put_maps v = (case v of GNil \<Rightarrow> Some [] | GList vs \<Rightarrow> those (map put_map vs) | _ \<Rightarrow> None)"

definition step_shared :: "string \<Rightarrow> gval \<Rightarrow> bulk_args \<Rightarrow> bulk_args option" where
  "step_shared k v a =
     (if equal_fold k ''continue_on_error'' then map_option (\<lambda>b. a\<lparr>ba_continue := b\<rparr>) (put_flag v)
      else if equal_fold k ''parallel'' then map_option (\<lambda>b. a\<lparr>ba_parallel := b\<rparr>) (put_bool v (ba_parallel a))
      else if equal_fold k ''max_concurrency'' then map_option (\<lambda>i. a\<lparr>ba_max := i\<rparr>) (put_int v (ba_max a))
      else Some a)"

definition step_calls_args :: "string \<Rightarrow> gval \<Rightarrow> bulk_args \<Rightarrow> bulk_args option" where
  "step_calls_args k v a =
     (if equal_fold k ''calls''
      then map_option (\<lambda>cs. a\<lparr>ba_calls := cs\<rparr>) (put_list step_bulk_call \<lparr>bc_tool = [], bc_arguments = None\<rparr> v)
      else step_shared k v a)"

definition step_tool_args :: "string \<Rightarrow> gval \<Rightarrow> bulk_args \<Rightarrow> bulk_args option" where
  "step_tool_args k v a =
     (if equal_fold k ''tool'' then map_option (\<lambda>s. a\<lparr>ba_tool := s\<rparr>) (put_str v (ba_tool a))
      else if equal_fold k ''arguments'' then map_option (\<lambda>ms. a\<lparr>ba_arguments := ms\<rparr>) (put_maps v)
      else step_shared k v a)"

definition resolveOptions :: "bool option \<Rightarrow> bool \<Rightarrow> int \<Rightarrow> bulk_options" where
  "resolveOptions cont par most = \<lparr>bo_Parallel = par, bo_MaxConcurrency = most, bo_ContinueOnError = (case cont of None \<Rightarrow> True | Some b \<Rightarrow> b)\<rparr>"

text \<open>\<open>BulkResult\<close>: the slice is nil when there was nothing to call.\<close>

definition bulk_result_json :: "json_lib \<Rightarrow> bulk_call list \<Rightarrow> 'w client option \<Rightarrow> tool_outcome list \<Rightarrow> gval" where
  "bulk_result_json js calls loop results =
     GMap [(''results'', if calls = [] \<or> loop = None then GNil else GList (map (result_json js) results))]"

text \<open>The handlers as relations, since a parallel batch has many outcomes; the error of the batch is
  dropped.\<close>

inductive handleCallsBulk ::
  "json_lib \<Rightarrow> 'w transport \<Rightarrow> 'w run_env \<Rightarrow> bulk_args \<Rightarrow> 'w bulk_tool_caller \<Rightarrow> 'w \<Rightarrow> tool_value \<times> string option
     \<Rightarrow> 'w bulk_tool_caller \<times> 'w \<Rightarrow> bool"
  for js :: json_lib and tr :: "'w transport" and env :: "'w run_env" where
  "CallToolsBulk js tr env (ba_calls a) (resolveOptions (ba_continue a) (ba_parallel a) (ba_max a)) (bt_loop b) w (results, errs) (loop', w')
   \<Longrightarrow> handleCallsBulk js tr env a b w
     (TVAny (bulk_result_json js (ba_calls a) (bt_loop b) results), None) (b\<lparr>bt_loop := loop'\<rparr>, w')"

inductive handleCallToolBulk ::
  "json_lib \<Rightarrow> 'w transport \<Rightarrow> 'w run_env \<Rightarrow> bulk_args \<Rightarrow> 'w bulk_tool_caller \<Rightarrow> 'w \<Rightarrow> tool_value \<times> string option
     \<Rightarrow> 'w bulk_tool_caller \<times> 'w \<Rightarrow> bool"
  for js :: json_lib and tr :: "'w transport" and env :: "'w run_env" where
  "CallToolBulk js tr env (ba_tool a) (ba_arguments a) (resolveOptions (ba_continue a) (ba_parallel a) (ba_max a)) (bt_loop b) w
     (results, errs) (loop', w')
   \<Longrightarrow> handleCallToolBulk js tr env a b w
     (TVAny (bulk_result_json js (bulk_calls_of (ba_tool a) (ba_arguments a)) (bt_loop b) results), None) (b\<lparr>bt_loop := loop'\<rparr>, w')"

text \<open>The types of their arguments, for the schema.\<close>

definition shared_fields :: "gfld list" where
  "shared_fields =
     [Fld ''ContinueOnError'' True ''continue_on_error,omitempty'' [] (TPtr TBool),
      Fld ''Parallel'' True ''parallel,omitempty'' [] TBool,
      Fld ''MaxConcurrency'' True ''max_concurrency,omitempty'' [] TInt]"

definition calls_args_type :: gtype where
  "calls_args_type = TStruct (Fld ''Calls'' True ''calls'' []
     (TSlice (TStruct [Fld ''Tool'' True ''tool'' [] TString, Fld ''Arguments'' True ''arguments,omitempty'' [] TMapType])) # shared_fields)"

definition tool_args_type :: gtype where
  "tool_args_type = TStruct (Fld ''Tool'' True ''tool'' [] TString # Fld ''Arguments'' True ''arguments'' [] (TSlice TMapType) # shared_fields)"

definition bulk_handler :: "gtype \<Rightarrow> go_handler" where
  "bulk_handler t = Func [SCtx, STy t] [STy TOther, SErr]"

definition calls_tool_text :: string where
  "calls_tool_text = ''Invoke several of this server's tools in one request. Provide a list of {tool, arguments} calls; results are returned per call. Set parallel to run them concurrently and continue_on_error (default true) to keep going past individual failures.''"

definition call_tool_text :: string where
  "call_tool_text = ''Invoke a single tool of this server repeatedly with a list of argument sets, returning one result per set. Supports parallel and continue_on_error (default true).''"

text \<open>\<open>Register\<close> with the runs \<open>h1\<close> and \<open>h2\<close> of the handlers: the panic, or the error with the server
  and the caller.\<close>

definition caller_Register ::
  "json_lib \<Rightarrow> 'w transport \<Rightarrow> (gval option \<Rightarrow> 'w \<Rightarrow> (tool_value \<times> string option) \<times> 'w)
     \<Rightarrow> (gval option \<Rightarrow> 'w \<Rightarrow> (tool_value \<times> string option) \<times> 'w) \<Rightarrow> 'w server option \<Rightarrow> 'w bulk_tool_caller \<Rightarrow> 'w
     \<Rightarrow> (build_error + bulk_error option \<times> 'w server option \<times> 'w bulk_tool_caller) \<times> 'w" where
  "caller_Register js tr h1 h2 srv b w =
     (case srv of
        None \<Rightarrow> (Inr (Some (Plain_error ''fastmcp/contrib: nil server''), None, b), w)
      | Some s \<Rightarrow>
          if bt_loop b \<noteq> None then (Inr (Some (Plain_error ''fastmcp/contrib: BulkToolCaller already registered''), Some s, b), w)
          else
            (case Initialize js tr (newClient [WithClientInfo ''fastmcp-contrib-bulk'' DefaultVersion]) w of
               ((Inl e, _), w') \<Rightarrow> (Inr (Some (CallFailed e), Some s, b), w')
             | ((Inr _, cl), w') \<Rightarrow>
                 (case Tool (bt_callsToolName b) calls_tool_text (bulk_handler calls_args_type) h1 s of
                    Inl p \<Rightarrow> (Inl p, w')
                  | Inr s1 \<Rightarrow>
                      (case Tool (bt_callToolName b) call_tool_text (bulk_handler tool_args_type) h2 s1 of
                         Inl p \<Rightarrow> (Inl p, w')
                       | Inr s2 \<Rightarrow> (Inr (None, Some s2, b\<lparr>bt_loop := Some cl, bt_cancel := True, bt_serveDone := True\<rparr>), w')))))"

text \<open>\<open>Close\<close>, with \<open>shut\<close> the closing of the loopback client; waiting for the server end is left out.\<close>

definition caller_Close ::
  "('w \<Rightarrow> string option \<times> 'w) \<Rightarrow> 'w bulk_tool_caller \<Rightarrow> 'w \<Rightarrow> (string option \<times> 'w bulk_tool_caller) \<times> 'w" where
  "caller_Close shut b w =
     (case (if bt_loop b = None then (None, w) else shut w) of (err, w') \<Rightarrow>
        ((err, b\<lparr>bt_loop := None, bt_cancel := False, bt_serveDone := False\<rparr>), w'))"

lemma bulk_shapes:
  "map_option (\<lambda>sh. map_of (sh_input sh) ''required'') (sum.case_sum (\<lambda>_. None) Some (buildToolEntry (bulk_handler calls_args_type) False))
     = Some (Some (GStrs [''calls'']))"
  "map_option (\<lambda>sh. map_of (sh_input sh) ''required'') (sum.case_sum (\<lambda>_. None) Some (buildToolEntry (bulk_handler tool_args_type) False))
     = Some (Some (GStrs [''tool'', ''arguments'']))"
  by code_simp+

lemma bulk_built:
  "\<exists>sh. buildToolEntry (bulk_handler calls_args_type) False = Inr sh" "\<exists>sh. buildToolEntry (bulk_handler tool_args_type) False = Inr sh"
  using bulk_shapes by (auto split: sum.splits)

lemma caller_registers:
  assumes "bt_loop b = None" "Initialize js tr (newClient [WithClientInfo ''fastmcp-contrib-bulk'' DefaultVersion]) w = ((Inr res, cl), w')"
  shows "\<exists>s' b'. caller_Register js tr h1 h2 (Some s) b w = (Inr (None, Some s', b'), w')
     \<and> (\<forall>n. sv_tools s' n \<noteq> None \<longleftrightarrow> sv_tools s n \<noteq> None \<or> n = bt_callsToolName b \<or> n = bt_callToolName b)
     \<and> map_option te_call (sv_tools s' (bt_callToolName b)) = Some h2
     \<and> (bt_callsToolName b \<noteq> bt_callToolName b \<longrightarrow> map_option te_call (sv_tools s' (bt_callsToolName b)) = Some h1)
     \<and> (\<forall>x. caller_Register js tr h1 h2 (Some s') b' x = (Inr (Some (Plain_error ''fastmcp/contrib: BulkToolCaller already registered''), Some s', b'), x))
     \<and> bt_loop (snd (fst (caller_Close shut b' w'))) = None"
proof -
  obtain sh1 sh2 where "buildToolEntry (bulk_handler calls_args_type) False = Inr sh1" "buildToolEntry (bulk_handler tool_args_type) False = Inr sh2"
    using bulk_built by blast
  with assms show ?thesis
    by (simp add: caller_Register_def Tool_def Tool_reg_def registerTool_def caller_Close_def split: prod.split)
qed

text \<open>The tool answers a batch of failures like any other: its own error is nil.\<close>

lemma bulk_tool_never_fails:
  "handleCallsBulk js tr env a b w (v, e) st \<Longrightarrow> e = None" "handleCallToolBulk js tr env a b w (v, e) st \<Longrightarrow> e = None"
  by (auto elim: handleCallsBulk.cases handleCallToolBulk.cases)

end
