(* ===== verification/Elicit.thy ===== *)
theory Elicit
  imports Prelude GoStd Json Schema Mount JsonSchema "HOL-Library.List_Lexorder"
begin

text \<open>
  Elicitation (\<open>src/elicit/\<close>): the schema of the fields asked for and its JSON (\<open>schema.go\<close>), the
  exchange with the client (\<open>elicit.go\<close>) and the helpers for a single value (\<open>typed.go\<close>). The
  requester is a function over the world, found in the context or not; a destination is a value
  with the way it is decoded into, which may fail and still change it. Go types are those of
  schema reflection, and the text of an error about a type is left out.
\<close>

section \<open>Schemas\<close>

record efield =
  ef_Name :: string
  ef_Type :: string
  ef_Title :: string
  ef_Description :: string
  ef_Enum :: "string list"
  ef_Default :: gval
  ef_Required :: bool

type_synonym eschema = "efield list"

definition empty_field :: efield where
  "empty_field = \<lparr>ef_Name = [], ef_Type = [], ef_Title = [], ef_Description = [], ef_Enum = [], ef_Default = GNil, ef_Required = False\<rparr>"

text \<open>The keys of a map are written in order.\<close>

definition property :: "efield \<Rightarrow> gval" where
  "property f = GMap
     ((if ef_Default f \<noteq> GNil then [(''default'', ef_Default f)] else [])
      @ (if ef_Description f \<noteq> [] then [(''description'', GStr (ef_Description f))] else [])
      @ (if ef_Enum f \<noteq> [] then [(''enum'', GStrs (ef_Enum f))] else [])
      @ (if ef_Title f \<noteq> [] then [(''title'', GStr (ef_Title f))] else [])
      @ (if ef_Type f \<noteq> [] then [(''type'', GStr (ef_Type f))] else []))"

definition NewSchema :: eschema where "NewSchema = []"

definition es_Add :: "efield \<Rightarrow> eschema \<Rightarrow> eschema" where
  "es_Add f s = s @ [f]"

definition es_field :: "string \<Rightarrow> string \<Rightarrow> string \<Rightarrow> string \<Rightarrow> bool \<Rightarrow> efield" where
  "es_field typ name title descr req =
     empty_field\<lparr>ef_Name := name, ef_Type := typ, ef_Title := title, ef_Description := descr, ef_Required := req\<rparr>"

definition es_String where "es_String name title descr req = es_Add (es_field ''string'' name title descr req)"
definition es_Number where "es_Number name title descr req = es_Add (es_field ''number'' name title descr req)"
definition es_Integer where "es_Integer name title descr req = es_Add (es_field ''integer'' name title descr req)"
definition es_Boolean where "es_Boolean name title descr req = es_Add (es_field ''boolean'' name title descr req)"

definition es_Enum where
  "es_Enum name title descr req options = es_Add ((es_field ''string'' name title descr req)\<lparr>ef_Enum := options\<rparr>)"

definition eschema_json :: "eschema \<Rightarrow> gval" where
  "eschema_json s =
     (let req = map ef_Name (filter ef_Required s)
      in GMap ([(''type'', GStr ''object''), (''properties'', GMap (map (\<lambda>f. (ef_Name f, property f)) s))]
           @ (if req \<noteq> [] then [(''required'', GStrs req)] else [])))"

datatype schema_error = SourceNil | SourceNotStruct gtype | FieldNotPrimitive string gtype

fun primitiveType :: "gtype \<Rightarrow> string option" where
  "primitiveType (TPtr t) = primitiveType t"
| "primitiveType TString = Some ''string''"
| "primitiveType TBool = Some ''boolean''"
| "primitiveType TInt = Some ''integer''"
| "primitiveType TFloat = Some ''number''"
| "primitiveType _ = None"

definition el_parseJSONTag :: "gfld \<Rightarrow> string \<times> bool" where
  "el_parseJSONTag f =
     (let parts = split_on (CHR '','') (fl_json f)
      in (if hd parts = [] then fl_name f else hd parts, List.member (tl parts) ''omitempty''))"

definition apply_part :: "efield \<Rightarrow> string \<Rightarrow> efield" where
  "apply_part f part =
     (case split2 (CHR ''='') part of
        [k, v] \<Rightarrow>
          let key = trim_space k; val = trim_space v
          in if key = ''title'' then f\<lparr>ef_Title := val\<rparr>
             else if key = ''description'' then f\<lparr>ef_Description := val\<rparr>
             else if key = ''default'' then f\<lparr>ef_Default := GStr val\<rparr>
             else if key = ''enum'' then f\<lparr>ef_Enum := split_on (CHR ''|'') val\<rparr>
             else f
      | _ \<Rightarrow> f)"

definition applyJSONSchemaTag :: "efield \<Rightarrow> string \<Rightarrow> efield" where
  "applyJSONSchemaTag f tag = (if tag = [] then f else foldl apply_part f (split_on (CHR '','') tag))"

fun el_struct_fields :: "gfld list \<Rightarrow> eschema \<Rightarrow> schema_error + eschema" where
  "el_struct_fields [] s = Inr s"
| "el_struct_fields (sf # sfs) s =
     (if \<not> fl_exported sf then el_struct_fields sfs s
      else (case el_parseJSONTag sf of
              (name, omitempty) \<Rightarrow>
                if name = ''-'' then el_struct_fields sfs s
                else (case primitiveType (fl_type sf) of
                        None \<Rightarrow> Inl (FieldNotPrimitive (fl_name sf) (fl_type sf))
                      | Some typ \<Rightarrow>
                          el_struct_fields sfs (s @ [applyJSONSchemaTag
                            (empty_field\<lparr>ef_Name := name, ef_Type := typ, ef_Required := \<not> is_ptr (fl_type sf) \<and> \<not> omitempty\<rparr>)
                            (fl_schema sf)]))))"

definition SchemaFromStruct :: "gtype option \<Rightarrow> schema_error + eschema" where
  "SchemaFromStruct v =
     (case v of
        None \<Rightarrow> Inl SourceNil
      | Some t \<Rightarrow> (case deref t of TStruct fs \<Rightarrow> el_struct_fields fs [] | t' \<Rightarrow> Inl (SourceNotStruct t')))"

text \<open>The schema argument of \<open>Elicit\<close>, and its JSON.\<close>

datatype schema_arg =
    SchemaNil
  | SchemaPtr "eschema option"
  | SchemaVal eschema
  | SchemaMap "(string \<times> gval) list"
  | SchemaRaw gval
  | SchemaOf gtype

definition normalizeSchema :: "schema_arg \<Rightarrow> schema_error + gval" where
  "normalizeSchema a =
     (case a of
        SchemaNil \<Rightarrow> Inr (eschema_json [])
      | SchemaPtr p \<Rightarrow> Inr (case p of None \<Rightarrow> GNil | Some s \<Rightarrow> eschema_json s)
      | SchemaVal s \<Rightarrow> Inr (eschema_json s)
      | SchemaMap m \<Rightarrow> Inr (GMap m)
      | SchemaRaw v \<Rightarrow> Inr v
      | SchemaOf t \<Rightarrow> (case SchemaFromStruct (Some t) of Inl e \<Rightarrow> Inl e | Inr s \<Rightarrow> Inr (eschema_json s)))"

section \<open>The exchange\<close>

text \<open>The requester of a context, if it carries one.\<close>

type_synonym 'w requester = "string \<Rightarrow> gval \<Rightarrow> 'w \<Rightarrow> (string + gval option) \<times> 'w"

datatype elicit_error = NoRequester | BadSchema schema_error | RequestFailed string | ElicitEncode string | ElicitDecode

definition elicit_request :: "string \<Rightarrow> gval \<Rightarrow> gval" where
  "elicit_request message schema = GMap [(''message'', GStr message), (''requestedSchema'', schema)]"

text \<open>Decoding into a map adds to the one that is there.\<close>

definition put_onto :: "gval \<Rightarrow> (string \<times> gval) list option \<Rightarrow> (string \<times> gval) list option option" where
  "put_onto v old =
     (case v of
        GNil \<Rightarrow> Some None
      | GMap m \<Rightarrow> Some (Some (fold (\<lambda>(k, x). AList.update k x) m (case old of None \<Rightarrow> [] | Some o1 \<Rightarrow> o1)))
      | _ \<Rightarrow> None)"

definition step_elicit :: "string \<Rightarrow> gval \<Rightarrow> string \<times> (string \<times> gval) list option \<Rightarrow> (string \<times> (string \<times> gval) list option) option" where
  "step_elicit k v r =
     (case r of (a, c) \<Rightarrow>
        if equal_fold k ''action'' then map_option (\<lambda>s. (s, c)) (put_str v a)
        else if equal_fold k ''content'' then map_option (\<lambda>m. (a, m)) (put_onto v c)
        else Some r)"

definition sorted_map :: "(string \<times> gval) list \<Rightarrow> (string \<times> gval) list" where
  "sorted_map m = map (\<lambda>k. (k, the (map_of m k))) (sort (map fst m))"

type_synonym 's dest = "(gval \<Rightarrow> 's \<Rightarrow> bool \<times> 's) \<times> 's"

definition Elicit ::
  "json_lib \<Rightarrow> 'w requester option \<Rightarrow> string \<Rightarrow> schema_arg \<Rightarrow> 's dest option \<Rightarrow> 'w
     \<Rightarrow> (string \<times> elicit_error option) \<times> 's option \<times> 'w" where
  "Elicit js r message schema dest w =
     (let left = map_option snd dest in
      case r of
        None \<Rightarrow> (([], Some NoRequester), left, w)
      | Some req \<Rightarrow>
          (case normalizeSchema schema of
             Inl e \<Rightarrow> (([], Some (BadSchema e)), left, w)
           | Inr reqSchema \<Rightarrow>
               (case req ''elicitation/create'' (elicit_request message reqSchema) w of
                  (Inl e, w') \<Rightarrow> (([], Some (RequestFailed e)), left, w')
                | (Inr raw, w') \<Rightarrow>
                    (case unmarshal step_elicit ([], None) raw of
                       None \<Rightarrow> (([], Some ElicitDecode), left, w')
                     | Some (action, content) \<Rightarrow>
                         (case (dest, content) of
                            (Some (dec, old), Some m) \<Rightarrow>
                              if action = ''accept'' \<and> m \<noteq> [] then
                                (case js_enc js (GMap (sorted_map m)) of
                                   Inl e \<Rightarrow> ((action, Some (ElicitEncode e)), Some old, w')
                                 | Inr b \<Rightarrow>
                                     (case js_dec js b of
                                        None \<Rightarrow> ((action, Some ElicitDecode), Some old, w')
                                      | Some v \<Rightarrow>
                                          (case dec v old of
                                             (done, s') \<Rightarrow> ((action, if done then None else Some ElicitDecode), Some s', w'))))
                              else ((action, None), Some old, w')
                          | _ \<Rightarrow> ((action, None), left, w'))))))"

section \<open>One value\<close>

text \<open>A struct with the one field \<open>value\<close>; decoding goes on after a value of the wrong type.\<close>

definition put_value :: "(gval \<Rightarrow> 's \<Rightarrow> 's option) \<Rightarrow> gval \<Rightarrow> 's \<Rightarrow> bool \<times> 's" where
  "put_value dec v s =
     (case v of
        GMap m \<Rightarrow> fold (\<lambda>(k, x) (good, s). if equal_fold k ''value''
             then (case dec x s of None \<Rightarrow> (False, s) | Some s' \<Rightarrow> (good, s')) else (good, s)) m (True, s)
      | GNil \<Rightarrow> (True, s)
      | _ \<Rightarrow> (False, s))"

definition elicit_value ::
  "(gval \<Rightarrow> 's \<Rightarrow> 's option) \<Rightarrow> 's \<Rightarrow> json_lib \<Rightarrow> 'w requester option \<Rightarrow> string \<Rightarrow> eschema \<Rightarrow> 'w
     \<Rightarrow> ('s \<times> string \<times> elicit_error option) \<times> 'w" where
  "elicit_value dec zero js r message schema w =
     (case Elicit js r message (SchemaPtr (Some schema)) (Some (put_value dec, zero)) w of
        ((action, err), s, w') \<Rightarrow> ((the s, action, err), w'))"

definition ElicitString :: "json_lib \<Rightarrow> 'w requester option \<Rightarrow> string \<Rightarrow> string \<Rightarrow> 'w \<Rightarrow> (string \<times> string \<times> elicit_error option) \<times> 'w" where
  "ElicitString js r message prompt = elicit_value put_str [] js r message (es_String ''value'' prompt [] True NewSchema)"

definition ElicitBool :: "json_lib \<Rightarrow> 'w requester option \<Rightarrow> string \<Rightarrow> string \<Rightarrow> 'w \<Rightarrow> (bool \<times> string \<times> elicit_error option) \<times> 'w" where
  "ElicitBool js r message prompt = elicit_value put_bool False js r message (es_Boolean ''value'' prompt [] True NewSchema)"

definition ElicitEnum ::
  "json_lib \<Rightarrow> 'w requester option \<Rightarrow> string \<Rightarrow> string \<Rightarrow> string list \<Rightarrow> 'w \<Rightarrow> (string \<times> string \<times> elicit_error option) \<times> 'w" where
  "ElicitEnum js r message prompt options = elicit_value put_str [] js r message (es_Enum ''value'' prompt [] True options NewSchema)"

section \<open>The schema and its answers\<close>

text \<open>What a field asks of a value: its type, and one of its options if it has any.\<close>

definition answer_ok :: "efield \<Rightarrow> gval \<Rightarrow> bool" where
  "answer_ok f x \<longleftrightarrow> (ef_Type f = [] \<or> matchesType (ef_Type f) x) \<and> (ef_Enum f = [] \<or> x \<in> GStr ` set (ef_Enum f))"

definition answers :: "eschema \<Rightarrow> (string \<times> gval) list \<Rightarrow> bool" where
  "answers s obj \<longleftrightarrow> list_all (\<lambda>f. case map_of obj (ef_Name f) of None \<Rightarrow> \<not> ef_Required f | Some x \<Rightarrow> answer_ok f x) s"

lemma jsonEqual_str: "jsonEqual (GStr a) x \<longleftrightarrow> x = GStr a"
  by (cases x) (auto simp: jsonEqual_def asFloat_def)

lemma enum_equal: "list_ex (\<lambda>a. jsonEqual a x) (map GStr es) \<longleftrightarrow> x \<in> GStr ` set es"
  by (auto simp: list_ex_iff jsonEqual_str)

lemma valid_property: "valid L (jnorm (property f)) x \<longleftrightarrow> answer_ok f x"
  using enum_equal [of x "ef_Enum f"]
  by (auto simp: property_def valid_object keyword_def plain_keyword_def answer_ok_def jsonEqual_str list_ex_iff split: if_splits)

lemma strings_in_map: "strings_in (map (\<lambda>x. GStr (f x)) xs) = map f xs"
  by (induction xs) simp_all

lemma valid_eschema:
  "valid L (jnorm (eschema_json s)) v \<longleftrightarrow>
     (case v of GMap obj \<Rightarrow>
        props_hold (valid L) (GMap (map (\<lambda>f. (ef_Name f, jnorm (property f))) s)) obj
        \<and> set (map ef_Name (filter ef_Required s)) \<subseteq> fst ` set obj
      | _ \<Rightarrow> False)"
  by (cases v; cases "filter ef_Required s = []")
    (simp_all add: eschema_json_def Let_def valid_object keyword_def plain_keyword_def matchesType_def on_object_def
      asStringList_def strings_in_map comp_def)

lemma is_map_property: "is_map (jnorm (property f))"
  by (simp add: property_def is_map_def)

lemma valid_answers: "valid L (jnorm (eschema_json s)) v \<longleftrightarrow> (case v of GMap obj \<Rightarrow> answers s obj | _ \<Rightarrow> False)"
proof (cases v)
  case (GMap obj)
  have "props_hold (valid L) (GMap (map (\<lambda>f. (ef_Name f, jnorm (property f))) s)) obj
      \<longleftrightarrow> (\<forall>f\<in>set s. case map_of obj (ef_Name f) of None \<Rightarrow> True | Some x \<Rightarrow> answer_ok f x)"
    by (auto simp: props_hold_def is_map_property valid_property split: option.splits)
  moreover have "set (map ef_Name (filter ef_Required s)) \<subseteq> fst ` set obj \<longleftrightarrow> (\<forall>f\<in>set s. map_of obj (ef_Name f) = None \<longrightarrow> \<not> ef_Required f)"
    by (auto simp: map_of_eq_None_iff)
  ultimately show ?thesis
    unfolding valid_eschema GMap answers_def list_all_iff by (auto split: option.splits)
qed (simp_all add: valid_eschema)

lemma tree_wf_jnorm: "tree_wf v \<Longrightarrow> tree_wf (jnorm v)"
  by (induction v rule: jnorm.induct) (auto simp: comp_def case_prod_unfold)

lemma eschema_wf:
  assumes "distinct (map ef_Name s)" "list_all (\<lambda>f. tree_wf (ef_Default f)) s"
  shows "tree_wf (jnorm (eschema_json s))"
proof (rule tree_wf_jnorm)
  have "tree_wf (property f)" if "f \<in> set s" for f using assms(2) that by (auto simp: property_def list_all_iff)
  then show "tree_wf (eschema_json s)" using assms(1) by (auto simp: eschema_json_def Let_def comp_def)
qed

text \<open>
  C14: The schema sent asks exactly for its fields. Read by a client that validates,
  it accepts an object if and only if every required field is there and every field that is there has
  its type and, where options are given, is one of them; other properties are not looked at, and
  nothing but an object is accepted.
\<close>

theorem elicit_schema_decides:
  assumes "distinct (map ef_Name s)" "list_all (\<lambda>f. tree_wf (ef_Default f)) s"
  shows "\<exists>m. jnorm (eschema_json s) = GMap m
     \<and> (Schema_Validate L (Some m) v = None \<longleftrightarrow> (case v of GMap obj \<Rightarrow> answers s obj | _ \<Rightarrow> False))"
proof -
  obtain m where m: "jnorm (eschema_json s) = GMap m" by (simp add: eschema_json_def Let_def)
  with eschema_wf [OF assms] have "tree_wf (GMap m)" by simp
  from decides_all [OF this] have "Schema_Validate L (Some m) v = None \<longleftrightarrow> valid L (GMap m) v"
    by (simp add: Schema_Validate_def decides_def)
  with valid_answers [of L s v] m show ?thesis by auto
qed

theorem elicit_schema_decides_witness:
  "\<exists>m. jnorm (eschema_json (es_Integer ''n'' [] [] False (es_String ''s'' ''S'' [] True NewSchema))) = GMap m
     \<and> Schema_Validate demo_fmt (Some m) (GMap [(''s'', GStr ''x'')]) = None
     \<and> Schema_Validate demo_fmt (Some m) (GMap [(''n'', GFloat 1)]) \<noteq> None"
proof -
  let ?s = "es_Integer ''n'' [] [] False (es_String ''s'' ''S'' [] True NewSchema)"
  have "distinct (map ef_Name ?s)" "list_all (\<lambda>f. tree_wf (ef_Default f)) ?s"
    by (simp_all add: es_Integer_def es_String_def es_Add_def es_field_def empty_field_def NewSchema_def)
  note d = elicit_schema_decides [OF this, where L = demo_fmt]
  have "answers ?s [(''s'', GStr ''x'')]" "\<not> answers ?s [(''n'', GFloat 1)]"
    by (simp_all add: answers_def answer_ok_def matchesType_def es_Integer_def es_String_def es_Add_def es_field_def
        empty_field_def NewSchema_def)
  with d [of "GMap [(''s'', GStr ''x'')]"] d [of "GMap [(''n'', GFloat 1)]"] show ?thesis by auto
qed

section \<open>Schemas of structs\<close>

definition asked :: "gfld \<Rightarrow> bool" where
  "asked f \<longleftrightarrow> fl_exported f \<and> fst (el_parseJSONTag f) \<noteq> ''-''"

definition bare_field :: "gfld \<Rightarrow> efield" where
  "bare_field f = empty_field\<lparr>ef_Name := fst (el_parseJSONTag f), ef_Type := the (primitiveType (fl_type f)),
     ef_Required := \<not> is_ptr (fl_type f) \<and> \<not> snd (el_parseJSONTag f)\<rparr>"

definition asked_field :: "gfld \<Rightarrow> efield" where
  "asked_field f = applyJSONSchemaTag (bare_field f) (fl_schema f)"

definition refused :: "gfld \<Rightarrow> bool" where
  "refused f \<longleftrightarrow> asked f \<and> primitiveType (fl_type f) = None"

lemma el_struct_fields_spec:
  "el_struct_fields fs s =
     (case List.find refused fs of
        Some f \<Rightarrow> Inl (FieldNotPrimitive (fl_name f) (fl_type f))
      | None \<Rightarrow> Inr (s @ map asked_field (filter asked fs)))"
  by (induction fs arbitrary: s)
    (auto simp: refused_def asked_def asked_field_def bare_field_def split: prod.splits option.splits)

lemma apply_part_keeps:
  "ef_Name (apply_part f p) = ef_Name f \<and> ef_Type (apply_part f p) = ef_Type f \<and> ef_Required (apply_part f p) = ef_Required f
   \<and> (tree_wf (ef_Default f) \<longrightarrow> tree_wf (ef_Default (apply_part f p)))"
  by (auto simp: apply_part_def Let_def split: list.splits)

lemma apply_keeps:
  "ef_Name (applyJSONSchemaTag f tag) = ef_Name f \<and> ef_Type (applyJSONSchemaTag f tag) = ef_Type f
   \<and> ef_Required (applyJSONSchemaTag f tag) = ef_Required f
   \<and> (tree_wf (ef_Default f) \<longrightarrow> tree_wf (ef_Default (applyJSONSchemaTag f tag)))"
proof -
  have "ef_Name (foldl apply_part f ps) = ef_Name f \<and> ef_Type (foldl apply_part f ps) = ef_Type f
     \<and> ef_Required (foldl apply_part f ps) = ef_Required f \<and> (tree_wf (ef_Default f) \<longrightarrow> tree_wf (ef_Default (foldl apply_part f ps)))" for ps
    by (induction ps arbitrary: f) (auto simp: apply_part_keeps)
  then show ?thesis by (simp add: applyJSONSchemaTag_def)
qed

lemma asked_field_parts:
  "ef_Name (asked_field f) = fst (parseJSONTag f)" "ef_Type (asked_field f) = the (primitiveType (fl_type f))"
  "ef_Required (asked_field f) \<longleftrightarrow> \<not> isOptional f (snd (parseJSONTag f))" "tree_wf (ef_Default (asked_field f))"
  using apply_keeps [of "bare_field f" "fl_schema f"]
  by (auto simp: asked_field_def bare_field_def empty_field_def el_parseJSONTag_def parseJSONTag_def isOptional_def Let_def)

lemma asked_kept: "Schema.kept = asked"
  by (simp add: fun_eq_iff asked_def Schema.kept_def el_parseJSONTag_def parseJSONTag_def Let_def)

lemma from_struct:
  "SchemaFromStruct (Some t) = Inr s \<longleftrightarrow>
     (\<exists>fs. deref t = TStruct fs \<and> (\<forall>f\<in>set fs. \<not> refused f) \<and> s = map asked_field (filter asked fs))"
  by (cases "deref t") (auto simp: SchemaFromStruct_def el_struct_fields_spec find_None_iff find_Some_iff
      dest: nth_mem split: option.splits)

text \<open>
  C39: The schema built from a struct asks for the properties that the input schema of a
  tool with that struct as its arguments has, and requires the same ones in the same order. Each
  field of the schema has one of the four primitive types. It is refused exactly when the source is
  no struct or a field that is not left out is not primitive; the error names the first such field.
\<close>

theorem elicit_struct:
  "(case SchemaFromStruct (Some t) of
      Inr s \<Rightarrow> \<exists>props. reflectStructSchema t = object_schema props (map ef_Name (filter ef_Required s))
         \<and> fst ` set props = ef_Name ` set s
         \<and> list_all (\<lambda>f. ef_Type f \<in> {''string'', ''number'', ''integer'', ''boolean''}) s
    | Inl SourceNil \<Rightarrow> False
    | Inl (SourceNotStruct t') \<Rightarrow> t' = deref t \<and> (\<forall>fs. t' \<noteq> TStruct fs)
    | Inl (FieldNotPrimitive n ty) \<Rightarrow> \<exists>fs1 f fs2. deref t = TStruct (fs1 @ f # fs2) \<and> asked f \<and> n = fl_name f \<and> ty = fl_type f
         \<and> primitiveType ty = None \<and> list_all (\<lambda>g. \<not> refused g) fs1)"
proof (cases "SchemaFromStruct (Some t)")
  case (Inr s)
  then obtain fs where fs: "deref t = TStruct fs" "\<forall>f\<in>set fs. \<not> refused f" "s = map asked_field (filter asked fs)"
    unfolding from_struct by blast
  obtain props req where r: "reflect_fields fs [] [] = (props, req)" by force
  note spec = reflect_fields_spec [OF r, unfolded asked_kept]
  have "req = map ef_Name (filter ef_Required s)"
    using spec by (simp add: fs(3) filter_map comp_def asked_field_parts filter_filter conj_commute)
  moreover have "fst ` set props = ef_Name ` set s" using spec by (auto simp: fs(3) asked_field_parts image_iff)
  moreover have "reflectStructSchema t = object_schema props req" by (simp add: reflectStructSchema_def fs(1) r)
  moreover have "primitiveType ty \<noteq> None \<Longrightarrow> the (primitiveType ty) \<in> {''string'', ''number'', ''integer'', ''boolean''}" for ty
    by (induction ty rule: primitiveType.induct) auto
  then have "list_all (\<lambda>f. ef_Type f \<in> {''string'', ''number'', ''integer'', ''boolean''}) s"
    using fs(2) by (auto simp: list_all_iff fs(3) asked_field_parts refused_def)
  ultimately show ?thesis using Inr by auto
next
  case (Inl e)
  show ?thesis
  proof (cases "\<exists>fs. deref t = TStruct fs")
    case True
    then obtain fs where fs: "deref t = TStruct fs" by blast
    with Inl obtain f where f: "List.find refused fs = Some f" "e = FieldNotPrimitive (fl_name f) (fl_type f)"
      by (auto simp: SchemaFromStruct_def el_struct_fields_spec split: option.splits)
    then obtain i where i: "i < length fs" "refused f" "f = fs ! i" "\<forall>j<i. \<not> refused (fs ! j)" by (auto simp: find_Some_iff)
    then have "fs = take i fs @ f # drop (Suc i) fs" by (simp add: id_take_nth_drop)
    moreover have "list_all (\<lambda>g. \<not> refused g) (take i fs)"
      using i by (auto simp: list_all_length refused_def)
    ultimately have "\<exists>fs1 f' fs2. deref t = TStruct (fs1 @ f' # fs2) \<and> asked f' \<and> fl_name f = fl_name f' \<and> fl_type f = fl_type f'
         \<and> primitiveType (fl_type f) = None \<and> list_all (\<lambda>g. \<not> refused g) fs1"
      using fs i(2) by (intro exI [of _ "take i fs"] exI [of _ f] exI [of _ "drop (Suc i) fs"]) (simp add: refused_def)
    then show ?thesis using Inl f(2) by simp
  next
    case False
    then have "e = SourceNotStruct (deref t)" using Inl by (auto simp: SchemaFromStruct_def split: gtype.splits)
    with Inl False show ?thesis by auto
  qed
qed

section \<open>The exchange, and one value\<close>

text \<open>The JSON of a client's result.\<close>

definition elicit_reply :: "string \<Rightarrow> (string \<times> gval) list option \<Rightarrow> gval" where
  "elicit_reply a c = GMap ((''action'', GStr a) # (case c of None \<Rightarrow> [] | Some m \<Rightarrow> [(''content'', GMap m)]))"

lemma elicit_keys: "to_lower ''action'' = ''action''" "to_lower ''value'' = ''value''"
  by code_simp+

lemma fold_update_keys: "distinct (map fst acc) \<Longrightarrow> distinct (map fst (fold (\<lambda>(k, x). AList.update k x) m acc))"
  by (induction m arbitrary: acc) (auto simp: distinct_update)

lemma elicit_reply_back:
  "unmarshal step_elicit ([], None) (Some (elicit_reply a c)) =
     Some (a, map_option (\<lambda>m. fold (\<lambda>(k, x). AList.update k x) m []) c)"
  by (cases c) (simp_all add: elicit_reply_def unmarshal_def decode_value_def step_elicit_def fold_eq fold_keys elicit_keys
      put_str_def put_onto_def)

text \<open>
  \<open>ElicitString\<close> over a client that answers. The client gets one request, with the
  message and the schema of one required string under \<open>value\<close> titled by the prompt. An accepted string comes back
  as it was sent; a value of another type is an error beside the accepted action; on any other
  action the string is empty and the error nil, whatever content came along. Without a requester
  nothing is sent.
\<close>

theorem elicit_string:
  assumes "json_ok js" "js_enc js (GMap [(''value'', x)]) = Inr b"
    and "req ''elicitation/create'' (elicit_request message (eschema_json
      [empty_field\<lparr>ef_Name := ''value'', ef_Type := ''string'', ef_Title := prompt, ef_Required := True\<rparr>])) w
      = (Inr (Some (elicit_reply a (Some [(''value'', x)]))), w')"
  shows "ElicitString js (Some req) message prompt w =
      ((if a = ''accept''
        then (case jnorm x of GStr s \<Rightarrow> (s, a, None) | GNil \<Rightarrow> ([], a, None) | _ \<Rightarrow> ([], a, Some ElicitDecode))
        else ([], a, None)), w')
    \<and> ElicitString js None message prompt w = (([], [], Some NoRequester), w)"
proof -
  have dec: "js_dec js b = Some (jnorm (GMap [(''value'', x)]))" using assms(1,2) by (simp add: json_ok_def del: jnorm.simps)
  have one: "sorted_map [(''value'', x)] = [(''value'', x)]" by (simp add: sorted_map_def)
  have up: "fold (\<lambda>(k, x). AList.update k x) [(''value'', x)] [] = [(''value'', x)]" by simp
  have schema: "es_String ''value'' prompt [] True NewSchema =
      [empty_field\<lparr>ef_Name := ''value'', ef_Type := ''string'', ef_Title := prompt, ef_Required := True\<rparr>]"
    by (simp add: es_String_def es_Add_def es_field_def NewSchema_def empty_field_def)
  have put: "put_value put_str (GMap [(''value'', y)]) [] =
      (case y of GStr s \<Rightarrow> (True, s) | GNil \<Rightarrow> (True, []) | _ \<Rightarrow> (False, []))" for y
    by (simp add: put_value_def fold_eq put_str_def split: gval.splits)
  show ?thesis
    unfolding ElicitString_def elicit_value_def Elicit_def schema normalizeSchema_def
    using assms(3)
    by (cases "jnorm x") (simp_all add: elicit_reply_back assms(2) dec one put Let_def)
qed

definition form_json :: json_lib where
  "form_json = \<lparr>js_enc = (\<lambda>v. if v = GMap [(''value'', GStr ''red'')] then Inr ''r'' else Inl ''unsupported''),
     js_dec = (\<lambda>t. if t = ''r'' \<or> t = ''r'' @ [CHR 0x0A] then Some (GMap [(''value'', GStr ''red'')]) else None),
     js_text = [], js_quote = (\<lambda>s. s)\<rparr>"

definition red_client :: "nat requester" where
  "red_client = (\<lambda>meth params w. (Inr (Some (elicit_reply ''accept'' (Some [(''value'', GStr ''red'')]))), w + 1))"

lemma form_json_ok: "json_ok form_json"
proof -
  have "trim_space ''r'' = ''r''" by code_simp
  then show ?thesis by (auto simp: json_ok_def form_json_def split: if_splits)
qed

theorem elicit_string_witness:
  "ElicitString form_json (Some red_client) ''Which?'' ''Colour'' 0 = ((''red'', ''accept'', None), 1)
   \<and> ElicitString form_json None ''Which?'' ''Colour'' (0::nat) = (([], [], Some NoRequester), 0)"
proof -
  have e: "js_enc form_json (GMap [(''value'', GStr ''red'')]) = Inr ''r''" by (simp add: form_json_def)
  have "red_client ''elicitation/create'' (elicit_request ''Which?'' (eschema_json
      [empty_field\<lparr>ef_Name := ''value'', ef_Type := ''string'', ef_Title := ''Colour'', ef_Required := True\<rparr>])) 0
      = (Inr (Some (elicit_reply ''accept'' (Some [(''value'', GStr ''red'')]))), 1)"
    by (simp add: red_client_def)
  from elicit_string [where req = red_client, OF form_json_ok e this] show ?thesis by simp
qed

text \<open>The value of \<open>ElicitEnum\<close> is not checked against the options.\<close>

lemma enum_not_enforced:
  "ElicitEnum form_json (Some red_client) ''Which?'' ''Colour'' [''green'', ''blue''] 0 = ((''red'', ''accept'', None), 1)"
  by (simp add: ElicitEnum_def elicit_value_def Elicit_def normalizeSchema_def es_Enum_def es_Add_def NewSchema_def red_client_def
      elicit_reply_back sorted_map_def form_json_def put_value_def fold_eq elicit_keys put_str_def)

text \<open>An integer field with options is one that nothing answers: the options stay strings.\<close>

lemma enum_on_integer:
  "\<exists>f. SchemaFromStruct (Some (TStruct [Fld ''N'' True ''n'' ''enum=1|2'' TInt])) = Inr [f] \<and> ef_Type f = ''integer'' \<and> (\<forall>x. \<not> answer_ok f x)"
proof -
  let ?f = "asked_field (Fld ''N'' True ''n'' ''enum=1|2'' TInt)"
  have "ef_Type ?f = ''integer''" "ef_Enum ?f = [''1'', ''2'']" by code_simp+
  then have "\<forall>x. \<not> answer_ok ?f x" by (auto simp: answer_ok_def matchesType_def isInteger_def)
  moreover have "asked (Fld ''N'' True ''n'' ''enum=1|2'' TInt)" by code_simp
  ultimately show ?thesis using \<open>ef_Type ?f = ''integer''\<close>
    by (intro exI [of _ ?f]) (simp add: SchemaFromStruct_def el_struct_fields_spec refused_def)
qed

end
