(* ===== verification/Sampling.thy ===== *)
theory Sampling
  imports Prelude GoStd Json Content Schema Registry Dispatch Session Mount Client
begin

text \<open>
  The handler context of \<open>src/context.go\<close> as a chain of values, and the requests a handler makes of
  the client: sampling, and the roots of \<open>Session\<close>, with what the client of \<open>src/client/\<close> answers.
\<close>

section \<open>The context of a handler\<close>

text \<open>\<open>Context\<close>: the server, the request, whether notifications can be sent, whether the connection
  takes requests, and the progress token. The values stored in the parents come after it.\<close>

record 'w hctx =
  hx_server :: "'w server"
  hx_req :: request
  hx_send :: bool
  hx_conn :: bool
  hx_progressToken :: "gval option"

definition newContext :: "'w hctx list \<Rightarrow> 'w server \<Rightarrow> request \<Rightarrow> bool \<Rightarrow> 'w hctx \<times> 'w hctx list" where
  "newContext parent s req can_send =
     (let c = \<lparr>hx_server = s, hx_req = req, hx_send = can_send, hx_conn = False, hx_progressToken = None\<rparr> in (c, c # parent))"

definition FromContext :: "'w hctx list \<Rightarrow> 'w hctx option" where
  "FromContext ctx = (case ctx of [] \<Rightarrow> None | c # _ \<Rightarrow> Some c)"

lemma from_new_context: "FromContext (snd (newContext parent s req can_send)) = Some (fst (newContext parent s req can_send))"
  by (simp add: newContext_def FromContext_def Let_def)

section \<open>Sampling\<close>

record sampling_message =
  sm_role :: string
  sm_content :: content

record create_params =
  cp_messages :: "sampling_message list"
  cp_systemPrompt :: string
  cp_includeContext :: string
  cp_temperature :: rat
  cp_maxTokens :: int
  cp_stopSequences :: "string list"
  cp_modelPreferences :: gval
  cp_metadata :: gval

record create_result =
  cr_role :: string
  cr_content :: content
  cr_model :: string
  cr_stopReason :: string

definition sampling_message_json :: "sampling_message \<Rightarrow> gval" where
  "sampling_message_json m = GMap [(''role'', GStr (sm_role m)), (''content'', content_json (sm_content m))]"

definition create_params_json :: "create_params \<Rightarrow> gval" where
  "create_params_json p = GMap
     ([(''messages'', GList (map sampling_message_json (cp_messages p)))]
      @ opt_str ''systemPrompt'' (cp_systemPrompt p) @ opt_str ''includeContext'' (cp_includeContext p)
      @ (if cp_temperature p = 0 then [] else [(''temperature'', GFloat (cp_temperature p))])
      @ (if cp_maxTokens p = 0 then [] else [(''maxTokens'', GInt (cp_maxTokens p))])
      @ (if cp_stopSequences p = [] then [] else [(''stopSequences'', GStrs (cp_stopSequences p))])
      @ (if cp_modelPreferences p = GNil then [] else [(''modelPreferences'', cp_modelPreferences p)])
      @ (if cp_metadata p = GNil then [] else [(''metadata'', cp_metadata p)]))"

definition create_result_json :: "create_result \<Rightarrow> gval" where
  "create_result_json r = GMap
     ([(''role'', GStr (cr_role r)), (''content'', content_json (cr_content r)), (''model'', GStr (cr_model r))]
      @ opt_str ''stopReason'' (cr_stopReason r))"

definition step_create_result :: "string \<Rightarrow> gval \<Rightarrow> create_result \<Rightarrow> create_result option" where
  "step_create_result k v r =
     (if equal_fold k ''role'' then map_option (\<lambda>s. r\<lparr>cr_role := s\<rparr>) (put_str v (cr_role r))
      else if equal_fold k ''content'' then map_option (\<lambda>c. r\<lparr>cr_content := c\<rparr>) (decode_value step_content v (cr_content r))
      else if equal_fold k ''model'' then map_option (\<lambda>s. r\<lparr>cr_model := s\<rparr>) (put_str v (cr_model r))
      else if equal_fold k ''stopReason'' then map_option (\<lambda>s. r\<lparr>cr_stopReason := s\<rparr>) (put_str v (cr_stopReason r))
      else Some r)"

definition empty_result :: create_result where
  "empty_result = \<lparr>cr_role = [], cr_content = empty_content [], cr_model = [], cr_stopReason = []\<rparr>"

text \<open>What \<open>CreateMessage\<close> returns once its request, with these parameters, has started.\<close>

definition create_request :: "create_params \<Rightarrow> string \<times> gval" where
  "create_request p = (''sampling/createMessage'', create_params_json p)"

definition ctx_CreateMessage :: "string \<Rightarrow> call_outcome option \<Rightarrow> rpc_msg + create_result" where
  "ctx_CreateMessage ctx_err res =
     (case request_return ctx_err res of
        Inl e \<Rightarrow> Inl e
      | Inr raw \<Rightarrow> (case unmarshal step_create_result empty_result raw of None \<Rightarrow> Inl DecodeMsg | Some r \<Rightarrow> Inr r))"

section \<open>From a handler to the client and back\<close>

text \<open>What the client's answer to a request becomes on the server: the result as it decodes, or the
  error.\<close>

definition as_reply :: "wire_error + gval \<Rightarrow> call_outcome" where
  "as_reply a = Answered (case a of Inl e \<Rightarrow> \<lparr>pr_result = None, pr_err = Some e\<rparr> | Inr v \<Rightarrow> \<lparr>pr_result = Some (jnorm v), pr_err = None\<rparr>)"

lemma sampling_keys: "to_lower ''role'' = ''role''" "to_lower ''model'' = ''model''" "to_lower ''roots'' = ''roots''"
  "to_lower ''stopReason'' = ''stopreason''"
  by code_simp+

lemma create_result_back:
  "unmarshal step_create_result empty_result (Some (jnorm (create_result_json r))) = Some r"
proof -
  have c: "decode_value step_content (jnorm (content_json (cr_content r))) (empty_content []) = Some (cr_content r)"
    by (rule content_back)
  show ?thesis
    by (cases "cr_stopReason r = []"; cases r)
      (use c in \<open>simp_all add: create_result_json_def unmarshal_def decode_value_def [of step_create_result] step_create_result_def
        fold_eq fold_keys sampling_keys put_str_def opt_str_def empty_result_def\<close>)
qed

text \<open>What is written is read back: the wire forms are codecs, so different messages are written
  differently.\<close>

interpretation create_result_codec: codec create_result_json
    "\<lambda>v. unmarshal step_create_result empty_result (Some (jnorm v))" "\<lambda>_. True"
  by unfold_locales (simp add: create_result_back)

lemma create_result_json_inj: "create_result_json r = create_result_json r' \<longleftrightarrow> r = r'"
  by (rule create_result_codec.enc_inj) simp_all

lemma root_back: "decode_value step_root (jnorm (root_json r)) \<lparr>rt_uri = [], rt_name = []\<rparr> = Some r"
  by (cases "rt_name r = []"; cases r)
    (simp_all add: root_json_def decode_value_def step_root_def fold_eq fold_keys put_str_def opt_str_def)

lemma roots_back:
  "unmarshal step_roots [] (Some (jnorm (GMap [(''roots'', GList (map root_json rs))]))) = Some rs"
proof -
  have "those (map (\<lambda>x. decode_value step_root x \<lparr>rt_uri = [], rt_name = []\<rparr>) (map (\<lambda>r. jnorm (root_json r)) rs)) = Some rs"
    by (rule those_back) (rule root_back)
  then show ?thesis by (simp add: unmarshal_def decode_value_def [of step_roots] step_roots_def fold_eq sampling_keys comp_def)
qed

interpretation roots_codec: codec "\<lambda>rs. GMap [(''roots'', GList (map root_json rs))]"
    "\<lambda>v. unmarshal step_roots [] (Some (jnorm v))" "\<lambda>_. True"
  by unfold_locales (rule roots_back)

text \<open>
  C40: A handler that asks for sampling gets exactly the message that the client's
  handler returned for the parameters it sent, and the client's refusal when there is no handler, or the
  handler's own error, as the message of an error; one that asks for the roots gets the client's roots.
\<close>

theorem sampling_end_to_end:
  assumes "js_enc js (create_result_json r) = Inr b"
    and "js_enc js (GMap [(''roots'', GList (map root_json (case cl_roots c of None \<Rightarrow> [] | Some rs \<Rightarrow> rs)))]) = Inr b'"
    and "\<And>h. cl_sampling c = Some h \<Longrightarrow>
      h (Some (jnorm (create_params_json p))) w = ((if fails then Inl e else Inr (create_result_json r)), w')"
    and "cl_rootsHandler c = None"
  shows "ctx_CreateMessage ctx_err (Some (as_reply (fst (handleServerRequest js c (fst (create_request p)) (Some (jnorm (snd (create_request p)))) w)))) =
      (if cl_sampling c = None then Inl (Msg ''client has no sampling handler'')
       else if fails then Inl (Msg e) else Inr r)
    \<and> ctx_ListRoots ctx_err (Some (as_reply (fst (handleServerRequest js c ''roots/list'' None w)))) =
      Inr (case cl_roots c of None \<Rightarrow> [] | Some rs \<Rightarrow> rs)"
proof
  show "ctx_CreateMessage ctx_err (Some (as_reply (fst (handleServerRequest js c (fst (create_request p)) (Some (jnorm (snd (create_request p)))) w)))) =
      (if cl_sampling c = None then Inl (Msg ''client has no sampling handler'')
       else if fails then Inl (Msg e) else Inr r)"
  proof (cases "cl_sampling c")
    case None
    then show ?thesis
      by (simp add: create_request_def handleServerRequest_def as_reply_def ctx_CreateMessage_def request_return_def wire_err_def)
  next
    case (Some h)
    from assms(3) [OF Some] show ?thesis
      by (simp add: create_request_def handleServerRequest_def Some as_reply_def ctx_CreateMessage_def request_return_def wire_err_def
          marshal_result_def assms(1) create_result_codec.dec_enc)
  qed
  show "ctx_ListRoots ctx_err (Some (as_reply (fst (handleServerRequest js c ''roots/list'' None w)))) =
      Inr (case cl_roots c of None \<Rightarrow> [] | Some rs \<Rightarrow> rs)"
    by (simp add: handleServerRequest_def assms(4) marshal_result_def assms(2) as_reply_def ctx_ListRoots_def request_return_def
        roots_back del: jnorm.simps)
qed

definition sampled :: create_result where
  "sampled = \<lparr>cr_role = ''assistant'', cr_content = NewTextContent ''hi'', cr_model = ''m'', cr_stopReason = []\<rparr>"

definition sampling_client :: "nat client" where
  "sampling_client = newClient [WithSamplingHandler (Some (\<lambda>p w. (Inr (create_result_json sampled), w + 1))),
     WithRoots (Some [\<lparr>rt_uri = ''file:///a'', rt_name = []\<rparr>])]"

definition sample_ask :: create_params where
  "sample_ask = \<lparr>cp_messages = [\<lparr>sm_role = ''user'', sm_content = NewTextContent ''hello''\<rparr>], cp_systemPrompt = [],
     cp_includeContext = [], cp_temperature = 1 / 2, cp_maxTokens = 10, cp_stopSequences = [], cp_modelPreferences = GNil,
     cp_metadata = GNil\<rparr>"

definition any_json :: json_lib where
  "any_json = \<lparr>js_enc = (\<lambda>_. Inr []), js_dec = (\<lambda>_. None), js_text = [], js_quote = (\<lambda>s. s)\<rparr>"

theorem sampling_end_to_end_witness:
  "ctx_CreateMessage [] (Some (as_reply (fst (handleServerRequest any_json sampling_client ''sampling/createMessage'' (Some (jnorm (create_params_json sample_ask))) 0))))
     = Inr sampled
   \<and> ctx_ListRoots [] (Some (as_reply (fst (handleServerRequest any_json sampling_client ''roots/list'' None 0))))
     = Inr [\<lparr>rt_uri = ''file:///a'', rt_name = []\<rparr>]"
proof -
  let ?h = "\<lambda>(p::gval option) (w::nat). (Inr (create_result_json sampled) :: string + gval, w + 1)"
  have f: "cl_sampling sampling_client = Some ?h" "cl_roots sampling_client = Some [\<lparr>rt_uri = ''file:///a'', rt_name = []\<rparr>]"
    "cl_rootsHandler sampling_client = None"
    by (simp_all add: sampling_client_def newClient_def WithSamplingHandler_def WithRoots_def)
  show ?thesis
    using sampling_end_to_end [where js = any_json and c = sampling_client and r = sampled and fails = False and w = 0 and w' = 1
        and b = "[]" and b' = "[]" and p = sample_ask and ctx_err = "[]" and e = "[]"]
    by (simp add: f create_request_def) (simp add: any_json_def)
qed

end
