(* ===== verification/Pipe.thy ===== *)
theory Pipe
  imports Prelude GoStd
begin

text \<open>
  The streams of \<open>src/transport/transport.go\<close>: \<open>io.Pipe\<close> as its documentation has it (a write waits
  until its bytes are read or an end is closed, a read takes what the write has left), and the two
  linked ends that \<open>Pipe\<close> builds from two of them. An operation that blocks is not a step.
\<close>

section \<open>One pipe\<close>

datatype pipe_error = ErrClosedPipe | PipeEOF

text \<open>What the write under way has left, if there is one, and which ends are closed.\<close>

record pipe =
  pi_left :: "string option"
  pi_rclosed :: bool
  pi_wclosed :: bool

definition io_Pipe :: pipe where
  "io_Pipe = \<lparr>pi_left = None, pi_rclosed = False, pi_wclosed = False\<rparr>"

definition pipe_Write :: "string \<Rightarrow> pipe \<Rightarrow> (pipe_error option \<times> pipe) option" where
  "pipe_Write s p =
     (if pi_rclosed p \<or> pi_wclosed p then Some (Some ErrClosedPipe, p)
      else if pi_left p \<noteq> None then None
      else Some (None, p\<lparr>pi_left := Some s\<rparr>))"

definition pipe_Read :: "nat \<Rightarrow> pipe \<Rightarrow> ((pipe_error + string) \<times> pipe) option" where
  "pipe_Read n p =
     (if pi_rclosed p then Some (Inl ErrClosedPipe, p)
      else if pi_wclosed p then Some (Inl PipeEOF, p)
      else (case pi_left p of
              None \<Rightarrow> None
            | Some s \<Rightarrow> Some (Inr (take n s), p\<lparr>pi_left := (if drop n s = [] then None else Some (drop n s))\<rparr>)))"

text \<open>Closing an end drops what the write under way has left; the writer gets an error.\<close>

definition pipe_close_read :: "pipe \<Rightarrow> pipe" where
  "pipe_close_read p = p\<lparr>pi_rclosed := True, pi_left := None\<rparr>"

definition pipe_close_write :: "pipe \<Rightarrow> pipe" where
  "pipe_close_write p = p\<lparr>pi_wclosed := True, pi_left := None\<rparr>"

section \<open>Two linked streams\<close>

datatype stream_end = EndA | EndB

text \<open>The pipe that \<open>a\<close> writes and \<open>b\<close> reads, and the one the other way.\<close>

record duplex =
  du_ab :: pipe
  du_ba :: pipe

definition duplex_Pipe :: duplex where
  "duplex_Pipe = \<lparr>du_ab = io_Pipe, du_ba = io_Pipe\<rparr>"

definition stream_Read :: "stream_end \<Rightarrow> nat \<Rightarrow> duplex \<Rightarrow> ((pipe_error + string) \<times> duplex) option" where
  "stream_Read e n d =
     (case e of
        EndA \<Rightarrow> map_option (\<lambda>(r, p). (r, d\<lparr>du_ba := p\<rparr>)) (pipe_Read n (du_ba d))
      | EndB \<Rightarrow> map_option (\<lambda>(r, p). (r, d\<lparr>du_ab := p\<rparr>)) (pipe_Read n (du_ab d)))"

definition stream_Write :: "stream_end \<Rightarrow> string \<Rightarrow> duplex \<Rightarrow> (pipe_error option \<times> duplex) option" where
  "stream_Write e s d =
     (case e of
        EndA \<Rightarrow> map_option (\<lambda>(r, p). (r, d\<lparr>du_ab := p\<rparr>)) (pipe_Write s (du_ab d))
      | EndB \<Rightarrow> map_option (\<lambda>(r, p). (r, d\<lparr>du_ba := p\<rparr>)) (pipe_Write s (du_ba d)))"

text \<open>Neither of the two closings fails.\<close>

definition stream_Close :: "stream_end \<Rightarrow> duplex \<Rightarrow> duplex" where
  "stream_Close e d =
     (case e of
        EndA \<Rightarrow> d\<lparr>du_ab := pipe_close_write (du_ab d), du_ba := pipe_close_read (du_ba d)\<rparr>
      | EndB \<Rightarrow> d\<lparr>du_ba := pipe_close_write (du_ba d), du_ab := pipe_close_read (du_ab d)\<rparr>)"

datatype stream_label = SRead stream_end string | SWrite stream_end string | SRefused stream_end | SClose stream_end

inductive stream_step :: "duplex \<Rightarrow> stream_label \<Rightarrow> duplex \<Rightarrow> bool" where
  s_read: "stream_Read e n d = Some (Inr s, d') \<Longrightarrow> stream_step d (SRead e s) d'"
| s_read_error: "stream_Read e n d = Some (Inl err, d') \<Longrightarrow> stream_step d (SRefused e) d'"
| s_write: "stream_Write e s d = Some (None, d') \<Longrightarrow> stream_step d (SWrite e s) d'"
| s_write_error: "stream_Write e s d = Some (Some err, d') \<Longrightarrow> stream_step d (SRefused e) d'"
| s_close: "stream_step d (SClose e) (stream_Close e d)"

inductive stream_run :: "stream_label list \<Rightarrow> duplex \<Rightarrow> bool" where
  stream_none: "stream_run [] duplex_Pipe"
| stream_more: "stream_run ls d \<Longrightarrow> stream_step d l d' \<Longrightarrow> stream_run (ls @ [l]) d'"

section \<open>Bytes arrive in order\<close>

definition sent :: "stream_end \<Rightarrow> stream_label list \<Rightarrow> string" where
  "sent e ls = concat (map (\<lambda>l. case l of SWrite x s \<Rightarrow> if x = e then s else [] | _ \<Rightarrow> []) ls)"

definition received :: "stream_end \<Rightarrow> stream_label list \<Rightarrow> string" where
  "received e ls = concat (map (\<lambda>l. case l of SRead x s \<Rightarrow> if x = e then s else [] | _ \<Rightarrow> []) ls)"

text \<open>What is still on the way in a pipe; once an end is closed, some of it may be lost.\<close>

definition in_pipe :: "pipe \<Rightarrow> string" where
  "in_pipe p = (case pi_left p of None \<Rightarrow> [] | Some s \<Rightarrow> s)"

definition flows :: "pipe \<Rightarrow> string \<Rightarrow> string \<Rightarrow> bool" where
  "flows p out inp \<longleftrightarrow>
     (\<exists>lost. inp @ in_pipe p @ lost = out \<and> (lost = [] \<or> pi_rclosed p \<or> pi_wclosed p))
     \<and> (pi_rclosed p \<or> pi_wclosed p \<longrightarrow> pi_left p = None)"

lemma flows_write: "flows p out inp \<Longrightarrow> pipe_Write s p = Some (None, p') \<Longrightarrow> flows p' (out @ s) inp"
  by (auto simp: flows_def pipe_Write_def in_pipe_def split: if_splits option.splits)

lemma flows_read: "flows p out inp \<Longrightarrow> pipe_Read n p = Some (Inr s, p') \<Longrightarrow> flows p' out (inp @ s)"
  by (auto simp: flows_def pipe_Read_def in_pipe_def split: if_splits option.splits)

lemma write_refused: "pipe_Write s p = Some (Some e, p') \<Longrightarrow> p' = p"
  by (auto simp: pipe_Write_def split: if_splits)

lemma read_refused: "pipe_Read n p = Some (Inl e, p') \<Longrightarrow> p' = p"
  by (auto simp: pipe_Read_def split: if_splits option.splits)

lemma flows_close: "flows p out inp \<Longrightarrow> flows (pipe_close_read p) out inp" "flows p out inp \<Longrightarrow> flows (pipe_close_write p) out inp"
  by (auto simp: flows_def pipe_close_read_def pipe_close_write_def in_pipe_def)

lemma stream_flows:
  "stream_run ls d \<Longrightarrow> flows (du_ab d) (sent EndA ls) (received EndB ls) \<and> flows (du_ba d) (sent EndB ls) (received EndA ls)"
proof (induction rule: stream_run.induct)
  case stream_none
  show ?case by (simp add: flows_def duplex_Pipe_def io_Pipe_def in_pipe_def sent_def received_def)
next
  case (stream_more ls d l d')
  from stream_more(2,3) show ?case
  proof (induction rule: stream_step.induct)
    case (s_read e n d s d')
    then show ?case by (cases e) (auto simp: stream_Read_def sent_def received_def dest: flows_read)
  next
    case (s_read_error e n d err d')
    then show ?case by (cases e) (auto simp: stream_Read_def sent_def received_def dest: read_refused)
  next
    case (s_write e s d d')
    then show ?case by (cases e) (auto simp: stream_Write_def sent_def received_def dest: flows_write)
  next
    case (s_write_error e s d err d')
    then show ?case by (cases e) (auto simp: stream_Write_def sent_def received_def dest: write_refused)
  next
    case (s_close d e)
    then show ?case by (cases e) (auto simp: stream_Close_def sent_def received_def flows_close)
  qed
qed

text \<open>
  Over the two linked streams each end reads the bytes the other wrote, in their
  order and nothing else; while no end is closed what was read and what the write under way has left
  are together all that was written.
\<close>

theorem stream_in_order:
  assumes "stream_run ls d"
  shows "(\<exists>rest. received EndB ls @ rest = sent EndA ls) \<and> (\<exists>rest. received EndA ls @ rest = sent EndB ls)
    \<and> (\<not> pi_rclosed (du_ab d) \<and> \<not> pi_wclosed (du_ab d) \<longrightarrow> received EndB ls @ in_pipe (du_ab d) = sent EndA ls)"
  using stream_flows [OF assms] unfolding flows_def by auto

theorem stream_in_order_witness:
  "\<exists>d. stream_run [SWrite EndA ''ab'', SRead EndB ''a'', SRead EndB ''b''] d
     \<and> received EndB [SWrite EndA ''ab'', SRead EndB ''a'', SRead EndB ''b''] = ''ab''"
proof -
  let ?x = "duplex_Pipe\<lparr>du_ab := io_Pipe\<lparr>pi_left := Some ''ab''\<rparr>\<rparr>"
  let ?y = "duplex_Pipe\<lparr>du_ab := io_Pipe\<lparr>pi_left := Some ''b''\<rparr>\<rparr>"
  have "stream_step duplex_Pipe (SWrite EndA ''ab'') ?x"
    by (rule s_write) (simp add: stream_Write_def duplex_Pipe_def pipe_Write_def io_Pipe_def)
  moreover have "stream_step ?x (SRead EndB ''a'') ?y"
    by (rule s_read [where n = 1]) (simp add: stream_Read_def duplex_Pipe_def pipe_Read_def io_Pipe_def)
  moreover have "stream_step ?y (SRead EndB ''b'') duplex_Pipe"
    by (rule s_read [where n = 5]) (simp add: stream_Read_def duplex_Pipe_def pipe_Read_def io_Pipe_def)
  ultimately have run: "stream_run ((([] @ [SWrite EndA ''ab'']) @ [SRead EndB ''a'']) @ [SRead EndB ''b'']) duplex_Pipe"
    by (intro stream_more [OF stream_more [OF stream_more [OF stream_none]]])
  have "received EndB [SWrite EndA ''ab'', SRead EndB ''a'', SRead EndB ''b''] = sent EndA [SWrite EndA ''ab'', SRead EndB ''a'', SRead EndB ''b'']"
    using stream_in_order [OF run] by (simp add: duplex_Pipe_def io_Pipe_def in_pipe_def)
  then show ?thesis using run by (auto simp: sent_def)
qed

end
