(* ===== verification/DocGen.thy ===== *)
theory DocGen
  imports Prelude GoStd Json "HOL-Library.Char_ord" "HOL-Library.List_Lexorder"
begin

text \<open>
  The documentation generator, \<open>src/docs/gen/main.go\<close>. A source tree is a tree of directories, each
  with what the Go parser returns for its files; \<open>go/doc\<close>'s values are records with the fields the
  generator reads, over a type \<open>'n\<close> of syntax nodes and \<open>'f\<close> of parsed files. The parser, the
  formatter and the printer of nodes, the clock and the encoder of JSON are the record \<open>doc_lib\<close>. A
  path below the output directory is the list of its parts. The style sheet and the script of a page
  are arguments; the bytes of the three symbols outside ASCII are written out. Lines of \<open>go.mod\<close>
  beyond the scanner's 64 KB are left out.
\<close>

section \<open>What \<open>go/doc\<close> returns\<close>

record 'n doc_example =
  ex_Name :: string
  ex_Play :: "'n option"
  ex_Code :: "'n option"
  ex_Output :: string
  ex_Doc :: string

record 'n doc_value =
  dv_Names :: "string list"
  dv_Decl :: 'n
  dv_Doc :: string

record 'n doc_func =
  df_Name :: string
  df_Recv :: string
  df_Decl :: 'n
  df_Doc :: string
  df_Examples :: "'n doc_example list"

record 'n doc_type =
  dt_Name :: string
  dt_Decl :: 'n
  dt_Doc :: string
  dt_Consts :: "'n doc_value list"
  dt_Vars :: "'n doc_value list"
  dt_Funcs :: "'n doc_func list"
  dt_Methods :: "'n doc_func list"
  dt_Examples :: "'n doc_example list"

record 'n doc_package =
  dp_Doc :: string
  dp_Name :: string
  dp_Consts :: "'n doc_value list"
  dp_Vars :: "'n doc_value list"
  dp_Funcs :: "'n doc_func list"
  dp_Types :: "'n doc_type list"
  dp_Examples :: "'n doc_example list"

text \<open>\<open>dl_format\<close> and \<open>dl_print\<close> fail as \<open>None\<close>; \<open>dl_order\<close> is the order a map is ranged over a second
  time; \<open>dl_mkdir\<close> and \<open>dl_write\<close> are the errors of the file system.\<close>

record ('f, 'n) doc_lib =
  dl_format :: "'n \<Rightarrow> string option"
  dl_print :: "'n \<Rightarrow> string option"
  dl_verb :: "'n \<Rightarrow> string"
  dl_synopsis :: "string \<Rightarrow> string"
  dl_newFromFiles :: "'f list \<Rightarrow> string \<Rightarrow> 'n doc_package option"
  dl_new :: "'f list \<Rightarrow> string \<Rightarrow> 'n doc_package"
  dl_order :: "(string \<times> 'f list) list \<Rightarrow> (string \<times> 'f list) list"
  dl_json :: "gval \<Rightarrow> string + string"
  dl_now :: string
  dl_dir :: "string \<Rightarrow> string"
  dl_mkdir :: "string list \<Rightarrow> string option"
  dl_write :: "string list \<Rightarrow> string option"

section \<open>Collecting packages\<close>

record 'n pkg_info =
  pi_ImportPath :: string
  pi_Rel :: string
  pi_Doc :: "'n doc_package option"

definition Synopsis :: "('f, 'n) doc_lib \<Rightarrow> 'n pkg_info \<Rightarrow> string" where
  "Synopsis lib p = (case pi_Doc p of None \<Rightarrow> [] | Some d \<Rightarrow> dl_synopsis lib (dp_Doc d))"

text \<open>\<open>filepath.Base\<close> of an import path.\<close>

definition path_base :: "string \<Rightarrow> string" where
  "path_base s =
     (if s = [] then ''.''
      else let t = trim_right (\<lambda>c. c = CHR ''/'') s in if t = [] then ''/'' else last (split_on (CHR ''/'') t))"

definition pkg_Name :: "'n pkg_info \<Rightarrow> string" where
  "pkg_Name p = (case pi_Doc p of Some d \<Rightarrow> dp_Name d | None \<Rightarrow> path_base (pi_ImportPath p))"

text \<open>A directory with its name, the packages parsed in it (\<open>None\<close> when the parser fails), and its
  directories in the order of their names, or the error of reading it.\<close>

datatype 'f source_dir =
    Dir string "(string \<times> 'f list) list option" "'f source_dir list"
  | Unread string string

fun dir_name :: "'f source_dir \<Rightarrow> string" where
  "dir_name (Dir nm ps subs) = nm"
| "dir_name (Unread nm e) = nm"

definition skipped_dir :: "string \<Rightarrow> bool" where
  "skipped_dir base \<longleftrightarrow> base = ''testdata'' \<or> base = ''_site'' \<or> base = ''.git'' \<or> has_prefix base ''.''
     \<or> base = ''node_modules'' \<or> base = ''web'' \<or> base = ''vendor'' \<or> base = ''docs'' \<or> base = ''examples''"

definition parsePackage ::
  "('f, 'n) doc_lib \<Rightarrow> string list \<Rightarrow> string \<Rightarrow> (string \<times> 'f list) list option \<Rightarrow> 'n pkg_info option" where
  "parsePackage lib path modPath parsed =
     (case parsed of
        None \<Rightarrow> None
      | Some ps \<Rightarrow>
          (case find (\<lambda>(nm, fs). \<not> has_suffix nm ''_test'') ps of
             None \<Rightarrow> None
           | Some (primary, fs) \<Rightarrow>
               if primary = [] then None
               else
                 let files = concat (map snd (filter (\<lambda>(nm, fs). nm = primary \<or> nm = primary @ ''_test'') (dl_order lib ps)));
                     rel = join_with ''/'' path;
                     importPath = (if rel \<noteq> [] then modPath @ ''/'' @ rel else modPath);
                     d = (case dl_newFromFiles lib files importPath of
                            Some d \<Rightarrow> d
                          | None \<Rightarrow> dl_new lib fs importPath)
                 in Some \<lparr>pi_ImportPath = importPath, pi_Rel = rel, pi_Doc = Some d\<rparr>))"

text \<open>The walk: \<open>Inl\<close> is the error that ends it.\<close>

definition visit ::
  "('f, 'n) doc_lib \<Rightarrow> string list \<Rightarrow> string \<Rightarrow> (string \<times> 'f list) list option \<Rightarrow> 'n pkg_info list \<Rightarrow> 'n pkg_info list" where
  "visit lib path modPath ps pkgs =
     (case parsePackage lib path modPath ps of None \<Rightarrow> pkgs | Some p \<Rightarrow> pkgs @ [p])"

fun walk :: "('f, 'n) doc_lib \<Rightarrow> string \<Rightarrow> string list \<Rightarrow> 'f source_dir \<Rightarrow> 'n pkg_info list \<Rightarrow> string + 'n pkg_info list"
  and walk_list :: "('f, 'n) doc_lib \<Rightarrow> string \<Rightarrow> string list \<Rightarrow> 'f source_dir list \<Rightarrow> 'n pkg_info list \<Rightarrow> string + 'n pkg_info list" where
  "walk lib modPath path (Dir nm ps subs) pkgs =
     (if path \<noteq> [] \<and> skipped_dir nm then Inr pkgs else walk_list lib modPath path subs (visit lib path modPath ps pkgs))"
| "walk lib modPath path (Unread nm e) pkgs = Inl e"
| "walk_list lib modPath path [] pkgs = Inr pkgs"
| "walk_list lib modPath path (d # ds) pkgs =
     (case walk lib modPath (path @ [dir_name d]) d pkgs of
        Inl e \<Rightarrow> Inl e
      | Inr pkgs' \<Rightarrow> walk_list lib modPath path ds pkgs')"

definition collectPackages :: "('f, 'n) doc_lib \<Rightarrow> string \<Rightarrow> 'f source_dir \<Rightarrow> string + 'n pkg_info list" where
  "collectPackages lib modPath tree = walk lib modPath [] tree []"

text \<open>\<open>modulePath\<close>, on what reading \<open>go.mod\<close> gives.\<close>

fun module_line :: "string list \<Rightarrow> string option" where
  "module_line [] = None"
| "module_line (l # ls) =
     (let line = trim_space l in
        if has_prefix line ''module '' then Some (trim_space (drop 6 line)) else module_line ls)"

definition modulePath :: "string \<Rightarrow> string + string \<Rightarrow> string + string" where
  "modulePath goMod content =
     (case content of
        Inl e \<Rightarrow> Inl e
      | Inr s \<Rightarrow> (case module_line (split_on (CHR 0x0A) s) of
          Some m \<Rightarrow> Inr m
        | None \<Rightarrow> Inl (''gendocs: no module directive in '' @ goMod)))"

section \<open>Examples and signatures\<close>

definition exampleTitle :: "string \<Rightarrow> string" where
  "exampleTitle name =
     (if name = [] then []
      else (case index_byte (CHR ''_'') name of
              Some i \<Rightarrow>
                (let base = take i name; suffix = replace_all (drop (Suc i) name) ''_'' '' '' in
                   if base = [] then suffix else base @ '' ('' @ suffix @ '')'')
            | None \<Rightarrow> name))"

definition TrimPrefix :: "string \<Rightarrow> string \<Rightarrow> string" where
  "TrimPrefix s p = (if has_prefix s p then drop (length p) s else s)"

definition TrimSuffix :: "string \<Rightarrow> string \<Rightarrow> string" where
  "TrimSuffix s p = (if has_suffix s p then take (length s - length p) s else s)"

definition dedentBlock :: "string \<Rightarrow> string" where
  "dedentBlock s0 =
     (let s = trim_space s0 in
        if has_prefix s ''{'' \<and> has_suffix s ''}''
        then trim_space (join_with [CHR 0x0A]
               (map (\<lambda>ln. TrimPrefix ln [CHR 0x09]) (split_on (CHR 0x0A) (TrimSuffix (TrimPrefix s ''{'') ''}''))))
        else s)"

definition exampleCode :: "('f, 'n) doc_lib \<Rightarrow> 'n doc_example \<Rightarrow> string" where
  "exampleCode lib ex =
     (case Option.bind (ex_Play ex) (dl_format lib) of
        Some s \<Rightarrow> trim_space s
      | None \<Rightarrow> (case Option.bind (ex_Code ex) (dl_format lib) of
            Some s \<Rightarrow> dedentBlock s
          | None \<Rightarrow> []))"

record json_example =
  je_Name :: string
  je_Code :: string
  je_Output :: string
  je_Doc :: string

text \<open>The closure \<open>add\<close>, over \<open>out\<close> and \<open>seen\<close>.\<close>

fun add_examples :: "('f, 'n) doc_lib \<Rightarrow> 'n doc_example list \<Rightarrow> json_example list \<times> string set \<Rightarrow> json_example list \<times> string set" where
  "add_examples lib [] acc = acc"
| "add_examples lib (ex # exs) (out, seen) =
     (let code = exampleCode lib ex in
        if trim_space code = [] \<or> code \<in> seen then add_examples lib exs (out, seen)
        else add_examples lib exs
               (out @ [\<lparr>je_Name = exampleTitle (ex_Name ex), je_Code = code,
                        je_Output = trim_right (\<lambda>c. c = CHR 0x0A) (ex_Output ex), je_Doc = ex_Doc ex\<rparr>],
                insert code seen))"

definition collectExamples :: "('f, 'n) doc_lib \<Rightarrow> 'n pkg_info \<Rightarrow> json_example list" where
  "collectExamples lib p =
     (case pi_Doc p of
        None \<Rightarrow> []
      | Some d \<Rightarrow>
          let funcs = fold (\<lambda>f. add_examples lib (df_Examples f)) in
          fst (fold (\<lambda>t acc. funcs (dt_Methods t) (funcs (dt_Funcs t) (add_examples lib (dt_Examples t) acc))) (dp_Types d)
            (funcs (dp_Funcs d) (add_examples lib (dp_Examples d) ([], {})))))"

definition nodeString :: "('f, 'n) doc_lib \<Rightarrow> 'n \<Rightarrow> string" where
  "nodeString lib nd = (case dl_print lib nd of Some s \<Rightarrow> s | None \<Rightarrow> dl_verb lib nd)"

definition oneLine :: "string \<Rightarrow> string" where
  "oneLine s = join_with '' '' (GoStd.fields (replace_all s [CHR 0x0A] '' ''))"

section \<open>JSON\<close>

definition json_values :: "('f, 'n) doc_lib \<Rightarrow> 'n doc_value list \<Rightarrow> gval" where
  "json_values lib vs = GList (map (\<lambda>v. GMap
     [(''names'', GList (map GStr (dv_Names v))), (''signature'', GStr (nodeString lib (dv_Decl v))), (''doc'', GStr (dv_Doc v))]) vs)"

definition omit_empty :: "string \<Rightarrow> string \<Rightarrow> (string \<times> gval) list" where
  "omit_empty k s = (if s = [] then [] else [(k, GStr s)])"

definition json_funcs :: "('f, 'n) doc_lib \<Rightarrow> 'n doc_func list \<Rightarrow> gval" where
  "json_funcs lib fs = GList (map (\<lambda>f. GMap
     ([(''name'', GStr (df_Name f))] @ omit_empty ''recv'' (df_Recv f)
      @ [(''signature'', GStr (oneLine (nodeString lib (df_Decl f)))), (''doc'', GStr (df_Doc f))])) fs)"

definition json_type :: "('f, 'n) doc_lib \<Rightarrow> 'n doc_type \<Rightarrow> gval" where
  "json_type lib t = GMap
     [(''name'', GStr (dt_Name t)), (''signature'', GStr (nodeString lib (dt_Decl t))), (''doc'', GStr (dt_Doc t)),
      (''consts'', json_values lib (dt_Consts t)), (''vars'', json_values lib (dt_Vars t)),
      (''funcs'', json_funcs lib (dt_Funcs t)), (''methods'', json_funcs lib (dt_Methods t))]"

definition json_example_json :: "json_example \<Rightarrow> gval" where
  "json_example_json e = GMap ([(''name'', GStr (je_Name e)), (''code'', GStr (je_Code e))]
     @ omit_empty ''output'' (je_Output e) @ omit_empty ''doc'' (je_Doc e))"

definition jsonPackageOf :: "('f, 'n) doc_lib \<Rightarrow> 'n pkg_info \<Rightarrow> gval" where
  "jsonPackageOf lib p =
     (let front = [(''importPath'', GStr (pi_ImportPath p)), (''name'', GStr (pkg_Name p)), (''synopsis'', GStr (Synopsis lib p))] in
      case pi_Doc p of
        None \<Rightarrow> GMap (front @ [(''doc'', GStr []), (''consts'', GList []), (''vars'', GList []), (''types'', GList []), (''funcs'', GList [])])
      | Some d \<Rightarrow> GMap (front @ [(''doc'', GStr (dp_Doc d))]
          @ (if dp_Name d = ''main'' then [(''isCommand'', GBool True)] else [])
          @ [(''consts'', json_values lib (dp_Consts d)), (''vars'', json_values lib (dp_Vars d)),
             (''types'', GList (map (json_type lib) (dp_Types d))), (''funcs'', json_funcs lib (dp_Funcs d))]
          @ (let exs = collectExamples lib p in if exs = [] then [] else [(''examples'', GList (map json_example_json exs))])))"

definition json_index :: "('f, 'n) doc_lib \<Rightarrow> string \<Rightarrow> 'n pkg_info list \<Rightarrow> gval" where
  "json_index lib modPath pkgs = GMap ([(''module'', GStr modPath)] @ omit_empty ''generatedAt'' (dl_now lib)
     @ [(''packages'', GList (map (jsonPackageOf lib) pkgs))])"

section \<open>Pages\<close>

text \<open>\<open>html.EscapeString\<close>.\<close>

definition esc_char :: "char \<Rightarrow> string" where
  "esc_char c =
     (if c = CHR ''&'' then ''&amp;'' else if c = CHR 0x27 then ''&#39;'' else if c = CHR ''<'' then ''&lt;''
      else if c = CHR ''>'' then ''&gt;'' else if c = CHR 0x22 then ''&#34;'' else [c])"

definition EscapeString :: "string \<Rightarrow> string" where
  "EscapeString s = concat (map esc_char s)"

definition page :: "string \<Rightarrow> string \<Rightarrow> string \<Rightarrow> string \<Rightarrow> string" where
  "page style script title body =
     ''<!doctype html><html lang=\"en\" data-theme=\"dark\"><head><meta charset=\"utf-8\">''
     @ ''<meta name=\"viewport\" content=\"width=device-width,initial-scale=1\">''
     @ ''<title>'' @ EscapeString title @ ''</title><style>'' @ style @ ''</style></head><body>''
     @ body @ script @ ''</body></html>''"

definition footer :: string where
  "footer = ''<footer>Part of <a href=\"https://malcolmston.github.io/go/\">malcolmston/go</a> ''
     @ [CHR 0xC2, CHR 0xB7] @ '' generated by gendocs '' @ [CHR 0xC2, CHR 0xB7] @ '' standard library only</footer>''"

definition navbar :: "string \<Rightarrow> string" where
  "navbar modPath =
     ''<header class=\"nav\"><div class=\"nav-inner\">''
     @ ''<a class=\"brand\" href=\"https://malcolmston.github.io/go/\"><span class=\"logo\">go</span>malcolmston<span class=\"sub\">/go</span></a>''
     @ ''<span class=\"nav-ctx\">'' @ EscapeString modPath @ ''</span>''
     @ ''<button class=\"tbtn\" id=\"tbtn\" title=\"Toggle theme\" aria-label=\"Toggle theme\">''
     @ [CHR 0xE2, CHR 0x97, CHR 0x90] @ ''</button>'' @ ''</div></header>''"

definition pkgHref :: "'n pkg_info \<Rightarrow> string" where
  "pkgHref p = (if pi_Rel p = [] then ''./pkg/index.html'' else ''./pkg/'' @ pi_Rel p @ ''/index.html'')"

definition relUp :: "'n pkg_info \<Rightarrow> string" where
  "relUp p = concat (replicate (1 + (if pi_Rel p \<noteq> [] then length (filter (\<lambda>c. c = CHR ''/'') (pi_Rel p)) + 1 else 0)) ''../'')"

definition index_card :: "('f, 'n) doc_lib \<Rightarrow> 'n pkg_info \<Rightarrow> string" where
  "index_card lib p =
     ''<li><a class=\"card\" href=\"'' @ pkgHref p @ ''\"><span class=\"name\">'' @ EscapeString (pi_ImportPath p) @ ''</span>''
     @ (if Synopsis lib p \<noteq> [] then ''<span class=\"syn\">'' @ EscapeString (Synopsis lib p) @ ''</span>'' else [])
     @ ''</a></li>''"

definition index_body :: "('f, 'n) doc_lib \<Rightarrow> string \<Rightarrow> string \<Rightarrow> 'n pkg_info list \<Rightarrow> string" where
  "index_body lib title modPath pkgs =
     navbar modPath @ ''<main class=\"wrap\">'' @ ''<div class=\"crumb\">Package documentation</div>''
     @ ''<h1>'' @ EscapeString title @ ''</h1>''
     @ ''<p class=\"count\">'' @ (nat_dec (length pkgs) @ '' packages.'') @ ''</p>'' @ ''<ul class=\"pkgs\">''
     @ concat (map (index_card lib) pkgs) @ ''</ul>'' @ footer @ ''</main>''"

definition doc_div :: "string \<Rightarrow> string" where
  "doc_div d = (if trim_space d \<noteq> [] then ''<div class=\"doc\">'' @ EscapeString d @ ''</div>'' else [])"

definition writeValue :: "('f, 'n) doc_lib \<Rightarrow> 'n doc_value \<Rightarrow> string" where
  "writeValue lib v = ''<pre>'' @ EscapeString (nodeString lib (dv_Decl v)) @ ''</pre>'' @ doc_div (dv_Doc v)"

definition writeFunc :: "('f, 'n) doc_lib \<Rightarrow> 'n doc_func \<Rightarrow> string" where
  "writeFunc lib f =
     ''<h3>func '' @ EscapeString (df_Name f) @ ''</h3>''
     @ ''<pre>'' @ EscapeString (oneLine (nodeString lib (df_Decl f))) @ ''</pre>'' @ doc_div (df_Doc f)"

definition writeType :: "('f, 'n) doc_lib \<Rightarrow> 'n doc_type \<Rightarrow> string" where
  "writeType lib t =
     ''<h3>type '' @ EscapeString (dt_Name t) @ ''</h3>''
     @ ''<pre>'' @ EscapeString (nodeString lib (dt_Decl t)) @ ''</pre>'' @ doc_div (dt_Doc t)
     @ concat (map (writeValue lib) (dt_Consts t)) @ concat (map (writeValue lib) (dt_Vars t))
     @ concat (map (writeFunc lib) (dt_Funcs t)) @ concat (map (writeFunc lib) (dt_Methods t))"

definition package_body :: "('f, 'n) doc_lib \<Rightarrow> string \<Rightarrow> string \<Rightarrow> 'n pkg_info \<Rightarrow> string" where
  "package_body lib title modPath p =
     navbar modPath @ ''<main class=\"wrap\">''
     @ ''<div class=\"crumb\"><a href=\"'' @ relUp p @ ''index.html\">''
     @ [CHR 0xE2, CHR 0x80, CHR 0xB9] @ '' '' @ EscapeString title @ ''</a></div>''
     @ ''<h1>package '' @ EscapeString (pkg_Name p)
     @ (case pi_Doc p of Some d \<Rightarrow> if dp_Name d = ''main'' then ''<span class=\"cmd\">command</span>'' else [] | None \<Rightarrow> [])
     @ ''</h1>''
     @ ''<div><span class=\"import\">import \"'' @ EscapeString (pi_ImportPath p) @ ''\"</span></div>''
     @ (case pi_Doc p of
          None \<Rightarrow> []
        | Some d \<Rightarrow> doc_div (dp_Doc d)
            @ (if dp_Consts d \<noteq> [] \<or> dp_Vars d \<noteq> []
               then ''<h2>Constants &amp; Variables</h2>'' @ concat (map (writeValue lib) (dp_Consts d)) @ concat (map (writeValue lib) (dp_Vars d))
               else [])
            @ (if dp_Funcs d \<noteq> [] then ''<h2>Functions</h2>'' @ concat (map (writeFunc lib) (dp_Funcs d)) else [])
            @ (if dp_Types d \<noteq> [] then ''<h2>Types</h2>'' @ concat (map (writeType lib) (dp_Types d)) else []))
     @ footer @ ''</main>''"

section \<open>Writing the site\<close>

text \<open>What has been written, by paths, and the error that ended the program.\<close>

type_synonym site_run = "(string list \<times> string) list \<times> string option"

definition then_run :: "site_run \<Rightarrow> site_run \<Rightarrow> site_run" where
  "then_run a b = (case snd a of Some e \<Rightarrow> a | None \<Rightarrow> (fst a @ fst b, snd b))"

fun run_all :: "site_run list \<Rightarrow> site_run" where
  "run_all [] = ([], None)"
| "run_all (r # rs) = then_run r (run_all rs)"

definition make_dir :: "('f, 'n) doc_lib \<Rightarrow> string list \<Rightarrow> site_run" where
  "make_dir lib path = ([], dl_mkdir lib path)"

definition write_file :: "('f, 'n) doc_lib \<Rightarrow> string list \<Rightarrow> string \<Rightarrow> site_run" where
  "write_file lib path content = (case dl_write lib path of Some e \<Rightarrow> ([], Some e) | None \<Rightarrow> ([(path, content)], None))"

definition writeJSON :: "('f, 'n) doc_lib \<Rightarrow> string \<Rightarrow> string \<Rightarrow> 'n pkg_info list \<Rightarrow> site_run" where
  "writeJSON lib path modPath pkgs =
     (case dl_json lib (json_index lib modPath pkgs) of
        Inl e \<Rightarrow> ([], Some e)
      | Inr data \<Rightarrow>
          then_run (if dl_dir lib path \<noteq> [] then make_dir lib [dl_dir lib path] else ([], None)) (write_file lib [path] data))"

definition writeIndex ::
  "('f, 'n) doc_lib \<Rightarrow> string \<Rightarrow> string \<Rightarrow> string \<Rightarrow> string \<Rightarrow> string \<Rightarrow> 'n pkg_info list \<Rightarrow> site_run" where
  "writeIndex lib style script out title modPath pkgs =
     write_file lib [out, ''index.html''] (page style script title (index_body lib title modPath pkgs))"

definition page_dir :: "'n pkg_info \<Rightarrow> string list" where
  "page_dir p = ''pkg'' # (if pi_Rel p \<noteq> [] then split_on (CHR ''/'') (pi_Rel p) else [])"

definition writePackage ::
  "('f, 'n) doc_lib \<Rightarrow> string \<Rightarrow> string \<Rightarrow> string \<Rightarrow> string \<Rightarrow> string \<Rightarrow> 'n pkg_info \<Rightarrow> site_run" where
  "writePackage lib style script out title modPath p =
     then_run (make_dir lib (out # page_dir p))
       (write_file lib (out # page_dir p @ [''index.html''])
          (page style script (''package '' @ pkg_Name p @ '' '' @ [CHR 0xC2, CHR 0xB7] @ '' '' @ title)
             (package_body lib title modPath p)))"

record gen_flags =
  gf_out :: string
  gf_json :: string
  gf_title :: string
  gf_outSet :: bool

definition gendocs ::
  "('f, 'n) doc_lib \<Rightarrow> string \<Rightarrow> string \<Rightarrow> gen_flags \<Rightarrow> string + string \<Rightarrow> 'f source_dir \<Rightarrow> site_run" where
  "gendocs lib style script fl gomod tree =
     (case modulePath ''go.mod'' gomod of
        Inl e \<Rightarrow> ([], Some e)
      | Inr modPath \<Rightarrow>
          (let title = (if gf_title fl = [] then modPath else gf_title fl) in
           case collectPackages lib modPath tree of
             Inl e \<Rightarrow> ([], Some e)
           | Inr found \<Rightarrow>
               (let pkgs = sort_key pi_ImportPath found in
                then_run (if gf_json fl \<noteq> [] then writeJSON lib (gf_json fl) modPath pkgs else ([], None))
                  (if gf_json fl = [] \<or> gf_outSet fl
                   then run_all ([make_dir lib [gf_out fl], writeIndex lib style script (gf_out fl) title modPath pkgs]
                          @ map (writePackage lib style script (gf_out fl) title modPath) pkgs
                          @ [(fst (write_file lib [gf_out fl, ''.nojekyll''] []), None)])
                   else ([], None)))))"

section \<open>Examples\<close>

definition all_examples :: "'n doc_package \<Rightarrow> 'n doc_example list" where
  "all_examples d = dp_Examples d @ concat (map df_Examples (dp_Funcs d))
     @ concat (map (\<lambda>t. dt_Examples t @ concat (map df_Examples (dt_Funcs t)) @ concat (map df_Examples (dt_Methods t))) (dp_Types d))"

lemma add_examples_append: "add_examples lib (xs @ ys) acc = add_examples lib ys (add_examples lib xs acc)"
  by (induction lib xs acc rule: add_examples.induct) (simp_all add: Let_def)

lemma add_examples_fold: "fold (\<lambda>x. add_examples lib (f x)) xs acc = add_examples lib (concat (map f xs)) acc"
  by (induction xs arbitrary: acc) (simp_all add: add_examples_append)

lemma collect_all: "pi_Doc p = Some d \<Longrightarrow> collectExamples lib p = fst (add_examples lib (all_examples d) ([], {}))"
  by (simp add: collectExamples_def all_examples_def Let_def add_examples_fold add_examples_append [symmetric])

lemma add_examples_codes:
  "snd (add_examples lib exs ([], {})) = set (map je_Code (fst (add_examples lib exs ([], {}))))
   \<and> map je_Code (fst (add_examples lib exs ([], {}))) =
       first_occurrences (filter (\<lambda>c. trim_space c \<noteq> []) (map (exampleCode lib) exs))"
proof (induction exs rule: rev_induct)
  case Nil
  then show ?case by (simp add: first_occurrences_def)
next
  case (snoc ex exs)
  obtain out seen where a: "add_examples lib exs ([], {}) = (out, seen)" by (cases "add_examples lib exs ([], {})") simp
  from snoc [unfolded a fst_conv snd_conv] have ih: "seen = set (map je_Code out)"
    "map je_Code out = first_occurrences (filter (\<lambda>c. trim_space c \<noteq> []) (map (exampleCode lib) exs))"
    by blast+
  let ?c = "exampleCode lib ex" and ?L = "filter (\<lambda>c. trim_space c \<noteq> []) (map (exampleCode lib) exs)"
  have m: "seen = set ?L" unfolding ih by (simp only: set_first_occurrences)
  note step = add_examples_append a Let_def
  consider "trim_space ?c = []" | "trim_space ?c \<noteq> []" "?c \<in> set ?L" "?c \<in> seen" | "trim_space ?c \<noteq> []" "?c \<notin> set ?L" "?c \<notin> seen"
    using m by blast
  then show ?case
  proof cases
    case 1
    with ih show ?thesis by (simp add: step)
  next
    case 2
    with first_occurrences_snoc [of ?L ?c] ih show ?thesis by (simp add: step)
  next
    case 3
    with first_occurrences_snoc [of ?L ?c] ih show ?thesis by (simp add: step)
  qed
qed

text \<open>
  The examples of a package page. Every example of the package, its functions, its types and
  their functions and methods is shown, in that order, unless its code is blank; a code that several
  of them share is shown once, where it is first.
\<close>

theorem doc_examples:
  "map je_Code (collectExamples lib p) =
     first_occurrences (filter (\<lambda>c. trim_space c \<noteq> [])
       (map (exampleCode lib) (case pi_Doc p of None \<Rightarrow> [] | Some d \<Rightarrow> all_examples d)))"
proof (cases "pi_Doc p")
  case None
  then show ?thesis by (simp add: collectExamples_def first_occurrences_def)
next
  case (Some d)
  then show ?thesis using add_examples_codes [of lib "all_examples d"] by (simp add: collect_all)
qed

text \<open>The statements of a formatted block are the ones inside its braces, one tab further left.\<close>

lemma trim_space_braces: "trim_space (CHR ''{'' # s @ ''}'') = CHR ''{'' # s @ ''}''"
  by (simp add: trim_both_def trim_left_def trim_right_def is_space_def)

lemma split_lines: "\<forall>l\<in>set ls. c \<notin> set l \<Longrightarrow> split_on c (concat (map (\<lambda>l. l @ [c]) ls)) = ls @ [[]]"
  by (induction ls) (simp_all add: split_on_append)

lemma join_snoc: "ls \<noteq> [] \<Longrightarrow> join_with sep (ls @ [l]) = join_with sep ls @ sep @ l"
proof (induction ls)
  case (Cons a ls)
  then show ?case by (cases "ls = []") (simp_all add: join_with_Cons)
qed simp

lemma trim_both_around: "P c \<Longrightarrow> P d \<Longrightarrow> trim_both P (c # s @ [d]) = trim_both P s"
proof (cases "\<forall>x\<in>set s. P x")
  case True
  moreover assume "P c" "P d"
  ultimately show ?thesis
    by (auto simp: trim_both_def trim_left_def trim_right_def dropWhile_append dest: set_dropWhileD)
next
  case False
  then obtain x where "x \<in> set s" "\<not> P x" by blast
  then have "dropWhile P (s @ [d]) = dropWhile P s @ [d]" by (rule dropWhile_append1)
  moreover assume "P c" "P d"
  ultimately show ?thesis by (simp add: trim_both_def trim_left_def trim_right_def)
qed

lemma dedent_block:
  assumes "\<forall>l\<in>set ls. CHR 0x0A \<notin> set l"
  shows "dedentBlock (''{'' @ [CHR 0x0A] @ concat (map (\<lambda>l. CHR 0x09 # l @ [CHR 0x0A]) ls) @ ''}'') = trim_space (join_with [CHR 0x0A] ls)"
proof -
  let ?b = "CHR 0x0A # concat (map (\<lambda>l. l @ [CHR 0x0A]) (map (\<lambda>l. CHR 0x09 # l) ls))"
  have s: "''{'' @ [CHR 0x0A] @ concat (map (\<lambda>l. CHR 0x09 # l @ [CHR 0x0A]) ls) @ ''}'' = CHR ''{'' # ?b @ ''}''"
    by (simp add: comp_def)
  have "TrimSuffix (TrimPrefix (CHR ''{'' # ?b @ ''}'') ''{'') ''}'' = ?b"
    by (simp add: TrimPrefix_def TrimSuffix_def has_suffix_def)
  moreover have "split_on (CHR 0x0A) ?b = [] # map (\<lambda>l. CHR 0x09 # l) ls @ [[]]"
    using assms by (simp only: split_on.simps if_True, subst split_lines) auto
  ultimately have "dedentBlock (CHR ''{'' # ?b @ ''}'') = trim_space (join_with [CHR 0x0A] ([] # ls @ [[]]))"
    unfolding dedentBlock_def trim_space_braces Let_def
    by (simp add: has_suffix_def TrimPrefix_def comp_def)
  also have "\<dots> = trim_space (join_with [CHR 0x0A] ls)"
  proof (cases "ls = []")
    case True
    then show ?thesis by (simp add: trim_both_def trim_left_def trim_right_def is_space_def)
  next
    case False
    then have "join_with [CHR 0x0A] ([] # ls @ [[]]) = CHR 0x0A # join_with [CHR 0x0A] ls @ [CHR 0x0A]"
      by (simp add: join_with_Cons join_snoc)
    then show ?thesis by (simp add: trim_both_around is_space_def)
  qed
  finally show ?thesis by (simp only: s)
qed

text \<open>A signature is shown on one line.\<close>

lemma join_chars: "\<forall>s\<in>set path. c \<notin> set s \<Longrightarrow> c \<notin> set sep \<Longrightarrow> c \<notin> set (join_with sep path)"
proof (induction path)
  case (Cons s path)
  then show ?case by (cases "path = []") (simp_all add: join_with_Cons)
qed simp

lemma one_line: "CHR 0x0A \<notin> set (oneLine s)"
  unfolding oneLine_def
proof (rule join_chars)
  have "is_space (CHR 0x0A)" by (simp add: is_space_def)
  then show "\<forall>w\<in>set (GoStd.fields (replace_all s [CHR 0x0A] '' '')). CHR 0x0A \<notin> set w" using fields_nonempty by blast
qed simp

text \<open>A method's example has the title its suffix would have.\<close>

lemma method_title: "exampleTitle ''Strategy_Authenticate'' = ''Strategy (Authenticate)''"
  by (simp add: exampleTitle_def replace_all_char_concat)

text \<open>No null in the JSON: what is empty is an empty list.\<close>

fun has_null :: "gval \<Rightarrow> bool" where
  "has_null (GMap kvs) = (\<exists>kv\<in>set kvs. has_null (snd kv))"
| "has_null (GList vs) = (\<exists>v\<in>set vs. has_null v)"
| "has_null v = (v = GNil)"

lemma json_parts_null:
  "\<not> has_null (json_values lib vs)" "\<not> has_null (json_funcs lib fs)" "\<not> has_null (json_type lib t)" "\<not> has_null (json_example_json e)"
  by (auto simp: json_values_def json_funcs_def json_type_def json_example_json_def omit_empty_def)

lemma json_no_null: "\<not> has_null (json_index lib modPath pkgs)"
  by (auto simp: json_index_def omit_empty_def jsonPackageOf_def Let_def json_parts_null split: option.splits)

section \<open>What a reader of a page sees\<close>

text \<open>A page is read character by character: outside tags the text, with its entities; in tags the
  targets of links. Quotes inside a tag hide its end.\<close>

datatype token = Shown char | Link string

datatype reading = InText | InEntity string | InTag string | InQuotes string string

definition entity :: "string \<Rightarrow> char option" where
  "entity s = map_of [(''amp'', CHR ''&''), (''#39'', CHR 0x27), (''lt'', CHR ''<''), (''gt'', CHR ''>''), (''#34'', CHR 0x22)] s"

fun scan_page :: "reading \<Rightarrow> string \<Rightarrow> token list" where
  "scan_page (InEntity e) [] = map Shown (CHR ''&'' # e)"
| "scan_page md [] = []"
| "scan_page InText (c # s) =
     (if c = CHR ''<'' then scan_page (InTag []) s else if c = CHR ''&'' then scan_page (InEntity []) s
      else Shown c # scan_page InText s)"
| "scan_page (InEntity e) (c # s) =
     (if c = CHR '';''
      then (case entity e of Some x \<Rightarrow> Shown x # scan_page InText s | None \<Rightarrow> map Shown (CHR ''&'' # e @ '';'') @ scan_page InText s)
      else scan_page (InEntity (e @ [c])) s)"
| "scan_page (InTag tg) (c # s) =
     (if c = CHR ''>'' then scan_page InText s else if c = CHR 0x22 then scan_page (InQuotes tg []) s
      else scan_page (InTag (tg @ [c])) s)"
| "scan_page (InQuotes tg v) (c # s) =
     (if c = CHR 0x22
      then (if has_suffix tg '' href='' then [Link v] else []) @ scan_page (InTag tg) s
      else scan_page (InQuotes tg (v @ [c])) s)"

definition sees :: "string \<Rightarrow> token list \<Rightarrow> bool" where
  "sees s ts \<longleftrightarrow> (\<forall>r. scan_page InText (s @ r) = ts @ scan_page InText r)"

lemma seen_append: "sees a x \<Longrightarrow> sees b y \<Longrightarrow> sees (a @ b) (x @ y)"
  by (simp add: sees_def)

lemma seen_Nil: "sees [] []"
  by (simp add: sees_def)

lemma seen_concat: "\<forall>x\<in>set xs. sees (f x) (g x) \<Longrightarrow> sees (concat (map f xs)) (concat (map g xs))"
  by (induction xs) (auto intro: seen_append seen_Nil)

lemma seen_char: "sees (esc_char c) [Shown c]"
  by (simp add: sees_def esc_char_def entity_def)

lemma seen_escape: "sees (EscapeString s) (map Shown s)"
  using seen_concat [of s esc_char "\<lambda>c. [Shown c]"] seen_char by (simp add: EscapeString_def)

lemma quotes_end: "CHR 0x22 \<notin> set v \<Longrightarrow>
    scan_page (InQuotes tg w) (v @ CHR 0x22 # r) = (if has_suffix tg '' href='' then [Link (w @ v)] else []) @ scan_page (InTag tg) r"
  by (induction v arbitrary: w) auto

lemma seen_anchor:
  assumes "CHR 0x22 \<notin> set h"
  shows "sees (''<li><a class=\"card\" href=\"'' @ h @ ''\">'') [Link h]" "sees (''<div class=\"crumb\"><a href=\"'' @ h @ ''\">'') [Link h]"
  using assms by (simp_all add: sees_def quotes_end has_suffix_def)

text \<open>What the parts of a page show.\<close>

definition home :: string where
  "home = ''https://malcolmston.github.io/go/''"

definition nav_tokens :: "string \<Rightarrow> token list" where
  "nav_tokens modPath = Link home # map Shown (''gomalcolmston/go'' @ modPath @ [CHR 0xE2, CHR 0x97, CHR 0x90])"

definition foot_tokens :: "token list" where
  "foot_tokens = map Shown ''Part of '' @ Link home # map Shown (''malcolmston/go '' @ [CHR 0xC2, CHR 0xB7]
     @ '' generated by gendocs '' @ [CHR 0xC2, CHR 0xB7] @ '' standard library only'')"

lemma seen_footer: "sees footer foot_tokens"
  by (simp add: sees_def footer_def foot_tokens_def home_def has_suffix_def)

lemma seen_navbar: "sees (navbar modPath) (nav_tokens modPath)"
proof -
  let ?a = "''<header class=\"nav\"><div class=\"nav-inner\">''
     @ ''<a class=\"brand\" href=\"https://malcolmston.github.io/go/\"><span class=\"logo\">go</span>malcolmston<span class=\"sub\">/go</span></a>''
     @ ''<span class=\"nav-ctx\">''"
  let ?b = "''</span>'' @ ''<button class=\"tbtn\" id=\"tbtn\" title=\"Toggle theme\" aria-label=\"Toggle theme\">''
     @ [CHR 0xE2, CHR 0x97, CHR 0x90] @ ''</button>'' @ ''</div></header>''"
  have "sees ?a (Link home # map Shown ''gomalcolmston/go'')" by (simp add: sees_def home_def has_suffix_def)
  moreover have "sees ?b (map Shown [CHR 0xE2, CHR 0x97, CHR 0x90])" by (simp add: sees_def has_suffix_def)
  ultimately have "sees (?a @ EscapeString modPath @ ?b)
      ((Link home # map Shown ''gomalcolmston/go'') @ map Shown modPath @ map Shown [CHR 0xE2, CHR 0x97, CHR 0x90])"
    by (intro seen_append seen_escape)
  then show ?thesis by (simp add: navbar_def nav_tokens_def)
qed

text \<open>A tag without a link, and a piece of text between two tags.\<close>

definition silent :: "string \<Rightarrow> bool" where
  "silent s \<longleftrightarrow> sees s []"

lemma silent_append: "silent a \<Longrightarrow> sees b y \<Longrightarrow> sees (a @ b) y" "silent b \<Longrightarrow> sees a y \<Longrightarrow> sees (a @ b) y"
  using seen_append [of a "[]" b y] seen_append [of a y b "[]"] by (simp_all add: silent_def)

lemma seen_between: "silent a \<Longrightarrow> silent b \<Longrightarrow> sees (a @ EscapeString s @ b) (map Shown s)"
  by (intro silent_append seen_escape)

definition shown_doc :: "string \<Rightarrow> string" where
  "shown_doc d = (if trim_space d = [] then [] else d)"

definition shown_value :: "('f, 'n) doc_lib \<Rightarrow> 'n doc_value \<Rightarrow> string" where
  "shown_value lib v = nodeString lib (dv_Decl v) @ shown_doc (dv_Doc v)"

definition shown_func :: "('f, 'n) doc_lib \<Rightarrow> 'n doc_func \<Rightarrow> string" where
  "shown_func lib f = ''func '' @ df_Name f @ oneLine (nodeString lib (df_Decl f)) @ shown_doc (df_Doc f)"

definition shown_type :: "('f, 'n) doc_lib \<Rightarrow> 'n doc_type \<Rightarrow> string" where
  "shown_type lib t = ''type '' @ dt_Name t @ nodeString lib (dt_Decl t) @ shown_doc (dt_Doc t)
     @ concat (map (shown_value lib) (dt_Consts t)) @ concat (map (shown_value lib) (dt_Vars t))
     @ concat (map (shown_func lib) (dt_Funcs t)) @ concat (map (shown_func lib) (dt_Methods t))"

lemma seen_doc: "sees (doc_div d) (map Shown (shown_doc d))"
proof (cases "trim_space d = []")
  case True
  then show ?thesis by (simp add: doc_div_def shown_doc_def seen_Nil)
next
  case False
  have "sees (''<div class=\"doc\">'' @ EscapeString d @ ''</div>'') (map Shown d)"
    by (rule seen_between) (simp_all add: silent_def sees_def has_suffix_def)
  with False show ?thesis by (simp add: doc_div_def shown_doc_def)
qed

lemma seen_pre: "sees (''<pre>'' @ EscapeString s @ ''</pre>'') (map Shown s)"
  by (rule seen_between) (simp_all add: silent_def sees_def)

lemma seen_value: "sees (writeValue lib v) (map Shown (shown_value lib v))"
  using seen_append [OF seen_pre seen_doc, of "nodeString lib (dv_Decl v)" "dv_Doc v"]
  by (simp add: writeValue_def shown_value_def)

lemma seen_heading:
  assumes "sees a (map Shown x)"
  shows "sees (''<h3>'' @ a @ EscapeString s @ ''</h3>'') (map Shown (x @ s))"
  using assms unfolding map_append
  by (intro silent_append seen_append seen_escape) (simp_all add: silent_def sees_def)

lemma seen_func: "sees (writeFunc lib f) (map Shown (shown_func lib f))"
proof -
  have "sees (''<h3>'' @ ''func '' @ EscapeString (df_Name f) @ ''</h3>'') (map Shown (''func '' @ df_Name f))"
    by (rule seen_heading) (simp add: sees_def)
  from seen_append [OF this seen_append [OF seen_pre seen_doc, of "oneLine (nodeString lib (df_Decl f))" "df_Doc f"]]
  show ?thesis by (simp add: writeFunc_def shown_func_def)
qed

lemma seen_shown_concat:
  "(\<And>x. sees (f x) (map Shown (g x))) \<Longrightarrow> sees (concat (map f xs)) (map Shown (concat (map g xs)))"
  using seen_concat [of xs f "\<lambda>x. map Shown (g x)"] by (simp add: map_concat comp_def)

lemma seen_type: "sees (writeType lib t) (map Shown (shown_type lib t))"
proof -
  have "sees (''<h3>'' @ ''type '' @ EscapeString (dt_Name t) @ ''</h3>'') (map Shown (''type '' @ dt_Name t))"
    by (rule seen_heading) (simp add: sees_def)
  then have "sees ((''<h3>'' @ ''type '' @ EscapeString (dt_Name t) @ ''</h3>'')
      @ (''<pre>'' @ EscapeString (nodeString lib (dt_Decl t)) @ ''</pre>'') @ doc_div (dt_Doc t)
      @ concat (map (writeValue lib) (dt_Consts t)) @ concat (map (writeValue lib) (dt_Vars t))
      @ concat (map (writeFunc lib) (dt_Funcs t)) @ concat (map (writeFunc lib) (dt_Methods t)))
      (map Shown (''type '' @ dt_Name t) @ map Shown (nodeString lib (dt_Decl t)) @ map Shown (shown_doc (dt_Doc t))
      @ map Shown (concat (map (shown_value lib) (dt_Consts t))) @ map Shown (concat (map (shown_value lib) (dt_Vars t)))
      @ map Shown (concat (map (shown_func lib) (dt_Funcs t))) @ map Shown (concat (map (shown_func lib) (dt_Methods t))))"
    by (intro seen_append seen_pre seen_doc seen_shown_concat seen_value seen_func)
  then show ?thesis by (simp add: writeType_def shown_type_def)
qed

definition shown_package :: "('f, 'n) doc_lib \<Rightarrow> 'n doc_package \<Rightarrow> string" where
  "shown_package lib d = shown_doc (dp_Doc d)
     @ (if dp_Consts d \<noteq> [] \<or> dp_Vars d \<noteq> []
        then ''Constants & Variables'' @ concat (map (shown_value lib) (dp_Consts d)) @ concat (map (shown_value lib) (dp_Vars d)) else [])
     @ (if dp_Funcs d \<noteq> [] then ''Functions'' @ concat (map (shown_func lib) (dp_Funcs d)) else [])
     @ (if dp_Types d \<noteq> [] then ''Types'' @ concat (map (shown_type lib) (dp_Types d)) else [])"

definition package_tokens :: "('f, 'n) doc_lib \<Rightarrow> string \<Rightarrow> string \<Rightarrow> 'n pkg_info \<Rightarrow> token list" where
  "package_tokens lib title modPath p = nav_tokens modPath @ Link (relUp p @ ''index.html'')
     # map Shown ([CHR 0xE2, CHR 0x80, CHR 0xB9] @ '' '' @ title @ ''package '' @ pkg_Name p
         @ (case pi_Doc p of Some d \<Rightarrow> if dp_Name d = ''main'' then ''command'' else [] | None \<Rightarrow> [])
         @ ''import \"'' @ pi_ImportPath p @ ''\"'' @ (case pi_Doc p of None \<Rightarrow> [] | Some d \<Rightarrow> shown_package lib d))
     @ foot_tokens"

definition index_tokens :: "('f, 'n) doc_lib \<Rightarrow> string \<Rightarrow> string \<Rightarrow> 'n pkg_info list \<Rightarrow> token list" where
  "index_tokens lib title modPath pkgs =
     nav_tokens modPath @ map Shown (''Package documentation'' @ title @ nat_dec (length pkgs) @ '' packages.'')
     @ concat (map (\<lambda>p. Link (pkgHref p) # map Shown (pi_ImportPath p @ Synopsis lib p)) pkgs) @ foot_tokens"

lemma seen_if: "(P \<Longrightarrow> sees a x) \<Longrightarrow> (\<not> P \<Longrightarrow> sees b y) \<Longrightarrow> sees (if P then a else b) (if P then x else y)"
  by simp

lemma seen_group:
  assumes "sees h (map Shown g)" "\<And>x. sees (f x) (map Shown (sh x))"
  shows "sees (h @ concat (map f xs)) (map Shown (g @ concat (map sh xs)))"
  unfolding map_append by (rule seen_append [OF assms(1) seen_shown_concat [OF assms(2)]])

lemma seen_package:
  "sees (doc_div (dp_Doc d)
      @ (if dp_Consts d \<noteq> [] \<or> dp_Vars d \<noteq> []
         then ''<h2>Constants &amp; Variables</h2>'' @ concat (map (writeValue lib) (dp_Consts d)) @ concat (map (writeValue lib) (dp_Vars d))
         else [])
      @ (if dp_Funcs d \<noteq> [] then ''<h2>Functions</h2>'' @ concat (map (writeFunc lib) (dp_Funcs d)) else [])
      @ (if dp_Types d \<noteq> [] then ''<h2>Types</h2>'' @ concat (map (writeType lib) (dp_Types d)) else []))
    (map Shown (shown_package lib d))"
proof -
  have h: "sees ''<h2>Constants &amp; Variables</h2>'' (map Shown ''Constants & Variables'')"
    "sees ''<h2>Functions</h2>'' (map Shown ''Functions'')" "sees ''<h2>Types</h2>'' (map Shown ''Types'')"
    by (simp_all add: sees_def entity_def)
  have c: "sees (''<h2>Constants &amp; Variables</h2>'' @ concat (map (writeValue lib) (dp_Consts d)) @ concat (map (writeValue lib) (dp_Vars d)))
      (map Shown (''Constants & Variables'' @ concat (map (shown_value lib) (dp_Consts d)) @ concat (map (shown_value lib) (dp_Vars d))))"
    unfolding map_append by (intro seen_append h(1) seen_shown_concat seen_value)
  note f = seen_group [OF h(2), of "writeFunc lib" "shown_func lib" "dp_Funcs d", OF seen_func]
    and t = seen_group [OF h(3), of "writeType lib" "shown_type lib" "dp_Types d", OF seen_type]
  show ?thesis
    unfolding shown_package_def map_append
    by (intro seen_append seen_doc) (use c f t in \<open>auto simp: seen_Nil\<close>)
qed

lemma relUp_quote: "CHR 0x22 \<notin> set (relUp p @ ''index.html'')"
  by (auto simp: relUp_def)

lemma package_page_seen: "sees (package_body lib title modPath p) (package_tokens lib title modPath p)"
proof -
  have st: "silent ''<main class=\"wrap\">''" "silent ''</a></div>''" "silent ''</h1>''" "silent ''</main>''"
    "silent ''<div><span class=\"import\">''" "silent ''</span></div>''"
    by (simp_all add: silent_def sees_def has_suffix_def)
  have crumb: "sees ((''<div class=\"crumb\"><a href=\"'' @ (relUp p @ ''index.html'') @ ''\">'') @ ([CHR 0xE2, CHR 0x80, CHR 0xB9] @ '' '') @ EscapeString title @ ''</a></div>'')
      ([Link (relUp p @ ''index.html'')] @ map Shown ([CHR 0xE2, CHR 0x80, CHR 0xB9] @ '' '') @ map Shown title)"
    by (intro seen_append seen_anchor(2) relUp_quote silent_append(2) [OF st(2)] seen_escape) (simp add: sees_def)
  have head: "sees (''<h1>package '' @ EscapeString (pkg_Name p)
        @ (case pi_Doc p of Some d \<Rightarrow> if dp_Name d = ''main'' then ''<span class=\"cmd\">command</span>'' else [] | None \<Rightarrow> []) @ ''</h1>'')
      (map Shown ''package '' @ map Shown (pkg_Name p)
        @ map Shown (case pi_Doc p of Some d \<Rightarrow> if dp_Name d = ''main'' then ''command'' else [] | None \<Rightarrow> []))"
    by (intro seen_append seen_escape silent_append(2) [OF st(3)]) (simp_all add: sees_def has_suffix_def split: option.splits)
  have imp: "sees (''<div><span class=\"import\">import \"'' @ EscapeString (pi_ImportPath p) @ ''\"</span></div>'')
      (map Shown ''import \"'' @ map Shown (pi_ImportPath p) @ map Shown ''\"'')"
    by (intro seen_append seen_escape) (simp_all add: sees_def has_suffix_def)
  have rest: "sees (case pi_Doc p of
          None \<Rightarrow> []
        | Some d \<Rightarrow> doc_div (dp_Doc d)
            @ (if dp_Consts d \<noteq> [] \<or> dp_Vars d \<noteq> []
               then ''<h2>Constants &amp; Variables</h2>'' @ concat (map (writeValue lib) (dp_Consts d)) @ concat (map (writeValue lib) (dp_Vars d))
               else [])
            @ (if dp_Funcs d \<noteq> [] then ''<h2>Functions</h2>'' @ concat (map (writeFunc lib) (dp_Funcs d)) else [])
            @ (if dp_Types d \<noteq> [] then ''<h2>Types</h2>'' @ concat (map (writeType lib) (dp_Types d)) else []))
      (map Shown (case pi_Doc p of None \<Rightarrow> [] | Some d \<Rightarrow> shown_package lib d))" (is "sees ?rest _")
  proof (cases "pi_Doc p")
    case None
    then show ?thesis by (simp add: seen_Nil)
  next
    case (Some d)
    then show ?thesis using seen_package [of d lib] by simp
  qed
  have "sees (navbar modPath @ (''<main class=\"wrap\">'' @ ((''<div class=\"crumb\"><a href=\"'' @ (relUp p @ ''index.html'') @ ''\">'')
        @ ([CHR 0xE2, CHR 0x80, CHR 0xB9] @ '' '') @ EscapeString title @ ''</a></div>''))
      @ (''<h1>package '' @ EscapeString (pkg_Name p)
        @ (case pi_Doc p of Some d \<Rightarrow> if dp_Name d = ''main'' then ''<span class=\"cmd\">command</span>'' else [] | None \<Rightarrow> []) @ ''</h1>'')
      @ (''<div><span class=\"import\">import \"'' @ EscapeString (pi_ImportPath p) @ ''\"</span></div>'') @ ?rest @ (footer @ ''</main>''))
      (nav_tokens modPath @ ([Link (relUp p @ ''index.html'')] @ map Shown ([CHR 0xE2, CHR 0x80, CHR 0xB9] @ '' '') @ map Shown title)
      @ (map Shown ''package '' @ map Shown (pkg_Name p)
        @ map Shown (case pi_Doc p of Some d \<Rightarrow> if dp_Name d = ''main'' then ''command'' else [] | None \<Rightarrow> []))
      @ (map Shown ''import \"'' @ map Shown (pi_ImportPath p) @ map Shown ''\"'')
      @ map Shown (case pi_Doc p of None \<Rightarrow> [] | Some d \<Rightarrow> shown_package lib d) @ foot_tokens)"
    by (intro seen_append seen_navbar silent_append(1) [OF st(1) crumb] head imp rest silent_append(2) [OF st(4) seen_footer])
  then show ?thesis by (simp add: package_body_def package_tokens_def)
qed

lemma seen_plain: "\<forall>c\<in>set s. c \<noteq> CHR ''<'' \<and> c \<noteq> CHR ''&'' \<Longrightarrow> sees s (map Shown s)"
  by (induction s) (auto simp: sees_def)

lemma seen_card:
  assumes "CHR 0x22 \<notin> set (pkgHref p)"
  shows "sees (index_card lib p) (Link (pkgHref p) # map Shown (pi_ImportPath p @ Synopsis lib p))"
proof -
  let ?i = "EscapeString (pi_ImportPath p)" and ?s = "if Synopsis lib p \<noteq> [] then ''<span class=\"syn\">'' @ EscapeString (Synopsis lib p) @ ''</span>'' else []"
  have st: "silent ''<span class=\"name\">''" "silent ''</span>''" "silent ''<span class=\"syn\">''" and e: "silent ''</a></li>''"
    by (simp_all add: silent_def sees_def has_suffix_def)
  have "sees (''<span class=\"syn\">'' @ EscapeString s @ ''</span>'') (map Shown s)" for s
    by (rule seen_between) (rule st)+
  then have "sees ?s (map Shown (Synopsis lib p))" by (auto simp: seen_Nil)
  moreover have "sees (''<span class=\"name\">'' @ ?i @ ''</span>'') (map Shown (pi_ImportPath p))"
    by (rule seen_between) (rule st)+
  ultimately have "sees ((''<li><a class=\"card\" href=\"'' @ pkgHref p @ ''\">'') @ ((''<span class=\"name\">'' @ ?i @ ''</span>'') @ ?s) @ ''</a></li>'')
      ([Link (pkgHref p)] @ (map Shown (pi_ImportPath p) @ map Shown (Synopsis lib p)))"
    by (intro seen_append silent_append(2) [OF e] seen_anchor(1) [OF assms])
  then show ?thesis by (simp add: index_card_def)
qed

lemma index_page_seen:
  assumes "\<forall>p\<in>set pkgs. CHR 0x22 \<notin> set (pkgHref p)"
  shows "sees (index_body lib title modPath pkgs) (index_tokens lib title modPath pkgs)"
proof -
  have st: "silent ''</h1>''" "silent ''</ul>''" "silent ''</main>''" "silent ''<main class=\"wrap\">''"
    by (simp_all add: silent_def sees_def has_suffix_def)
  have a: "sees (''<div class=\"crumb\">Package documentation</div>'' @ ''<h1>'') (map Shown ''Package documentation'')"
    and s: "silent ''<p class=\"count\">''" "silent (''</p>'' @ ''<ul class=\"pkgs\">'')"
    by (simp_all add: silent_def sees_def has_suffix_def)
  have n: "sees (''<p class=\"count\">'' @ nat_dec (length pkgs) @ '' packages.'' @ ''</p>'' @ ''<ul class=\"pkgs\">'')
      (map Shown (nat_dec (length pkgs)) @ map Shown '' packages.'')"
    by (intro silent_append(1) [OF s(1)] seen_append silent_append(2) [OF s(2)] seen_plain)
      (auto dest: nat_dec_digits simp: is_digit_def)
  have c: "sees (concat (map (index_card lib) pkgs)) (concat (map (\<lambda>p. Link (pkgHref p) # map Shown (pi_ImportPath p @ Synopsis lib p)) pkgs))"
    using assms seen_card by (intro seen_concat) blast
  have "sees (navbar modPath @ (''<main class=\"wrap\">'' @ (''<div class=\"crumb\">Package documentation</div>'' @ ''<h1>'')) @ (EscapeString title @ ''</h1>'')
        @ (''<p class=\"count\">'' @ nat_dec (length pkgs) @ '' packages.'' @ ''</p>'' @ ''<ul class=\"pkgs\">'')
        @ (concat (map (index_card lib) pkgs) @ ''</ul>'') @ (footer @ ''</main>''))
      (nav_tokens modPath @ map Shown ''Package documentation'' @ map Shown title @ (map Shown (nat_dec (length pkgs)) @ map Shown '' packages.'')
        @ concat (map (\<lambda>p. Link (pkgHref p) # map Shown (pi_ImportPath p @ Synopsis lib p)) pkgs) @ foot_tokens)"
    by (intro seen_append seen_navbar silent_append(1) [OF st(4) a] silent_append(2) [OF st(1) seen_escape] n silent_append(2) [OF st(2) c]
        silent_append(2) [OF st(3) seen_footer])
  then show ?thesis by (simp add: index_body_def index_tokens_def)
qed

section \<open>Links\<close>

text \<open>Where a relative link leads from a page in a directory of the site.\<close>

definition link_step :: "string \<Rightarrow> string list \<Rightarrow> string list" where
  "link_step seg dir = (if seg = ''.'' then dir else if seg = ''..'' then butlast dir else dir @ [seg])"

definition follow_link :: "string list \<Rightarrow> string \<Rightarrow> string list" where
  "follow_link dir link = fold link_step (split_on (CHR ''/'') link) dir"

text \<open>Names of directories, of the characters an import path may have; links are written as they are,
  without escaping.\<close>

definition import_char :: "char \<Rightarrow> bool" where
  "import_char c \<longleftrightarrow> is_digit c \<or> c \<in> set ''-._~'' \<or> (let l = lower c in CHR ''a'' \<le> l \<and> l \<le> CHR ''z'')"

definition seg_ok :: "string \<Rightarrow> bool" where
  "seg_ok s \<longleftrightarrow> s \<noteq> [] \<and> (\<forall>c\<in>set s. import_char c)"

lemma not_import_char: "\<not> import_char (CHR ''/'')" "\<not> import_char (CHR 0x22)"
  by (simp_all add: import_char_def is_digit_def lower_def less_eq_char_def)

lemma seg_chars: "seg_ok s \<Longrightarrow> s \<noteq> []" "seg_ok s \<Longrightarrow> CHR ''/'' \<notin> set s" "seg_ok s \<Longrightarrow> CHR 0x22 \<notin> set s"
  unfolding seg_ok_def using not_import_char by blast+

fun tree_names_ok :: "'f source_dir \<Rightarrow> bool" where
  "tree_names_ok (Dir nm ps subs) = (\<forall>d\<in>set subs. seg_ok (dir_name d) \<and> tree_names_ok d)"
| "tree_names_ok (Unread nm e) = True"

definition path_ok :: "string list \<Rightarrow> bool" where
  "path_ok path \<longleftrightarrow> (\<forall>s\<in>set path. seg_ok s \<and> s \<noteq> ''.'' \<and> s \<noteq> ''..'')"

definition pkg_ok :: "'n pkg_info \<Rightarrow> bool" where
  "pkg_ok p \<longleftrightarrow> (\<exists>path. path_ok path \<and> pi_Rel p = join_with ''/'' path)"

lemma parse_rel: "parsePackage lib path modPath ps = Some p \<Longrightarrow> pi_Rel p = join_with ''/'' path"
  unfolding parsePackage_def Let_def by (clarsimp split: option.splits prod.splits if_splits)

lemma visit_ok: "path_ok path \<Longrightarrow> \<forall>p\<in>set pkgs. pkg_ok p \<Longrightarrow> \<forall>p\<in>set (visit lib path modPath ps pkgs). pkg_ok p"
  using parse_rel unfolding visit_def by (fastforce simp: pkg_ok_def split: option.splits)

lemma dots_skipped: "skipped_dir ''.''" "skipped_dir ''..''"
  by (simp_all add: skipped_dir_def)

lemma not_skipped: "seg_ok s \<Longrightarrow> \<not> skipped_dir s \<Longrightarrow> seg_ok s \<and> s \<noteq> ''.'' \<and> s \<noteq> ''..''"
  using dots_skipped by metis

lemma walk_ok:
  fixes d :: "'f source_dir" and ds :: "'f source_dir list"
  shows "path = [] \<or> (\<exists>front. path = front @ [dir_name d] \<and> path_ok front) \<and> seg_ok (dir_name d) \<Longrightarrow> tree_names_ok d \<Longrightarrow>
      \<forall>p\<in>set pkgs. pkg_ok p \<Longrightarrow> walk lib modPath path d pkgs = Inr pkgs' \<Longrightarrow> \<forall>p\<in>set pkgs'. pkg_ok p"
    and "path_ok path \<Longrightarrow> \<forall>d\<in>set ds. seg_ok (dir_name d) \<and> tree_names_ok d \<Longrightarrow>
      \<forall>p\<in>set pkgs. pkg_ok p \<Longrightarrow> walk_list lib modPath path ds pkgs = Inr pkgs' \<Longrightarrow> \<forall>p\<in>set pkgs'. pkg_ok p"
proof (induction lib modPath path d pkgs and lib modPath path ds pkgs arbitrary: pkgs' and pkgs' rule: walk_walk_list.induct)
  case (1 lib modPath path nm ps subs pkgs)
  show ?case
  proof (cases "path \<noteq> [] \<and> skipped_dir nm")
    case True
    with 1 show ?thesis by simp
  next
    case False
    have path: "path_ok path"
    proof (cases "path = []")
      case True
      then show ?thesis by (simp add: path_ok_def)
    next
      case ne: False
      with "1.prems"(1) obtain front where f: "path = front @ [nm]" "path_ok front" by auto
      have "seg_ok nm \<and> nm \<noteq> ''.'' \<and> nm \<noteq> ''..''" by (rule not_skipped) (use "1.prems"(1) False ne in auto)
      with f show ?thesis by (simp add: path_ok_def)
    qed
    have w: "walk_list lib modPath path subs (visit lib path modPath ps pkgs) = Inr pkgs'"
      using "1.prems"(4) by (simp only: walk.simps False if_False)
    have "\<forall>d\<in>set subs. seg_ok (dir_name d) \<and> tree_names_ok d" using "1.prems"(2) by (simp only: tree_names_ok.simps)
    from "1.IH" [OF False path this visit_ok [OF path "1.prems"(3)] w] show ?thesis .
  qed
next
  case (2 lib modPath path nm e pkgs)
  then show ?case by simp
next
  case (3 lib modPath path pkgs)
  then show ?case by simp
next
  case (4 lib modPath path d ds pkgs)
  from "4.prems"(4) obtain pkgs1 where p1: "walk lib modPath (path @ [dir_name d]) d pkgs = Inr pkgs1"
    "walk_list lib modPath path ds pkgs1 = Inr pkgs'" by (auto split: sum.splits)
  have "\<forall>p\<in>set pkgs1. pkg_ok p"
    by (rule "4.IH"(1) [OF _ _ "4.prems"(3) p1(1)]) (use "4.prems" in auto)
  then show ?case by (intro "4.IH"(2) [OF p1(1) "4.prems"(1) _ _ p1(2)]) (use "4.prems" in auto)
qed

lemma slash_count:
  "path \<noteq> [] \<Longrightarrow> \<forall>s\<in>set path. CHR ''/'' \<notin> set s \<Longrightarrow>
     Suc (length (filter (\<lambda>c. c = CHR ''/'') (join_with ''/'' path))) = length path"
proof (induction path)
  case (Cons s path)
  then have "filter (\<lambda>c. c = CHR ''/'') s = []" by (auto simp: filter_empty_conv)
  with Cons show ?case by (cases "path = []") (simp_all add: join_with_Cons)
qed simp

lemma join_nonempty: "path \<noteq> [] \<Longrightarrow> \<forall>s\<in>set path. s \<noteq> [] \<Longrightarrow> join_with sep path \<noteq> []"
  by (cases path; cases "tl path") auto

lemma pkg_dir:
  assumes "pkg_ok p"
  obtains path where "path_ok path" "pi_Rel p = join_with ''/'' path" "page_dir p = ''pkg'' # path"
    "relUp p = concat (replicate (length (page_dir p)) ''../'')"
proof -
  from assms obtain path where path: "path_ok path" "pi_Rel p = join_with ''/'' path" by (auto simp: pkg_ok_def)
  show thesis
  proof (cases "path = []")
    case True
    with path show ?thesis by (intro that [of path]) (simp_all add: page_dir_def relUp_def)
  next
    case False
    have s: "\<forall>s\<in>set path. s \<noteq> []" "\<forall>s\<in>set path. CHR ''/'' \<notin> set s" using path(1) seg_chars by (auto simp: path_ok_def)
    have "page_dir p = ''pkg'' # path"
      using join_nonempty [OF False s(1), of "''/''"] split_join [OF False s(2)] by (simp add: page_dir_def path(2))
    moreover have "relUp p = concat (replicate (Suc (length path)) ''../'')"
      using join_nonempty [OF False s(1), of "''/''"] slash_count [OF False s(2)] by (simp add: relUp_def path(2))
    ultimately show ?thesis using path by (intro that [of path]) simp_all
  qed
qed

lemma href_join:
  "path \<noteq> [] \<Longrightarrow> ''./pkg/'' @ join_with ''/'' path @ ''/index.html'' = join_with ''/'' ([''.'', ''pkg''] @ path @ [''index.html''])"
  by (simp add: join_with_Cons join_snoc)

lemma href_split:
  assumes "path_ok path" "pi_Rel p = join_with ''/'' path"
  shows "split_on (CHR ''/'') (pkgHref p) = [''.'', ''pkg''] @ path @ [''index.html'']" "CHR 0x22 \<notin> set (pkgHref p)"
proof -
  let ?l = "[''.'', ''pkg''] @ path @ [''index.html'']"
  have s: "\<forall>s\<in>set path. s \<noteq> []" "\<forall>s\<in>set ?l. CHR ''/'' \<notin> set s" "\<forall>s\<in>set path. CHR 0x22 \<notin> set s"
    using assms(1) seg_chars by (auto simp: path_ok_def)
  have h: "pkgHref p = join_with ''/'' ?l"
  proof (cases "path = []")
    case True
    then show ?thesis by (simp add: pkgHref_def assms(2))
  next
    case False
    then show ?thesis using join_nonempty [OF False s(1)] href_join [OF False] by (simp add: pkgHref_def assms(2))
  qed
  show "split_on (CHR ''/'') (pkgHref p) = ?l" unfolding h by (rule split_join [OF _ s(2)]) simp
  show "CHR 0x22 \<notin> set (pkgHref p)" unfolding h by (rule join_chars) (use s(3) in auto)
qed

lemma follow_names: "\<forall>s\<in>set path. s \<noteq> ''.'' \<and> s \<noteq> ''..'' \<Longrightarrow> fold link_step path dir = dir @ path"
  by (induction path arbitrary: dir) (simp_all add: link_step_def)

lemma follow_up_len: "length dir = n \<Longrightarrow> fold link_step (replicate n ''..'') dir = []"
proof (induction n arbitrary: dir)
  case (Suc n)
  then have "fold link_step (replicate n ''..'') (butlast dir) = []" by (intro Suc.IH) simp
  moreover have "link_step ''..'' dir = butlast dir" by (simp add: link_step_def)
  ultimately show ?case by (simp del: fold_replicate)
qed simp

lemma follow_up: "fold link_step (replicate (length dir) ''..'') dir = []"
  by (rule follow_up_len) (rule refl)

lemma split_up: "split_on (CHR ''/'') (concat (replicate n ''../'') @ ''index.html'') = replicate n ''..'' @ [''index.html'']"
proof (induction n)
  case (Suc n)
  then show ?case using split_on_append [of "CHR ''/''" "''..''"] by simp
qed simp

text \<open>The link of the index leads to the page, and the link of the page back.\<close>

lemma link_there:
  assumes "pkg_ok p"
  shows "follow_link [] (pkgHref p) = page_dir p @ [''index.html'']"
proof -
  from pkg_dir [OF assms] obtain path where path: "path_ok path" "pi_Rel p = join_with ''/'' path" "page_dir p = ''pkg'' # path" .
  have "fold link_step (path @ [''index.html'']) [''pkg''] = [''pkg''] @ path @ [''index.html'']"
    using path(1) by (intro follow_names) (auto simp: path_ok_def)
  then show ?thesis by (simp add: follow_link_def href_split [OF path(1,2)] path(3) link_step_def)
qed

lemma link_back:
  assumes "pkg_ok p"
  shows "follow_link (page_dir p) (relUp p @ ''index.html'') = [''index.html'']"
proof -
  from pkg_dir [OF assms] obtain path where "relUp p = concat (replicate (length (page_dir p)) ''../'')" .
  then show ?thesis by (simp only: follow_link_def split_up fold_append comp_def follow_up) (simp add: link_step_def)
qed

section \<open>The site\<close>

lemma found_ok: "tree_names_ok tree \<Longrightarrow> collectPackages lib modPath tree = Inr found \<Longrightarrow> \<forall>p\<in>set found. pkg_ok p"
  unfolding collectPackages_def by (rule walk_ok(1) [of "[]" tree "[]"]) simp_all

definition package_file :: "('f, 'n) doc_lib \<Rightarrow> string \<Rightarrow> string \<Rightarrow> string \<Rightarrow> string \<Rightarrow> string \<Rightarrow> 'n pkg_info \<Rightarrow> string list \<times> string" where
  "package_file lib style script out title modPath p =
     (out # page_dir p @ [''index.html''],
      page style script (''package '' @ pkg_Name p @ '' '' @ [CHR 0xC2, CHR 0xB7] @ '' '' @ title) (package_body lib title modPath p))"

lemma run_pages:
  assumes "\<forall>path. dl_mkdir lib path = None \<and> dl_write lib path = None"
  shows "run_all (map (writePackage lib style script out title modPath) pkgs @ [(ws, None)])
     = (map (package_file lib style script out title modPath) pkgs @ ws, None)"
  using assms
  by (induction pkgs) (simp_all add: then_run_def writePackage_def make_dir_def write_file_def package_file_def)

text \<open>
  C37: The generated site is complete and its links lead somewhere. Without errors of the file
  system the program writes the index, one page for each package found, in the order of their import
  paths, and \<open>.nojekyll\<close>, nothing else. What a reader of the index sees is the title, the number of
  packages and for each its link, its path and its synopsis, and what a reader of a page sees is the
  documentation as it is, whatever characters it has. The link of the index to a package leads to the
  page written for it, and the link on that page leads back.
\<close>

theorem doc_site:
  fixes lib :: "('f, 'n) doc_lib"
  assumes "modulePath ''go.mod'' gomod = Inr modPath" and "collectPackages lib modPath tree = Inr found" and "tree_names_ok tree"
    and "gf_json fl = []" and "\<forall>path. dl_mkdir lib path = None \<and> dl_write lib path = None"
  defines "pkgs \<equiv> sort_key pi_ImportPath found" and "title \<equiv> (if gf_title fl = [] then modPath else gf_title fl)"
    and "out \<equiv> gf_out fl"
  shows "gendocs lib style script fl gomod tree =
      (([out, ''index.html''], page style script title (index_body lib title modPath pkgs))
         # map (package_file lib style script out title modPath) pkgs @ [([out, ''.nojekyll''], [])], None)
    \<and> sees (index_body lib title modPath pkgs) (index_tokens lib title modPath pkgs)
    \<and> (\<forall>p\<in>set pkgs. sees (package_body lib title modPath p) (package_tokens lib title modPath p)
        \<and> follow_link [] (pkgHref p) = page_dir p @ [''index.html'']
        \<and> follow_link (page_dir p) (relUp p @ ''index.html'') = [''index.html''])"
proof (intro conjI ballI)
  have good: "\<forall>p\<in>set pkgs. pkg_ok p" using found_ok [OF assms(3,2)] by (simp add: pkgs_def)
  show "gendocs lib style script fl gomod tree =
      (([out, ''index.html''], page style script title (index_body lib title modPath pkgs))
         # map (package_file lib style script out title modPath) pkgs @ [([out, ''.nojekyll''], [])], None)"
    using assms(1,2,4,5) run_pages [OF assms(5)]
    by (simp add: gendocs_def Let_def pkgs_def [symmetric] title_def [symmetric] out_def [symmetric] then_run_def make_dir_def writeIndex_def write_file_def)
  show "sees (index_body lib title modPath pkgs) (index_tokens lib title modPath pkgs)"
    using good href_split(2) by (intro index_page_seen) (auto simp: pkg_ok_def)
  fix p assume "p \<in> set pkgs"
  with good have "pkg_ok p" by blast
  then show "follow_link [] (pkgHref p) = page_dir p @ [''index.html'']"
    "follow_link (page_dir p) (relUp p @ ''index.html'') = [''index.html'']" by (rule link_there, rule link_back)
  show "sees (package_body lib title modPath p) (package_tokens lib title modPath p)" by (rule package_page_seen)
qed

text \<open>A module with a package in its root and one below, and a directory that is skipped.\<close>

definition demo_package :: "string \<Rightarrow> unit doc_package" where
  "demo_package nm = \<lparr>dp_Doc = ''a < b & c'', dp_Name = nm, dp_Consts = [], dp_Vars = [],
     dp_Funcs = [\<lparr>df_Name = ''F'', df_Recv = [], df_Decl = (), df_Doc = [], df_Examples = []\<rparr>], dp_Types = [], dp_Examples = []\<rparr>"

definition demo_doc_lib :: "(unit, unit) doc_lib" where
  "demo_doc_lib = \<lparr>dl_format = (\<lambda>_. Some ''x''), dl_print = (\<lambda>_. Some ''func F()''), dl_verb = (\<lambda>_. []), dl_synopsis = (\<lambda>s. s),
     dl_newFromFiles = (\<lambda>fs path. Some (demo_package ''p'')), dl_new = (\<lambda>fs path. demo_package ''p''), dl_order = (\<lambda>ps. ps),
     dl_json = (\<lambda>_. Inr []), dl_now = [], dl_dir = (\<lambda>_. []), dl_mkdir = (\<lambda>_. None), dl_write = (\<lambda>_. None)\<rparr>"

definition demo_tree :: "unit source_dir" where
  "demo_tree = Dir ''.'' (Some [(''p'', [()])]) [Dir ''docs'' (Some [(''main'', [()])]) [], Dir ''sub'' (Some [(''p'', [()])]) []]"

definition demo_found :: "unit pkg_info list" where
  "demo_found = [\<lparr>pi_ImportPath = ''m/x'', pi_Rel = [], pi_Doc = Some (demo_package ''p'')\<rparr>,
     \<lparr>pi_ImportPath = ''m/x/sub'', pi_Rel = ''sub'', pi_Doc = Some (demo_package ''p'')\<rparr>]"

lemma demo_collected: "collectPackages demo_doc_lib ''m/x'' demo_tree = Inr demo_found"
  by (simp add: collectPackages_def demo_tree_def skipped_dir_def visit_def parsePackage_def has_suffix_def demo_doc_lib_def demo_found_def Let_def)

lemma doc_site_witness:
  "gendocs demo_doc_lib [] [] \<lparr>gf_out = ''_site'', gf_json = [], gf_title = [], gf_outSet = False\<rparr> (Inr ''module m/x'') demo_tree =
      (([''_site'', ''index.html''], page [] [] ''m/x'' (index_body demo_doc_lib ''m/x'' ''m/x'' (sort_key pi_ImportPath demo_found)))
         # map (package_file demo_doc_lib [] [] ''_site'' ''m/x'' ''m/x'') (sort_key pi_ImportPath demo_found) @ [([''_site'', ''.nojekyll''], [])], None)"
proof -
  let ?fl = "\<lparr>gf_out = ''_site'', gf_json = [], gf_title = [], gf_outSet = False\<rparr>"
  have "modulePath ''go.mod'' (Inr ''module m/x'') = Inr ''m/x''"
    by (simp add: modulePath_def trim_both_def trim_left_def trim_right_def is_space_def)
  moreover have "tree_names_ok demo_tree" by (simp add: demo_tree_def seg_ok_def import_char_def lower_def less_eq_char_def)
  moreover have "gf_json ?fl = []" "\<forall>path. dl_mkdir demo_doc_lib path = None \<and> dl_write demo_doc_lib path = None" by (simp_all add: demo_doc_lib_def)
  ultimately show ?thesis using doc_site [of _ "''m/x''" demo_doc_lib demo_tree demo_found ?fl "[]" "[]"] demo_collected by simp
qed

end
