(* ===== verification/Spec2Isabelle.thy ===== *)
theory Spec2Isabelle
  imports Prelude GoStd Runes Float64 McpLog McpError TemplateRegex UriTemplate UriFastmcp Json Base64 Content Schema Registry Dispatch Session Transport Middleware Auth Mount JsonSchema SchemaRefs Client Proxy OpenApi OpenApiServe InMemory Contrib Elicit Sampling Pipe DocGen
begin

text \<open>
  A model of the Go port of FastMCP: a Model Context Protocol server and client with their
  transports, and the packages around them. This header says what the program is made of, which
  theory models which file, what is proved, what is assumed of code outside \<open>src/\<close>, and what is
  left out.

  The program.
  A \<open>Server\<close> (\<open>server.go\<close>) holds registries of tools, resources, resource templates and prompts.
  A JSON-RPC message reaches it through a transport (\<open>http.go\<close>, \<open>stdio.go\<close>); over stdio and the event
  stream a session (\<open>session.go\<close>) stands between, which runs each request on its own goroutine and
  carries requests of the server to the client. \<open>dispatch.go\<close> routes the message to the handler of
  its method, which looks the component up and runs the user's function. Around this core:
  middleware wraps the dispatcher, \<open>auth\<close> guards the HTTP handler, \<open>mount\<close> registers the components
  of one server on another, \<open>proxy\<close> and \<open>openapi\<close> build a server out of a remote server or of an
  OpenAPI document, \<open>client\<close> is the other side of the protocol, \<open>transport\<close> joins a client to
  a server in one process, \<open>contrib\<close> has helpers over the client, \<open>elicit\<close> asks the user of a client
  for values, and \<open>uritemplate\<close>, \<open>jsonschema\<close>, \<open>mcperror\<close> and \<open>mcplog\<close> are the libraries beneath.

  Theories and code, in the order they build on each other.

  \<^item> Prelude, GoStd: lists, association lists, dynamically typed values (\<open>gval\<close>) and the locales;
    what the code uses of \<open>strings\<close>, \<open>strconv\<close>, \<open>net/url\<close> and \<open>unicode\<close>.
  \<^item> Runes, Float64: the decoding of a string into runes and back, with the invalid bytes read one by
    one; rounding to the nearest \<open>float64\<close>, ties to even, and past the largest one.
  \<^item> McpLog: \<open>mcplog/mcplog.go\<close>. Levels are \<open>8 word\<close> values with a linear order, as the code's \<open>int8\<close>.
  \<^item> McpError: \<open>mcperror/mcperror.go\<close>, the tree of wrapped and joined errors and the search in it.
  \<^item> TemplateRegex, UriTemplate, UriFastmcp: \<open>uritemplate/\<close>. The regular expressions built from
    templates with their leftmost-first meaning, RFC 6570 templates (parser, expansion, matching) and
    FastMCP's own.
  \<^item> Json, Base64, Content: decoding of JSON trees into structs, \<open>encoding/base64\<close>, and \<open>content.go\<close>,
    \<open>content_extra.go\<close>, \<open>content_media.go\<close>.
  \<^item> Schema, Registry: \<open>schema.go\<close>, \<open>tool.go\<close>; \<open>server.go\<close>, \<open>resource.go\<close>, \<open>prompt.go\<close>, \<open>completion.go\<close>.
    The server is the record \<open>server\<close>, each registration a function on it.
  \<^item> Dispatch: \<open>jsonrpc.go\<close>, \<open>dispatch.go\<close>; \<open>Dispatch\<close> maps a request, the connection and the state of
    the user's handlers to a reply and the new state.
  \<^item> Session, Sampling: \<open>session.go\<close>, \<open>context.go\<close> and the broadcasts of \<open>server.go\<close>. The session is a step
    relation (\<open>sess_step\<close>) whose labels are the lines read and the goroutines' moves.
  \<^item> Transport: \<open>http.go\<close> and \<open>stdio.go\<close>.
  \<^item> Middleware: \<open>middleware/\<close>. A handler returns or panics; the world carries the buckets, counters,
    clock readings and log.
  \<^item> Auth: \<open>auth/\<close>. Static and signed tokens, the guard, the challenge and the metadata document.
  \<^item> Mount: \<open>mount/\<close>. The delegate speaks JSON-RPC to the modelled HTTP handler of the child.
  \<^item> JsonSchema, SchemaRefs: \<open>jsonschema/\<close>. The validator, the builder, the transformations.
  \<^item> Client: \<open>client/\<close>. The calls over an abstract transport, the HTTP transport, and the stdio
    transport as a step relation (\<open>client_step\<close>).
  \<^item> Proxy, OpenApi, OpenApiServe: \<open>proxy/\<close> and \<open>openapi/\<close>.
  \<^item> InMemory, Pipe: \<open>transport/transport.go\<close>. The step relations of Client and Session side by side,
    each reading in order what the other wrote; the linked streams.
  \<^item> Contrib: \<open>contrib/\<close>. Bulk calls (the parallel ones are the step relation \<open>fan_step\<close> over the
    goroutines' control points), retries, timing, groups of tools, the bulk meta-tools.
  \<^item> Elicit: \<open>elicit/\<close>.
  \<^item> DocGen: \<open>docs/gen/main.go\<close>. The documentation generator from the tree of directories to the files
    of the site; what the Go parser and \<open>go/doc\<close> return is an argument.

  Interfaces.
  The contracts that several components share are locales of Prelude and Auth, each interpreted on
  the code's own definitions where these stand: \<open>codec\<close> (an encoder read back by its decoder) on
  base64, percent encoding, level names, URL path escaping, the answer to sampling and the list
  of roots; \<open>template_matcher\<close> (what a matcher reads, its expander writes) on the resource
  templates; \<open>keyed_registry\<close> (an order list and a map kept in step by insertion) on tools,
  resources and prompts; \<open>token_verifier\<close> (no token, no entry; an accepted token is in its validity
  window) on the static and on the signed tokens.

  What is shown.

  \<^item> Dispatch and connections: a message gets a reply exactly when it should, with its own
    identifier (\<open>dispatch_replies\<close>); each method does what its registry entry says
    (\<open>tools_call_correct\<close>, \<open>resources_read_correct\<close>); in every interleaving replies and running requests
    are together the requests read (\<open>session_replies_once\<close>), and answers find their waiter
    (\<open>session_correlation\<close>, \<open>client_transport_safe\<close>); the reader that can be blocked is
    \<open>read_loop_can_block\<close>. Broadcasts, the end of \<open>ServeStdio\<close>.
  \<^item> Client and server together: \<open>client_calls_server\<close> over HTTP, \<open>in_memory_calls\<close> and
    \<open>in_memory_requests\<close> over the bridge for every schedule of both ends, \<open>connect_handshake\<close> for
    what \<open>Connect\<close> returns, \<open>sampling_end_to_end\<close> for what a handler asks of the client,
    \<open>mounted_tool_passthrough\<close> and \<open>proxy_tool_passthrough\<close> through a second server.
  \<^item> Security: \<open>jwt_accepts_exactly\<close>, \<open>protect_guard\<close>, \<open>challenge_roundtrip\<close>, \<open>error_masking\<close>,
    \<open>openapi_path_safe\<close>, \<open>rate_limit_bound\<close>.
  \<^item> Templates: \<open>match_expand_roundtrip\<close>, \<open>fastmcp_roundtrip\<close>, \<open>expand_follows_rfc\<close> (a refinement of the
    algorithm of RFC 6570), \<open>parse_print_roundtrip\<close>.
  \<^item> Schemas: the validator decides a declarative \<open>valid\<close> (\<open>validate_correct\<close>) and locates its errors,
    reflected and elicitation schemas accept exactly their values (\<open>reflected_schema_exact\<close>,
    \<open>elicit_schema_decides\<close>, \<open>elicit_struct\<close>), the transformations return, leave no remote reference and
    keep the verdicts (\<open>dereference_safe\<close>, \<open>compress_returns\<close>, \<open>compress_same_values\<close>).
  \<^item> Helpers: \<open>bulk_outcome\<close>, \<open>bulk_fan_out\<close>, \<open>retry_bounded\<close>, \<open>elicit_string\<close>, \<open>openapi_tool_forwards\<close>,
    \<open>resolve_ends\<close>. The generated documentation: \<open>doc_site\<close> (the files written, their links, and that
    every text is seen as it is), \<open>doc_examples\<close>, \<open>json_no_null\<close>.

  The lemma groups below each of them are the invariants of the records (\<open>srv_wf\<close>-style facts in the
  collection \<open>wf_rules\<close>), preservation along the step relations by rule induction, what each
  operation leaves alone (\<open>frame_rules\<close>), and the round trips of every JSON form.

  Loops, bounds and fuel.
  Every function is total. Recursion over a template, a schema or an OpenAPI document is structural
  or has a measure; references in OpenAPI documents (\<open>resolve_ref\<close>) go through a set of names that grows.
  The search for a cycle among definitions has as much fuel as there are names not yet seen, and
  \<open>reaches_fuel\<close> shows that this never runs out. The search for the reachable definitions is a
  \<open>while_option\<close>, and \<open>compress_returns\<close> rests on its returning. The retry loop counts its attempts
  down. A parallel batch is a relation; \<open>bulk_fan_out\<close> shows that each of its states reaches an end.
  Integers of the code that cannot overflow in use (identifiers, counters, durations) are
  unbounded here; the one place where the width matters, the \<open>int8\<close> level, is a word. The
  validator divides and converts \<open>float64\<close> values as the processor does (Float64); elsewhere, in
  the token buckets, the growth of a delay and the priority of an annotation, a \<open>float64\<close> is an exact
  rational.

  Parameters, for code that is not under \<open>src/\<close>.
  Text of JSON, numbers and errors, regular expressions of users, cryptography, URL parsing, the HTTP
  exchange, the clock, the context and sleeping are arguments, grouped in the records \<open>json_lib\<close>,
  \<open>jwt_lib\<close>, \<open>fmt_lib\<close>, \<open>net_lib\<close>, \<open>run_env\<close> or plain functions (\<open>marshal\<close>, \<open>parse\<close>, \<open>post\<close>, \<open>idt\<close>, \<open>vis\<close>).
  Where a proof needs their documented behaviour it is a named hypothesis (\<open>json_ok\<close>: a value that
  marshals is read back), and the witness beside the theorem has an instance of it. JSON itself is
  modelled from the tree on: decoding into structs, with case-insensitive names and null, is
  \<open>Json\<close>'s. User handlers act on a state \<open>'w\<close>; a mutex makes an operation one step; a pointer
  that is shared is threaded state.

  Conventions. Strings and byte slices are lists of characters, one per byte; lower and upper case
  are those of ASCII. A map whose order can be seen is an association list, otherwise a partial
  function; a Go map ranged over in any order is a list in the order visited, and the theorems hold
  for each of them. Templates cut values by runes, the patterns they are matched with read bytes, where
  Go's read runes. Errors are values of a sum or an option, panics are outcomes, deep copies are the
  tree itself, a nil schema is \<open>None\<close> to the validator and the empty map to the transformations.

  Where the model is simpler than the code.
  \<open>json_ok\<close> asks for more than \<open>encoding/json\<close> gives: strings of invalid UTF-8, which it replaces, and
  integers beyond \<open>2 ^ 53\<close> decoded into an \<open>any\<close>, which it rounds, are outside what the theorems under it
  speak of (\<open>openapi_tool_forwards\<close> has the condition on integers as \<open>any_exact\<close>). A request of the
  server takes its identifier, its channel and its line in one step, and a job its dispatch and its reply: that
  a value does not encode or a write fails in between is left out. A call of a tool in a parallel
  batch is one step that ends. A nil pointer inside an interface is the nil value. The guard is the
  handler itself, without the cleaning of paths that \<open>http.ServeMux\<close> does before it; the error
  of the scanner at the end of \<open>ServeStdio\<close> is not returned; a delay of \<open>contrib\<close> neither overflows nor
  is rounded.

  Not modelled.
  Examples and tests use the code; \<open>doc.go\<close> is a comment. In the modelled packages: processes and sockets
  (\<open>NewCommand\<close>, \<open>ListenAndServe\<close>, the closing of streams), the text handler behind
  \<open>NewLoggingWriter\<close>, the mutation of a sub-schema through a shared map after it was added,
  recursive Go types (on which the code does not return), writes that fail in a session, and lines beyond the
  scanner's limit in process. A context is present where a theorem speaks of it (a cancelled
  waiter, a retry, a batch) and otherwise left out.
\<close>

end
